(* ===== verification/Prelude.thy ===== *)
theory Prelude
  imports Main "HOL-Library.Char_ord" "HOL-Library.List_Lexorder" "HOL-Library.Sublist"
    "HOL-Library.AList" "HOL-Library.Multiset"
begin

text \<open>
  What the component theories share: Go's strings as byte lists with the operations of the
  packages \<open>strings\<close>, \<open>strconv\<close> and \<open>unicode/utf8\<close> that the server uses, instants and
  durations, slices sorted by a key, and maps enumerated in key order.

  A Go string is a sequence of bytes, and so is the library's \<^typ>\<open>string\<close>: one
  \<^typ>\<open>char\<close> per byte. Go's \<open>len(s)\<close> is \<open>length s\<close>, and Go's comparison of
  strings is the lexicographic order that \<open>Char_ord\<close> and \<open>List_Lexorder\<close> give.
  Instants are nanoseconds since Go's zero time, so \<open>t.IsZero()\<close> is \<open>t = 0\<close>.
\<close>

named_theorems go_simps
named_theorems trim_simps

type_synonym gotime = int

abbreviation second :: int where "second \<equiv> 1000000000"
abbreviation minute :: int where "minute \<equiv> 60 * second"

text \<open>Go's 64-bit \<open>int\<close> and \<open>int64\<close>: arithmetic that can wrap is wrapped.\<close>

definition wrap64 :: "int \<Rightarrow> int" where
  "wrap64 n = (n + 2 ^ 63) mod 2 ^ 64 - 2 ^ 63"

lemma wrap64_id [simp]: "- (2 ^ 63) \<le> n \<Longrightarrow> n < 2 ^ 63 \<Longrightarrow> wrap64 n = n"
  by (simp add: wrap64_def)


lemma wrap64_Suc_neq: "wrap64 (v + 1) \<noteq> v"
proof
  assume "wrap64 (v + 1) = v"
  then have "(v + 1 + 2 ^ 63) - (v + 1 + 2 ^ 63) mod 2 ^ 64 = 1" by (simp add: wrap64_def)
  moreover have "(2 ^ 64 :: int) dvd (v + 1 + 2 ^ 63) - (v + 1 + 2 ^ 63) mod 2 ^ 64"
    by (rule dvd_minus_mod)
  ultimately have "(2 ^ 64 :: int) dvd 1" by metis
  then show False by simp
qed


section \<open>Byte classes\<close>

definition byte_of :: "char \<Rightarrow> nat" where
  "byte_of c = of_char c"

definition is_digit :: "char \<Rightarrow> bool" where
  "is_digit c \<longleftrightarrow> CHR ''0'' \<le> c \<and> c \<le> CHR ''9''"

definition is_lower :: "char \<Rightarrow> bool" where
  "is_lower c \<longleftrightarrow> CHR ''a'' \<le> c \<and> c \<le> CHR ''z''"

definition is_upper :: "char \<Rightarrow> bool" where
  "is_upper c \<longleftrightarrow> CHR ''A'' \<le> c \<and> c \<le> CHR ''Z''"

lemma byte_of_bound [simp]: "byte_of c < 256"
  by (simp add: byte_of_def)

lemma char_of_byte_of [simp]: "char_of (byte_of c) = c"
  by (simp add: byte_of_def)

lemma byte_of_char_of: "n < 256 \<Longrightarrow> byte_of (char_of n) = n"
  by (simp add: byte_of_def of_char_of)

lemma byte_of_inj [simp]: "byte_of c = byte_of d \<longleftrightarrow> c = d"
  by (simp add: byte_of_def)

lemma byte_of_le: "c \<le> d \<longleftrightarrow> byte_of c \<le> byte_of d"
  by (simp add: byte_of_def less_eq_char_def)


section \<open>Splitting and joining\<close>

text \<open>\<open>strings.Split(s, sep)\<close> with a one-byte separator: never an empty list.\<close>

fun split_on :: "char \<Rightarrow> string \<Rightarrow> string list" where
  "split_on c [] = [[]]"
| "split_on c (x # xs) =
     (if x = c then [] # split_on c xs
      else (case split_on c xs of [] \<Rightarrow> [[x]] | y # ys \<Rightarrow> (x # y) # ys))"

text \<open>\<open>strings.Join(xs, sep)\<close>.\<close>

fun join :: "string \<Rightarrow> string list \<Rightarrow> string" where
  "join sep [] = []"
| "join sep [x] = x"
| "join sep (x # y # ys) = x @ sep @ join sep (y # ys)"

lemma split_on_nonempty [simp]: "split_on c s \<noteq> []"
  by (cases s) (auto split: list.splits)

lemma join_split_on: "join [c] (split_on c s) = s"
proof (induction s)
  case Nil
  then show ?case by simp
next
  case (Cons x xs)
  obtain y ys where "split_on c xs = y # ys"
    by (cases "split_on c xs") auto
  with Cons show ?case by (cases ys) auto
qed

lemma split_on_no_sep: "p \<in> set (split_on c s) \<Longrightarrow> c \<notin> set p"
  by (induction s arbitrary: p) (auto split: list.splits if_splits)

lemma split_on_absent: "c \<notin> set s \<Longrightarrow> split_on c s = [s]"
  by (induction s) auto

lemma split_on_append: "c \<notin> set s \<Longrightarrow> split_on c (s @ c # t) = s # split_on c t"
  by (induction s) auto

lemma split_on_join:
  "xs \<noteq> [] \<Longrightarrow> (\<And>x. x \<in> set xs \<Longrightarrow> c \<notin> set x) \<Longrightarrow> split_on c (join [c] xs) = xs"
proof (induction "[c]" xs rule: join.induct)
  case (2 x)
  then show ?case by (simp add: split_on_absent)
next
  case (3 x y ys)
  then show ?case by (simp add: split_on_append)
qed simp

lemma set_split_on: "p \<in> set (split_on c s) \<Longrightarrow> set p \<subseteq> set s"
  by (induction s arbitrary: p) (auto split: list.splits if_splits, blast+)


section \<open>Prefixes, suffixes, search\<close>

text \<open>\<open>strings.TrimPrefix\<close>, \<open>strings.TrimSuffix\<close>.\<close>

definition trim_prefix :: "string \<Rightarrow> string \<Rightarrow> string" where
  "trim_prefix s p = (if prefix p s then drop (length p) s else s)"

definition trim_suffix :: "string \<Rightarrow> string \<Rightarrow> string" where
  "trim_suffix s p = (if suffix p s then take (length s - length p) s else s)"

lemma trim_suffix_append [simp]: "trim_suffix (s @ p) p = s"
  by (simp add: trim_suffix_def suffix_def)

lemma trim_prefix_append [simp]: "trim_prefix (p @ s) p = s"
  by (simp add: trim_prefix_def)

text \<open>\<open>strings.Index(s, p)\<close> (\<open>None\<close> for \<open>-1\<close>) and \<open>strings.Contains\<close>.\<close>

fun index_of :: "string \<Rightarrow> string \<Rightarrow> nat option" where
  "index_of p [] = (if p = [] then Some 0 else None)"
| "index_of p (x # xs) =
     (if prefix p (x # xs) then Some 0 else map_option Suc (index_of p xs))"

definition contains :: "string \<Rightarrow> string \<Rightarrow> bool" where
  "contains s p \<longleftrightarrow> index_of p s \<noteq> None"

lemma contains_sublist: "contains s p \<longleftrightarrow> sublist p s"
proof (induction s)
  case Nil
  then show ?case by (auto simp: contains_def)
next
  case (Cons x s)
  then show ?case by (auto simp: contains_def sublist_Cons_right)
qed

text \<open>\<open>strings.ReplaceAll(s, old, new)\<close> with a one-byte \<open>old\<close>.\<close>

definition replace_byte :: "char \<Rightarrow> string \<Rightarrow> string \<Rightarrow> string" where
  "replace_byte c new s = concat (map (\<lambda>x. if x = c then new else [x]) s)"

text \<open>\<open>strings.LastIndex(s, c)\<close> of one byte, as the text before and after it.\<close>

definition cut_last :: "char \<Rightarrow> string \<Rightarrow> (string \<times> string) option" where
  "cut_last c s =
     (if c \<in> set s
      then Some (rev (tl (dropWhile (\<lambda>x. x \<noteq> c) (rev s))), rev (takeWhile (\<lambda>x. x \<noteq> c) (rev s)))
      else None)"

lemma cut_last_Some:
  assumes "cut_last c s = Some (a, b)"
  shows "s = a @ c # b" and "c \<notin> set b"
proof -
  have eq: "rev s = takeWhile (\<lambda>x. x \<noteq> c) (rev s) @ dropWhile (\<lambda>x. x \<noteq> c) (rev s)"
    by simp
  from assms have c: "c \<in> set s"
    and a: "a = rev (tl (dropWhile (\<lambda>x. x \<noteq> c) (rev s)))"
    and b: "b = rev (takeWhile (\<lambda>x. x \<noteq> c) (rev s))"
    by (auto simp: cut_last_def split: if_splits)
  from c have "dropWhile (\<lambda>x. x \<noteq> c) (rev s) \<noteq> []"
    by (auto simp: dropWhile_eq_Nil_conv)
  then obtain t where t: "dropWhile (\<lambda>x. x \<noteq> c) (rev s) = c # t"
    using hd_dropWhile [of "\<lambda>x. x \<noteq> c" "rev s"] by (cases "dropWhile (\<lambda>x. x \<noteq> c) (rev s)") auto
  with eq have "rev s = rev b @ c # rev a"
    by (simp add: a b)
  then show "s = a @ c # b"
    by (metis append.assoc append_Cons append_Nil rev.simps(2) rev_append rev_rev_ident)
  show "c \<notin> set b"
    by (auto simp: b dest: set_takeWhileD)
qed

lemma cut_last_append: "c \<notin> set b \<Longrightarrow> cut_last c (a @ c # b) = Some (a, b)"
proof -
  assume "c \<notin> set b"
  then have "takeWhile (\<lambda>x. x \<noteq> c) (rev b @ c # rev a) = rev b"
    and "dropWhile (\<lambda>x. x \<noteq> c) (rev b @ c # rev a) = c # rev a"
    by (auto simp: takeWhile_append dropWhile_append)
  then show ?thesis by (simp add: cut_last_def)
qed

lemma cut_last_None: "cut_last c s = None \<longleftrightarrow> c \<notin> set s"
  by (simp add: cut_last_def)


section \<open>White space\<close>

text \<open>
  The UTF-8 forms of the code points that \<open>unicode.IsSpace\<close> accepts. A form starts with a
  lead byte, which no other code point contains, so looking for the forms byte by byte at
  either end of a string finds what decoding it would.
\<close>

definition space_seqs :: "string list" where
  "space_seqs =
     [[CHR 0x20], [CHR 0x0A], [CHR 0x09], [CHR 0x0D], [CHR 0x0B], [CHR 0x0C],
      [CHR 0xC2, CHR 0x85], [CHR 0xC2, CHR 0xA0], [CHR 0xE1, CHR 0x9A, CHR 0x80],
      [CHR 0xE2, CHR 0x80, CHR 0x80], [CHR 0xE2, CHR 0x80, CHR 0x81],
      [CHR 0xE2, CHR 0x80, CHR 0x82], [CHR 0xE2, CHR 0x80, CHR 0x83],
      [CHR 0xE2, CHR 0x80, CHR 0x84], [CHR 0xE2, CHR 0x80, CHR 0x85],
      [CHR 0xE2, CHR 0x80, CHR 0x86], [CHR 0xE2, CHR 0x80, CHR 0x87],
      [CHR 0xE2, CHR 0x80, CHR 0x88], [CHR 0xE2, CHR 0x80, CHR 0x89],
      [CHR 0xE2, CHR 0x80, CHR 0x8A], [CHR 0xE2, CHR 0x80, CHR 0xA8],
      [CHR 0xE2, CHR 0x80, CHR 0xA9], [CHR 0xE2, CHR 0x80, CHR 0xAF],
      [CHR 0xE2, CHR 0x81, CHR 0x9F], [CHR 0xE3, CHR 0x80, CHR 0x80]]"

function strip_front :: "string list \<Rightarrow> string \<Rightarrow> string" where
  "strip_front ws s =
     (case find (\<lambda>w. w \<noteq> [] \<and> prefix w s) ws of
        None \<Rightarrow> s
      | Some w \<Rightarrow> strip_front ws (drop (length w) s))"
  by pat_completeness auto
termination
  by (relation "measure (\<lambda>(ws, s). length s)")
     (auto simp: find_Some_iff prefix_def)

declare strip_front.simps [simp del]

text \<open>\<open>strings.TrimSpace\<close>.\<close>

definition trim_space :: "string \<Rightarrow> string" where
  "trim_space s =
     rev (strip_front (map rev space_seqs) (rev (strip_front space_seqs s)))"

lemma strip_front_suffix: "suffix (strip_front ws s) s"
proof (induction ws s rule: strip_front.induct)
  case (1 ws s)
  show ?case
  proof (cases "find (\<lambda>w. w \<noteq> [] \<and> prefix w s) ws")
    case None
    then show ?thesis by (simp add: strip_front.simps [of ws s])
  next
    case (Some w)
    with 1 have "suffix (strip_front ws (drop (length w) s)) (drop (length w) s)"
      by simp
    with Some show ?thesis
      by (simp add: strip_front.simps [of ws s] suffix_drop suffix_order.trans)
  qed
qed

lemma strip_front_done: "find (\<lambda>w. w \<noteq> [] \<and> prefix w (strip_front ws s)) ws = None"
proof (induction ws s rule: strip_front.induct)
  case (1 ws s)
  show ?case
    using 1 by (cases "find (\<lambda>w. w \<noteq> [] \<and> prefix w s) ws")
       (simp_all add: strip_front.simps [of ws s])
qed

lemma strip_front_id: "(\<And>w. w \<in> set ws \<Longrightarrow> w \<noteq> [] \<Longrightarrow> \<not> prefix w s) \<Longrightarrow> strip_front ws s = s"
proof -
  assume "\<And>w. w \<in> set ws \<Longrightarrow> w \<noteq> [] \<Longrightarrow> \<not> prefix w s"
  then have "find (\<lambda>w. w \<noteq> [] \<and> prefix w s) ws = None"
    by (auto simp: find_None_iff)
  then show ?thesis by (simp add: strip_front.simps [of ws s])
qed

lemma sublist_trim_space: "sublist (trim_space s) s"
proof -
  have "suffix (strip_front space_seqs s) s"
    by (rule strip_front_suffix)
  moreover have "prefix (trim_space s) (strip_front space_seqs s)"
    using strip_front_suffix [of "map rev space_seqs" "rev (strip_front space_seqs s)"]
    by (simp add: trim_space_def suffix_to_prefix)
  ultimately obtain a b where "s = a @ strip_front space_seqs s"
    and "strip_front space_seqs s = trim_space s @ b"
    by (auto simp: prefix_def suffix_def)
  then have "s = a @ trim_space s @ b" by simp
  then show ?thesis unfolding sublist_def by blast
qed

lemma set_trim_space: "set (trim_space s) \<subseteq> set s"
  using sublist_trim_space set_mono_sublist by blast

lemma length_trim_space: "length (trim_space s) \<le> length s"
  using sublist_trim_space sublist_length_le by blast

lemma trim_space_Nil [simp]: "trim_space [] = []"
  using length_trim_space [of "[]"] by simp

lemma trim_space_fixed:
  assumes "\<And>w. w \<in> set space_seqs \<Longrightarrow> \<not> prefix w s"
    and "\<And>w. w \<in> set space_seqs \<Longrightarrow> \<not> suffix w s"
  shows "trim_space s = s"
proof -
  have "strip_front space_seqs s = s"
    using assms(1) by (intro strip_front_id) auto
  moreover have "strip_front (map rev space_seqs) (rev s) = rev s"
    using assms(2) by (intro strip_front_id) (auto simp: suffix_to_prefix)
  ultimately show ?thesis by (simp add: trim_space_def)
qed

lemma trim_space_no_prefix:
  assumes w: "w \<in> set space_seqs" "w \<noteq> []"
  shows "\<not> prefix w (trim_space s)" and "\<not> suffix w (trim_space s)"
proof -
  let ?t = "strip_front space_seqs s"
  have p: "prefix (trim_space s) ?t"
    using strip_front_suffix [of "map rev space_seqs" "rev ?t"]
    by (simp add: trim_space_def suffix_to_prefix)
  have "\<not> prefix w ?t"
    using strip_front_done [of space_seqs s] w by (auto simp: find_None_iff)
  with p show "\<not> prefix w (trim_space s)"
    using prefix_order.trans by blast
  have "\<not> prefix (rev w) (rev (trim_space s))"
    using strip_front_done [of "map rev space_seqs" "rev ?t"] w
    by (auto simp: find_None_iff trim_space_def)
  then show "\<not> suffix w (trim_space s)"
    by (simp add: suffix_to_prefix)
qed

lemma space_seqs_nonempty: "w \<in> set space_seqs \<Longrightarrow> w \<noteq> []"
  by (auto simp: space_seqs_def)

lemma trim_space_idem [simp]: "trim_space (trim_space s) = trim_space s"
  using trim_space_no_prefix space_seqs_nonempty by (intro trim_space_fixed) blast+

text \<open>A string whose first and last bytes are printable ASCII is left alone.\<close>

lemma trim_space_printable:
  assumes "s \<noteq> []" "CHR 0x20 < hd s" "hd s < CHR 0x80" "CHR 0x20 < last s" "last s < CHR 0x80"
  shows "trim_space s = s"
proof (rule trim_space_fixed)
  have hd: "\<forall>w\<in>set space_seqs. hd w \<le> CHR 0x20 \<or> CHR 0x80 \<le> hd w"
    and last: "\<forall>w\<in>set space_seqs. last w \<le> CHR 0x20 \<or> CHR 0x80 \<le> last w"
    by code_simp+
  show "\<not> prefix w s" if w: "w \<in> set space_seqs" for w
  proof
    assume "prefix w s"
    then have "hd w = hd s"
      using space_seqs_nonempty [OF w] by (auto simp: prefix_def)
    with hd w assms(2,3) show False by fastforce
  qed
  show "\<not> suffix w s" if w: "w \<in> set space_seqs" for w
  proof
    assume "suffix w s"
    then have "last w = last s"
      using space_seqs_nonempty [OF w] by (auto simp: suffix_def)
    with last w assms(4,5) show False by fastforce
  qed
qed

text \<open>\<open>strings.Fields\<close>: the maximal pieces between runs of white space.\<close>

function go_fields_from :: "string \<Rightarrow> string \<Rightarrow> string list" where
  "go_fields_from acc s =
     (case s of
        [] \<Rightarrow> (if acc = [] then [] else [rev acc])
      | x # xs \<Rightarrow>
          (case find (\<lambda>w. w \<noteq> [] \<and> prefix w s) space_seqs of
             Some w \<Rightarrow> (if acc = [] then [] else [rev acc]) @ go_fields_from [] (drop (length w) s)
           | None \<Rightarrow> go_fields_from (x # acc) xs))"
  by pat_completeness auto
termination
  by (relation "measure (\<lambda>(acc, s). length s)") (auto simp: find_Some_iff prefix_def)

declare go_fields_from.simps [simp del]

definition go_fields :: "string \<Rightarrow> string list" where
  "go_fields s = go_fields_from [] s"

lemma go_fields_from_nonempty: "p \<in> set (go_fields_from acc s) \<Longrightarrow> p \<noteq> []"
proof (induction acc s arbitrary: p rule: go_fields_from.induct)
  case (1 acc s)
  from "1.prems" show ?case
  proof (subst (asm) go_fields_from.simps, cases s)
    fix x xs
    assume s: "s = x # xs"
      and p: "p \<in> set (case s of [] \<Rightarrow> (if acc = [] then [] else [rev acc])
      | x # xs \<Rightarrow>
          (case find (\<lambda>w. w \<noteq> [] \<and> prefix w s) space_seqs of
             Some w \<Rightarrow> (if acc = [] then [] else [rev acc]) @ go_fields_from [] (drop (length w) s)
           | None \<Rightarrow> go_fields_from (x # acc) xs))"
    show "p \<noteq> []"
    proof (cases "find (\<lambda>w. w \<noteq> [] \<and> prefix w s) space_seqs")
      case None
      with s p "1.IH"(1) [OF s None] show ?thesis by simp
    next
      case (Some w)
      with s p "1.IH"(2) [OF s Some] show ?thesis by (auto split: if_splits)
    qed
  qed (auto split: if_splits)
qed

lemma go_fields_nonempty: "p \<in> set (go_fields s) \<Longrightarrow> p \<noteq> []"
  unfolding go_fields_def by (rule go_fields_from_nonempty)


section \<open>Code points\<close>

text \<open>
  \<open>utf8.DecodeRune\<close>: the first code point of a string and its width in bytes; a byte that
  starts no well-formed sequence decodes to U+FFFD with width 1. \<open>runes s\<close> is
  \<open>[]rune(s)\<close> and \<open>of_runes rs\<close> is \<open>string(rs)\<close>.
\<close>

definition is_cont :: "nat \<Rightarrow> bool" where
  "is_cont b \<longleftrightarrow> 128 \<le> b \<and> b \<le> 191"

definition byte_at :: "string \<Rightarrow> nat \<Rightarrow> nat" where
  "byte_at s i = (if i < length s then byte_of (s ! i) else 0)"

definition dec_bytes :: "nat \<Rightarrow> nat \<Rightarrow> nat \<Rightarrow> nat \<Rightarrow> nat \<times> nat" where
  "dec_bytes b0 b1 b2 b3 =
     (if b0 < 128 then (b0, 1)
      else if 194 \<le> b0 \<and> b0 \<le> 223 \<and> is_cont b1
      then ((b0 - 192) * 64 + (b1 - 128), 2)
      else if 224 \<le> b0 \<and> b0 \<le> 239 \<and> is_cont b1 \<and> (b0 = 224 \<longrightarrow> 160 \<le> b1)
              \<and> (b0 = 237 \<longrightarrow> b1 \<le> 159) \<and> is_cont b2
      then ((b0 - 224) * 4096 + (b1 - 128) * 64 + (b2 - 128), 3)
      else if 240 \<le> b0 \<and> b0 \<le> 244 \<and> is_cont b1 \<and> (b0 = 240 \<longrightarrow> 144 \<le> b1)
              \<and> (b0 = 244 \<longrightarrow> b1 \<le> 143) \<and> is_cont b2 \<and> is_cont b3
      then ((b0 - 240) * 262144 + (b1 - 128) * 4096 + (b2 - 128) * 64 + (b3 - 128), 4)
      else (65533, 1))"

definition dec_rune :: "string \<Rightarrow> nat \<times> nat" where
  "dec_rune s = dec_bytes (byte_at s 0) (byte_at s 1) (byte_at s 2) (byte_at s 3)"

definition valid_rune :: "nat \<Rightarrow> bool" where
  "valid_rune r \<longleftrightarrow> r \<le> 1114111 \<and> \<not> (55296 \<le> r \<and> r \<le> 57343)"

definition enc_bytes :: "nat \<Rightarrow> nat list" where
  "enc_bytes r =
     (if r < 128 then [r]
      else if r < 2048 then [192 + r div 64, 128 + r mod 64]
      else if \<not> valid_rune r then [239, 191, 189]
      else if r < 65536 then [224 + r div 4096, 128 + r div 64 mod 64, 128 + r mod 64]
      else [240 + r div 262144, 128 + r div 4096 mod 64, 128 + r div 64 mod 64, 128 + r mod 64])"

definition enc_rune :: "nat \<Rightarrow> string" where
  "enc_rune r = map char_of (enc_bytes r)"

lemma dec_rune_width: "0 < snd (dec_rune s)"
  by (simp add: dec_rune_def dec_bytes_def)

lemma dec_rune_width': "(r, n) = dec_rune s \<Longrightarrow> 0 < n"
  using dec_rune_width [of s] by (cases "dec_rune s") simp

function runes :: "string \<Rightarrow> nat list" where
  "runes s = (if s = [] then []
     else (let (r, n) = dec_rune s in r # runes (drop n s)))"
  by pat_completeness auto
termination
  by (relation "measure length") (auto dest: dec_rune_width')

declare runes.simps [simp del]

definition of_runes :: "nat list \<Rightarrow> string" where
  "of_runes rs = concat (map enc_rune rs)"

lemma valid_two: "194 \<le> b0 \<Longrightarrow> b0 \<le> 223 \<Longrightarrow> is_cont b1 \<Longrightarrow> valid_rune ((b0 - 192) * 64 + (b1 - 128))"
proof -
  assume "194 \<le> b0" "b0 \<le> 223" "is_cont b1"
  then have "b0 - 192 \<le> 31" "b1 - 128 \<le> 63" by (auto simp: is_cont_def)
  then show ?thesis unfolding valid_rune_def by linarith
qed

lemma valid_three:
  assumes "224 \<le> b0" "b0 \<le> 239" "is_cont b1" "b0 = 237 \<longrightarrow> b1 \<le> 159" "is_cont b2"
  shows "valid_rune ((b0 - 224) * 4096 + (b1 - 128) * 64 + (b2 - 128))"
proof -
  define x where "x = b0 - 224"
  then have x: "b0 = 224 + x" "x \<le> 15" using assms by auto
  define y where "y = b1 - 128"
  then have y: "b1 = 128 + y" "y \<le> 63" using assms by (auto simp: is_cont_def)
  define z where "z = b2 - 128"
  then have z: "b2 = 128 + z" "z \<le> 63" using assms by (auto simp: is_cont_def)
  have c: "x = 13 \<longrightarrow> y \<le> 31" using assms x y by auto
  consider "x \<le> 12" | "x = 13" | "14 \<le> x" by linarith
  then show ?thesis
    by cases (use x y z c in \<open>simp_all add: valid_rune_def\<close>)
qed

lemma valid_four:
  assumes "240 \<le> b0" "b0 \<le> 244" "is_cont b1" "b0 = 240 \<longrightarrow> 144 \<le> b1" "b0 = 244 \<longrightarrow> b1 \<le> 143"
    "is_cont b2" "is_cont b3"
  shows "valid_rune ((b0 - 240) * 262144 + (b1 - 128) * 4096 + (b2 - 128) * 64 + (b3 - 128))"
proof -
  define x where "x = b0 - 240"
  then have x: "b0 = 240 + x" "x \<le> 4" using assms by auto
  define y where "y = b1 - 128"
  then have y: "b1 = 128 + y" "y \<le> 63" using assms by (auto simp: is_cont_def)
  define z where "z = b2 - 128"
  then have z: "b2 = 128 + z" "z \<le> 63" using assms by (auto simp: is_cont_def)
  define u where "u = b3 - 128"
  then have u: "b3 = 128 + u" "u \<le> 63" using assms by (auto simp: is_cont_def)
  have "x = 0 \<longrightarrow> 16 \<le> y" "x = 4 \<longrightarrow> y \<le> 15" using assms x y by auto
  then show ?thesis unfolding valid_rune_def x y z u using x y z u by simp linarith
qed

lemma dec_bytes_valid: "valid_rune (fst (dec_bytes b0 b1 b2 b3))"
  unfolding dec_bytes_def
  by (simp add: valid_two valid_three valid_four) (simp add: valid_rune_def)

lemma dec_rune_valid: "valid_rune (fst (dec_rune s))"
  unfolding dec_rune_def by (rule dec_bytes_valid)

lemma runes_valid: "r \<in> set (runes s) \<Longrightarrow> valid_rune r"
proof (induction s rule: runes.induct)
  case (1 s)
  show ?case
  proof (cases "s = []")
    case True
    with "1.prems" show ?thesis by (simp add: runes.simps)
  next
    case False
    obtain q n where d: "dec_rune s = (q, n)" by (cases "dec_rune s")
    have "valid_rune q" using dec_rune_valid [of s] by (simp add: d)
    moreover have "runes s = q # runes (drop n s)"
      using False d by (simp add: runes.simps [of s])
    ultimately show ?thesis
      using "1.IH" [OF False d [symmetric] refl] "1.prems" by auto
  qed
qed

lemma enc_bytes_bound: "b \<in> set (enc_bytes r) \<Longrightarrow> b < 256"
  by (auto simp: enc_bytes_def valid_rune_def split: if_splits)

lemma enc_rune_nonempty [simp]: "enc_rune r \<noteq> []"
  by (simp add: enc_rune_def enc_bytes_def)

lemma byte_at_map: "i < length bs \<Longrightarrow> (\<And>b. b \<in> set bs \<Longrightarrow> b < 256) \<Longrightarrow>
    byte_at (map char_of bs @ t) i = bs ! i"
  by (simp add: byte_at_def nth_append byte_of_char_of)

text \<open>The four shapes of an encoding, and that decoding inverts each.\<close>

lemma byte_at_Cons [simp]:
  "byte_at (x # xs) 0 = byte_of x" "byte_at (x # xs) (Suc n) = byte_at xs n"
  by (simp_all add: byte_at_def)

lemmas dec_enc_simps =
  dec_rune_def byte_of_char_of dec_bytes_def is_cont_def numeral_2_eq_2 numeral_3_eq_3

lemma dec_enc_one: "r < 128 \<Longrightarrow> dec_rune (enc_rune r @ t) = (r, length (enc_rune r))"
  by (simp add: enc_rune_def enc_bytes_def dec_rune_def dec_bytes_def byte_at_def byte_of_char_of)

lemma dec_enc_two:
  assumes r: "128 \<le> r" "r < 2048"
  shows "dec_rune (enc_rune r @ t) = (r, length (enc_rune r))"
proof -
  define x y where "x = r div 64" and "y = r mod 64"
  then have b: "r = x * 64 + y" "2 \<le> x" "x < 32" "y < 64" using r by auto
  have "enc_rune r = map char_of [192 + x, 128 + y]"
    using r by (simp add: enc_rune_def enc_bytes_def x_def y_def)
  then show ?thesis
    using b by (simp add: dec_enc_simps)
qed

lemma dec_enc_three:
  assumes v: "valid_rune r" and r: "2048 \<le> r" "r < 65536"
  shows "dec_rune (enc_rune r @ t) = (r, length (enc_rune r))"
proof -
  define x y z where "x = r div 4096" and "y = r div 64 mod 64" and "z = r mod 64"
  have "r div 64 = x * 64 + y" and "r = r div 64 * 64 + z"
    using div_mult2_eq [of r 64 64] by (simp_all add: x_def y_def z_def)
  then have rr: "r = x * 4096 + y * 64 + z" by linarith
  have b: "x < 16" "y < 64" "z < 64"
    using r by (simp_all add: x_def y_def z_def)
  have c: "x = 0 \<longrightarrow> 32 \<le> y" "x = 13 \<longrightarrow> y \<le> 31"
    using rr b r v by (auto simp: valid_rune_def)
  have "enc_rune r = map char_of [224 + x, 128 + y, 128 + z]"
    using r v by (simp add: enc_rune_def enc_bytes_def x_def y_def z_def)
  then show ?thesis
    using b c rr by (simp add: dec_enc_simps)
qed

lemma dec_enc_four:
  assumes v: "valid_rune r" and r: "65536 \<le> r"
  shows "dec_rune (enc_rune r @ t) = (r, length (enc_rune r))"
proof -
  define x y z u where "x = r div 262144" and "y = r div 4096 mod 64"
    and "z = r div 64 mod 64" and "u = r mod 64"
  have "r div 4096 = x * 64 + y" and "r div 64 = r div 4096 * 64 + z" and "r = r div 64 * 64 + u"
    using div_mult2_eq [of r 64 64] div_mult2_eq [of r 4096 64]
    by (simp_all add: x_def y_def z_def u_def)
  then have rr: "r = x * 262144 + y * 4096 + z * 64 + u" by linarith
  have r': "r \<le> 1114111" using v by (simp add: valid_rune_def)
  have b: "x < 5" "y < 64" "z < 64" "u < 64"
    using r' by (simp_all add: x_def y_def z_def u_def)
  have c: "x = 0 \<longrightarrow> 16 \<le> y" "x = 4 \<longrightarrow> y \<le> 15"
    using rr b r r' by auto
  have "enc_rune r = map char_of [240 + x, 128 + y, 128 + z, 128 + u]"
    using r v by (simp add: enc_rune_def enc_bytes_def x_def y_def z_def u_def)
  then show ?thesis
    using b c rr by (simp add: dec_enc_simps)
qed

lemma dec_enc_rune:
  assumes "valid_rune r"
  shows "dec_rune (enc_rune r @ t) = (r, length (enc_rune r))"
proof -
  consider "r < 128" | "128 \<le> r" "r < 2048" | "2048 \<le> r" "r < 65536" | "65536 \<le> r"
    by linarith
  then show ?thesis
    using assms by cases (simp_all only: dec_enc_one dec_enc_two dec_enc_three dec_enc_four)
qed

lemma runes_Nil [simp]: "runes [] = []"
  by (simp add: runes.simps)

lemma of_runes_simps [simp]:
  "of_runes [] = []" "of_runes (r # rs) = enc_rune r @ of_runes rs"
  "of_runes (rs @ qs) = of_runes rs @ of_runes qs"
  by (simp_all add: of_runes_def)

lemma runes_of_runes_append:
  "(\<And>r. r \<in> set rs \<Longrightarrow> valid_rune r) \<Longrightarrow> runes (of_runes rs @ t) = rs @ runes t"
proof (induction rs)
  case Nil
  then show ?case by simp
next
  case (Cons r rs)
  then have "dec_rune (enc_rune r @ of_runes rs @ t) = (r, length (enc_rune r))"
    by (simp add: dec_enc_rune)
  then have "runes (enc_rune r @ of_runes rs @ t) = r # runes (of_runes rs @ t)"
    by (subst runes.simps) simp
  with Cons show ?case by simp
qed

lemma runes_of_runes: "(\<And>r. r \<in> set rs \<Longrightarrow> valid_rune r) \<Longrightarrow> runes (of_runes rs) = rs"
  using runes_of_runes_append [of rs "[]"] by simp

text \<open>\<open>string([]rune(s)[:max])\<close> when there are more than \<open>max\<close> code points, \<open>s\<close> otherwise;
  \<open>mark\<close> is what the caller appends to a cut string.\<close>

definition cut_runes :: "nat \<Rightarrow> string \<Rightarrow> string \<Rightarrow> string" where
  "cut_runes m mark s =
     (if m < length (runes s) then of_runes (take m (runes s)) @ mark else s)"

lemma runes_take_prefix: "runes (of_runes (take n (runes s)) @ t) = take n (runes s) @ runes t"
  by (rule runes_of_runes_append) (meson in_set_takeD runes_valid)

lemma length_runes_cut:
  "length (runes (cut_runes m mark s)) \<le> m + length (runes mark)"
  by (simp add: cut_runes_def runes_take_prefix)

text \<open>The ellipsis U+2026 that marks most cuts.\<close>

definition ellipsis :: string where
  "ellipsis = [CHR 0xE2, CHR 0x80, CHR 0xA6]"

lemma runes_ellipsis [simp]: "runes ellipsis = [8230]"
  by code_simp

text \<open>
  \<open>strings.ToLower\<close>: each code point is mapped on its own. The ASCII part is written out;
  \<open>lo\<close> is Unicode's lower-case table beyond ASCII.
\<close>

definition lower_rune :: "(nat \<Rightarrow> nat) \<Rightarrow> nat \<Rightarrow> nat" where
  "lower_rune lo r = (if r < 128 then (if 65 \<le> r \<and> r \<le> 90 then r + 32 else r) else lo r)"

definition to_lower :: "(nat \<Rightarrow> nat) \<Rightarrow> string \<Rightarrow> string" where
  "to_lower lo s = of_runes (map (lower_rune lo) (runes s))"


lemma runes_ascii_Cons: "byte_of c < 128 \<Longrightarrow> runes (c # s) = byte_of c # runes s"
  by (subst runes.simps) (simp add: dec_rune_def dec_bytes_def byte_at_def)

lemma runes_ascii: "(\<And>c. c \<in> set s \<Longrightarrow> byte_of c < 128) \<Longrightarrow> runes s = map byte_of s"
  by (induction s) (simp_all add: runes_ascii_Cons)

lemma enc_rune_ascii: "r < 128 \<Longrightarrow> enc_rune r = [char_of r]"
  by (simp add: enc_rune_def enc_bytes_def)

lemma of_runes_ascii: "(\<And>r. r \<in> set rs \<Longrightarrow> r < 128) \<Longrightarrow> of_runes rs = map char_of rs"
  by (induction rs) (simp_all add: enc_rune_ascii)


section \<open>Numbers\<close>

text \<open>\<open>strconv.Itoa\<close> and \<open>strconv.Atoi\<close> (base 10, an optional sign, the range of int64).\<close>

definition digit_char :: "nat \<Rightarrow> char" where
  "digit_char d = char_of (48 + d)"

definition digit_val :: "char \<Rightarrow> nat" where
  "digit_val c = byte_of c - 48"

fun nat_digits :: "nat \<Rightarrow> string" where
  "nat_digits n = (if n < 10 then [digit_char n] else nat_digits (n div 10) @ [digit_char (n mod 10)])"

declare nat_digits.simps [simp del]

definition digits_val :: "string \<Rightarrow> nat" where
  "digits_val s = foldl (\<lambda>n c. 10 * n + digit_val c) 0 s"

definition itoa :: "int \<Rightarrow> string" where
  "itoa i = (if i < 0 then CHR ''-'' # nat_digits (nat (- i)) else nat_digits (nat i))"

definition in_int64 :: "int \<Rightarrow> bool" where
  "in_int64 i \<longleftrightarrow> - (2 ^ 63) \<le> i \<and> i < 2 ^ 63"

definition atoi :: "string \<Rightarrow> int option" where
  "atoi s =
     (let (neg, ds) = (case s of
            c # cs \<Rightarrow> (if c = CHR ''-'' then (True, cs) else if c = CHR ''+'' then (False, cs)
                       else (False, s))
          | [] \<Rightarrow> (False, []));
          v = (if neg then - int (digits_val ds) else int (digits_val ds))
      in if ds \<noteq> [] \<and> list_all is_digit ds \<and> in_int64 v then Some v else None)"

lemma is_digit_alt: "is_digit c \<longleftrightarrow> 48 \<le> byte_of c \<and> byte_of c \<le> 57"
  by (simp add: is_digit_def byte_of_le) (simp add: byte_of_def)

lemma digit_char_digit [simp]: "d < 10 \<Longrightarrow> is_digit (digit_char d)"
  by (simp add: is_digit_alt digit_char_def byte_of_char_of)

lemma digit_val_char [simp]: "d < 10 \<Longrightarrow> digit_val (digit_char d) = d"
  by (simp add: digit_val_def digit_char_def byte_of_char_of)

lemma nat_digits_nonempty [simp]: "nat_digits n \<noteq> []"
  by (subst nat_digits.simps) simp

lemma nat_digits_all: "list_all is_digit (nat_digits n)"
proof (induction n rule: nat_digits.induct)
  case (1 n)
  then show ?case by (subst nat_digits.simps) simp
qed

lemma digits_val_snoc [simp]: "digits_val (s @ [c]) = 10 * digits_val s + digit_val c"
  by (simp add: digits_val_def)

lemma digits_val_single [simp]: "digits_val [c] = digit_val c"
  by (simp add: digits_val_def)

lemma digits_val_nat_digits: "digits_val (nat_digits n) = n"
proof (induction n rule: nat_digits.induct)
  case (1 n)
  then show ?case by (subst nat_digits.simps) simp
qed

lemma is_digit_not_sign: "is_digit c \<Longrightarrow> c \<noteq> CHR ''-'' \<and> c \<noteq> CHR ''+''"
  by (auto simp: is_digit_def)

lemma nat_digits_Cons: "\<exists>c cs. nat_digits n = c # cs \<and> is_digit c"
  using nat_digits_all [of n] nat_digits_nonempty [of n]
  by (cases "nat_digits n") auto

lemma atoi_itoa: "in_int64 i \<Longrightarrow> atoi (itoa i) = Some i"
proof (cases "i < 0")
  case True
  moreover assume "in_int64 i"
  ultimately show ?thesis
    by (simp add: itoa_def atoi_def digits_val_nat_digits nat_digits_all)
next
  case False
  moreover assume "in_int64 i"
  moreover obtain c cs where "nat_digits (nat i) = c # cs" "is_digit c"
    using nat_digits_Cons by blast
  ultimately show ?thesis
    using digits_val_nat_digits [of "nat i"] nat_digits_all [of "nat i"]
    by (simp add: itoa_def atoi_def is_digit_not_sign)
qed

lemma itoa_nonneg: "0 \<le> i \<Longrightarrow> itoa i = nat_digits (nat i)"
  by (simp add: itoa_def)

lemma itoa_inj: "in_int64 i \<Longrightarrow> in_int64 j \<Longrightarrow> itoa i = itoa j \<longleftrightarrow> i = j"
  by (metis atoi_itoa option.inject)

lemma nat_digits_leading: "0 < n \<Longrightarrow> hd (nat_digits n) \<noteq> CHR ''0''"
proof (induction n rule: nat_digits.induct)
  case (1 n)
  show ?case
  proof (cases "n < 10")
    case True
    with "1.prems" have "byte_of (digit_char n) \<noteq> 48"
      by (simp add: digit_char_def byte_of_char_of)
    then have "digit_char n \<noteq> CHR ''0''"
      by (auto simp: byte_of_def)
    with True show ?thesis by (subst nat_digits.simps) simp
  next
    case False
    with 1 show ?thesis by (subst nat_digits.simps) (simp add: hd_append)
  qed
qed


section \<open>Sorting and association lists\<close>

text \<open>
  A Go map that the code ranges over is an association list without duplicate keys; the
  order of a range is not determined, and results that leave the component are sorted.
\<close>

lemma sorted_key_unique:
  assumes "distinct (map f xs)" "sorted (map f xs)" "sorted (map f ys)" "mset xs = mset ys"
  shows "xs = ys"
proof -
  have "mset (map f ys) = mset (map f xs)" using assms(4) by simp
  then have "distinct (map f ys)" using assms(1) mset_eq_imp_distinct_iff by blast
  moreover have "set xs = set ys" using assms(4) by (metis set_mset_mset)
  moreover have "inj_on f (set xs \<union> set ys)"
    using assms(1) \<open>set xs = set ys\<close> by (simp add: distinct_map)
  ultimately show ?thesis
    using assms(1-3) map_sorted_distinct_set_unique by blast
qed

lemma map_filter_append: "List.map_filter f (xs @ ys) = List.map_filter f xs @ List.map_filter f ys"
  by (simp add: List.map_filter_def)

lemma map_filter_mem: "y \<in> set (List.map_filter f xs) \<longleftrightarrow> (\<exists>x \<in> set xs. f x = Some y)"
  by (induction xs) (auto split: option.splits)

lemma find_append_case:
  "find P (xs @ ys) = (case find P xs of Some x \<Rightarrow> Some x | None \<Rightarrow> find P ys)"
  by (induction xs) auto

lemma sort_key_strict:
  "distinct (map f xs) \<Longrightarrow> sorted_wrt (<) (map f (sort_key f xs))"
proof -
  assume d: "distinct (map f xs)"
  have "mset (map f (sort_key f xs)) = mset (map f xs)" by simp
  then have "distinct (map f (sort_key f xs))" using d mset_eq_imp_distinct_iff by blast
  then show ?thesis by (simp add: strict_sorted_iff)
qed

section \<open>Slash-separated paths\<close>

text \<open>\<open>path.Clean\<close> by segments: empty and dot segments go, dot-dot removes what it follows.\<close>

fun clean_loop :: "bool \<Rightarrow> string list \<Rightarrow> string list \<Rightarrow> string list" where
  "clean_loop rooted out [] = rev out"
| "clean_loop rooted out (s # ss) =
     (if s = '''' \<or> s = ''.'' then clean_loop rooted out ss
      else if s = ''..'' then
        (case out of
           [] \<Rightarrow> clean_loop rooted (if rooted then [] else [''..'']) ss
         | x # xs \<Rightarrow> clean_loop rooted (if x = ''..'' then ''..'' # out else xs) ss)
      else clean_loop rooted (s # out) ss)"

definition path_clean :: "string \<Rightarrow> string" where
  "path_clean p =
     (let rooted = prefix ''/'' p; segs = clean_loop rooted [] (split_on CHR ''/'' p)
      in if rooted then CHR ''/'' # join ''/'' segs
         else if segs = [] then ''.'' else join ''/'' segs)"

definition path_join :: "string list \<Rightarrow> string" where
  "path_join xs =
     (case filter (\<lambda>x. x \<noteq> '''') xs of [] \<Rightarrow> '''' | ys \<Rightarrow> path_clean (join ''/'' ys))"

definition plain_seg :: "string \<Rightarrow> bool" where
  "plain_seg s \<longleftrightarrow> s \<noteq> '''' \<and> s \<noteq> ''.'' \<and> s \<noteq> ''..''"

lemma clean_loop_plain: "list_all plain_seg ss \<Longrightarrow> clean_loop rooted out ss = rev out @ ss"
  by (induction ss arbitrary: out) (simp_all add: plain_seg_def)

lemma clean_loop_append:
  "list_all plain_seg qs \<Longrightarrow> clean_loop rooted out (ps @ qs) = clean_loop rooted out ps @ qs"
proof (induction ps arbitrary: out)
  case Nil
  then show ?case by (simp add: clean_loop_plain)
next
  case (Cons p ps)
  then show ?case by (cases out) auto
qed

lemma split_on_join_two: "split_on c (a @ c # b) = split_on c a @ split_on c b"
proof (induction a)
  case (Cons x a)
  then show ?case by (auto split: list.splits)
qed simp

lemma path_clean_plain:
  assumes "list_all plain_seg (split_on CHR ''/'' p)"
  shows "path_clean p = p"
proof -
  have "\<not> prefix ''/'' p" using assms by (cases p) (auto simp: plain_seg_def)
  then show ?thesis
    using clean_loop_plain [OF assms, of False "[]"] by (simp add: path_clean_def Let_def join_split_on)
qed

lemma join_append: "xs \<noteq> [] \<Longrightarrow> ys \<noteq> [] \<Longrightarrow> join sep (xs @ ys) = join sep xs @ sep @ join sep ys"
proof (induction xs)
  case (Cons x xs)
  then show ?case by (cases xs; cases ys) auto
qed simp

lemma path_join_inside:
  assumes root: "prefix ''/'' root" "path_clean root = root" "root \<noteq> ''/''"
    and p: "list_all plain_seg (split_on CHR ''/'' p)"
  shows "path_join [root, p] = root @ ''/'' @ p"
proof -
  have ne: "p \<noteq> ''''" using p by (auto simp: plain_seg_def)
  have root_ne: "root \<noteq> ''''" using root(1) by auto
  let ?segs = "clean_loop True [] (split_on CHR ''/'' root)"
  have r: "root = CHR ''/'' # join ''/'' ?segs"
    using root(1,2) by (simp add: path_clean_def Let_def)
  then have segs: "?segs \<noteq> []" using root(3) by auto
  have "path_join [root, p] = path_clean (root @ ''/'' @ p)"
    using ne root_ne by (simp add: path_join_def)
  also have "\<dots> = CHR ''/'' # join ''/'' (?segs @ split_on CHR ''/'' p)"
    using root(1) clean_loop_append [OF p, of True "[]" "split_on CHR ''/'' root"]
    by (auto simp: path_clean_def Let_def split_on_join_two)
  also have "\<dots> = CHR ''/'' # join ''/'' ?segs @ ''/'' @ p"
    using segs by (simp add: join_append join_split_on)
  also have "\<dots> = root @ ''/'' @ p" by (subst (2) r) simp
  finally show ?thesis .
qed

text \<open>Joining with a path that may hold dots but neither empty segments nor dot-dot stays below the root.\<close>

lemma clean_loop_dots:
  "list_all (\<lambda>s. s \<noteq> '''' \<and> s \<noteq> ''..'') qs \<Longrightarrow>
   clean_loop rooted out (ps @ qs) = clean_loop rooted out ps @ filter (\<lambda>s. s \<noteq> ''.'') qs"
proof (induction ps arbitrary: out)
  case Nil
  then show ?case by (induction qs arbitrary: out) auto
next
  case (Cons p ps)
  then show ?case by (cases out) auto
qed

lemma path_join_below:
  assumes root: "prefix ''/'' root" "path_clean root = root" "root \<noteq> ''/''"
    and p: "list_all (\<lambda>s. s \<noteq> '''' \<and> s \<noteq> ''..'') (split_on CHR ''/'' p)"
  shows "path_join [root, p] = root \<or> prefix (root @ ''/'') (path_join [root, p])"
proof -
  have ne: "p \<noteq> ''''" using p by auto
  have root_ne: "root \<noteq> ''''" using root(1) by auto
  let ?segs = "clean_loop True [] (split_on CHR ''/'' root)" and ?qs = "filter (\<lambda>s. s \<noteq> ''.'') (split_on CHR ''/'' p)"
  have r: "root = CHR ''/'' # join ''/'' ?segs"
    using root(1,2) by (simp add: path_clean_def Let_def)
  then have segs: "?segs \<noteq> []" using root(3) by auto
  have "path_join [root, p] = path_clean (root @ ''/'' @ p)"
    using ne root_ne by (simp add: path_join_def)
  also have "\<dots> = CHR ''/'' # join ''/'' (?segs @ ?qs)"
    using root(1) clean_loop_dots [OF p, of True "[]" "split_on CHR ''/'' root"]
    by (auto simp: path_clean_def Let_def split_on_join_two)
  finally have j: "path_join [root, p] = CHR ''/'' # join ''/'' (?segs @ ?qs)" .
  show ?thesis
  proof (cases "?qs = []")
    case True
    then show ?thesis using j r by simp
  next
    case False
    have "CHR ''/'' # join ''/'' (?segs @ ?qs) = (CHR ''/'' # join ''/'' ?segs) @ ''/'' @ join ''/'' ?qs"
      using segs False by (simp add: join_append)
    then have "path_join [root, p] = root @ ''/'' @ join ''/'' ?qs"
      using j r by metis
    then show ?thesis by simp
  qed
qed

text \<open>\<open>strings.Trim(s, c)\<close> with a cutset of one byte.\<close>

definition trim_byte :: "char \<Rightarrow> string \<Rightarrow> string" where
  "trim_byte c s = rev (dropWhile ((=) c) (rev (dropWhile ((=) c) s)))"


section \<open>Octal numbers\<close>

fun oct_digits :: "nat \<Rightarrow> string" where
  "oct_digits n = (if n < 8 then [digit_char n] else oct_digits (n div 8) @ [digit_char (n mod 8)])"

declare oct_digits.simps [simp del]

text \<open>\<open>strconv.ParseUint(s, 8, 32)\<close>.\<close>

definition parse_oct :: "string \<Rightarrow> nat option" where
  "parse_oct s =
     (let v = foldl (\<lambda>n c. 8 * n + digit_val c) 0 s
      in if s \<noteq> [] \<and> list_all (\<lambda>c. is_digit c \<and> digit_val c < 8) s \<and> int v < 2 ^ 32 then Some v else None)"

lemma oct_digits_ok:
  "oct_digits n \<noteq> [] \<and> list_all (\<lambda>c. is_digit c \<and> digit_val c < 8) (oct_digits n)
   \<and> foldl (\<lambda>n c. 8 * n + digit_val c) 0 (oct_digits n) = n"
proof (induction n rule: oct_digits.induct)
  case (1 n)
  show ?case
  proof (cases "n < 8")
    case True
    then show ?thesis by (simp add: oct_digits.simps [of n])
  next
    case False
    moreover have "n mod 8 < 10" by (rule less_trans [of _ 8]) simp_all
    ultimately show ?thesis using 1 by (simp add: oct_digits.simps [of n])
  qed
qed

lemma parse_oct_digits: "int n < 2 ^ 32 \<Longrightarrow> parse_oct (oct_digits n) = Some n"
  using oct_digits_ok [of n] by (simp add: parse_oct_def Let_def)

section \<open>First free names\<close>

lemma first_free:
  assumes "inj_on f {a..<a + Suc (length taken)}"
  shows "\<exists>i. find (\<lambda>i. f i \<notin> set taken) [a..<a + Suc (length taken)] = Some i
    \<and> a \<le> i \<and> f i \<notin> set taken \<and> (\<forall>j. a \<le> j \<and> j < i \<longrightarrow> f j \<in> set taken)"
proof -
  let ?is = "[a..<a + Suc (length taken)]"
  have "\<not> f ` set ?is \<subseteq> set taken"
  proof
    assume "f ` set ?is \<subseteq> set taken"
    then have "card (f ` set ?is) \<le> card (set taken)" by (rule card_mono [OF finite_set])
    moreover have "card (f ` set ?is) = Suc (length taken)" using card_image [OF assms] by (simp del: upt_Suc)
    moreover have "card (set taken) \<le> length taken" by (rule card_length)
    ultimately show False by simp
  qed
  then have "find (\<lambda>i. f i \<notin> set taken) ?is \<noteq> None" by (auto simp: find_None_iff)
  then obtain k where k: "k < length ?is" "f (?is ! k) \<notin> set taken" "\<And>j. j < k \<Longrightarrow> f (?is ! j) \<in> set taken"
    "find (\<lambda>i. f i \<notin> set taken) ?is = Some (?is ! k)"
    by (auto simp: find_Some_iff)
  then have "\<forall>j. a \<le> j \<and> j < ?is ! k \<longrightarrow> f j \<in> set taken"
    by (auto simp del: upt_Suc) (metis add_diff_inverse_nat less_diff_conv2 linorder_not_le nat_add_left_cancel_less)
  with k show ?thesis by (intro exI [of _ "?is ! k"]) (simp del: upt_Suc)
qed

section \<open>Errors\<close>

text \<open>A Go error: the text it prints and the sentinels that \<open>errors.Is\<close> finds in its chain.\<close>

record go_err =
  ge_text :: string
  ge_is :: "string list"

definition errorf :: "string \<Rightarrow> go_err" where
  "errorf t = \<lparr>ge_text = t, ge_is = []\<rparr>"

text \<open>\<open>fmt.Errorf("<s>: %w", err)\<close>.\<close>

definition wrapf :: "string \<Rightarrow> go_err \<Rightarrow> go_err" where
  "wrapf s e = e\<lparr>ge_text := s @ '': '' @ ge_text e\<rparr>"

definition is_err :: "go_err \<Rightarrow> string \<Rightarrow> bool" where
  "is_err e s \<longleftrightarrow> List.member (ge_is e) s"

end
