(* ===== verification/Agent.thy ===== *)
theory Agent
  imports Prelude
begin

text \<open>
  server/internal/agent: the tool loop every AI feature runs on (loop.go), one model call with its
  retries (completion.go), the schema call (format.go), one-shot calls (scope.go, aigen.go), the
  transcript collector, the history builder and the turn pipeline (turn.go), the checklist tool
  (todo.go) and what the lineage records (lineage.go).

  The provider and the tools are parameters: the \<open>k\<close>-th call of a turn gets the answer
  \<open>env_answer E k\<close>, so every behaviour of a provider is one environment, and every request sent is
  kept in the state. Contexts are asked where the code asks them. Time stamps and durations of
  lineage events are left out; the JSON text of a response enters only error previews.
\<close>

section \<open>Messages\<close>

definition em_dash :: string where "em_dash = [CHR 0xE2, CHR 0x80, CHR 0x94]"

text \<open>What a string is after a JSON round trip: bytes that are no UTF-8 become U+FFFD.\<close>

definition json_string :: "string \<Rightarrow> string" where
  "json_string s = of_runes (runes s)"

record tool_call =
  tc_type :: string
  tc_id :: string
  tc_name :: string
  tc_args :: string

record reply =
  rp_content :: string
  rp_calls :: "tool_call list"

record tool =
  tl_name :: string
  tl_description :: string
  tl_run :: "nat \<Rightarrow> string \<Rightarrow> string + string"

record echoed =
  ec_id :: string
  ec_name :: string
  ec_args :: string

record trace_event =
  te_kind :: string
  te_round :: nat
  te_text :: string
  te_tool :: string
  te_args :: string
  te_result :: string
  te_err :: string

definition trace0 :: trace_event where
  "trace0 = \<lparr>te_kind = '''', te_round = 0, te_text = '''', te_tool = '''', te_args = '''', te_result = '''', te_err = ''''\<rparr>"

record todo =
  td_content :: string
  td_status :: string
  td_priority :: string

record lineage_event =
  le_kind :: string
  le_step :: nat
  le_model :: string
  le_tool :: string
  le_args :: string
  le_content :: string
  le_output :: string
  le_calls :: "(string \<times> string) list"
  le_err :: string

definition event0 :: lineage_event where
  "event0 = \<lparr>le_kind = '''', le_step = 0, le_model = '''', le_tool = '''', le_args = '''', le_content = '''',
     le_output = '''', le_calls = [], le_err = ''''\<rparr>"

record lineage =
  ln_model :: string
  ln_tools :: "(string \<times> string) list"
  ln_events :: "lineage_event list"
  ln_todos :: "todo list"

text \<open>The evidence of the schema call; its user message is the JSON of this.\<close>

record evidence =
  ev_answer :: string
  ev_events :: "lineage_event list option"

datatype msg =
    Dev string
  | User string
  | Assistant string "echoed list"
  | ToolReply string string
  | UserEvidence evidence

definition devMsg :: "string \<Rightarrow> msg" where "devMsg t = Dev t"
definition userMsg :: "string \<Rightarrow> msg" where "userMsg t = User t"
definition assistantMsg :: "string \<Rightarrow> msg" where "assistantMsg t = Assistant t []"
definition assistantCallsMsg :: "string \<Rightarrow> echoed list \<Rightarrow> msg" where "assistantCallsMsg t cs = Assistant t cs"
definition toolCallOf :: "string \<Rightarrow> string \<Rightarrow> string \<Rightarrow> echoed" where
  "toolCallOf i name args = \<lparr>ec_id = i, ec_name = name, ec_args = args\<rparr>"

definition toolReply :: "string \<Rightarrow> string \<Rightarrow> msg" where
  "toolReply i content = ToolReply i (if content = '''' then ''(empty)'' else content)"

text \<open>The visible text of the newest message, read back out of its JSON.\<close>

definition tailText :: "msg list \<Rightarrow> string" where
  "tailText ms =
     (if ms = [] then ''''
      else (case last ms of
              Dev t \<Rightarrow> json_string t
            | User t \<Rightarrow> json_string t
            | Assistant t _ \<Rightarrow> json_string t
            | ToolReply _ t \<Rightarrow> json_string t
            | UserEvidence _ \<Rightarrow> ''''))"

definition capLine :: "string \<Rightarrow> nat \<Rightarrow> string" where
  "capLine s m = (if m < length s then take m s @ ellipsis else s)"

definition previewOf :: "string \<Rightarrow> string" where
  "previewOf raw =
     (let preview = trim_space raw in if 500 < length preview then take 500 preview @ ellipsis else preview)"

definition maxMsgToolChars :: nat where "maxMsgToolChars = 8 * 1024"

definition cut_marker :: string where
  "cut_marker = CHR 0x0A # ellipsis @ ''(output truncated '' @ em_dash
     @ '' narrow the range or pattern instead of repeating this call)''"

definition capMsg :: "string \<Rightarrow> string" where
  "capMsg s =
     (let r = runes s
      in if maxMsgToolChars < length r then of_runes (take maxMsgToolChars r) @ cut_marker else s)"


section \<open>State\<close>

record config =
  cf_baseURL :: string
  cf_apiKey :: string
  cf_model :: string

definition Valid :: "config \<Rightarrow> bool" where
  "Valid c \<longleftrightarrow> cf_baseURL c \<noteq> '''' \<and> cf_apiKey c \<noteq> '''' \<and> cf_model c \<noteq> ''''"

text \<open>\<open>strings.TrimSuffix(u, "/")\<close> until nothing is left to trim.\<close>

definition NormalizeBaseURL :: "string \<Rightarrow> string" where
  "NormalizeBaseURL raw =
     trim_suffix (rev (dropWhile (\<lambda>c. c = CHR ''/'') (rev (trim_space raw)))) ''/chat/completions''"

record request =
  rq_model :: string
  rq_msgs :: "msg list"
  rq_tools :: "string list"
  rq_schema :: "string option"

record env =
  env_answer :: "nat \<Rightarrow> string + reply list"
  env_cancel :: "nat \<Rightarrow> string option"
  env_cancelWait :: "nat \<Rightarrow> string option"
  env_raw :: "reply list \<Rightarrow> string"

text \<open>What a turn leaves behind: the trace, the lineage (when it keeps one), the requests.\<close>

record session =
  sn_trace :: "trace_event list"
  sn_lin :: "lineage option"
  sn_sent :: "request list"

record loop = session +
  lp_model :: string
  lp_tools :: "tool list"
  lp_msgs :: "msg list"
  lp_maxStep :: nat
  lp_lastCall :: string
  lp_roundsDone :: nat
  lp_groundNudged :: bool

definition add_trace :: "trace_event \<Rightarrow> 'a session_scheme \<Rightarrow> 'a session_scheme" where
  "add_trace ev s = s\<lparr>sn_trace := sn_trace s @ [ev]\<rparr>"

definition record_lin :: "string \<Rightarrow> (lineage_event \<Rightarrow> lineage_event) \<Rightarrow> 'a session_scheme \<Rightarrow> 'a session_scheme" where
  "record_lin kind fill s =
     s\<lparr>sn_lin := map_option (\<lambda>l. l\<lparr>ln_events := ln_events l @ [fill (event0\<lparr>le_kind := kind\<rparr>)]\<rparr>) (sn_lin s)\<rparr>"

definition model_error :: "string \<Rightarrow> trace_event" where
  "model_error e = trace0\<lparr>te_kind := ''model_error'', te_err := e\<rparr>"

definition SetTools :: "tool list \<Rightarrow> lineage \<Rightarrow> lineage" where
  "SetTools ts l = (if ln_tools l \<noteq> [] then l else l\<lparr>ln_tools := map (\<lambda>t. (tl_name t, tl_description t)) ts\<rparr>)"

definition SetTodos :: "todo list \<Rightarrow> lineage \<Rightarrow> lineage" where
  "SetTodos ts l = l\<lparr>ln_todos := ts\<rparr>"


section \<open>One model call with retries\<close>

definition ask :: "env \<Rightarrow> request \<Rightarrow> 'a session_scheme \<Rightarrow> (string + reply list) \<times> 'a session_scheme" where
  "ask E rq s = (env_answer E (length (sn_sent s)), s\<lparr>sn_sent := sn_sent s @ [rq]\<rparr>)"

definition describe :: "reply list \<Rightarrow> string" where
  "describe res =
     (case res of
        [] \<Rightarrow> ''no choices''
      | r # _ \<Rightarrow> if rp_calls r = [] \<and> trim_space (rp_content r) = '''' then ''empty answer'' else '''')"

definition retry_reason :: "env \<Rightarrow> string \<Rightarrow> string + reply list \<Rightarrow> string" where
  "retry_reason E wh res =
     (case res of
        Inl e \<Rightarrow> e
      | Inr cs \<Rightarrow> ''model returned '' @ describe cs @ '' on '' @ wh @ '' (response: '' @ previewOf (env_raw E cs) @ '')'')"

fun retry_loop ::
  "env \<Rightarrow> bool \<Rightarrow> request \<Rightarrow> string \<Rightarrow> nat \<Rightarrow> (string + reply list) \<times> 'a session_scheme
   \<Rightarrow> (string + reply list) \<times> 'a session_scheme" where
  "retry_loop E tr rq wh 0 r = r"
| "retry_loop E tr rq wh (Suc n) (res, s) =
     (if (case res of Inl _ \<Rightarrow> False | Inr cs \<Rightarrow> describe cs = '''') then (res, s)
      else
        (let s1 = (if tr then add_trace (model_error (retry_reason E wh res @ '', retrying'')) s else s)
         in case env_cancelWait E (length (sn_sent s1)) of
              Some e \<Rightarrow> (Inl e, s1)
            | None \<Rightarrow> retry_loop E tr rq wh n (ask E rq s1)))"

definition Completion ::
  "env \<Rightarrow> bool \<Rightarrow> request \<Rightarrow> string \<Rightarrow> nat \<Rightarrow> 'a session_scheme \<Rightarrow> (string + reply list) \<times> 'a session_scheme" where
  "Completion E tr rq wh maxAttempts s =
     (let m = (if maxAttempts < 1 then 1 else maxAttempts) in retry_loop E tr rq wh (m - 1) (ask E rq s))"

definition stepAttempts :: nat where "stepAttempts = 3"

section \<open>The tool loop\<close>

datatype agent_error =
    AiNotConfigured
  | CtxErr string
  | ModelErr string
  | NoChoices nat string
  | EmptyAnswer nat
  | KeptCalling nat
  | ExtractorNoChoices
  | ExtractorEmpty
  | StructuredNoChoices
  | StructuredEmpty
  | GenerationNoChoices
  | GenerationEmpty

definition groundingNudge :: string where
  "groundingNudge = ''Before answering, ground your answer: call at least one available tool to verify against the repo. If the question has nothing to do with this repo's code, answer directly instead.''"

definition closeOutPrompt :: string where
  "closeOutPrompt = ''You have used all available tool rounds. Provide your final answer now based on everything gathered '' @ em_dash @ '' no more tool calls.''"

definition newLoop :: "config \<Rightarrow> tool list \<Rightarrow> msg list \<Rightarrow> nat \<Rightarrow> session \<Rightarrow> loop" where
  "newLoop cfg tools ms m s =
     \<lparr>sn_trace = sn_trace s, sn_lin = sn_lin s, sn_sent = sn_sent s,
      lp_model = cf_model cfg, lp_tools = tools, lp_msgs = ms, lp_maxStep = m,
      lp_lastCall = '''', lp_roundsDone = 0, lp_groundNudged = False\<rparr>"

text \<open>A later tool of the same name replaces an earlier one.\<close>

definition byName :: "tool list \<Rightarrow> string \<Rightarrow> tool option" where
  "byName ts = map_of (rev (map (\<lambda>t. (tl_name t, t)) ts))"

definition loop_params :: "loop \<Rightarrow> request" where
  "loop_params l = \<lparr>rq_model = lp_model l, rq_msgs = lp_msgs l, rq_tools = map tl_name (lp_tools l), rq_schema = None\<rparr>"

definition is_function :: "tool_call \<Rightarrow> bool" where
  "is_function tc \<longleftrightarrow> tc_type tc = ''function''"

definition where_step :: "nat \<Rightarrow> string" where
  "where_step step = ''step '' @ itoa (int step + 1)"

definition request_step :: "env \<Rightarrow> nat \<Rightarrow> loop \<Rightarrow> (agent_error + reply) \<times> loop" where
  "request_step E step l =
     (let rq = loop_params l;
          l1 = record_lin ''llm_request'' (\<lambda>ev. ev\<lparr>le_step := step, le_model := lp_model l,
                 le_content := capLine (trim_space (tailText (lp_msgs l))) 2000\<rparr>) l
      in case Completion E True rq (where_step step) stepAttempts l1 of
           (Inl e, l2) \<Rightarrow> (Inl (ModelErr e), record_lin ''error'' (\<lambda>ev. ev\<lparr>le_step := step, le_err := e\<rparr>) l2)
         | (Inr res, l2) \<Rightarrow>
             (let l3 = record_lin ''llm_response'' (\<lambda>ev.
                    let ev1 = ev\<lparr>le_step := step, le_model := lp_model l\<rparr>
                    in case res of
                         [] \<Rightarrow> ev1
                       | m # _ \<Rightarrow> ev1\<lparr>le_content := capLine (trim_space (rp_content m)) 8000,
                           le_calls := map (\<lambda>tc. (tc_name tc, capLine (tc_args tc) 2000))
                             (filter is_function (rp_calls m))\<rparr>) l2
              in case res of
                   [] \<Rightarrow>
                     (let preview = previewOf (env_raw E res)
                      in (Inl (NoChoices step preview),
                          record_lin ''error'' (\<lambda>ev. ev\<lparr>le_step := step, le_err := ''model returned no choices''\<rparr>)
                            (add_trace (model_error (''model returned no choices (response: '' @ preview @ '')'')) l3)))
                 | m # _ \<Rightarrow> (Inr m, l3)))"

definition settleText :: "nat \<Rightarrow> string \<Rightarrow> loop \<Rightarrow> (agent_error + string \<times> bool) \<times> loop" where
  "settleText step txt l =
     (if txt = '''' then
        (Inl (EmptyAnswer step),
         record_lin ''error'' (\<lambda>ev. ev\<lparr>le_step := step, le_err := ''model returned an empty answer''\<rparr>)
           (add_trace (model_error (''model returned an empty answer on '' @ where_step step)) l))
      else if lp_tools l \<noteq> [] \<and> lp_roundsDone l = 0 \<and> \<not> lp_groundNudged l
              \<and> int step < int (lp_maxStep l) - 1 \<and> \<not> contains txt ''Not a codebase question'' then
        (Inr ('''', True),
         l\<lparr>lp_groundNudged := True, lp_msgs := lp_msgs l @ [assistantMsg txt, userMsg groundingNudge]\<rparr>)
      else
        (Inr (txt, False),
         record_lin ''final_answer'' (\<lambda>ev. ev\<lparr>le_step := step, le_content := capLine txt 16000\<rparr>) l))"

text \<open>
  \<open>answerTools\<close>: the calls of one reply are planned in order - a repeat of the call before it is
  answered with an error, an unknown tool too - then the rest runs, and the replies are committed in
  the order of the calls.
\<close>

datatype planned = Fixed string string | Execute string string string tool

definition call_key :: "string \<Rightarrow> string \<Rightarrow> string" where
  "call_key name args = name @ CHR 0x00 # args"

definition repeat_text :: "string \<Rightarrow> string" where
  "repeat_text name = ''error: identical to the previous tool call ('' @ name @ '') '' @ em_dash
     @ '' not executed. Do not repeat it: change the tool or arguments, or answer with what you have.''"

definition tool_event :: "string \<Rightarrow> nat \<Rightarrow> string \<Rightarrow> string \<Rightarrow> trace_event" where
  "tool_event kind step name args = trace0\<lparr>te_kind := kind, te_round := step, te_tool := name, te_args := args\<rparr>"

definition tool_line :: "nat \<Rightarrow> string \<Rightarrow> string \<Rightarrow> lineage_event \<Rightarrow> lineage_event" where
  "tool_line step name args ev = ev\<lparr>le_step := step, le_tool := name, le_args := capLine args 2000\<rparr>"

fun plan_calls :: "nat \<Rightarrow> tool_call list \<Rightarrow> string \<Rightarrow> loop \<Rightarrow> planned list \<times> string \<times> loop" where
  "plan_calls step [] prev l = ([], prev, l)"
| "plan_calls step (tc # tcs) prev l =
     (if \<not> is_function tc then plan_calls step tcs prev l
      else
        (let name = tc_name tc; args = tc_args tc; key = call_key name args
         in if key = prev then
              (let blocked = ''blocked consecutive repeat'';
                   l1 = add_trace ((tool_event ''tool_done'' step name args)\<lparr>te_err := blocked\<rparr>)
                          (add_trace (tool_event ''tool_start'' step name args) l);
                   l2 = record_lin ''tool_done'' (\<lambda>ev. (tool_line step name args ev)\<lparr>le_err := blocked\<rparr>)
                          (record_lin ''tool_start'' (tool_line step name args) l1);
                   (ps, r) = plan_calls step tcs prev l2
               in (Fixed (tc_id tc) (repeat_text name) # ps, r))
            else
              (case byName (lp_tools l) name of
                 None \<Rightarrow>
                   (let (ps, r) = plan_calls step tcs prev l
                    in (Fixed (tc_id tc) (''unknown tool '' @ name) # ps, r))
               | Some t \<Rightarrow>
                   (let l1 = record_lin ''tool_start'' (tool_line step name args)
                               (add_trace (tool_event ''tool_start'' step name args) l);
                        (ps, r) = plan_calls step tcs key l1
                    in (Execute (tc_id tc) name args t # ps, r)))))"

fun commit_calls :: "nat \<Rightarrow> planned list \<Rightarrow> loop \<Rightarrow> loop" where
  "commit_calls step [] l = l"
| "commit_calls step (Fixed i out # ps) l =
     commit_calls step ps (l\<lparr>lp_msgs := lp_msgs l @ [toolReply i out]\<rparr>)"
| "commit_calls step (Execute i name args t # ps) l =
     (let r = tl_run t (lp_roundsDone l) args;
          out = (case r of Inl e \<Rightarrow> ''error: '' @ e | Inr out \<Rightarrow> out);
          err = (case r of Inl e \<Rightarrow> e | Inr _ \<Rightarrow> '''');
          l1 = add_trace ((tool_event ''tool_done'' step name args)\<lparr>te_result := out, te_err := err\<rparr>) l;
          l2 = record_lin ''tool_done'' (\<lambda>ev. (tool_line step name args ev)\<lparr>le_output := capLine out 8000,
                 le_err := capLine err 4000\<rparr>) l1
      in commit_calls step ps (l2\<lparr>lp_msgs := lp_msgs l2 @ [toolReply i (capMsg out)]\<rparr>))"

definition echo_calls :: "tool_call list \<Rightarrow> echoed list" where
  "echo_calls tcs = map (\<lambda>tc. toolCallOf (tc_id tc) (tc_name tc) (tc_args tc)) (filter is_function tcs)"

definition answerTools :: "nat \<Rightarrow> reply \<Rightarrow> loop \<Rightarrow> loop" where
  "answerTools step m l =
     (let txt = (if rp_content m = '''' then ''(calling tools)'' else rp_content m);
          l1 = add_trace (trace0\<lparr>te_kind := ''round'', te_round := step, te_text := txt\<rparr>) l;
          l2 = l1\<lparr>lp_roundsDone := lp_roundsDone l + 1,
                  lp_msgs := lp_msgs l @ [assistantCallsMsg txt (echo_calls (rp_calls m))]\<rparr>;
          (ps, prev, l3) = plan_calls step (rp_calls m) (lp_lastCall l) l2
      in commit_calls step ps (l3\<lparr>lp_lastCall := prev\<rparr>))"

definition closeOut :: "env \<Rightarrow> loop \<Rightarrow> (agent_error + string) \<times> loop" where
  "closeOut E l =
     (let m = lp_maxStep l;
          l1 = l\<lparr>lp_msgs := lp_msgs l @ [userMsg closeOutPrompt]\<rparr>;
          rq = \<lparr>rq_model = lp_model l, rq_msgs = lp_msgs l1, rq_tools = [], rq_schema = None\<rparr>;
          l2 = record_lin ''llm_request'' (\<lambda>ev. ev\<lparr>le_step := m, le_model := lp_model l,
                 le_content := capLine (trim_space (tailText (lp_msgs l1))) 2000\<rparr>) l1
      in case Completion E True rq ''final-answer call'' stepAttempts l2 of
           (Inl e, l3) \<Rightarrow> (Inl (KeptCalling m),
              record_lin ''error'' (\<lambda>ev. ev\<lparr>le_err := e\<rparr>) (add_trace (model_error e) l3))
         | (Inr [], l3) \<Rightarrow> (Inl (KeptCalling m),
              record_lin ''error'' (\<lambda>ev. ev\<lparr>le_err := ''final-answer call returned no choices''\<rparr>)
                (add_trace (model_error (''final-answer call returned no choices after '' @ itoa (int m) @ '' tool steps'')) l3))
         | (Inr (r # _), l3) \<Rightarrow>
             (let txt = trim_space (rp_content r)
              in if txt = '''' then (Inl (KeptCalling m),
                   record_lin ''error'' (\<lambda>ev. ev\<lparr>le_err := ''final-answer call returned empty answer''\<rparr>) l3)
                 else (Inr txt, record_lin ''final_answer'' (\<lambda>ev. ev\<lparr>le_content := capLine txt 16000\<rparr>) l3)))"

text \<open>\<open>gather\<close>, with the number of steps left.\<close>

fun gather_loop :: "env \<Rightarrow> nat \<Rightarrow> loop \<Rightarrow> (agent_error + string) \<times> loop" where
  "gather_loop E 0 l = closeOut E l"
| "gather_loop E (Suc left) l =
     (let step = lp_maxStep l - Suc left
      in case env_cancel E step of
           Some e \<Rightarrow> (Inl (CtxErr e), l)
         | None \<Rightarrow>
             (case request_step E step l of
                (Inl e, l1) \<Rightarrow> (Inl e, l1)
              | (Inr m, l1) \<Rightarrow>
                  if rp_calls m = [] then
                    (case settleText step (trim_space (rp_content m)) l1 of
                       (Inl e, l2) \<Rightarrow> (Inl e, l2)
                     | (Inr (answer, nudge), l2) \<Rightarrow>
                         if \<not> nudge then (Inr answer, l2) else gather_loop E left l2)
                  else gather_loop E left (answerTools step m l1)))"

definition gather :: "env \<Rightarrow> loop \<Rightarrow> (agent_error + string) \<times> loop" where
  "gather E l = gather_loop E (lp_maxStep l) l"

section \<open>Shaping the answer\<close>

definition light_event :: "lineage_event \<Rightarrow> lineage_event" where
  "light_event ev = ev\<lparr>le_model := '''', le_args := capLine (le_args ev) 2000, le_output := capLine (le_output ev) 6000,
     le_content := capLine (le_content ev) 8000, le_err := capLine (le_err ev) 2000\<rparr>"

definition extractorPrompt :: string where
  "extractorPrompt = ''You are the structuredExtractor tier. Produce only JSON matching the response schema. The evidence has two fields: answer holds the findings '' @ em_dash @ '' section titles and summaries come from THIS; events is the tool log '' @ em_dash @ '' use it only to preserve valid refs, never turn tool calls, reads, or searches into sections. Write the answer as a flow map: 2-8 sections in execution order, entrypoint first and downstream next, each shaped like the example. Title names the step's finding, never an action or a bare filename. Summary is one or two sentences naming the exact functions involved and the handoff between them (calls, emits, writes to). Every section carries the exact lines backing it as refs; omit a section no lines back. Prune chatter and do not invent refs, paths, or line numbers. Ref paths must be repo-relative, such as server/cmd/server/main.go, never /server/... or another absolute path. Preserve valid refs from tool evidence. Example shape: {\"sections\":[{\"title\":\"Login submits credentials\",\"summary\":\"handleLogin() validates input and calls SessionService.create().\",\"refs\":[{\"path\":\"src/auth.js\",\"startLine\":10,\"endLine\":14,\"function\":\"handleLogin\"}]},{\"title\":\"Session is created\",\"summary\":\"SessionService.create() writes the row and emits session.created.\",\"refs\":[{\"path\":\"src/session.js\",\"startLine\":40,\"endLine\":52,\"function\":\"create\"}]}]}''"

definition formatResult ::
  "env \<Rightarrow> config \<Rightarrow> string option \<Rightarrow> string \<Rightarrow> 'a session_scheme \<Rightarrow> (agent_error + string) \<times> 'a session_scheme" where
  "formatResult E cfg schema out s =
     (case schema of
        None \<Rightarrow> (Inr out, s)
      | Some _ \<Rightarrow>
          (let evidence = \<lparr>ev_answer = capLine out 16000,
                 ev_events = map_option (\<lambda>l. map light_event (ln_events l)) (sn_lin s)\<rparr>;
               rq = \<lparr>rq_model = cf_model cfg, rq_msgs = [Dev extractorPrompt, UserEvidence evidence], rq_tools = [],
                 rq_schema = schema\<rparr>;
               s1 = record_lin ''format_request'' (\<lambda>ev. ev\<lparr>le_model := cf_model cfg\<rparr>) s
           in case Completion E True rq ''format call'' 1 s1 of
                (Inl e, s2) \<Rightarrow> (Inl (ModelErr e),
                   record_lin ''format_request'' (\<lambda>ev. ev\<lparr>le_err := e\<rparr>)
                     (add_trace (model_error (''structuredExtractor failed: '' @ e)) s2))
              | (Inr [], s2) \<Rightarrow> (Inl ExtractorNoChoices,
                   record_lin ''format_response'' (\<lambda>ev. ev\<lparr>le_err := ''no choices''\<rparr>)
                     (add_trace (model_error ''structuredExtractor returned no choices'') s2))
              | (Inr (r # _), s2) \<Rightarrow>
                  (let formatted = trim_space (rp_content r)
                   in if formatted = '''' then (Inl ExtractorEmpty,
                        record_lin ''format_response'' (\<lambda>ev. ev\<lparr>le_err := ''empty answer''\<rparr>)
                          (add_trace (model_error ''structuredExtractor returned empty answer'') s2))
                      else (Inr formatted, record_lin ''format_response'' (\<lambda>ev. ev\<lparr>le_model := cf_model cfg,
                          le_content := capLine formatted 16000\<rparr>) s2))))"

definition Structured ::
  "env \<Rightarrow> config \<Rightarrow> string \<Rightarrow> string \<Rightarrow> string \<Rightarrow> session \<Rightarrow> (agent_error + string) \<times> session" where
  "Structured E cfg sys user schemaName s =
     (if \<not> Valid cfg then (Inl AiNotConfigured, s)
      else
        (let s0 = s\<lparr>sn_lin := map_option (\<lambda>l. l\<lparr>ln_model := cf_model cfg\<rparr>) (sn_lin s)\<rparr>;
             rq = \<lparr>rq_model = cf_model cfg, rq_msgs = [devMsg sys, userMsg user], rq_tools = [], rq_schema = Some schemaName\<rparr>;
             s1 = record_lin ''llm_request'' (\<lambda>ev. ev\<lparr>le_model := cf_model cfg,
                    le_content := capLine (trim_space user) 2000\<rparr>) s0
         in case Completion E False rq ''structured call'' 1 s1 of
              (Inl e, s2) \<Rightarrow> (Inl (ModelErr e), record_lin ''error'' (\<lambda>ev. ev\<lparr>le_err := e\<rparr>) s2)
            | (Inr res, s2) \<Rightarrow>
                (let s3 = record_lin ''llm_response'' (\<lambda>ev.
                       let ev1 = ev\<lparr>le_model := cf_model cfg\<rparr>
                       in case res of [] \<Rightarrow> ev1
                          | r # _ \<Rightarrow> ev1\<lparr>le_content := capLine (trim_space (rp_content r)) 2000\<rparr>) s2
                 in case res of
                      [] \<Rightarrow> (Inl StructuredNoChoices, s3)
                    | r # _ \<Rightarrow>
                        (let out = trim_space (rp_content r)
                         in if out = '''' then (Inl StructuredEmpty, s3) else (Inr out, s3)))))"

definition CompleteJSON ::
  "env \<Rightarrow> config \<Rightarrow> string \<Rightarrow> string \<Rightarrow> string \<Rightarrow> session \<Rightarrow> (agent_error + string) \<times> session" where
  "CompleteJSON E cfg sys user schemaName s =
     (if \<not> Valid cfg then (Inl AiNotConfigured, s)
      else
        (let rq = \<lparr>rq_model = cf_model cfg, rq_msgs = [devMsg sys, userMsg user], rq_tools = [], rq_schema = Some schemaName\<rparr>
         in case Completion E False rq ''aigen call'' 2 s of
              (Inl e, s1) \<Rightarrow> (Inl (ModelErr e), s1)
            | (Inr [], s1) \<Rightarrow> (Inl GenerationNoChoices, s1)
            | (Inr (r # _), s1) \<Rightarrow> if rp_content r = '''' then (Inl GenerationEmpty, s1) else (Inr (rp_content r), s1)))"

text \<open>
  \<open>GateVerdict\<close>: the outermost braces are cut out, decoded (\<open>verdict\<close>: the boolean under the key,
  when the text decodes as an object with one), and anything unclear counts as true.
\<close>

definition GateVerdict :: "(string \<Rightarrow> bool option) \<Rightarrow> string \<Rightarrow> bool" where
  "GateVerdict verdict raw =
     (let s = trim_space raw;
          s1 = (case index_of ''{'' s of
                  None \<Rightarrow> s
                | Some i \<Rightarrow>
                    if 0 < i then
                      (case cut_last CHR ''}'' s of
                         None \<Rightarrow> s
                       | Some (a, _) \<Rightarrow> if i < length a then drop i (take (length a + 1) s) else s)
                    else s)
      in case verdict s1 of None \<Rightarrow> True | Some b \<Rightarrow> b)"


section \<open>Requests from history\<close>

record step =
  st_tool :: string
  st_args :: string
  st_output :: string
  st_err :: string

record history_entry =
  he_role :: string
  he_content :: string
  he_steps :: "step list"

definition parseToolSteps :: "step list \<Rightarrow> step list" where
  "parseToolSteps arr =
     filter (\<lambda>st. trim_space (st_tool st) \<noteq> '''')
       (map (\<lambda>st. \<lparr>st_tool = json_string (st_tool st), st_args = json_string (st_args st),
                   st_output = json_string (st_output st), st_err = json_string (st_err st)\<rparr>) arr)"

definition call_id :: "nat \<Rightarrow> string" where
  "call_id i = ''call_'' @ itoa (int i)"

text \<open>The kept steps with the ids they get.\<close>

definition kept_steps :: "step list \<Rightarrow> nat \<Rightarrow> (string \<times> step) list" where
  "kept_steps steps s =
     (let ks = filter (\<lambda>st. trim_space (st_tool st) \<noteq> '''') steps
      in zip (map call_id [s..<s + length ks]) ks)"

definition step_out :: "step \<Rightarrow> string" where
  "step_out st = (if trim_space (st_err st) \<noteq> '''' then ''error: '' @ st_err st else st_output st)"

definition replayCalls :: "string \<Rightarrow> step list \<Rightarrow> nat \<Rightarrow> msg list option \<times> nat" where
  "replayCalls content steps s =
     (let txt = (if trim_space content = '''' then ''(calling tools)'' else content);
          ks = kept_steps steps s
      in if ks = [] then (None, s)
         else (Some (assistantCallsMsg txt (map (\<lambda>(i, st). toolCallOf i (st_tool st) (st_args st)) ks)
                     # map (\<lambda>(i, st). toolReply i (step_out st)) ks),
               s + length ks))"

fun assemble_history :: "history_entry list \<Rightarrow> nat \<Rightarrow> msg list" where
  "assemble_history [] s = []"
| "assemble_history (h # hs) s =
     (let steps = parseToolSteps (he_steps h)
      in if he_role h = ''assistant'' \<and> steps \<noteq> [] then
           (case replayCalls (he_content h) steps s of
              (None, s1) \<Rightarrow> assemble_history hs s1
            | (Some ms, s1) \<Rightarrow> ms @ assemble_history hs s1)
         else if he_content h = '''' then assemble_history hs s
         else (if he_role h = ''assistant'' then assistantMsg (he_content h) else userMsg (he_content h))
              # assemble_history hs s)"

definition assembleMessages :: "string \<Rightarrow> string \<Rightarrow> history_entry list \<Rightarrow> msg list" where
  "assembleMessages sysPrompt userPrompt history =
     devMsg sysPrompt # assemble_history history 0 @ [userMsg userPrompt]"

datatype run_option = WithoutGroundingNudge | WithLeadIn string

definition apply_option :: "run_option \<Rightarrow> loop \<Rightarrow> loop" where
  "apply_option o1 l =
     (case o1 of
        WithoutGroundingNudge \<Rightarrow> l\<lparr>lp_groundNudged := True\<rparr>
      | WithLeadIn txt \<Rightarrow>
          (case lp_msgs l of
             [] \<Rightarrow> l
           | m # ms \<Rightarrow> if trim_space txt = '''' then l else l\<lparr>lp_msgs := m # devMsg txt # ms\<rparr>))"

definition Run ::
  "env \<Rightarrow> config \<Rightarrow> string \<Rightarrow> string \<Rightarrow> history_entry list \<Rightarrow> tool list \<Rightarrow> string option \<Rightarrow> int \<Rightarrow> run_option list
   \<Rightarrow> session \<Rightarrow> (agent_error + string) \<times> session" where
  "Run E cfg sysPrompt userPrompt history tools schema maxSteps opts s =
     (if \<not> Valid cfg then (Inl AiNotConfigured, s)
      else
        (let m = nat (if maxSteps \<le> 0 then 8 else maxSteps);
             s1 = s\<lparr>sn_lin := map_option (\<lambda>l. SetTools tools (l\<lparr>ln_model := cf_model cfg\<rparr>)) (sn_lin s)\<rparr>;
             l = foldl (\<lambda>l o1. apply_option o1 l)
                   (newLoop cfg tools (assembleMessages sysPrompt userPrompt history) m s1) opts
         in case gather E l of
              (Inl e, l1) \<Rightarrow> (Inl e, session.truncate l1)
            | (Inr answer, l1) \<Rightarrow> formatResult E cfg schema answer (session.truncate l1)))"


section \<open>Transcripts and history\<close>

record round =
  ro_thought :: string
  ro_steps :: "step list"

record collector =
  co_rounds :: "round list"
  co_pending :: "step list"

definition add_step :: "step \<Rightarrow> round list \<Rightarrow> round list" where
  "add_step st rs =
     (let rs1 = (if rs = [] then [\<lparr>ro_thought = '''', ro_steps = []\<rparr>] else rs);
          cur = last rs1
      in butlast rs1 @ [cur\<lparr>ro_steps := ro_steps cur @ [st]\<rparr>])"

definition Collect :: "collector \<Rightarrow> trace_event \<Rightarrow> collector" where
  "Collect c ev =
     (if te_kind ev = ''round'' then
        c\<lparr>co_rounds := co_rounds c @ [\<lparr>ro_thought = te_text ev, ro_steps = []\<rparr>]\<rparr>
      else if te_kind ev = ''tool_start'' then
        c\<lparr>co_pending := co_pending c
            @ [\<lparr>st_tool = te_tool ev, st_args = te_args ev, st_output = '''', st_err = ''''\<rparr>]\<rparr>
      else if te_kind ev = ''tool_done'' then
        (let (st, rest) = (case co_pending c of
               p # ps \<Rightarrow> (p, ps)
             | [] \<Rightarrow> (\<lparr>st_tool = te_tool ev, st_args = te_args ev, st_output = '''', st_err = ''''\<rparr>, []));
             st1 = (if te_err ev \<noteq> '''' then st\<lparr>st_err := te_err ev\<rparr> else st\<lparr>st_output := te_result ev\<rparr>)
         in \<lparr>co_rounds = add_step st1 (co_rounds c), co_pending = rest\<rparr>)
      else c)"

definition collect_all :: "trace_event list \<Rightarrow> round list" where
  "collect_all evs = co_rounds (foldl Collect \<lparr>co_rounds = [], co_pending = []\<rparr> evs)"

record turn_view =
  tv_prompt :: string
  tv_answer :: string
  tv_steps :: "step list"
  tv_failed :: bool

definition view_size :: "turn_view \<Rightarrow> int" where
  "view_size t = int (length (tv_prompt t) + length (tv_answer t)
     + sum_list (map (\<lambda>s. length (st_output s) + length (st_err s)) (tv_steps t)))"

fun drop_oldest :: "int \<Rightarrow> int \<Rightarrow> turn_view list \<Rightarrow> turn_view list" where
  "drop_oldest m tot [] = []"
| "drop_oldest m tot (t # ts) = (if m < tot then drop_oldest m (tot - view_size t) ts else t # ts)"

definition bound_turns :: "int \<Rightarrow> int \<Rightarrow> turn_view list \<Rightarrow> turn_view list" where
  "bound_turns maxTurns maxChars ts =
     (let ts1 = (if 0 < maxTurns \<and> maxTurns < int (length ts) then drop (length ts - nat maxTurns) ts else ts)
      in if 0 < maxChars then drop_oldest maxChars (sum_list (map view_size ts1)) ts1 else ts1)"

definition replayed :: "step \<Rightarrow> bool" where
  "replayed s \<longleftrightarrow> trim_space (st_tool s) \<noteq> '''' \<and> \<not> (trim_space (st_output s) = '''' \<and> trim_space (st_err s) = '''')"

definition history_of :: "string \<Rightarrow> turn_view \<Rightarrow> history_entry list" where
  "history_of userPrompt t =
     (if trim_space (tv_prompt t) = '''' \<and> trim_space (tv_answer t) = '''' \<and> tv_steps t = [] then []
      else if tv_answer t = '''' \<and> \<not> tv_failed t \<and> tv_prompt t = userPrompt then []
      else
        (if trim_space (tv_prompt t) \<noteq> ''''
         then [\<lparr>he_role = ''user'', he_content = tv_prompt t, he_steps = []\<rparr>] else [])
        @ (if tv_failed t then []
           else
             (let toolSteps = filter replayed (tv_steps t)
              in if toolSteps \<noteq> [] then [\<lparr>he_role = ''assistant'', he_content = tv_answer t, he_steps = toolSteps\<rparr>]
                 else if trim_space (tv_answer t) \<noteq> ''''
                   then [\<lparr>he_role = ''assistant'', he_content = tv_answer t, he_steps = []\<rparr>]
                 else [])))"

definition BuildHistory :: "turn_view list \<Rightarrow> string \<Rightarrow> int \<Rightarrow> int \<Rightarrow> history_entry list" where
  "BuildHistory turns userPrompt maxTurns maxChars =
     concat (map (history_of userPrompt) (bound_turns maxTurns maxChars turns))"

record scope_gate =
  sg_prompt :: string
  sg_schemaName :: string
  sg_refused :: "string \<Rightarrow> bool"
  sg_refusal :: string

record turn_spec =
  sp_system :: string
  sp_tools :: "tool list"
  sp_maxSteps :: int
  sp_schema :: "string option"
  sp_opts :: "run_option list"

record turn_result =
  tr_answer :: string
  tr_rounds :: "round list"
  tr_error :: "agent_error option"
  tr_refused :: bool

text \<open>
  The whole turn. The context is a function of the prompt; the collector folds what the run traced.
  The result goes to the caller's post stage once.
\<close>

definition run_turn ::
  "env \<Rightarrow> config \<Rightarrow> turn_spec \<Rightarrow> history_entry list \<Rightarrow> string \<Rightarrow> session \<Rightarrow> turn_result \<times> session" where
  "run_turn E cfg spec hist userPrompt s =
     (let (r, s1) = Run E cfg (sp_system spec) userPrompt hist (sp_tools spec) (sp_schema spec) (sp_maxSteps spec)
                      (sp_opts spec) s
      in (\<lparr>tr_answer = (case r of Inl _ \<Rightarrow> '''' | Inr a \<Rightarrow> a),
           tr_rounds = collect_all (drop (length (sn_trace s)) (sn_trace s1)),
           tr_error = (case r of Inl e \<Rightarrow> Some e | Inr _ \<Rightarrow> None), tr_refused = False\<rparr>, s1))"

definition Execute_turn ::
  "env \<Rightarrow> config \<Rightarrow> scope_gate option \<Rightarrow> (string \<Rightarrow> history_entry list) option \<Rightarrow> turn_spec \<Rightarrow> string \<Rightarrow> session
   \<Rightarrow> turn_result \<times> session" where
  "Execute_turn E cfg scope context spec userPrompt s =
     (let hist = (case context of None \<Rightarrow> [] | Some f \<Rightarrow> f userPrompt)
      in case scope of
           None \<Rightarrow> run_turn E cfg spec hist userPrompt s
         | Some g \<Rightarrow>
             (case Structured E cfg (sg_prompt g) userPrompt (sg_schemaName g) s of
                (Inr verdict, s1) \<Rightarrow>
                  if sg_refused g verdict
                  then (\<lparr>tr_answer = sg_refusal g, tr_rounds = [], tr_error = None, tr_refused = True\<rparr>, s1)
                  else run_turn E cfg spec hist userPrompt s1
              | (Inl _, s1) \<Rightarrow> run_turn E cfg spec hist userPrompt s1))"


section \<open>The checklist tool\<close>

datatype todo_error = BadTodoArgs string | TooManyTodos | TodoContent nat | TodoStatus nat | ManyInProgress

definition todoStatuses :: "string list" where
  "todoStatuses = [''pending'', ''in_progress'', ''completed'', ''cancelled'']"

definition todoPriorities :: "string list" where
  "todoPriorities = [''high'', ''medium'', ''low'']"

fun check_todos :: "nat \<Rightarrow> todo list \<Rightarrow> todo_error option" where
  "check_todos i [] = None"
| "check_todos i (t # ts) =
     (if trim_space (td_content t) = '''' \<or> 500 < length (runes (td_content t)) then Some (TodoContent (i + 1))
      else if td_status t \<notin> set todoStatuses \<or> td_priority t \<notin> set todoPriorities then Some (TodoStatus (i + 1))
      else check_todos (i + 1) ts)"

text \<open>The arguments come decoded, or as the decoder's error; the result is the list as JSON.\<close>

definition TodoTool :: "string + todo list \<Rightarrow> lineage option \<Rightarrow> (todo_error + todo list) \<times> lineage option" where
  "TodoTool args lin =
     (case args of
        Inl e \<Rightarrow> (Inl (BadTodoArgs e), lin)
      | Inr ts \<Rightarrow>
          if 20 < length ts then (Inl TooManyTodos, lin)
          else (case check_todos 0 ts of
                  Some e \<Rightarrow> (Inl e, lin)
                | None \<Rightarrow>
                    if 1 < length (filter (\<lambda>t. td_status t = ''in_progress'') ts) then (Inl ManyInProgress, lin)
                    else (Inr ts, map_option (SetTodos ts) lin)))"

section \<open>Every call is answered\<close>

fun reply_of :: "msg \<Rightarrow> string option" where
  "reply_of (ToolReply i _) = Some i"
| "reply_of _ = None"

text \<open>
  What providers require: every call an assistant message echoes is answered by the tool messages
  right after it, in order, and there are no others.
\<close>

fun answered :: "msg list \<Rightarrow> bool" where
  "answered [] \<longleftrightarrow> True"
| "answered (Assistant t cs # ms) \<longleftrightarrow>
     map reply_of (take (length cs) ms) = map (\<lambda>c. Some (ec_id c)) cs \<and> answered (drop (length cs) ms)"
| "answered (ToolReply _ _ # ms) \<longleftrightarrow> False"
| "answered (Dev _ # ms) \<longleftrightarrow> answered ms"
| "answered (User _ # ms) \<longleftrightarrow> answered ms"
| "answered (UserEvidence _ # ms) \<longleftrightarrow> answered ms"

lemma answered_append: "answered xs \<Longrightarrow> answered (xs @ ys) = answered ys"
proof (induction xs rule: answered.induct)
  case (2 t cs ms)
  then have "length (take (length cs) ms) = length cs" by (metis answered.simps(2) length_map)
  with 2 show ?case by simp
qed simp_all

lemma answered_block:
  "map reply_of rs = map (\<lambda>c. Some (ec_id c)) cs \<Longrightarrow> answered (Assistant t cs # rs @ ms) = answered ms"
proof -
  assume rs: "map reply_of rs = map (\<lambda>c. Some (ec_id c)) cs"
  then have "length rs = length cs" by (metis length_map)
  with rs show ?thesis by simp
qed

lemma constructors_answered [simp]:
  "answered (devMsg t # ms) = answered ms" "answered (userMsg t # ms) = answered ms"
  "answered (assistantMsg t # ms) = answered ms" "reply_of (toolReply i out) = Some i"
  by (simp_all add: devMsg_def userMsg_def assistantMsg_def toolReply_def)

text \<open>Records of one part are not touched by updates of another.\<close>

lemma add_trace_simps [simp]:
  "sn_sent (add_trace ev s) = sn_sent s" "sn_lin (add_trace ev s) = sn_lin s"
  "sn_trace (add_trace ev s) = sn_trace s @ [ev]"
  by (simp_all add: add_trace_def)

lemma record_lin_simps [simp]:
  "sn_sent (record_lin k f s) = sn_sent s" "sn_trace (record_lin k f s) = sn_trace s"
  by (simp_all add: record_lin_def)

lemma loop_add_trace [simp]:
  "lp_msgs (add_trace ev l) = lp_msgs l" "lp_maxStep (add_trace ev l) = lp_maxStep l"
  "lp_tools (add_trace ev l) = lp_tools l" "lp_roundsDone (add_trace ev l) = lp_roundsDone l"
  "lp_lastCall (add_trace ev l) = lp_lastCall l" "lp_groundNudged (add_trace ev l) = lp_groundNudged l"
  by (simp_all add: add_trace_def)

lemma loop_record_lin [simp]:
  "lp_msgs (record_lin k f l) = lp_msgs l" "lp_maxStep (record_lin k f l) = lp_maxStep l"
  "lp_tools (record_lin k f l) = lp_tools l" "lp_roundsDone (record_lin k f l) = lp_roundsDone l"
  "lp_lastCall (record_lin k f l) = lp_lastCall l" "lp_groundNudged (record_lin k f l) = lp_groundNudged l"
  by (simp_all add: record_lin_def)

text \<open>One call sends the same request at most \<open>maxAttempts\<close> times and touches only trace and requests.\<close>

lemma ask_simps [simp]:
  "sn_sent (snd (ask E rq s)) = sn_sent s @ [rq]" "sn_trace (snd (ask E rq s)) = sn_trace s"
  by (simp_all add: ask_def)

lemma retry_loop_sent:
  assumes "retry_loop E tr rq wh n (r, s) = (r', s')"
  shows "\<exists>k \<le> n. sn_sent s' = sn_sent s @ replicate k rq"
  using assms
proof (induction n arbitrary: r s)
  case 0
  then show ?case by simp
next
  case (Suc n)
  let ?s1 = "if tr then add_trace (model_error (retry_reason E wh r @ '', retrying'')) s else s"
  show ?case
  proof (cases "(case r of Inl _ \<Rightarrow> False | Inr cs \<Rightarrow> describe cs = '''') \<or> env_cancelWait E (length (sn_sent ?s1)) \<noteq> None")
    case True
    then show ?thesis using Suc.prems by (intro exI [of _ 0]) (auto simp: Let_def split: if_splits)
  next
    case False
    then have "retry_loop E tr rq wh n (ask E rq ?s1) = (r', s')" using Suc.prems by (auto simp: Let_def)
    then have "retry_loop E tr rq wh n (fst (ask E rq ?s1), snd (ask E rq ?s1)) = (r', s')" by simp
    from Suc.IH [OF this] obtain k where k: "k \<le> n" "sn_sent s' = sn_sent (snd (ask E rq ?s1)) @ replicate k rq" by blast
    then show ?thesis by (intro exI [of _ "Suc k"]) (simp add: replicate_append_same [symmetric])
  qed
qed

lemma Completion_sent:
  assumes "Completion E tr rq wh m s = (r, s')"
  shows "\<exists>k. k \<le> max 1 m \<and> sn_sent s' = sn_sent s @ replicate k rq"
proof -
  have "retry_loop E tr rq wh ((if m < 1 then 1 else m) - 1) (fst (ask E rq s), snd (ask E rq s)) = (r, s')"
    using assms by (simp add: Completion_def Let_def)
  from retry_loop_sent [OF this] obtain k where
    k: "k \<le> (if m < 1 then 1 else m) - 1" "sn_sent s' = sn_sent (snd (ask E rq s)) @ replicate k rq" by blast
  then show ?thesis by (intro exI [of _ "Suc k"]) (auto simp: replicate_append_same [symmetric] max_def split: if_splits)
qed

text \<open>The loop fields survive a call.\<close>

lemma retry_loop_more:
  "(\<And>x. P (snd (ask E rq x)) = P x) \<Longrightarrow> (\<And>x ev. P (add_trace ev x) = P x) \<Longrightarrow>
   P (snd (retry_loop E tr rq wh n (r, s))) = P s"
proof (induction n arbitrary: r s)
  case (Suc n)
  have "P (snd (retry_loop E tr rq wh n (ask E rq x))) = P x" for x
    using Suc.IH [OF Suc.prems, of "fst (ask E rq x)" "snd (ask E rq x)"] Suc.prems(1) by simp
  then show ?case using Suc.prems(2) by (cases tr) (auto simp: Let_def split: option.split)
qed simp

lemma Completion_loop:
  fixes l :: loop
  assumes "Completion E tr rq wh m l = (r, l')"
  shows "lp_msgs l' = lp_msgs l" "lp_maxStep l' = lp_maxStep l" "lp_tools l' = lp_tools l"
    "lp_roundsDone l' = lp_roundsDone l" "lp_lastCall l' = lp_lastCall l" "lp_groundNudged l' = lp_groundNudged l"
proof -
  have "f (snd (Completion E tr rq wh m l)) = f l"
    if "\<And>x. f (snd (ask E rq x)) = f x" "\<And>x ev. f (add_trace ev x) = f x" for f :: "loop \<Rightarrow> 'b"
    using retry_loop_more [of f E rq tr wh _ "fst (ask E rq l)" "snd (ask E rq l)"] that
    by (simp add: Completion_def Let_def)
  note keep = this
  have l': "l' = snd (Completion E tr rq wh m l)" using assms by simp
  show "lp_msgs l' = lp_msgs l" "lp_maxStep l' = lp_maxStep l" "lp_tools l' = lp_tools l"
    "lp_roundsDone l' = lp_roundsDone l" "lp_lastCall l' = lp_lastCall l" "lp_groundNudged l' = lp_groundNudged l"
    unfolding l' by (rule keep; simp add: ask_def)+
qed

definition sends :: "nat \<Rightarrow> 'a session_scheme \<Rightarrow> 'b session_scheme \<Rightarrow> bool" where
  "sends n s s' \<longleftrightarrow> (\<exists>rqs. sn_sent s' = sn_sent s @ rqs \<and> length rqs \<le> n \<and> list_all (\<lambda>rq. answered (rq_msgs rq)) rqs)"

lemma sends_trans: "sends n s s1 \<Longrightarrow> sends m s1 s2 \<Longrightarrow> n + m \<le> k \<Longrightarrow> sends k s s2"
  unfolding sends_def by (elim exE conjE) (rule exI, intro conjI, (simp; fail), simp_all)

lemma sends_same: "sn_sent s' = sn_sent s \<Longrightarrow> sends n s s'"
  by (simp add: sends_def)

lemma sends_Completion:
  "Completion E tr rq wh m s = (r, s') \<Longrightarrow> answered (rq_msgs rq) \<Longrightarrow> max 1 m \<le> n \<Longrightarrow> sends n s s'"
  using Completion_sent [of E tr rq wh m s r s'] by (force simp: sends_def list_all_iff)

lemma sends_after: "sends n s s1 \<Longrightarrow> sn_sent s2 = sn_sent s1 \<Longrightarrow> sends n s s2"
  by (simp add: sends_def)

lemma sends_before: "sends n s1 s2 \<Longrightarrow> sn_sent s1 = sn_sent s \<Longrightarrow> sends n s s2"
  by (simp add: sends_def)

lemma plan_calls_more:
  "(\<And>x ev. P (add_trace ev x) = P x) \<Longrightarrow> (\<And>x k f. P (record_lin k f x) = P x) \<Longrightarrow>
   P (snd (snd (plan_calls step tcs prev l))) = P l"
  by (induction tcs arbitrary: prev l) (simp_all add: Let_def case_prod_beta split: option.split)

lemma plan_calls_loop:
  assumes "plan_calls step tcs prev l = (ps, prev', l')"
  shows "lp_msgs l' = lp_msgs l" "lp_maxStep l' = lp_maxStep l" "lp_tools l' = lp_tools l"
    "sn_sent l' = sn_sent l" "lp_roundsDone l' = lp_roundsDone l"
  using plan_calls_more [of lp_msgs step tcs prev l] plan_calls_more [of lp_maxStep step tcs prev l]
    plan_calls_more [of lp_tools step tcs prev l] plan_calls_more [of sn_sent step tcs prev l]
    plan_calls_more [of lp_roundsDone step tcs prev l] assms
  by simp_all

fun planned_id :: "planned \<Rightarrow> string" where
  "planned_id (Fixed i _) = i"
| "planned_id (Execute i _ _ _) = i"

lemma plan_calls_ids:
  "map planned_id (fst (plan_calls step tcs prev l)) = map ec_id (echo_calls tcs)"
  by (induction step tcs prev l rule: plan_calls.induct)
    (auto simp: Let_def echo_calls_def toolCallOf_def split: option.split prod.split)

lemma commit_calls_loop:
  "lp_maxStep (commit_calls step ps l) = lp_maxStep l \<and> lp_tools (commit_calls step ps l) = lp_tools l
   \<and> sn_sent (commit_calls step ps l) = sn_sent l
   \<and> (\<exists>rs. lp_msgs (commit_calls step ps l) = lp_msgs l @ rs \<and> map reply_of rs = map (\<lambda>p. Some (planned_id p)) ps)"
proof (induction step ps l rule: commit_calls.induct)
  case (2 step i out ps l)
  then obtain rs where "lp_msgs (commit_calls step ps (l\<lparr>lp_msgs := lp_msgs l @ [toolReply i out]\<rparr>)) =
      (lp_msgs l @ [toolReply i out]) @ rs" "map reply_of rs = map (\<lambda>p. Some (planned_id p)) ps" by auto
  with 2 show ?case by (auto intro!: exI [of _ "toolReply i out # rs"])
next
  case (3 step i name args t ps l)
  then show ?case by (fastforce simp: Let_def)
qed simp

lemma answerTools_ok:
  assumes "answered (lp_msgs l)"
  shows "answered (lp_msgs (answerTools step m l))" "lp_maxStep (answerTools step m l) = lp_maxStep l"
    "sn_sent (answerTools step m l) = sn_sent l"
proof -
  let ?t = "if rp_content m = '''' then ''(calling tools)'' else rp_content m"
  let ?l2 = "(add_trace (trace0\<lparr>te_kind := ''round'', te_round := step, te_text := ?t\<rparr>) l)
    \<lparr>lp_roundsDone := lp_roundsDone l + 1, lp_msgs := lp_msgs l @ [assistantCallsMsg ?t (echo_calls (rp_calls m))]\<rparr>"
  obtain ps prev l3 where p: "plan_calls step (rp_calls m) (lp_lastCall l) ?l2 = (ps, prev, l3)"
    by (rule prod_cases3)
  note k = plan_calls_loop [OF p]
  have ids: "map planned_id ps = map ec_id (echo_calls (rp_calls m))"
    using plan_calls_ids [of step "rp_calls m" "lp_lastCall l" ?l2] by (simp only: p fst_conv)
  have a: "answerTools step m l = commit_calls step ps (l3\<lparr>lp_lastCall := prev\<rparr>)"
    using p by (simp add: answerTools_def Let_def)
  obtain rs where rs: "lp_msgs (answerTools step m l) = lp_msgs l3 @ rs"
    "map reply_of rs = map (\<lambda>p. Some (planned_id p)) ps"
    using commit_calls_loop [of step ps "l3\<lparr>lp_lastCall := prev\<rparr>"] by (auto simp: a)
  have "map reply_of rs = map (\<lambda>c. Some (ec_id c)) (echo_calls (rp_calls m))"
    using rs(2) arg_cong [OF ids, of "map Some"] by (simp add: comp_def)
  then have "answered (Assistant ?t (echo_calls (rp_calls m)) # rs)"
    using answered_block [of rs "echo_calls (rp_calls m)" ?t "[]"] by simp
  then show "answered (lp_msgs (answerTools step m l))"
    using rs(1) k(1) answered_append [OF assms] by (simp add: assistantCallsMsg_def)
  show "lp_maxStep (answerTools step m l) = lp_maxStep l" "sn_sent (answerTools step m l) = sn_sent l"
    using commit_calls_loop [of step ps "l3\<lparr>lp_lastCall := prev\<rparr>"] k by (simp_all add: a)
qed

lemma request_step_ok:
  assumes run: "request_step E step l = (r, l')" and inv: "answered (lp_msgs l)"
  shows "lp_msgs l' = lp_msgs l" "lp_maxStep l' = lp_maxStep l" "sends 3 l l'"
proof -
  let ?l1 = "record_lin ''llm_request'' (\<lambda>ev. ev\<lparr>le_step := step, le_model := lp_model l,
                 le_content := capLine (trim_space (tailText (lp_msgs l))) 2000\<rparr>) l"
  obtain c l2 where c: "Completion E True (loop_params l) (where_step step) stepAttempts ?l1 = (c, l2)" by fastforce
  note k = Completion_loop [OF c]
  have "lp_msgs l' = lp_msgs l2 \<and> lp_maxStep l' = lp_maxStep l2 \<and> sn_sent l' = sn_sent l2"
    using run c by (auto simp: request_step_def Let_def split: sum.splits list.splits)
  moreover have "sends 3 l l2"
    by (rule sends_before [OF sends_Completion [OF c]]) (simp_all add: inv loop_params_def stepAttempts_def)
  ultimately show "lp_msgs l' = lp_msgs l" "lp_maxStep l' = lp_maxStep l" "sends 3 l l'"
    using k by (auto intro: sends_after)
qed

lemma settleText_ok:
  assumes "settleText step txt l = (r, l')" "answered (lp_msgs l)"
  shows "answered (lp_msgs l')" "lp_maxStep l' = lp_maxStep l" "sn_sent l' = sn_sent l"
    "r = Inr (a, False) \<Longrightarrow> a = txt \<and> a \<noteq> ''''"
  using assms answered_append [OF assms(2), of "[assistantMsg txt, userMsg groundingNudge]"]
  by (auto simp: settleText_def Let_def split: if_splits)

lemma closeOut_ok:
  assumes "closeOut E l = (r, l')" "answered (lp_msgs l)"
  shows "sends 3 l l'" "r = Inr a \<Longrightarrow> a \<noteq> ''''"
proof -
  let ?l1 = "l\<lparr>lp_msgs := lp_msgs l @ [userMsg closeOutPrompt]\<rparr>"
  let ?l2 = "record_lin ''llm_request'' (\<lambda>ev. ev\<lparr>le_step := lp_maxStep l, le_model := lp_model l,
                 le_content := capLine (trim_space (tailText (lp_msgs ?l1))) 2000\<rparr>) ?l1"
  let ?rq = "\<lparr>rq_model = lp_model l, rq_msgs = lp_msgs ?l1, rq_tools = [], rq_schema = None\<rparr>"
  obtain c l3 where c: "Completion E True ?rq ''final-answer call'' stepAttempts ?l2 = (c, l3)" by fastforce
  have "answered (lp_msgs l @ [userMsg closeOutPrompt])" using answered_append [OF assms(2)] by simp
  then have "sends 3 l l3"
    by (intro sends_before [OF sends_Completion [OF c]]) (simp_all add: stepAttempts_def)
  moreover have "sn_sent l' = sn_sent l3"
    using assms(1) c by (auto simp: closeOut_def Let_def split: sum.splits list.splits if_splits)
  ultimately show "sends 3 l l'" by (rule sends_after)
  show "r = Inr a \<Longrightarrow> a \<noteq> ''''"
    using assms(1) c by (auto simp: closeOut_def Let_def split: sum.splits list.splits if_splits)
qed

lemma gather_loop_ok:
  assumes "gather_loop E left l = (r, l')" "answered (lp_msgs l)"
  shows "sends (3 * (left + 1)) l l' \<and> (\<forall>a. r = Inr a \<longrightarrow> a \<noteq> '''')"
  using assms
proof (induction left arbitrary: l)
  case 0
  then show ?case using closeOut_ok [of E l r l'] by auto
next
  case (Suc left)
  let ?step = "lp_maxStep l - Suc left"
  obtain q l1 where q: "request_step E ?step l = (q, l1)" by fastforce
  note k = request_step_ok [OF q Suc.prems(2)]
  have a1: "answered (lp_msgs l1)" using k(1) Suc.prems(2) by simp
  have go: "sends (3 * (Suc left + 1)) l l' \<and> (\<forall>a. r = Inr a \<longrightarrow> a \<noteq> '''')"
    if "gather_loop E left l2 = (r, l')" "answered (lp_msgs l2)" "sn_sent l2 = sn_sent l1" for l2
    using Suc.IH [OF that(1,2)] sends_trans [OF k(3), of "3 * (left + 1)" l' "3 * (Suc left + 1)"]
      sends_before [of "3 * (left + 1)" l2 l' l1] that(3) by auto
  consider (cancelled) e where "env_cancel E ?step = Some e"
    | (failed) e where "env_cancel E ?step = None" "q = Inl e"
    | (text_only) m where "env_cancel E ?step = None" "q = Inr m" "rp_calls m = []"
    | (calls) m where "env_cancel E ?step = None" "q = Inr m" "rp_calls m \<noteq> []"
    by (cases "env_cancel E ?step"; cases q) auto
  then show ?case
  proof cases
    case cancelled
    then show ?thesis using Suc.prems by (auto simp: sends_same)
  next
    case failed
    then show ?thesis using Suc.prems q k(3) by (auto simp: Let_def sends_def)
  next
    case text_only
    obtain t l2 where t: "settleText ?step (trim_space (rp_content m)) l1 = (t, l2)" by fastforce
    note s = settleText_ok [OF t a1]
    have one: "sends (3 * (Suc left + 1)) l l2" using k(3) s(3) by (auto simp: sends_def)
    show ?thesis
      using Suc.prems text_only q t s(4) one go [OF _ s(1) s(3)]
      by (auto simp: Let_def split: sum.splits if_splits)
  next
    case calls
    note t = answerTools_ok [OF a1, of ?step m]
    show ?thesis
      using Suc.prems calls q go [OF _ t(1) t(3)] by (auto simp: Let_def)
  qed
qed

lemma replayCalls_answered:
  "replayCalls content steps s = (Some ms, s') \<Longrightarrow> answered (ms @ rest) = answered rest"
  using answered_block [of "map (\<lambda>(i, st). toolReply i (step_out st)) (kept_steps steps s)"
      "map (\<lambda>(i, st). toolCallOf i (st_tool st) (st_args st)) (kept_steps steps s)"]
  by (auto simp: replayCalls_def Let_def assistantCallsMsg_def comp_def case_prod_beta toolCallOf_def split: if_splits)

lemma assemble_answered: "answered (assemble_history hs s @ rest) = answered rest"
proof (induction hs arbitrary: s)
  case (Cons h hs)
  obtain o1 s1 where "replayCalls (he_content h) (parseToolSteps (he_steps h)) s = (o1, s1)" by fastforce
  then show ?case using Cons by (cases o1) (simp_all add: Let_def replayCalls_answered)
qed simp

lemma assembleMessages_answered: "answered (assembleMessages sys user hs)"
  by (simp add: assembleMessages_def assemble_answered)

lemma replay_ids_fresh: "distinct (map fst (kept_steps steps s))"
proof -
  have "inj_on call_id A" for A
    by (rule inj_onI) (simp add: call_id_def itoa_nonneg, metis digits_val_nat_digits)
  then show ?thesis by (simp add: kept_steps_def Let_def distinct_map)
qed

text \<open>Before the loop starts the list is the system prompt and answered messages.\<close>

definition fresh_loop :: "loop \<Rightarrow> bool" where
  "fresh_loop l \<longleftrightarrow> (\<exists>t ms. lp_msgs l = Dev t # ms \<and> answered ms)"

lemma apply_option_ok:
  "fresh_loop l \<Longrightarrow> fresh_loop (apply_option o1 l) \<and> lp_maxStep (apply_option o1 l) = lp_maxStep l
     \<and> sn_sent (apply_option o1 l) = sn_sent l"
  by (cases o1) (auto simp: apply_option_def fresh_loop_def)

lemma apply_options_ok:
  "fresh_loop l \<Longrightarrow> fresh_loop (foldl (\<lambda>l o1. apply_option o1 l) l opts)
     \<and> lp_maxStep (foldl (\<lambda>l o1. apply_option o1 l) l opts) = lp_maxStep l
     \<and> sn_sent (foldl (\<lambda>l o1. apply_option o1 l) l opts) = sn_sent l"
  by (induction opts arbitrary: l) (simp_all add: apply_option_ok)

lemma fresh_newLoop: "fresh_loop (newLoop cfg tools (assembleMessages sys user hist) m s)"
  by (simp add: fresh_loop_def newLoop_def assembleMessages_def devMsg_def assemble_answered)

lemma formatResult_ok:
  assumes "formatResult E cfg schema out s = (r, s')" "out \<noteq> ''''"
  shows "sends 1 s s'" "r = Inr a \<Longrightarrow> a \<noteq> ''''"
proof -
  show "sends 1 s s'"
  proof (cases schema)
    case None
    then show ?thesis using assms by (simp add: formatResult_def sends_same)
  next
    case (Some n)
    let ?rq = "\<lparr>rq_model = cf_model cfg, rq_msgs = [Dev extractorPrompt, UserEvidence \<lparr>ev_answer = capLine out 16000,
        ev_events = map_option (\<lambda>l. map light_event (ln_events l)) (sn_lin s)\<rparr>], rq_tools = [], rq_schema = schema\<rparr>"
    let ?s1 = "record_lin ''format_request'' (\<lambda>ev. ev\<lparr>le_model := cf_model cfg\<rparr>) s"
    obtain c s2 where c: "Completion E True ?rq ''format call'' 1 ?s1 = (c, s2)" by fastforce
    have "sends 1 s s2" by (rule sends_before [OF sends_Completion [OF c]]) simp_all
    moreover have "sn_sent s' = sn_sent s2"
      using assms(1) c Some by (auto simp: formatResult_def Let_def split: sum.splits list.splits if_splits)
    ultimately show ?thesis by (rule sends_after)
  qed
  show "r = Inr a \<Longrightarrow> a \<noteq> ''''"
    using assms by (auto simp: formatResult_def Let_def split: option.splits prod.splits sum.splits list.splits if_splits)
qed

text \<open>The steps a turn has: the caller's, or eight.\<close>

definition step_budget :: "int \<Rightarrow> nat" where
  "step_budget maxSteps = nat (if maxSteps \<le> 0 then 8 else maxSteps)"

lemma Run_sends:
  assumes "Run E cfg sys user hist tools schema maxSteps opts s = (r, s')"
  shows "sends (3 * step_budget maxSteps + 4) s s'" "r = Inr a \<Longrightarrow> a \<noteq> ''''"
proof -
  let ?s1 = "s\<lparr>sn_lin := map_option (\<lambda>l. SetTools tools (l\<lparr>ln_model := cf_model cfg\<rparr>)) (sn_lin s)\<rparr>"
  let ?l0 = "newLoop cfg tools (assembleMessages sys user hist) (step_budget maxSteps) ?s1"
  let ?l = "foldl (\<lambda>l o1. apply_option o1 l) ?l0 opts"
  have l: "answered (lp_msgs ?l)" "lp_maxStep ?l = step_budget maxSteps" "sn_sent ?l = sn_sent s"
    using apply_options_ok [OF fresh_newLoop, of cfg tools sys user hist "step_budget maxSteps" ?s1 opts]
    by (auto simp: fresh_loop_def) (simp_all add: newLoop_def)
  obtain g l1 where g: "gather E ?l = (g, l1)" by fastforce
  then have g': "gather_loop E (step_budget maxSteps) ?l = (g, l1)" by (simp add: gather_def l(2))
  have one: "sends (3 * (step_budget maxSteps + 1)) s l1" and ne: "\<And>a. g = Inr a \<Longrightarrow> a \<noteq> ''''"
    using gather_loop_ok [OF g' l(1)] sends_before [of _ ?l l1 s] l(3) by auto
  have tr: "sn_sent (session.truncate x) = sn_sent x" for x :: loop
    by (simp add: session.defs)
  have "sends (3 * step_budget maxSteps + 4) s s' \<and> (\<forall>a. r = Inr a \<longrightarrow> a \<noteq> '''')"
  proof (cases "Valid cfg")
    case False
    then show ?thesis using assms by (auto simp: Run_def sends_same)
  next
    case True
    show ?thesis
    proof (cases g)
      case (Inl e)
      then have "r = Inl e" "s' = session.truncate l1"
        using assms True g by (simp_all add: Run_def Let_def step_budget_def)
      then show ?thesis using one by (auto simp: sends_def tr)
    next
      case (Inr out)
      then have f: "formatResult E cfg schema out (session.truncate l1) = (r, s')"
        using assms True g by (simp add: Run_def Let_def step_budget_def)
      note f2 = formatResult_ok [OF f ne [OF Inr]]
      have "sends 1 l1 s'" using f2(1) by (rule sends_before) (simp add: tr)
      then show ?thesis using sends_trans [OF one, of 1 s'] f2(2) by auto
    qed
  qed
  then show "sends (3 * step_budget maxSteps + 4) s s'" "r = Inr a \<Longrightarrow> a \<noteq> ''''" by blast+
qed

text \<open>
  C4: every request of a turn is one a provider accepts and there are few of them. Whatever the
  provider, the tools and the contexts do and whatever the history holds, in every request a turn
  sends each echoed call is answered right after it, in order, and no tool message stands alone; the
  turn sends at most three requests per step, three for the close-out and one for the schema; and an
  answer is never empty.
\<close>

theorem requests_answered:
  assumes "Run E cfg sys user hist tools schema maxSteps opts s = (r, s')"
  shows "\<exists>rqs. sn_sent s' = sn_sent s @ rqs \<and> list_all (\<lambda>rq. answered (rq_msgs rq)) rqs
     \<and> length rqs \<le> 3 * step_budget maxSteps + 4 \<and> r \<noteq> Inr ''''"
  using Run_sends [OF assms] by (auto simp: sends_def)

section \<open>Transcripts\<close>

text \<open>No call of the round repeats the call that was last executed before it.\<close>

fun no_repeat :: "tool list \<Rightarrow> string \<Rightarrow> tool_call list \<Rightarrow> bool" where
  "no_repeat ts prev [] \<longleftrightarrow> True"
| "no_repeat ts prev (tc # tcs) \<longleftrightarrow>
     (if \<not> is_function tc then no_repeat ts prev tcs
      else call_key (tc_name tc) (tc_args tc) \<noteq> prev
           \<and> no_repeat ts (if byName ts (tc_name tc) = None then prev else call_key (tc_name tc) (tc_args tc)) tcs)"

definition known_calls :: "tool list \<Rightarrow> tool_call list \<Rightarrow> tool_call list" where
  "known_calls ts tcs = filter (\<lambda>tc. is_function tc \<and> byName ts (tc_name tc) \<noteq> None) tcs"

text \<open>The step a call of a known tool should leave in the transcript.\<close>

definition step_of :: "tool list \<Rightarrow> nat \<Rightarrow> tool_call \<Rightarrow> step" where
  "step_of ts n tc =
     (let r = tl_run (the (byName ts (tc_name tc))) n (tc_args tc)
      in case r of
           Inl e \<Rightarrow> \<lparr>st_tool = tc_name tc, st_args = tc_args tc,
                     st_output = (if e = '''' then ''error: '' else ''''), st_err = e\<rparr>
         | Inr out \<Rightarrow> \<lparr>st_tool = tc_name tc, st_args = tc_args tc, st_output = out, st_err = ''''\<rparr>)"

definition done_event :: "nat \<Rightarrow> nat \<Rightarrow> string \<Rightarrow> string \<Rightarrow> tool \<Rightarrow> trace_event" where
  "done_event step n name args t =
     (let r = tl_run t n args
      in (tool_event ''tool_done'' step name args)
           \<lparr>te_result := (case r of Inl e \<Rightarrow> ''error: '' @ e | Inr out \<Rightarrow> out),
            te_err := (case r of Inl e \<Rightarrow> e | Inr _ \<Rightarrow> '''')\<rparr>)"

fun done_events :: "nat \<Rightarrow> nat \<Rightarrow> planned list \<Rightarrow> trace_event list" where
  "done_events step n [] = []"
| "done_events step n (Fixed _ _ # ps) = done_events step n ps"
| "done_events step n (Execute _ name args t # ps) = done_event step n name args t # done_events step n ps"

lemma commit_trace:
  "sn_trace (commit_calls step ps l) = sn_trace l @ done_events step (lp_roundsDone l) ps"
  by (induction step ps l rule: commit_calls.induct) (simp_all add: Let_def done_event_def)

lemma plan_trace:
  "no_repeat (lp_tools l) prev tcs \<Longrightarrow> plan_calls step tcs prev l = (ps, prev', l') \<Longrightarrow>
   sn_trace l' = sn_trace l @ map (\<lambda>tc. tool_event ''tool_start'' step (tc_name tc) (tc_args tc)) (known_calls (lp_tools l) tcs)
   \<and> done_events step n ps = map (\<lambda>tc. done_event step n (tc_name tc) (tc_args tc) (the (byName (lp_tools l) (tc_name tc))))
       (known_calls (lp_tools l) tcs)"
proof (induction tcs arbitrary: prev l ps prev' l')
  case (Cons tc tcs)
  show ?case
  proof (cases "is_function tc")
    case False
    then show ?thesis using Cons.IH [of l prev ps prev' l'] Cons.prems by (simp add: known_calls_def)
  next
    case True
    show ?thesis
    proof (cases "byName (lp_tools l) (tc_name tc)")
      case None
      obtain qs q l2 where q: "plan_calls step tcs prev l = (qs, q, l2)" by (rule prod_cases3)
      show ?thesis
        using Cons.IH [OF _ q] Cons.prems True None q by (auto simp: known_calls_def Let_def)
    next
      case (Some t)
      let ?l1 = "record_lin ''tool_start'' (tool_line step (tc_name tc) (tc_args tc))
                   (add_trace (tool_event ''tool_start'' step (tc_name tc) (tc_args tc)) l)"
      obtain qs q l2 where q: "plan_calls step tcs (call_key (tc_name tc) (tc_args tc)) ?l1 = (qs, q, l2)"
        by (rule prod_cases3)
      show ?thesis
        using Cons.IH [OF _ q] Cons.prems True Some q by (auto simp: known_calls_def Let_def)
    qed
  qed
qed (simp add: known_calls_def)

lemma collect_starts:
  "foldl Collect c (map (\<lambda>tc. tool_event ''tool_start'' step (tc_name tc) (tc_args tc)) tcs) =
   c\<lparr>co_pending := co_pending c @ map (\<lambda>tc. \<lparr>st_tool = tc_name tc, st_args = tc_args tc, st_output = '''', st_err = ''''\<rparr>) tcs\<rparr>"
  by (induction tcs arbitrary: c) (simp_all add: Collect_def tool_event_def trace0_def)

lemma add_step_snoc [simp]: "add_step st (rs @ [r]) = rs @ [r\<lparr>ro_steps := ro_steps r @ [st]\<rparr>]"
  by (simp add: add_step_def Let_def)

lemma collect_done:
  "Collect \<lparr>co_rounds = rs @ [r], co_pending = \<lparr>st_tool = tc_name tc, st_args = tc_args tc, st_output = '''', st_err = ''''\<rparr> # ps\<rparr>
     (done_event step n (tc_name tc) (tc_args tc) (the (byName ts (tc_name tc))))
   = \<lparr>co_rounds = rs @ [r\<lparr>ro_steps := ro_steps r @ [step_of ts n tc]\<rparr>], co_pending = ps\<rparr>"
  by (simp add: Collect_def done_event_def tool_event_def trace0_def step_of_def Let_def split: sum.split)

lemma collect_dones:
  "foldl Collect \<lparr>co_rounds = rs @ [r], co_pending = map (\<lambda>tc. \<lparr>st_tool = tc_name tc, st_args = tc_args tc,
      st_output = '''', st_err = ''''\<rparr>) tcs\<rparr>
     (map (\<lambda>tc. done_event step n (tc_name tc) (tc_args tc) (the (byName ts (tc_name tc)))) tcs)
   = \<lparr>co_rounds = rs @ [r\<lparr>ro_steps := ro_steps r @ map (step_of ts n) tcs\<rparr>], co_pending = []\<rparr>"
  by (induction tcs arbitrary: r) (simp_all add: collect_done)

text \<open>
  C37: the transcript of a round without repeats is what happened. When no call of a reply repeats the
  one executed before it, the events of the round add one round to the transcript: the thought, and
  one step for each call of a known tool, in the order of the calls, with its own arguments and output.
\<close>

theorem transcript_faithful:
  assumes "no_repeat (lp_tools l) (lp_lastCall l) (rp_calls m)"
  shows "foldl Collect \<lparr>co_rounds = rs, co_pending = []\<rparr> (drop (length (sn_trace l)) (sn_trace (answerTools step m l)))
    = \<lparr>co_rounds = rs @ [\<lparr>ro_thought = (if rp_content m = '''' then ''(calling tools)'' else rp_content m),
         ro_steps = map (step_of (lp_tools l) (lp_roundsDone l + 1)) (known_calls (lp_tools l) (rp_calls m))\<rparr>],
       co_pending = []\<rparr>"
proof -
  let ?t = "if rp_content m = '''' then ''(calling tools)'' else rp_content m"
  let ?ev = "trace0\<lparr>te_kind := ''round'', te_round := step, te_text := ?t\<rparr>"
  let ?l2 = "(add_trace ?ev l)
    \<lparr>lp_roundsDone := lp_roundsDone l + 1, lp_msgs := lp_msgs l @ [assistantCallsMsg ?t (echo_calls (rp_calls m))]\<rparr>"
  let ?known = "known_calls (lp_tools l) (rp_calls m)"
  obtain ps prev l3 where p: "plan_calls step (rp_calls m) (lp_lastCall l) ?l2 = (ps, prev, l3)"
    by (rule prod_cases3)
  have a: "answerTools step m l = commit_calls step ps (l3\<lparr>lp_lastCall := prev\<rparr>)"
    using p by (simp add: answerTools_def Let_def)
  have nr: "no_repeat (lp_tools ?l2) (lp_lastCall l) (rp_calls m)" using assms by simp
  note t = plan_trace [OF nr p, of "lp_roundsDone l + 1"]
  have r: "lp_roundsDone l3 = lp_roundsDone l + 1" using plan_calls_loop(5) [OF p] by simp
  have tr: "drop (length (sn_trace l)) (sn_trace (answerTools step m l)) =
      ?ev # map (\<lambda>tc. tool_event ''tool_start'' step (tc_name tc) (tc_args tc)) ?known
      @ map (\<lambda>tc. done_event step (lp_roundsDone l + 1) (tc_name tc) (tc_args tc) (the (byName (lp_tools l) (tc_name tc)))) ?known"
    using t by (simp add: a commit_trace r)
  have one: "Collect \<lparr>co_rounds = rs, co_pending = []\<rparr> ?ev = \<lparr>co_rounds = rs @ [\<lparr>ro_thought = ?t, ro_steps = []\<rparr>], co_pending = []\<rparr>"
    by (simp add: Collect_def trace0_def)
  show ?thesis
    unfolding tr by (simp only: foldl_Cons foldl_append one collect_starts) (simp add: collect_dones)
qed

text \<open>
  A repeat inside a round shifts the transcript. When a reply calls a known tool \<open>a\<close> and then
  another known tool \<open>b\<close> twice with the same arguments, the repeat is blocked while the first two
  calls are still pending, so the transcript blames \<open>a\<close> for the repeat and gives its output to \<open>b\<close>.
\<close>

theorem repeat_shifts_outputs:
  assumes "byName (lp_tools l) a = Some ta" "byName (lp_tools l) b = Some tb" "a \<noteq> b"
    and "tl_run ta (lp_roundsDone l + 1) x = Inr oa" "tl_run tb (lp_roundsDone l + 1) y = Inr ob"
    and "lp_lastCall l = ''''" "CHR 0x00 \<notin> set a" "CHR 0x00 \<notin> set b"
    and "m = \<lparr>rp_content = t, rp_calls =
          [\<lparr>tc_type = ''function'', tc_id = i, tc_name = a, tc_args = x\<rparr>,
           \<lparr>tc_type = ''function'', tc_id = j, tc_name = b, tc_args = y\<rparr>,
           \<lparr>tc_type = ''function'', tc_id = k, tc_name = b, tc_args = y\<rparr>]\<rparr>"
  shows "map ro_steps (co_rounds (foldl Collect \<lparr>co_rounds = [], co_pending = []\<rparr>
      (drop (length (sn_trace l)) (sn_trace (answerTools step m l)))))
    = [[\<lparr>st_tool = a, st_args = x, st_output = '''', st_err = ''blocked consecutive repeat''\<rparr>,
        \<lparr>st_tool = b, st_args = y, st_output = oa, st_err = ''''\<rparr>,
        \<lparr>st_tool = b, st_args = y, st_output = ob, st_err = ''''\<rparr>]]"
proof -
  have key: "call_key a x \<noteq> call_key b y"
  proof
    assume "call_key a x = call_key b y"
    then have "takeWhile (\<lambda>c. c \<noteq> CHR 0x00) (a @ CHR 0x00 # x) = takeWhile (\<lambda>c. c \<noteq> CHR 0x00) (b @ CHR 0x00 # y)"
      by (simp only: call_key_def)
    moreover have "takeWhile (\<lambda>c. c \<noteq> CHR 0x00) (n @ CHR 0x00 # z) = n" if "CHR 0x00 \<notin> set n" for n z
      using that by (subst takeWhile_append2) auto
    ultimately show False using assms(3,7,8) by simp
  qed
  have "call_key a x \<noteq> ''''" by (simp add: call_key_def)
  then show ?thesis
    using assms key
    by (simp add: answerTools_def Let_def is_function_def commit_trace Collect_def tool_event_def trace0_def
        done_event_def add_step_def)
qed


section \<open>History and checklist\<close>

lemma drop_oldest_spec:
  "tot = sum_list (map view_size ts) \<Longrightarrow> 0 \<le> m \<Longrightarrow>
   \<exists>n. drop_oldest m tot ts = drop n ts \<and> sum_list (map view_size (drop n ts)) \<le> m
     \<and> (\<forall>k < n. m < sum_list (map view_size (drop k ts)))"
proof (induction ts arbitrary: tot)
  case (Cons t ts)
  show ?case
  proof (cases "m < tot")
    case True
    obtain n where n: "drop_oldest m (tot - view_size t) ts = drop n ts" "sum_list (map view_size (drop n ts)) \<le> m"
      "\<forall>k < n. m < sum_list (map view_size (drop k ts))"
      using Cons.IH [of "tot - view_size t"] Cons.prems by auto
    have "m < sum_list (map view_size (drop k (t # ts)))" if "k < Suc n" for k
      using that n(3) True Cons.prems(1) by (cases k) auto
    with n(1,2) True show ?thesis by (intro exI [of _ "Suc n"]) auto
  next
    case False
    with Cons.prems show ?thesis by (intro exI [of _ 0]) auto
  qed
qed (auto intro: exI [of _ 0])

text \<open>
  The history fits the context. The turns \<open>BuildHistory\<close> replays are a suffix of the thread -
  the newest turns, none skipped - of at most \<open>maxTurns\<close> turns and \<open>maxChars\<close> bytes, and the bytes
  are used: any longer suffix within the turn limit is above \<open>maxChars\<close>.
\<close>

theorem history_bounded:
  assumes "0 < maxTurns" "0 < maxChars"
  shows "\<exists>n. bound_turns maxTurns maxChars ts = drop n ts \<and> int (length ts - n) \<le> maxTurns
     \<and> sum_list (map view_size (drop n ts)) \<le> maxChars
     \<and> (\<forall>k < n. int (length ts - k) \<le> maxTurns \<longrightarrow> maxChars < sum_list (map view_size (drop k ts)))"
proof -
  let ?d = "if maxTurns < int (length ts) then length ts - nat maxTurns else 0"
  have b: "bound_turns maxTurns maxChars ts
      = drop_oldest maxChars (sum_list (map view_size (drop ?d ts))) (drop ?d ts)"
    using assms by (simp add: bound_turns_def Let_def)
  obtain n where n: "drop_oldest maxChars (sum_list (map view_size (drop ?d ts))) (drop ?d ts) = drop n (drop ?d ts)"
      "sum_list (map view_size (drop n (drop ?d ts))) \<le> maxChars"
      "\<forall>k < n. maxChars < sum_list (map view_size (drop k (drop ?d ts)))"
    using drop_oldest_spec [OF refl, of maxChars "drop ?d ts"] assms by auto
  have "maxChars < sum_list (map view_size (drop k ts))" if k: "k < n + ?d" "int (length ts - k) \<le> maxTurns" for k
  proof -
    have "?d \<le> k" using k(2) by (auto split: if_splits)
    then show ?thesis using n(3) k(1) by (auto simp: add.commute dest: spec [of _ "k - ?d"])
  qed
  with n b assms(1) show ?thesis by (intro exI [of _ "n + ?d"]) (auto simp: add.commute)
qed

lemma check_todos_None:
  "check_todos i ts = None \<longleftrightarrow> list_all (\<lambda>t. trim_space (td_content t) \<noteq> '''' \<and> length (runes (td_content t)) \<le> 500
     \<and> td_status t \<in> set todoStatuses \<and> td_priority t \<in> set todoPriorities) ts"
  by (induction ts arbitrary: i) auto

text \<open>The checklist changes only when the whole new list is accepted.\<close>

lemma todo_all_or_nothing:
  "TodoTool args lin = (r, lin') \<Longrightarrow>
   (case r of Inl _ \<Rightarrow> lin' = lin
    | Inr ts \<Rightarrow> lin' = map_option (SetTodos ts) lin \<and> args = Inr ts \<and> length ts \<le> 20
        \<and> length (filter (\<lambda>t. td_status t = ''in_progress'') ts) \<le> 1)"
  by (auto simp: TodoTool_def split: sum.splits option.splits if_splits)

text \<open>A failed turn is replayed as its prompt alone.\<close>

lemma failed_turn_prompt_only:
  "tv_failed t \<Longrightarrow> h \<in> set (history_of p t) \<Longrightarrow> he_role h = ''user'' \<and> he_content h = tv_prompt t"
  by (auto simp: history_of_def split: if_splits)

definition sample_tool :: "string \<Rightarrow> string \<Rightarrow> tool" where
  "sample_tool n out = \<lparr>tl_name = n, tl_description = '''', tl_run = (\<lambda>k args. Inr (out @ args))\<rparr>"

definition sample_call :: "string \<Rightarrow> string \<Rightarrow> tool_call" where
  "sample_call i n = \<lparr>tc_type = ''function'', tc_id = i, tc_name = n, tc_args = ''z''\<rparr>"

definition sample_env :: env where
  "sample_env = \<lparr>env_answer = (\<lambda>k. if k = 0 then Inl ''busy''
       else if k = 1 then Inr [\<lparr>rp_content = '''', rp_calls = [sample_call ''c1'' ''ls'', sample_call ''c2'' ''cat'']\<rparr>]
       else Inr [\<lparr>rp_content = ''done'', rp_calls = []\<rparr>]),
     env_cancel = (\<lambda>_. None), env_cancelWait = (\<lambda>_. None), env_raw = (\<lambda>_. '''')\<rparr>"

definition sample_config :: config where
  "sample_config = \<lparr>cf_baseURL = ''http://m'', cf_apiKey = ''k'', cf_model = ''m''\<rparr>"

definition sample_session :: session where
  "sample_session = \<lparr>sn_trace = [], sn_lin = Some \<lparr>ln_model = '''', ln_tools = [], ln_events = [], ln_todos = []\<rparr>, sn_sent = []\<rparr>"

abbreviation sample_run :: "(agent_error + string) \<times> session" where
  "sample_run \<equiv> Run sample_env sample_config ''sys'' ''why?'' []
     [sample_tool ''ls'' ''l'', sample_tool ''cat'' ''c''] None 4 [] sample_session"

theorem requests_answered_witness:
  "\<exists>rqs. sn_sent (snd sample_run) = sn_sent sample_session @ rqs \<and> list_all (\<lambda>rq. answered (rq_msgs rq)) rqs
     \<and> length rqs \<le> 3 * step_budget 4 + 4 \<and> fst sample_run \<noteq> Inr ''''"
  by (rule requests_answered [OF prod.collapse [symmetric]])

definition sample_loop :: loop where
  "sample_loop = newLoop sample_config [sample_tool ''ls'' ''l'', sample_tool ''cat'' ''c''] [] 4 sample_session"

theorem transcript_faithful_witness:
  "collect_all (drop (length (sn_trace sample_loop)) (sn_trace (answerTools 0
      \<lparr>rp_content = ''hm'', rp_calls = [sample_call ''c1'' ''ls'', sample_call ''c2'' ''cat'']\<rparr> sample_loop)))
   = [\<lparr>ro_thought = ''hm'', ro_steps =
        [\<lparr>st_tool = ''ls'', st_args = ''z'', st_output = ''lz'', st_err = ''''\<rparr>,
         \<lparr>st_tool = ''cat'', st_args = ''z'', st_output = ''cz'', st_err = ''''\<rparr>]\<rparr>]"
proof -
  let ?m = "\<lparr>rp_content = ''hm'', rp_calls = [sample_call ''c1'' ''ls'', sample_call ''c2'' ''cat'']\<rparr>"
  have "no_repeat (lp_tools sample_loop) (lp_lastCall sample_loop) (rp_calls ?m)" by code_simp
  note t = transcript_faithful [OF this, of "[]" 0]
  have "map (step_of (lp_tools sample_loop) (lp_roundsDone sample_loop + 1)) (known_calls (lp_tools sample_loop) (rp_calls ?m))
      = [\<lparr>st_tool = ''ls'', st_args = ''z'', st_output = ''lz'', st_err = ''''\<rparr>,
         \<lparr>st_tool = ''cat'', st_args = ''z'', st_output = ''cz'', st_err = ''''\<rparr>]" by code_simp
  with t show ?thesis by (simp add: collect_all_def)
qed

theorem repeat_shifts_outputs_witness:
  "map ro_steps (co_rounds (foldl Collect \<lparr>co_rounds = [], co_pending = []\<rparr>
      (drop (length (sn_trace sample_loop)) (sn_trace (answerTools 0
        \<lparr>rp_content = '''', rp_calls = [sample_call ''c1'' ''ls'', sample_call ''c2'' ''cat'', sample_call ''c3'' ''cat'']\<rparr>
        sample_loop)))))
    = [[\<lparr>st_tool = ''ls'', st_args = ''z'', st_output = '''', st_err = ''blocked consecutive repeat''\<rparr>,
        \<lparr>st_tool = ''cat'', st_args = ''z'', st_output = ''lz'', st_err = ''''\<rparr>,
        \<lparr>st_tool = ''cat'', st_args = ''z'', st_output = ''cz'', st_err = ''''\<rparr>]]"
  by (rule repeat_shifts_outputs [where ta = "sample_tool ''ls'' ''l''" and tb = "sample_tool ''cat'' ''c''"
        and t = "''''" and i = "''c1''" and j = "''c2''" and k = "''c3''"])
    (simp_all add: sample_loop_def newLoop_def byName_def sample_tool_def sample_call_def)

definition sample_views :: "turn_view list" where
  "sample_views = map (\<lambda>a. \<lparr>tv_prompt = ''p'', tv_answer = a, tv_steps = [], tv_failed = False\<rparr>) [''one'', ''two'', ''three'']"

theorem history_bounded_witness:
  "sum_list (map view_size (bound_turns 2 8 sample_views)) \<le> 8"
  using history_bounded [of 2 8 sample_views] by auto


end
