(* ===== verification/Auth.thy ===== *)
theory Auth
  imports Prelude
begin

text \<open>
  server/internal/auth/auth.go: the one login (email and Argon2id hash), the ledger of failed
  attempts that limits it, the versioned session token, and the check every request passes.

  Argon2 and the JWT library are not part of the repository: the key derivation
  (\<open>argon2.IDKey\<close>), signing and parsing are arguments of the definitions that use them.
\<close>

section \<open>Base64\<close>

text \<open>\<open>base64.RawStdEncoding\<close>: no padding; the decoder skips line ends and ignores the unused low
  bits of a final partial group.\<close>

definition b64_alphabet :: string where
  "b64_alphabet = ''ABCDEFGHIJKLMNOPQRSTUVWXYZabcdefghijklmnopqrstuvwxyz0123456789+/''"

definition b64_char :: "nat \<Rightarrow> char" where
  "b64_char n = b64_alphabet ! n"

fun position :: "'a \<Rightarrow> 'a list \<Rightarrow> nat option" where
  "position x [] = None"
| "position x (y # ys) = (if x = y then Some 0 else map_option Suc (position x ys))"

definition b64_val :: "char \<Rightarrow> nat option" where
  "b64_val c = position c b64_alphabet"

fun b64_encode :: "string \<Rightarrow> string" where
  "b64_encode [] = []"
| "b64_encode [a] =
     (let x = byte_of a in [b64_char (x div 4), b64_char (x mod 4 * 16)])"
| "b64_encode [a, b] =
     (let x = byte_of a; y = byte_of b
      in [b64_char (x div 4), b64_char (x mod 4 * 16 + y div 16), b64_char (y mod 16 * 4)])"
| "b64_encode (a # b # c # s) =
     (let x = byte_of a; y = byte_of b; z = byte_of c
      in b64_char (x div 4) # b64_char (x mod 4 * 16 + y div 16)
           # b64_char (y mod 16 * 4 + z div 64) # b64_char (z mod 64) # b64_encode s)"

fun b64_groups :: "nat list \<Rightarrow> string option" where
  "b64_groups [] = Some []"
| "b64_groups [p] = None"
| "b64_groups [p, q] = Some [char_of (p * 4 + q div 16)]"
| "b64_groups [p, q, r] = Some [char_of (p * 4 + q div 16), char_of (q mod 16 * 16 + r div 4)]"
| "b64_groups (p # q # r # t # vs) =
     map_option (\<lambda>s. char_of (p * 4 + q div 16) # char_of (q mod 16 * 16 + r div 4)
                       # char_of (r mod 4 * 64 + t) # s) (b64_groups vs)"

definition b64_decode :: "string \<Rightarrow> string option" where
  "b64_decode s =
     (let t = filter (\<lambda>c. c \<noteq> CHR 0x0D \<and> c \<noteq> CHR 0x0A) s
      in if list_all (\<lambda>c. b64_val c \<noteq> None) t then b64_groups (map (the \<circ> b64_val) t) else None)"

lemma b64_val_char: "n < 64 \<Longrightarrow> b64_val (b64_char n) = Some n"
proof -
  have "\<forall>n \<in> set [0..<64]. b64_val (b64_char n) = Some n" by code_simp
  then show "n < 64 \<Longrightarrow> b64_val (b64_char n) = Some n" by simp
qed

lemma b64_char_plain: "n < 64 \<Longrightarrow> b64_char n \<noteq> CHR 0x0D \<and> b64_char n \<noteq> CHR 0x0A \<and> b64_char n \<noteq> CHR ''$''"
proof -
  have "\<forall>n \<in> set [0..<64]. b64_char n \<noteq> CHR 0x0D \<and> b64_char n \<noteq> CHR 0x0A \<and> b64_char n \<noteq> CHR ''$''"
    by code_simp
  then show "n < 64 \<Longrightarrow> b64_char n \<noteq> CHR 0x0D \<and> b64_char n \<noteq> CHR 0x0A \<and> b64_char n \<noteq> CHR ''$''"
    by simp
qed

lemma byte_split [simp]:
  "byte_of c div 4 < 64" "byte_of c mod 4 * 16 < 64" "byte_of c mod 16 * 4 < 64"
  "byte_of c mod 4 * 16 + byte_of d div 16 < 64" "byte_of c mod 16 * 4 + byte_of d div 64 < 64"
proof -
  have "byte_of d div 16 \<le> 15" "byte_of d div 64 \<le> 3" "byte_of c mod 4 \<le> 3" "byte_of c mod 16 \<le> 15"
    using byte_of_bound [of d] by linarith+
  then show "byte_of c mod 4 * 16 + byte_of d div 16 < 64" "byte_of c mod 16 * 4 + byte_of d div 64 < 64"
    "byte_of c mod 4 * 16 < 64" "byte_of c mod 16 * 4 < 64"
    by linarith+
  show "byte_of c div 4 < 64" using byte_of_bound [of c] by linarith
qed

definition b64_ok :: "char \<Rightarrow> bool" where
  "b64_ok c \<longleftrightarrow> b64_val c \<noteq> None \<and> c \<noteq> CHR 0x0D \<and> c \<noteq> CHR 0x0A \<and> c \<noteq> CHR ''$''"

lemma b64_char_ok [simp]: "n < 64 \<Longrightarrow> b64_ok (b64_char n)"
  by (simp add: b64_ok_def b64_val_char b64_char_plain)

lemma b64_encode_ok: "list_all b64_ok (b64_encode s)"
  by (induction s rule: b64_encode.induct) (simp_all add: Let_def)

definition b64_sextets :: "string \<Rightarrow> nat list" where
  "b64_sextets s = map (the \<circ> b64_val) (b64_encode s)"

lemma b64_groups_encode: "b64_groups (b64_sextets s) = Some s"
proof (induction s rule: b64_encode.induct)
  case (2 a)
  then show ?case by (simp add: b64_sextets_def Let_def b64_val_char)
next
  case (3 a b)
  have "byte_of b div 16 * 16 + byte_of b mod 16 = byte_of b" by simp
  then show ?case
    by (simp add: b64_sextets_def Let_def b64_val_char less_mult_imp_div_less)
next
  case (4 a b c s)
  have "byte_of b div 16 * 16 + byte_of b mod 16 = byte_of b"
    and "byte_of c div 64 * 64 + byte_of c mod 64 = byte_of c" by simp_all
  with 4 show ?case
    by (simp add: b64_sextets_def Let_def b64_val_char less_mult_imp_div_less)
qed (simp add: b64_sextets_def)

lemma b64_decode_encode: "b64_decode (b64_encode s) = Some s"
proof -
  have "filter (\<lambda>c. c \<noteq> CHR 0x0D \<and> c \<noteq> CHR 0x0A) (b64_encode s) = b64_encode s"
    using b64_encode_ok [of s] by (auto simp: filter_id_conv list_all_iff b64_ok_def)
  moreover have "list_all (\<lambda>c. b64_val c \<noteq> None) (b64_encode s)"
    using b64_encode_ok [of s] by (auto simp: list_all_iff b64_ok_def)
  ultimately show ?thesis
    using b64_groups_encode [of s] by (simp add: b64_decode_def b64_sextets_def)
qed

lemma b64_encode_no_dollar: "CHR ''$'' \<notin> set (b64_encode s)"
  using b64_encode_ok [of s] by (auto simp: list_all_iff b64_ok_def)


section \<open>Password hashes\<close>

record params =
  pa_time :: nat
  pa_memory :: nat
  pa_threads :: nat
  pa_keylen :: nat

text \<open>What the code uses of golang.org/x/crypto/argon2: its version and \<open>IDKey\<close>, by parameters,
  salt and password.\<close>

record argon2_lib =
  al_version :: nat
  al_key :: "params \<Rightarrow> string \<Rightarrow> string \<Rightarrow> string"

definition encodeHash :: "argon2_lib \<Rightarrow> string \<Rightarrow> string \<Rightarrow> params \<Rightarrow> string" where
  "encodeHash lib password salt p =
     (let hash = al_key lib p salt password
      in ''$argon2id$v='' @ nat_digits (al_version lib) @ ''$m='' @ nat_digits (pa_memory p)
           @ '',t='' @ nat_digits (pa_time p) @ '',p='' @ nat_digits (pa_threads p)
           @ ''$'' @ b64_encode salt @ ''$'' @ b64_encode hash)"

text \<open>
  \<open>fmt.Sscanf\<close> for the formats the code uses: literal bytes and \<open>%d\<close> into an unsigned or a
  signed integer of a width. A verb skips leading white space but not a line end, reads the
  longest run of digits, and fails on none or on overflow; input after the format is ignored.
\<close>

datatype scan_item = Lit string | DecU nat | DecI

definition skip_space :: "string \<Rightarrow> string option" where
  "skip_space s =
     (let t = strip_front (filter (\<lambda>w. w \<noteq> [CHR 0x0A]) space_seqs) s
      in if prefix [CHR 0x0A] t then None else Some t)"

definition scan_digits :: "string \<Rightarrow> (nat \<times> string) option" where
  "scan_digits s =
     (let ds = takeWhile is_digit s
      in if ds = [] then None else Some (digits_val ds, dropWhile is_digit s))"

fun sscanf :: "scan_item list \<Rightarrow> string \<Rightarrow> int list option" where
  "sscanf [] s = Some []"
| "sscanf (Lit l # fs) s = (if prefix l s then sscanf fs (drop (length l) s) else None)"
| "sscanf (DecU bits # fs) s =
     (case skip_space s of
        None \<Rightarrow> None
      | Some t \<Rightarrow>
          (case scan_digits t of
             None \<Rightarrow> None
           | Some (n, u) \<Rightarrow>
               if n < 2 ^ bits then map_option ((#) (int n)) (sscanf fs u) else None))"
| "sscanf (DecI # fs) s =
     (case skip_space s of
        None \<Rightarrow> None
      | Some t \<Rightarrow>
          (let neg = (prefix ''-'' t);
               u = (if prefix ''-'' t \<or> prefix ''+'' t then tl t else t)
           in case scan_digits u of
                None \<Rightarrow> None
              | Some (n, v) \<Rightarrow>
                  (let i = (if neg then - int n else int n)
                   in if in_int64 i then map_option ((#) i) (sscanf fs v) else None)))"

definition decodeHash :: "argon2_lib \<Rightarrow> string \<Rightarrow> (params \<times> string \<times> string) option" where
  "decodeHash lib encoded =
     (case split_on CHR ''$'' encoded of
        [_, alg, ver, pars, s, h] \<Rightarrow>
          if alg \<noteq> ''argon2id'' then None
          else if sscanf [Lit ''v='', DecI] ver \<noteq> Some [int (al_version lib)] then None
          else (case sscanf [Lit ''m='', DecU 32, Lit '',t='', DecU 32, Lit '',p='', DecU 8] pars of
                  Some [m, t, th] \<Rightarrow>
                    (case (b64_decode s, b64_decode h) of
                       (Some salt, Some hash) \<Rightarrow>
                         if salt = [] \<or> hash = [] then None
                         else Some (\<lparr>pa_time = nat t, pa_memory = nat m, pa_threads = nat th,
                                      pa_keylen = length hash mod 2 ^ 32\<rparr>, salt, hash)
                     | _ \<Rightarrow> None)
                | _ \<Rightarrow> None)
      | _ \<Rightarrow> None)"

definition verifyHash :: "argon2_lib \<Rightarrow> string \<Rightarrow> string \<Rightarrow> bool" where
  "verifyHash lib encoded password =
     (case decodeHash lib encoded of
        None \<Rightarrow> False
      | Some (p, salt, want) \<Rightarrow> al_key lib p salt password = want)"

definition params_ok :: "params \<Rightarrow> bool" where
  "params_ok p \<longleftrightarrow> pa_time p < 2 ^ 32 \<and> pa_memory p < 2 ^ 32 \<and> pa_threads p < 2 ^ 8
     \<and> 0 < pa_keylen p \<and> pa_keylen p < 2 ^ 32"

lemma skip_space_digit: "s \<noteq> [] \<Longrightarrow> is_digit (hd s) \<Longrightarrow> skip_space s = Some s"
proof -
  assume s: "s \<noteq> []" "is_digit (hd s)"
  have d: "\<forall>w \<in> set space_seqs. \<not> is_digit (hd w)" by code_simp
  have "\<not> prefix w s" if "w \<in> set space_seqs" for w
    using d that s space_seqs_nonempty [OF that] by (auto simp: prefix_def)
  then have "strip_front (filter (\<lambda>w. w \<noteq> [CHR 0x0A]) space_seqs) s = s"
    by (intro strip_front_id) auto
  moreover have "\<not> prefix [CHR 0x0A] s"
    using s by (auto simp: prefix_def is_digit_def)
  ultimately show ?thesis by (simp add: skip_space_def)
qed

lemma takeWhile_digits:
  "t = [] \<or> \<not> is_digit (hd t) \<Longrightarrow> takeWhile is_digit (nat_digits n @ t) = nat_digits n
     \<and> dropWhile is_digit (nat_digits n @ t) = t"
  using nat_digits_all [of n]
  by (cases t) (auto simp: takeWhile_append dropWhile_append list_all_iff)

lemma scan_nat_digits:
  "t = [] \<or> \<not> is_digit (hd t) \<Longrightarrow> scan_digits (nat_digits n @ t) = Some (n, t)
     \<and> skip_space (nat_digits n @ t) = Some (nat_digits n @ t)"
  using takeWhile_digits [of t n] nat_digits_Cons [of n]
  by (auto simp: scan_digits_def digits_val_nat_digits intro: skip_space_digit)

lemma nat_digits_sign: "\<not> prefix ''-'' (nat_digits n @ t)" "\<not> prefix ''+'' (nat_digits n @ t)"
  using nat_digits_Cons [of n] by (auto dest: is_digit_not_sign)

lemma sscanf_DecU: "t = [] \<or> \<not> is_digit (hd t) \<Longrightarrow> n < 2 ^ bits \<Longrightarrow>
    sscanf (DecU bits # fs) (nat_digits n @ t) = map_option ((#) (int n)) (sscanf fs t)"
  by (simp add: scan_nat_digits)

lemma sscanf_DecI: "t = [] \<or> \<not> is_digit (hd t) \<Longrightarrow> in_int64 (int n) \<Longrightarrow>
    sscanf (DecI # fs) (nat_digits n @ t) = map_option ((#) (int n)) (sscanf fs t)"
  by (simp add: scan_nat_digits nat_digits_sign)

lemma nat_digits_no_dollar: "CHR ''$'' \<notin> set (nat_digits n)"
  using nat_digits_all [of n] by (auto simp: list_all_iff is_digit_def)

declare sscanf.simps(3,4) [simp del]

lemma split_encodeHash:
  "split_on CHR ''$'' (encodeHash lib password salt p) =
     [[], ''argon2id'', ''v='' @ nat_digits (al_version lib),
      ''m='' @ nat_digits (pa_memory p) @ '',t='' @ nat_digits (pa_time p) @ '',p='' @ nat_digits (pa_threads p),
      b64_encode salt, b64_encode (al_key lib p salt password)]"
  (is "_ = ?parts")
proof -
  have "encodeHash lib password salt p = join ''$'' ?parts"
    by (simp add: encodeHash_def Let_def)
  moreover have "CHR ''$'' \<notin> set q" if "q \<in> set ?parts" for q
    using that nat_digits_no_dollar b64_encode_no_dollar by auto
  ultimately show ?thesis
    using split_on_join [of ?parts "CHR ''$''"] by simp
qed

lemma decode_encodeHash:
  assumes "params_ok p" "al_version lib < 2 ^ 63" "salt \<noteq> []"
    and "length (al_key lib p salt password) = pa_keylen p"
  shows "decodeHash lib (encodeHash lib password salt p) = Some (p, salt, al_key lib p salt password)"
proof -
  have v: "sscanf [Lit ''v='', DecI] (''v='' @ nat_digits (al_version lib)) = Some [int (al_version lib)]"
    using assms(2) sscanf_DecI [of "[]" "al_version lib" "[]"] by (simp add: in_int64_def)
  have nd: "\<not> is_digit CHR '',''" by (simp add: is_digit_def)
  have m: "sscanf [Lit ''m='', DecU 32, Lit '',t='', DecU 32, Lit '',p='', DecU 8]
      (''m='' @ nat_digits (pa_memory p) @ '',t='' @ nat_digits (pa_time p) @ '',p='' @ nat_digits (pa_threads p))
      = Some [int (pa_memory p), int (pa_time p), int (pa_threads p)]"
    using assms(1) nd sscanf_DecU [of "[]" "pa_threads p" 8 "[]"]
    by (simp add: params_ok_def sscanf_DecU)
  have "al_key lib p salt password \<noteq> []"
    using assms(1,4) by (auto simp: params_ok_def)
  then show ?thesis
    using assms v m
    by (simp add: decodeHash_def split_encodeHash b64_decode_encode params_ok_def)
qed

text \<open>A stored hash reads back as the parameters, salt and key it was made of, so it verifies
  the password it was made from, and any other password exactly when Argon2 gives it the same key.\<close>

theorem stored_hash_verifies:
  assumes "params_ok p" "al_version lib < 2 ^ 63" "salt \<noteq> []"
    and "\<And>pw. length (al_key lib p salt pw) = pa_keylen p"
  shows "verifyHash lib (encodeHash lib password salt p) password
    \<and> (verifyHash lib (encodeHash lib password salt p) other
         \<longleftrightarrow> al_key lib p salt other = al_key lib p salt password)"
  using decode_encodeHash [OF assms(1-3)] assms(4) by (simp add: verifyHash_def)

definition sample_params :: params where
  "sample_params = \<lparr>pa_time = 3, pa_memory = 65536, pa_threads = 4, pa_keylen = 4\<rparr>"

definition sample_argon :: argon2_lib where
  "sample_argon = \<lparr>al_version = 19, al_key = (\<lambda>p salt pw. take (pa_keylen p) (pw @ salt @ replicate (pa_keylen p) CHR ''x''))\<rparr>"

theorem stored_hash_verifies_witness:
  "verifyHash sample_argon (encodeHash sample_argon ''secret'' ''salt'' sample_params) ''secret''"
proof -
  have "verifyHash sample_argon (encodeHash sample_argon ''secret'' ''salt'' sample_params) ''secret''
      \<and> (verifyHash sample_argon (encodeHash sample_argon ''secret'' ''salt'' sample_params) ''guess''
         \<longleftrightarrow> al_key sample_argon sample_params ''salt'' ''guess'' = al_key sample_argon sample_params ''salt'' ''secret'')"
    by (rule stored_hash_verifies) (simp_all add: sample_argon_def sample_params_def params_ok_def)
  then show ?thesis by simp
qed


section \<open>The login and its ledger of failures\<close>

definition TokenTTL :: gotime where "TokenTTL = 7 * 24 * 60 * minute"
definition maxFailsPerSource :: nat where "maxFailsPerSource = 10"
definition maxFailsPerInstance :: nat where "maxFailsPerInstance = 50"
definition rateWindow :: gotime where "rateWindow = 15 * minute"

record fail_record =
  fr_at :: gotime
  fr_source :: string

record claims =
  cl_version :: int
  cl_subject :: string
  cl_issued :: int
  cl_expires :: int

text \<open>What the code uses of the JWT library: signing claims under a secret, and parsing a token
  under a secret at a time (\<open>None\<close> for any error; the expiry is checked by the library).\<close>

record jwt_lib =
  jl_sign :: "string \<Rightarrow> claims \<Rightarrow> string"
  jl_parse :: "string \<Rightarrow> gotime \<Rightarrow> string \<Rightarrow> claims option"

record auth_service =
  as_email :: string
  as_hash :: string
  as_version :: int
  as_secret :: string
  as_fails :: "fail_record list"

datatype login_error = ErrInvalidCredentials | ErrRateLimited

definition NormalizeEmail :: "(nat \<Rightarrow> nat) \<Rightarrow> string \<Rightarrow> string" where
  "NormalizeEmail lo email = to_lower lo (trim_space email)"

definition recent :: "gotime \<Rightarrow> fail_record \<Rightarrow> bool" where
  "recent now f \<longleftrightarrow> now - fr_at f < rateWindow"

text \<open>\<open>limitedLocked\<close>: drop what left the window, count what stayed.\<close>

definition limited :: "gotime \<Rightarrow> string \<Rightarrow> auth_service \<Rightarrow> bool \<times> auth_service" where
  "limited now source s =
     (let kept = filter (recent now) (as_fails s);
          bySource = length (filter (\<lambda>f. fr_source f = source) kept)
      in (maxFailsPerSource \<le> bySource \<or> maxFailsPerInstance \<le> length kept, s\<lparr>as_fails := kept\<rparr>))"

definition clearSource :: "string \<Rightarrow> auth_service \<Rightarrow> auth_service" where
  "clearSource source s = s\<lparr>as_fails := filter (\<lambda>f. fr_source f \<noteq> source) (as_fails s)\<rparr>"

definition issueToken :: "jwt_lib \<Rightarrow> gotime \<Rightarrow> auth_service \<Rightarrow> string" where
  "issueToken jwt now s =
     jl_sign jwt (as_secret s)
       \<lparr>cl_version = as_version s, cl_subject = as_email s, cl_issued = now div second,
        cl_expires = (now + TokenTTL) div second\<rparr>"

text \<open>
  \<open>Login\<close>: the clock is read when the limit is checked (\<open>t1\<close>) and again when a failure is
  recorded or the token is issued (\<open>t2\<close>).
\<close>

definition add_failure :: "gotime \<Rightarrow> string \<Rightarrow> auth_service \<Rightarrow> auth_service" where
  "add_failure now source s = s\<lparr>as_fails := as_fails s @ [\<lparr>fr_at = now, fr_source = source\<rparr>]\<rparr>"

definition Login :: "argon2_lib \<Rightarrow> jwt_lib \<Rightarrow> (nat \<Rightarrow> nat) \<Rightarrow> gotime \<Rightarrow> gotime \<Rightarrow> string \<Rightarrow> string \<Rightarrow> string
    \<Rightarrow> auth_service \<Rightarrow> (login_error + string) \<times> auth_service" where
  "Login lib jwt lo t1 t2 email password source s =
     (let (lim, s1) = limited t1 source s;
          fail = (Inl ErrInvalidCredentials, add_failure t2 source s1)
      in if lim then (Inl ErrRateLimited, s1)
         else if NormalizeEmail lo email \<noteq> as_email s1 then fail
         else if as_hash s1 = [] then fail
         else if \<not> verifyHash lib (as_hash s1) password then fail
         else (let s2 = clearSource source s1 in (Inr (issueToken jwt t2 s2), s2)))"

text \<open>\<open>RequireAuth\<close>: whether a request with this cookie (if any) reaches the handler.\<close>

definition RequireAuth :: "jwt_lib \<Rightarrow> gotime \<Rightarrow> string option \<Rightarrow> auth_service \<Rightarrow> bool" where
  "RequireAuth jwt now cookie s =
     (case cookie of
        None \<Rightarrow> False
      | Some tok \<Rightarrow>
          (case jl_parse jwt (as_secret s) now tok of
             None \<Rightarrow> False
           | Some c \<Rightarrow> cl_version c = as_version s \<and> cl_subject c = as_email s))"

definition new_service :: "string \<Rightarrow> string \<Rightarrow> int \<Rightarrow> string \<Rightarrow> auth_service" where
  "new_service email hash ver secret =
     \<lparr>as_email = email, as_hash = hash, as_version = ver, as_secret = secret, as_fails = []\<rparr>"

text \<open>A run of login attempts, each with its two clock readings, email, password and source.\<close>

type_synonym attempt = "gotime \<times> gotime \<times> string \<times> string \<times> string"

fun login_run :: "argon2_lib \<Rightarrow> jwt_lib \<Rightarrow> (nat \<Rightarrow> nat) \<Rightarrow> attempt list \<Rightarrow> auth_service \<Rightarrow> auth_service" where
  "login_run lib jwt lo [] s = s"
| "login_run lib jwt lo ((t1, t2, email, pw, src) # as) s =
     login_run lib jwt lo as (snd (Login lib jwt lo t1 t2 email pw src s))"

definition fails_of :: "string \<Rightarrow> auth_service \<Rightarrow> nat" where
  "fails_of src s = length (filter (\<lambda>f. fr_source f = src) (as_fails s))"

definition ledger_ok :: "auth_service \<Rightarrow> bool" where
  "ledger_ok s \<longleftrightarrow> length (as_fails s) \<le> maxFailsPerInstance \<and> (\<forall>src. fails_of src s \<le> maxFailsPerSource)"

lemma length_filter_filter: "length (filter P (filter Q xs)) \<le> length (filter P xs)"
  by (induction xs) auto

lemma limited_ledger:
  assumes "limited now source s = (lim, s1)"
  shows "as_fails s1 = filter (recent now) (as_fails s)"
    and "ledger_ok s \<Longrightarrow> ledger_ok s1"
    and "\<not> lim \<Longrightarrow> fails_of source s1 < maxFailsPerSource \<and> length (as_fails s1) < maxFailsPerInstance"
    and "as_email s1 = as_email s" "as_hash s1 = as_hash s" "as_version s1 = as_version s"
      "as_secret s1 = as_secret s"
proof -
  show f: "as_fails s1 = filter (recent now) (as_fails s)"
    using assms by (auto simp: limited_def Let_def)
  have "fails_of src s1 \<le> fails_of src s" for src
    unfolding fails_of_def f by (rule length_filter_filter)
  moreover have "length (as_fails s1) \<le> length (as_fails s)" by (simp add: f)
  ultimately show "ledger_ok s \<Longrightarrow> ledger_ok s1"
    unfolding ledger_ok_def by (meson order_trans)
  show "\<not> lim \<Longrightarrow> fails_of source s1 < maxFailsPerSource \<and> length (as_fails s1) < maxFailsPerInstance"
    using assms by (auto simp: limited_def Let_def fails_of_def)
qed (use assms in \<open>auto simp: limited_def Let_def\<close>)

lemma clearSource_ledger: "ledger_ok s \<Longrightarrow> ledger_ok (clearSource src s)"
proof -
  assume ok: "ledger_ok s"
  have "fails_of x (clearSource src s) \<le> fails_of x s" for x
    unfolding fails_of_def clearSource_def by (simp add: length_filter_filter del: filter_filter)
  moreover have "length (as_fails (clearSource src s)) \<le> length (as_fails s)"
    by (simp add: clearSource_def)
  ultimately show ?thesis
    using ok unfolding ledger_ok_def by (meson order_trans)
qed

lemma add_failure_ledger:
  "ledger_ok s \<Longrightarrow> fails_of src s < maxFailsPerSource \<Longrightarrow> length (as_fails s) < maxFailsPerInstance
     \<Longrightarrow> ledger_ok (add_failure t src s)"
  by (auto simp: ledger_ok_def add_failure_def fails_of_def)

lemma Login_ledger: "ledger_ok s \<Longrightarrow> ledger_ok (snd (Login lib jwt lo t1 t2 email pw src s))"
proof -
  assume ok: "ledger_ok s"
  obtain lim s1 where l: "limited t1 src s = (lim, s1)" by (cases "limited t1 src s")
  show ?thesis
    using limited_ledger(2,3) [OF l] ok
    by (auto simp: Login_def l Let_def intro: add_failure_ledger clearSource_ledger)
qed

text \<open>Whatever attempts are made, in any order and from any sources, the ledger never holds more
  than the per-instance limit of failures, nor more than the per-source limit for one source.\<close>

theorem ledger_bounded:
  "ledger_ok (login_run lib jwt lo attempts (new_service email hash ver secret))"
proof -
  have "ledger_ok s \<Longrightarrow> ledger_ok (login_run lib jwt lo attempts s)" for s
    by (induction lib jwt lo attempts s rule: login_run.induct) (simp_all add: Login_ledger)
  moreover have "ledger_ok (new_service email hash ver secret)"
    by (simp add: ledger_ok_def new_service_def fails_of_def)
  ultimately show ?thesis by blast
qed

text \<open>C35: a login is refused for its rate exactly when the rolling window holds ten failures of its
  source or fifty in all; then neither email nor password matters and no failure is added. Otherwise
  it succeeds exactly for the configured email and a password the stored hash verifies: success
  clears this source's failures only, and failure adds one.\<close>

theorem login_outcomes:
  assumes "Login lib jwt lo t1 t2 email pw src s = (r, s')"
  defines "win \<equiv> filter (recent t1) (as_fails s)"
  defines "good \<equiv> NormalizeEmail lo email = as_email s \<and> as_hash s \<noteq> [] \<and> verifyHash lib (as_hash s) pw"
  defines "limit \<equiv> 10 \<le> length (filter (\<lambda>f. fr_source f = src) win) \<or> 50 \<le> length win"
  shows "r = Inl ErrRateLimited \<and> limit \<and> as_fails s' = win
       \<or> r = Inl ErrInvalidCredentials \<and> \<not> limit \<and> \<not> good
           \<and> as_fails s' = win @ [\<lparr>fr_at = t2, fr_source = src\<rparr>]
       \<or> r = Inr (issueToken jwt t2 s) \<and> \<not> limit \<and> good
           \<and> as_fails s' = filter (\<lambda>f. fr_source f \<noteq> src) win"
  using assms(1)
  by (auto simp: Login_def limited_def Let_def win_def good_def limit_def clearSource_def
      add_failure_def issueToken_def maxFailsPerSource_def maxFailsPerInstance_def split: if_splits)


text \<open>
  A token format to exercise the definitions with: the secret and the claims, unsigned, each
  field in base64 or decimal, joined by dots.
\<close>

definition int_field :: "int \<Rightarrow> string" where
  "int_field i = (if i < 0 then CHR ''-'' # nat_digits (nat (- i)) else nat_digits (nat i))"

definition field_int :: "string \<Rightarrow> int" where
  "field_int s = (if prefix ''-'' s then - int (digits_val (tl s)) else int (digits_val s))"

definition sample_jwt :: jwt_lib where
  "sample_jwt =
     \<lparr>jl_sign = (\<lambda>k c. join ''.'' [b64_encode k, b64_encode (cl_subject c), int_field (cl_version c),
                                    int_field (cl_issued c), int_field (cl_expires c)]),
      jl_parse = (\<lambda>k t tok.
        case split_on CHR ''.'' tok of
          [k', sub, ver, iat, ex] \<Rightarrow>
            if b64_decode k' = Some k \<and> t < field_int ex * second
            then (case b64_decode sub of
                    Some e \<Rightarrow> Some \<lparr>cl_version = field_int ver, cl_subject = e,
                                    cl_issued = field_int iat, cl_expires = field_int ex\<rparr>
                  | None \<Rightarrow> None)
            else None
        | _ \<Rightarrow> None)\<rparr>"

lemma field_int_field [simp]: "field_int (int_field i) = i"
  using nat_digits_sign(1) [of "nat i" "[]"]
  by (simp add: field_int_def int_field_def digits_val_nat_digits)

lemma no_dot: "CHR ''.'' \<notin> set (b64_encode s)" "CHR ''.'' \<notin> set (int_field i)"
proof -
  have "b64_val CHR ''.'' = None" by code_simp
  then have "\<not> b64_ok CHR ''.''" by (simp only: b64_ok_def simp_thms)
  then show "CHR ''.'' \<notin> set (b64_encode s)"
    using b64_encode_ok [of s] unfolding list_all_iff by blast
  have "CHR ''.'' \<notin> set (nat_digits n)" for n
    using nat_digits_all [of n] by (auto simp: list_all_iff is_digit_def)
  then show "CHR ''.'' \<notin> set (int_field i)"
    by (simp add: int_field_def)
qed

definition sample_service :: auth_service where
  "sample_service =
     new_service ''me@example.com'' (encodeHash sample_argon ''secret'' ''salt'' sample_params) 1 ''key''"

lemma sample_decode:
  "decodeHash sample_argon (encodeHash sample_argon ''secret'' ''salt'' sample_params) =
     Some (sample_params, ''salt'', al_key sample_argon sample_params ''salt'' ''secret'')"
  by (rule decode_encodeHash) (simp_all add: sample_argon_def sample_params_def params_ok_def)

theorem login_outcomes_witness:
  "fst (Login sample_argon sample_jwt (\<lambda>r. r) 0 1 '' Me@Example.com '' ''secret'' ''1.2.3.4'' sample_service)
     = Inr (issueToken sample_jwt 1 sample_service)
   \<and> as_fails (snd (Login sample_argon sample_jwt (\<lambda>r. r) 0 1 ''you'' ''secret'' ''1.2.3.4'' sample_service))
     = [\<lparr>fr_at = 1, fr_source = ''1.2.3.4''\<rparr>]"
proof
  have n: "NormalizeEmail (\<lambda>r. r) '' Me@Example.com '' = ''me@example.com''"
    by code_simp
  have n2: "NormalizeEmail (\<lambda>r. r) ''you'' \<noteq> ''me@example.com''" by code_simp
  have v: "verifyHash sample_argon (as_hash sample_service) ''secret''"
    using sample_decode by (simp add: verifyHash_def sample_service_def new_service_def)
  have h: "as_hash sample_service \<noteq> []"
    by (simp add: sample_service_def new_service_def encodeHash_def Let_def)
  show "fst (Login sample_argon sample_jwt (\<lambda>r. r) 0 1 '' Me@Example.com '' ''secret'' ''1.2.3.4'' sample_service)
     = Inr (issueToken sample_jwt 1 sample_service)"
    using login_outcomes [of sample_argon sample_jwt "\<lambda>r. r" 0 1 "'' Me@Example.com ''" "''secret''"
        "''1.2.3.4''" sample_service] n v h
    by (cases "Login sample_argon sample_jwt (\<lambda>r. r) 0 1 '' Me@Example.com '' ''secret'' ''1.2.3.4'' sample_service")
       (auto simp: sample_service_def new_service_def)
  show "as_fails (snd (Login sample_argon sample_jwt (\<lambda>r. r) 0 1 ''you'' ''secret'' ''1.2.3.4'' sample_service))
     = [\<lparr>fr_at = 1, fr_source = ''1.2.3.4''\<rparr>]"
    using login_outcomes [of sample_argon sample_jwt "\<lambda>r. r" 0 1 "''you''" "''secret''"
        "''1.2.3.4''" sample_service] n2
    by (cases "Login sample_argon sample_jwt (\<lambda>r. r) 0 1 ''you'' ''secret'' ''1.2.3.4'' sample_service")
       (auto simp: sample_service_def new_service_def)
qed

section \<open>Tokens\<close>

text \<open>
  What the JWT library is relied on for: parsing under the secret a token was signed with gives
  back the signed claims until they expire, and nothing parses as the claims of a token signed
  under another secret.
\<close>

definition jwt_sound :: "jwt_lib \<Rightarrow> bool" where
  "jwt_sound jwt \<longleftrightarrow>
     (\<forall>k k' t c. jl_parse jwt k' t (jl_sign jwt k c) =
        (if k' = k \<and> t < cl_expires c * second then Some c else None))"

lemma token_checked:
  assumes "jwt_sound jwt"
  shows "RequireAuth jwt now (Some (issueToken jwt t s)) s' \<longleftrightarrow>
     as_secret s' = as_secret s \<and> now < (t + TokenTTL) div second * second
     \<and> as_version s' = as_version s \<and> as_email s' = as_email s"
  using assms by (auto simp: RequireAuth_def issueToken_def jwt_sound_def)

text \<open>C36: the token a login returns opens every request made before the last whole second of its
  seven days; a service with another auth version, another email or another secret refuses it, and
  so does every service once the seven days are over. A request without a cookie is refused.\<close>

theorem token_lifetime:
  assumes "jwt_sound jwt" "Login lib jwt lo t1 t2 email pw src s = (Inr tok, s1)"
  shows "(now \<le> t2 + TokenTTL - second \<longrightarrow> RequireAuth jwt now (Some tok) s1)
    \<and> (t2 + TokenTTL \<le> now \<or> as_version s' \<noteq> as_version s \<or> as_email s' \<noteq> as_email s
           \<or> as_secret s' \<noteq> as_secret s \<longrightarrow> \<not> RequireAuth jwt now (Some tok) s')
    \<and> \<not> RequireAuth jwt now None s'"
proof -
  have tok: "tok = issueToken jwt t2 s" and same: "as_email s1 = as_email s" "as_version s1 = as_version s"
      "as_secret s1 = as_secret s"
    using assms(2) by (auto simp: Login_def limited_def Let_def clearSource_def issueToken_def split: if_splits)
  have "now < (t2 + TokenTTL) div second * second" if "now \<le> t2 + TokenTTL - second"
    using that by linarith
  moreover have "\<not> now < (t2 + TokenTTL) div second * second" if "t2 + TokenTTL \<le> now"
    using that by linarith
  ultimately show ?thesis
    by (auto simp: tok token_checked [OF assms(1)] same) (simp add: RequireAuth_def)
qed

lemma sample_jwt_sound: "jwt_sound sample_jwt"
  unfolding jwt_sound_def
proof (intro allI)
  fix k k' :: string and t :: gotime and c :: claims
  let ?fs = "[b64_encode k, b64_encode (cl_subject c), int_field (cl_version c),
      int_field (cl_issued c), int_field (cl_expires c)]"
  have "split_on CHR ''.'' (join ''.'' ?fs) = ?fs"
    by (rule split_on_join) (auto simp: no_dot)
  then have "split_on CHR ''.'' (jl_sign sample_jwt k c) = ?fs"
    by (simp only: sample_jwt_def jwt_lib.simps)
  then show "jl_parse sample_jwt k' t (jl_sign sample_jwt k c) =
      (if k' = k \<and> t < cl_expires c * second then Some c else None)"
    by (auto simp: sample_jwt_def b64_decode_encode)
qed

lemma sample_login:
  "fst (Login sample_argon sample_jwt (\<lambda>r. r) 0 1 ''me@example.com'' ''secret'' ''1.2.3.4'' sample_service)
     = Inr (issueToken sample_jwt 1 sample_service)"
proof -
  have "NormalizeEmail (\<lambda>r. r) ''me@example.com'' = ''me@example.com''" by code_simp
  moreover have "verifyHash sample_argon (as_hash sample_service) ''secret''"
    using sample_decode by (simp add: verifyHash_def sample_service_def new_service_def)
  moreover have "as_hash sample_service \<noteq> []"
    by (simp add: sample_service_def new_service_def encodeHash_def Let_def)
  ultimately show ?thesis
    by (simp add: Login_def limited_def Let_def sample_service_def new_service_def clearSource_def
        issueToken_def maxFailsPerSource_def maxFailsPerInstance_def)
qed

theorem token_lifetime_witness:
  "\<not> RequireAuth sample_jwt 5 (Some (issueToken sample_jwt 1 sample_service))
       (sample_service\<lparr>as_version := 2\<rparr>)"
proof -
  let ?x = "Login sample_argon sample_jwt (\<lambda>r. r) 0 1 ''me@example.com'' ''secret'' ''1.2.3.4'' sample_service"
  have "?x = (Inr (issueToken sample_jwt 1 sample_service), snd ?x)"
    using sample_login by (metis prod.collapse)
  from token_lifetime [OF sample_jwt_sound this, of 5 "sample_service\<lparr>as_version := 2\<rparr>"]
  show ?thesis by (simp add: sample_service_def new_service_def)
qed

end
