(* ===== verification/Shell.thy ===== *)
theory Shell
  imports Prelude
begin

text \<open>
  server/internal/textutil/textutil.go - quoting for \<open>sh\<close> and the tail of a command's output - and
  \<open>ExecCommand\<close> of server/internal/session/session.go, which every command in a container goes
  through. The container is a parameter: what one \<open>bash -lc\<close> run prints and returns.
\<close>

definition ShellQuote :: "string \<Rightarrow> string" where
  "ShellQuote s = [CHR 0x27] @ replace_byte CHR 0x27 [CHR 0x27, CHR 0x22, CHR 0x27, CHR 0x22, CHR 0x27] s @ [CHR 0x27]"

definition Tail :: "string \<Rightarrow> string" where
  "Tail out =
     (let ls = split_on CHR 0x0A (trim_space out);
          ls = (if 5 < length ls then drop (length ls - 5) ls else ls);
          t = join '' | '' ls
      in if 300 < length t then drop (length t - 300) t else t)"

text \<open>The engine's error, or the output and the exit code.\<close>

type_synonym dockerExec = "string \<Rightarrow> string + string \<times> int"

definition ExecCommand :: "dockerExec \<Rightarrow> string \<Rightarrow> string \<times> string option" where
  "ExecCommand dk command =
     (case dk command of
        Inl e \<Rightarrow> ('''', Some e)
      | Inr (raw, code) \<Rightarrow>
          (let out = trim_space raw
           in if code \<noteq> 0 then (out, Some (''exit '' @ itoa code @ '': '' @ Tail out)) else (out, None)))"


section \<open>Quoting\<close>

text \<open>
  How \<open>sh\<close> reads a word made of quoted parts (POSIX, section 2.2): inside single quotes every byte
  stands for itself; inside double quotes the bytes that do not start an expansion do.
\<close>

function sh_word :: "string \<Rightarrow> string option" where
  "sh_word [] = Some []"
| "sh_word (c # s) =
     (if c = CHR 0x27 then
        (let body = takeWhile (\<lambda>x. x \<noteq> CHR 0x27) s; rest = dropWhile (\<lambda>x. x \<noteq> CHR 0x27) s
         in if rest = [] then None else map_option (\<lambda>t. body @ t) (sh_word (tl rest)))
      else if c = CHR 0x22 then
        (let body = takeWhile (\<lambda>x. x \<noteq> CHR 0x22) s; rest = dropWhile (\<lambda>x. x \<noteq> CHR 0x22) s
         in if rest = [] \<or> list_ex (\<lambda>x. x \<in> {CHR ''$'', CHR 0x60, CHR 0x5C}) body then None
            else map_option (\<lambda>t. body @ t) (sh_word (tl rest)))
      else None)"
  by pat_completeness auto
termination
  by (relation "measure length")
     (auto simp: less_Suc_eq_le intro: le_trans [OF diff_le_self length_dropWhile_le])

declare sh_word.simps(2) [simp del]

lemma sh_word_single: "CHR 0x27 \<notin> set b \<Longrightarrow> sh_word (CHR 0x27 # b @ CHR 0x27 # s) = map_option (\<lambda>t. b @ t) (sh_word s)"
proof -
  assume "CHR 0x27 \<notin> set b"
  then have "takeWhile (\<lambda>x. x \<noteq> CHR 0x27) (b @ CHR 0x27 # s) = b"
    and "dropWhile (\<lambda>x. x \<noteq> CHR 0x27) (b @ CHR 0x27 # s) = CHR 0x27 # s"
    by (subst takeWhile_append2 dropWhile_append2; fastforce)+
  then show ?thesis by (simp add: sh_word.simps)
qed

lemma sh_word_quote: "sh_word (CHR 0x22 # CHR 0x27 # CHR 0x22 # s) = map_option (\<lambda>t. CHR 0x27 # t) (sh_word s)"
  by (cases "sh_word s") (simp_all add: sh_word.simps)

text \<open>After an opening quote: the bytes up to the next single quote of \<open>s\<close>, then the spliced quote.\<close>

lemma sh_word_body: "sh_word (CHR 0x27 # b @ replace_byte CHR 0x27 [CHR 0x27, CHR 0x22, CHR 0x27, CHR 0x22, CHR 0x27] s @ [CHR 0x27])
    = Some (b @ s)"
  if "CHR 0x27 \<notin> set b"
  using that
proof (induction s arbitrary: b)
  case Nil
  then show ?case using sh_word_single [of b "[]"] by (simp add: replace_byte_def)
next
  case (Cons c s)
  show ?case
  proof (cases "c = CHR 0x27")
    case True
    then show ?thesis
      using Cons.IH [of "[]"] sh_word_single [OF Cons.prems] by (simp add: replace_byte_def sh_word_quote)
  next
    case False
    then show ?thesis using Cons.IH [of "b @ [c]"] Cons.prems by (simp add: replace_byte_def)
  qed
qed

text \<open>
  A quoted value reaches the shell as itself. Whatever bytes \<open>s\<close> holds - quotes, dollars, line
  ends, an empty string - \<open>sh\<close> reads \<open>ShellQuote s\<close> as one word whose value is \<open>s\<close>.
\<close>

theorem quote_is_one_word: "sh_word (ShellQuote s) = Some s"
  using sh_word_body [of "[]" s] by (simp add: ShellQuote_def)

text \<open>The tail of an output is at most 300 bytes.\<close>

lemma Tail_bounded: "length (Tail out) \<le> 300"
  by (simp add: Tail_def Let_def)

lemma ExecCommand_trimmed: "ExecCommand dk c = (out, e) \<Longrightarrow> trim_space out = out"
  by (auto simp: ExecCommand_def Let_def split: sum.splits prod.splits if_splits)

end
