(* ===== verification/Codemap.thy ===== *)
theory Codemap
  imports Agent Shell
begin

text \<open>
  server/internal/codemap/codemap.go: the read-only tools of a code map turn, the paths they accept,
  the snippets attached to an answer, and the turn around the agent loop. Containers answer through
  \<open>ExecCommand\<close>; decoded JSON is an argument (arguments of tools, tags of the symbol index, the
  structured answer), with the decoder's error as the other case.
\<close>

section \<open>Paths\<close>

datatype cm_error =
    BadArgs string
  | PatternRequired | PatternTooLong | PatternLines | BadPattern string
  | PathRequired | PathOutside string | InvalidPath
  | BadRange | IsDirectory string | NoSuchFile string string "string list" | BinaryFile
  | NameRequired | NameTooLong | NameLines
  | UnknownGitOp string
  | ExecFailed string

definition cleanPath :: "string \<Rightarrow> string" where
  "cleanPath raw = trim_byte CHR ''/'' (trim_space raw)"

definition validRepoPath :: "string \<Rightarrow> bool" where
  "validRepoPath p \<longleftrightarrow> \<not> (p = '''' \<or> 1024 < length p \<or> prefix ''/'' p)
     \<and> list_all (\<lambda>seg. \<not> (seg = ''..'' \<or> seg = '''')) (split_on CHR ''/'' p)"

definition normalizeRepoPath :: "string \<Rightarrow> string \<Rightarrow> cm_error + string" where
  "normalizeRepoPath raw repoDir =
     (let p = trim_space raw
      in if p = '''' then Inl PathRequired
         else if p = repoDir \<or> p = repoDir @ ''/'' then Inr ''.''
         else if \<not> prefix (repoDir @ ''/'') p \<and> prefix ''/'' p then Inl (PathOutside raw)
         else
           (let q = cleanPath (if prefix (repoDir @ ''/'') p then trim_prefix p (repoDir @ ''/'') else p)
            in if \<not> validRepoPath q then Inl InvalidPath else Inr q))"

definition parentDir :: "string \<Rightarrow> string" where
  "parentDir p = (case cut_last CHR ''/'' p of Some (a, _) \<Rightarrow> a | None \<Rightarrow> ''.'')"

definition list_command :: "string \<Rightarrow> string \<Rightarrow> string" where
  "list_command repoDir dir =
     ''cd '' @ ShellQuote repoDir @ '' && ls -1 -p -- '' @ ShellQuote dir @ '' 2>/dev/null | head -100''"

definition listPath :: "dockerExec \<Rightarrow> string \<Rightarrow> string \<Rightarrow> string \<times> string option" where
  "listPath dk repoDir dir = ExecCommand dk (list_command repoDir dir)"

lemma parentDir_shorter: "parentDir p \<noteq> p \<Longrightarrow> p \<noteq> ''.'' \<Longrightarrow> parentDir p = ''.'' \<or> length (parentDir p) < length p"
  by (auto simp: parentDir_def dest: cut_last_Some split: option.splits)

function hint_from :: "dockerExec \<Rightarrow> string \<Rightarrow> string \<Rightarrow> (string \<times> string list) option" where
  "hint_from dk repoDir dir =
     (if \<not> validRepoPath dir then None
      else
        (let (out, err) = listPath dk repoDir dir; names = go_fields out
         in if err = None \<and> names \<noteq> [] then
              Some (if dir \<noteq> ''.'' then repoDir @ ''/'' @ dir else repoDir, take 20 names)
            else (let parent = parentDir dir in if parent = dir then None else hint_from dk repoDir parent)))"
  by pat_completeness auto
termination
proof (relation "measure (\<lambda>(dk, repoDir, dir). if dir = ''.'' then 0 else Suc (length dir))")
  fix dk repoDir dir and x out err names parent
  assume "parent = parentDir dir" "parent \<noteq> dir"
  moreover have "parentDir ''.'' = ''.''" by code_simp
  ultimately show "((dk, repoDir, parent), dk, repoDir, dir)
      \<in> measure (\<lambda>(dk, repoDir, dir). if dir = ''.'' then 0 else Suc (length dir))"
    using parentDir_shorter [of dir] by auto
qed simp

definition parentHint :: "dockerExec \<Rightarrow> string \<Rightarrow> string \<Rightarrow> (string \<times> string list) option" where
  "parentHint dk repoDir path = hint_from dk repoDir (parentDir path)"

declare hint_from.simps [simp del]


section \<open>Text\<close>

definition cutRunes :: "string \<Rightarrow> nat \<Rightarrow> string" where
  "cutRunes s m = cut_runes m '''' s"

definition capToolOutput :: "string \<Rightarrow> nat \<Rightarrow> string" where
  "capToolOutput s m = cutRunes s m"

definition capOutput :: "string \<Rightarrow> nat \<Rightarrow> string" where
  "capOutput s m = cut_runes m ellipsis s"

definition trim_right_lines :: "string \<Rightarrow> string" where
  "trim_right_lines s = rev (dropWhile (\<lambda>c. c = CHR 0x0A) (rev s))"

definition numberLines :: "string \<Rightarrow> int \<Rightarrow> string" where
  "numberLines out start =
     (let ls = split_on CHR 0x0A (trim_right_lines out)
      in join [CHR 0x0A] (map (\<lambda>i. itoa (wrap64 (start + int i)) @ [CHR 0x09] @ ls ! i) [0..<length ls]))"

definition excerpt :: "string \<Rightarrow> string" where
  "excerpt s =
     (let s = trim_space s
      in if 500 < length (runes s) then of_runes (take 500 (runes s)) @ ellipsis
         else if s = '''' then ''(empty)'' else s)"


section \<open>Globs\<close>

text \<open>
  \<open>globToRegexp\<close> writes \<open>(?:.*/)?\<close> for \<open>**/\<close>, \<open>.*\<close> for \<open>**\<close>, \<open>[^/]*\<close> for \<open>*\<close>, \<open>[^/]\<close> for \<open>?\<close>
  and the quoted byte for anything else; the pattern is anchored. \<open>gt_match\<close> is what these match over
  the code points of a name (a dot matches all but the line end). The only patterns that do not
  compile are those that are no UTF-8.
\<close>

datatype glob_tok = GDirs | GAll | GStar | GOne | GLit nat

fun glob_toks :: "nat list \<Rightarrow> glob_tok list" where
  "glob_toks [] = []"
| "glob_toks (c # cs) =
     (if c = 42 then
        (case cs of
           d # ds \<Rightarrow>
             (if d = 42 then
                (case ds of
                   e # es \<Rightarrow> if e = 47 then GDirs # glob_toks es else GAll # glob_toks ds
                 | [] \<Rightarrow> [GAll])
              else GStar # glob_toks cs)
         | [] \<Rightarrow> [GStar])
      else if c = 63 then GOne # glob_toks cs
      else GLit c # glob_toks cs)"

text \<open>The ends of the matches of a token: every rest of the name a token can leave.\<close>

fun rests_while :: "(nat \<Rightarrow> bool) \<Rightarrow> nat list \<Rightarrow> nat list list" where
  "rests_while P [] = [[]]"
| "rests_while P (r # rs) = (r # rs) # (if P r then rests_while P rs else [])"

definition tok_rests :: "glob_tok \<Rightarrow> nat list \<Rightarrow> nat list list" where
  "tok_rests t rs =
     (case t of
        GDirs \<Rightarrow> rs # map tl (filter (\<lambda>x. x \<noteq> [] \<and> hd x = 47) (rests_while (\<lambda>r. r \<noteq> 10) rs))
      | GAll \<Rightarrow> rests_while (\<lambda>r. r \<noteq> 10) rs
      | GStar \<Rightarrow> rests_while (\<lambda>r. r \<noteq> 47) rs
      | GOne \<Rightarrow> (case rs of r # q \<Rightarrow> if r \<noteq> 47 then [q] else [] | [] \<Rightarrow> [])
      | GLit c \<Rightarrow> (case rs of r # q \<Rightarrow> if r = c then [q] else [] | [] \<Rightarrow> []))"

fun gt_match :: "glob_tok list \<Rightarrow> nat list \<Rightarrow> bool" where
  "gt_match [] rs \<longleftrightarrow> rs = []"
| "gt_match (t # ts) rs \<longleftrightarrow> list_ex (gt_match ts) (tok_rests t rs)"

definition globToRegexp :: "string \<Rightarrow> ((string \<Rightarrow> bool) \<times> bool) option" where
  "globToRegexp pattern =
     (if of_runes (runes pattern) \<noteq> pattern then None
      else Some (\<lambda>name. gt_match (glob_toks (runes pattern)) (runes name), \<not> contains pattern ''/''))"


section \<open>Tools\<close>

text \<open>A decoded argument, or the decoder's error.\<close>

definition decodeArgs :: "string + 'a \<Rightarrow> ('a \<Rightarrow> cm_error + string) \<Rightarrow> cm_error + string" where
  "decodeArgs raw f = (case raw of Inl e \<Rightarrow> Inl (BadArgs e) | Inr x \<Rightarrow> f x)"

definition one_line :: "string \<Rightarrow> bool" where
  "one_line s \<longleftrightarrow> list_all (\<lambda>c. c \<notin> {CHR 0x0A, CHR 0x0D, CHR 0x00}) s"

definition base_name :: "string \<Rightarrow> string" where
  "base_name f = (case cut_last CHR ''/'' f of Some (_, b) \<Rightarrow> b | None \<Rightarrow> f)"

definition glob_tool :: "dockerExec \<Rightarrow> string \<Rightarrow> string + string \<Rightarrow> cm_error + string" where
  "glob_tool dk repoDir raw = decodeArgs raw (\<lambda>arg.
     let pattern = trim_space arg
     in if pattern = '''' then Inl PatternRequired
        else if 200 < length pattern then Inl PatternTooLong
        else if \<not> one_line pattern then Inl PatternLines
        else
          (case globToRegexp pattern of
             None \<Rightarrow> Inl (BadPattern pattern)
           | Some (re, basenameOnly) \<Rightarrow>
               (case ExecCommand dk (''git -C '' @ ShellQuote repoDir @ '' ls-files -z'') of
                  (_, Some e) \<Rightarrow> Inl (ExecFailed e)
                | (out, None) \<Rightarrow>
                    (let fs = filter (\<lambda>f. f \<noteq> '''') (map trim_space (split_on CHR 0x00 out));
                         matched = filter (\<lambda>f. re (if basenameOnly then base_name f else f)) fs
                     in if matched = [] then Inr ''(no files match)''
                        else if 100 < length matched then
                          Inr (join [CHR 0x0A] (take 100 matched) @ [CHR 0x0A] @ ellipsis @ ''(''
                               @ itoa (int (length matched - 100)) @ '' more '' @ em_dash @ '' narrow the pattern)'')
                        else Inr (join [CHR 0x0A] matched)))))"

definition search_tool :: "dockerExec \<Rightarrow> string \<Rightarrow> string + string \<Rightarrow> cm_error + string" where
  "search_tool dk repoDir raw = decodeArgs raw (\<lambda>arg.
     let pattern = trim_space arg
     in if pattern = '''' then Inl PatternRequired
        else if 200 < length pattern then Inl PatternTooLong
        else if \<not> one_line pattern then Inl PatternLines
        else
          (case ExecCommand dk (''cd '' @ ShellQuote repoDir
                  @ '' && grep -rn --exclude-dir=.git --exclude-dir=node_modules --exclude='*.lock' --exclude-dir=dist -I -m 50 -- ''
                  @ ShellQuote pattern @ '' . | sed -e '' @ [CHR 0x22] @ ''s|^'' @ [CHR 0x5C] @ ''./||'' @ [CHR 0x22] @ '' | head -50'') of
             (out, Some e) \<Rightarrow>
               if out = '''' \<or> contains e ''exit 1'' then Inr ''(no matches)'' else Inl (ExecFailed e)
           | (out, None) \<Rightarrow>
               if trim_space out = '''' then Inr ''(no matches)'' else Inr (capToolOutput out (12 * 1024))))"

text \<open>The range of \<open>read_file\<close>, with its defaults.\<close>

definition read_range :: "int option \<Rightarrow> int option \<Rightarrow> (int \<times> int) option" where
  "read_range st en =
     (let start = (case st of None \<Rightarrow> 1 | Some n \<Rightarrow> n);
          stop = (case en of None \<Rightarrow> wrap64 (start + 49) | Some n \<Rightarrow> n)
      in if start < 1 \<or> stop < start \<or> 119 < stop - start then None else Some (start, stop))"

definition read_command :: "string \<Rightarrow> int \<Rightarrow> int \<Rightarrow> string \<Rightarrow> string" where
  "read_command repoDir start stop path =
     ''cd '' @ ShellQuote repoDir @ '' && sed -n '' @ [CHR 0x27] @ itoa start @ '','' @ itoa stop @ ''p'' @ [CHR 0x27]
     @ '' '' @ ShellQuote path"

definition read_tool ::
  "dockerExec \<Rightarrow> string \<Rightarrow> string + string \<times> int option \<times> int option \<Rightarrow> cm_error + string" where
  "read_tool dk repoDir raw = decodeArgs raw (\<lambda>(argPath, st, en).
     case normalizeRepoPath argPath repoDir of
       Inl e \<Rightarrow> Inl e
     | Inr path \<Rightarrow>
         (case read_range st en of
            None \<Rightarrow> Inl BadRange
          | Some (start, stop) \<Rightarrow>
              (case ExecCommand dk (read_command repoDir start stop path) of
                 (out, Some e) \<Rightarrow>
                   if contains out ''Is a directory'' \<or> contains e ''Is a directory'' then
                     (case listPath dk repoDir path of
                        (listing, None) \<Rightarrow> Inr listing
                      | (_, Some _) \<Rightarrow> Inl (IsDirectory path))
                   else
                     (case parentHint dk repoDir path of
                        Some (absParent, names) \<Rightarrow>
                          if absParent \<noteq> '''' then
                            Inl (NoSuchFile (repoDir @ ''/'' @ path) absParent (map (\<lambda>n. absParent @ ''/'' @ n) names))
                          else Inl (ExecFailed e)
                      | None \<Rightarrow> Inl (ExecFailed e))
               | (out, None) \<Rightarrow>
                   if CHR 0x00 \<in> set out then Inl BinaryFile
                   else
                     (let out = capToolOutput out (100 * 1024)
                      in if trim_space out = '''' then Inr ''(empty range)'' else Inr (numberLines out start)))))"

definition list_tool :: "dockerExec \<Rightarrow> string \<Rightarrow> string + string \<Rightarrow> cm_error + string" where
  "list_tool dk repoDir raw = decodeArgs raw (\<lambda>argPath.
     case (if trim_space argPath \<noteq> '''' then normalizeRepoPath argPath repoDir else Inr ''.'') of
       Inl e \<Rightarrow> Inl e
     | Inr p \<Rightarrow>
         (case listPath dk repoDir p of
            (_, Some e) \<Rightarrow> Inl (ExecFailed e)
          | (out, None) \<Rightarrow> if trim_space out = '''' then Inr ''(empty)'' else Inr (capToolOutput out (12 * 1024))))"

record ctag =
  ct_type :: string
  ct_name :: string
  ct_path :: string
  ct_line :: int
  ct_kind :: string
  ct_signature :: string

definition tag_row :: "ctag \<Rightarrow> string" where
  "tag_row t =
     ct_path t @ '':'' @ itoa (ct_line t) @ '' ['' @ ct_kind t @ '']''
     @ (if trim_space (ct_signature t) \<noteq> '''' then '' '' @ trim_space (ct_signature t) else '''')"

text \<open>\<open>dec\<close> decodes one line of the index; \<open>None\<close> when it is no JSON object; \<open>quote\<close> is \<open>strconv.Quote\<close>.\<close>

definition symbol_tool ::
  "dockerExec \<Rightarrow> (string \<Rightarrow> ctag option) \<Rightarrow> (string \<Rightarrow> string) \<Rightarrow> string \<Rightarrow> string + string \<Rightarrow> cm_error + string" where
  "symbol_tool dk dec quote repoDir raw = decodeArgs raw (\<lambda>arg.
     let name = trim_space arg
     in if name = '''' then Inl NameRequired
        else if 200 < length name then Inl NameTooLong
        else if \<not> one_line name then Inl NameLines
        else
          (let (out, err) = ExecCommand dk (''cd '' @ ShellQuote repoDir
                 @ '' && git ls-files | ctags --output-format=json --fields=+nKS -L -'')
           in if err \<noteq> None \<or> trim_space out = '''' then
                Inr (''(symbol index unavailable '' @ em_dash @ '' use search_code instead)'')
              else
                (let tags = filter (\<lambda>t. ct_type t = ''tag'' \<and> ct_name t = name)
                              (List.map_filter dec (split_on CHR 0x0A out));
                     found = take 50 (map tag_row tags)
                 in if found = [] then Inr (''(no definition for '' @ quote name @ '' '' @ em_dash @ '' try search_code for mentions)'')
                    else Inr (join [CHR 0x0A] found))))"

definition git_tool :: "dockerExec \<Rightarrow> string \<Rightarrow> string + string \<times> string \<Rightarrow> cm_error + string" where
  "git_tool dk repoDir raw = decodeArgs raw (\<lambda>(argOp, argPath).
     case (if trim_space argPath = '''' then Inr ''''
           else (case normalizeRepoPath argPath repoDir of Inl e \<Rightarrow> Inl e | Inr p \<Rightarrow> Inr ('' -- '' @ ShellQuote p))) of
       Inl e \<Rightarrow> Inl e
     | Inr target \<Rightarrow>
         (let dir = ShellQuote repoDir; gitOp = trim_space argOp
          in if gitOp = ''status'' then
               (case ExecCommand dk (''git -C '' @ dir @ '' status --short --branch 2>&1 | head -50'') of
                  (_, Some e) \<Rightarrow> Inl (ExecFailed e)
                | (out, None) \<Rightarrow> if trim_space out = '''' then Inr ''(clean tree)'' else Inr (capToolOutput out (12 * 1024)))
             else if gitOp = ''diff'' then
               (case ExecCommand dk (''git -C '' @ dir @ '' diff HEAD --stat 2>&1 | head -30; echo '' @ [CHR 0x27] @ ''---'' @ [CHR 0x27]
                       @ ''; git -C '' @ dir @ '' diff HEAD'' @ target @ '' 2>&1 | head -400'') of
                  (_, Some e) \<Rightarrow> Inl (ExecFailed e)
                | (out, None) \<Rightarrow>
                    if trim_space out = '''' \<or> trim_space out = ''---'' then Inr ''(no diff)''
                    else Inr (capToolOutput out (24 * 1024)))
             else if gitOp = ''log'' then
               (case ExecCommand dk (''git -C '' @ dir @ '' log --oneline --decorate -25'' @ target @ '' 2>&1 | head -40'') of
                  (out, err) \<Rightarrow>
                    if trim_space out = '''' then Inr ''(no commits yet)''
                    else (case err of Some e \<Rightarrow> Inl (ExecFailed e) | None \<Rightarrow> Inr (capToolOutput out (12 * 1024))))
             else Inl (UnknownGitOp argOp)))"

section \<open>Snippets\<close>

record cm_ref =
  rf_path :: string
  rf_startLine :: int
  rf_endLine :: int
  rf_snippet :: string
  rf_function :: string

record cm_section =
  se_title :: string
  se_summary :: string
  se_refs :: "cm_ref list"

text \<open>
  Validation of one ref. A function name of more than 200 bytes is sliced to 200 code points; Go
  panics when the slice has less room than that, and pads with zeros when only the capacity has it.
\<close>

datatype checked = Dropped cm_ref | Kept cm_ref | Panics

definition clamp_ref :: "cm_ref \<Rightarrow> cm_ref" where
  "clamp_ref r =
     (let s = (if rf_startLine r < 1 then 1 else rf_startLine r);
          e = (if rf_endLine r < s then s else rf_endLine r);
          e = (if 9 < e - s then s + 9 else e)
      in r\<lparr>rf_startLine := s, rf_endLine := e\<rparr>)"

definition clamp_function :: "(nat \<Rightarrow> nat) \<Rightarrow> cm_ref \<Rightarrow> checked" where
  "clamp_function cap r =
     (if length (rf_function r) \<le> 200 then Kept r
      else (let rs = runes (rf_function r)
            in if 200 \<le> length rs then Kept (r\<lparr>rf_function := of_runes (take 200 rs)\<rparr>)
               else if 200 \<le> cap (length rs)
                 then Kept (r\<lparr>rf_function := of_runes (rs @ replicate (200 - length rs) 0)\<rparr>)
               else Panics))"

definition check_ref :: "(nat \<Rightarrow> nat) \<Rightarrow> string \<Rightarrow> cm_ref \<Rightarrow> checked" where
  "check_ref cap repoDir r =
     (case (if prefix ''/'' (trim_space (rf_path r)) then normalizeRepoPath (rf_path r) repoDir else Inr (rf_path r)) of
        Inl _ \<Rightarrow> Dropped (r\<lparr>rf_snippet := ''''\<rparr>)
      | Inr p \<Rightarrow>
          (let r = r\<lparr>rf_path := p\<rparr>
           in if \<not> validRepoPath p then Dropped (r\<lparr>rf_snippet := ''''\<rparr>)
              else clamp_function cap (clamp_ref r)))"

text \<open>Overlapping and touching ranges become one block; the last block is first in the list.\<close>

definition add_block :: "(int \<times> int) list \<Rightarrow> cm_ref \<Rightarrow> (int \<times> int) list" where
  "add_block bs r =
     (case bs of
        (s, e) # cs \<Rightarrow>
          if rf_startLine r \<le> wrap64 (e + 1)
          then (s, if e < rf_endLine r then rf_endLine r else e) # cs
          else (rf_startLine r, rf_endLine r) # bs
      | [] \<Rightarrow> [(rf_startLine r, rf_endLine r)])"

definition merge_refs :: "cm_ref list \<Rightarrow> (int \<times> int) list" where
  "merge_refs rs = rev (foldl add_block [] rs)"

definition sed_command :: "string \<Rightarrow> string \<Rightarrow> (int \<times> int) list \<Rightarrow> string" where
  "sed_command repoDir path bs =
     ''sed -n '' @ [CHR 0x27]
     @ trim_suffix (concat (map (\<lambda>(s, e). itoa s @ '','' @ itoa e @ ''p;'') bs)) '';''
     @ [CHR 0x27] @ '' '' @ ShellQuote (repoDir @ ''/'' @ path)"

fun skip_blocks :: "int \<Rightarrow> (int \<times> int) list \<Rightarrow> int \<Rightarrow> int \<times> (int \<times> int) list" where
  "skip_blocks pos [] start = (pos, [])"
| "skip_blocks pos ((s, e) # bs) start =
     (if e < start then skip_blocks (pos + (e - s + 1)) bs start else (pos, (s, e) # bs))"

definition snippet_of :: "string list \<Rightarrow> string" where
  "snippet_of ls = cutRunes (join [CHR 0x0A] ls @ [CHR 0x0A]) (4 * 1024)"

text \<open>The snippets of the sorted refs of one file; the empty one stands for a dropped ref.\<close>

fun walk_refs :: "string list \<Rightarrow> int \<Rightarrow> (int \<times> int) list \<Rightarrow> cm_ref list \<Rightarrow> string list" where
  "walk_refs ls pos bs [] = []"
| "walk_refs ls pos bs (r # rs) =
     (let (pos1, bs1) = skip_blocks pos bs (rf_startLine r)
      in (if bs1 = [] \<or> rf_startLine r < fst (hd bs1) then ''''
          else
            (let off = pos1 + (rf_startLine r - fst (hd bs1));
                 stop = off + (rf_endLine r - rf_startLine r) + 1;
                 off = min off (int (length ls));
                 stop = min stop (int (length ls))
             in if stop \<le> off then '''' else snippet_of (drop (nat off) (take (nat stop) ls))))
         # walk_refs ls pos1 bs1 rs)"

definition group_snippets :: "dockerExec \<Rightarrow> string \<Rightarrow> string \<Rightarrow> cm_ref list \<Rightarrow> string list" where
  "group_snippets dk repoDir path rs =
     (let bs = merge_refs rs
      in case ExecCommand dk (sed_command repoDir path bs) of
           (_, Some _) \<Rightarrow> map (\<lambda>_. '''') rs
         | (out, None) \<Rightarrow>
             if CHR 0x00 \<in> set out \<or> trim_space out = '''' then map (\<lambda>_. '''') rs
             else walk_refs (split_on CHR 0x0A (trim_suffix out [CHR 0x0A])) 0 bs rs)"

definition sort_refs :: "(nat \<times> cm_ref) list \<Rightarrow> (nat \<times> cm_ref) list" where
  "sort_refs g = sort_key (\<lambda>(i, r). rf_startLine r) (sort_key (\<lambda>(i, r). rf_endLine r) g)"

definition hydrate_group :: "dockerExec \<Rightarrow> string \<Rightarrow> string \<Rightarrow> (nat \<times> cm_ref) list \<Rightarrow> (nat \<times> string) list" where
  "hydrate_group dk repoDir path g =
     (let g = sort_refs g in zip (map fst g) (group_snippets dk repoDir path (map snd g)))"

definition attach :: "(nat \<times> string) list \<Rightarrow> nat \<times> checked \<Rightarrow> cm_ref" where
  "attach snips x =
     (case snd x of
        Kept r \<Rightarrow> r\<lparr>rf_snippet := (case map_of snips (fst x) of Some t \<Rightarrow> t | None \<Rightarrow> '''')\<rparr>
      | Dropped r \<Rightarrow> r)"

text \<open>All refs, one command per file; \<open>None\<close> when a validation panics. Files come in any order.\<close>

definition hydrateRefs :: "dockerExec \<Rightarrow> (nat \<Rightarrow> nat) \<Rightarrow> string \<Rightarrow> cm_ref list \<Rightarrow> cm_ref list option" where
  "hydrateRefs dk cap repoDir refs =
     (let cs = map (check_ref cap repoDir) refs
      in if Panics \<in> set cs then None
         else
           (let kept = List.map_filter (\<lambda>(i, c). case c of Kept r \<Rightarrow> Some (i, r) | _ \<Rightarrow> None) (enumerate 0 cs);
                paths = remdups (map (\<lambda>(i, r). rf_path r) kept);
                snips = concat (map (\<lambda>p. hydrate_group dk repoDir p (filter (\<lambda>(i, r). rf_path r = p) kept)) paths)
            in Some (map (attach snips) (enumerate 0 cs))))"


section \<open>The turn\<close>

fun shape_sections :: "(nat \<Rightarrow> nat) \<Rightarrow> string list \<Rightarrow> cm_section list \<Rightarrow> cm_section list" where
  "shape_sections lo seen [] = []"
| "shape_sections lo seen (s # ss) =
     (let title = trim_space (se_title s); key = to_lower lo title
      in if title = '''' \<or> key \<in> set seen then shape_sections lo seen ss
         else s\<lparr>se_summary := (if 600 < length (runes (se_summary s))
                 then of_runes (take 600 (runes (se_summary s))) @ ellipsis else se_summary s)\<rparr>
              # shape_sections lo (key # seen) ss)"

definition shapeResult :: "(nat \<Rightarrow> nat) \<Rightarrow> cm_section list \<Rightarrow> cm_section list" where
  "shapeResult lo ss = shape_sections lo [] ss"

definition capSteps :: "round list \<Rightarrow> step list" where
  "capSteps rounds =
     concat (map (\<lambda>r. map (\<lambda>s. \<lparr>st_tool = st_tool s, st_args = st_args s,
       st_output = capOutput (st_output s) 8000, st_err = capOutput (st_err s) 4000\<rparr>) (ro_steps r)) rounds)"

definition capTrace :: "trace_event \<Rightarrow> trace_event" where
  "capTrace ev = ev\<lparr>te_err := capOutput (te_err ev) 4000, te_result := capOutput (te_result ev) 8000\<rparr>"

definition repoOrientation :: "dockerExec \<Rightarrow> string \<Rightarrow> string" where
  "repoOrientation dk repoDir =
     (case ExecCommand dk (''ls -1 '' @ ShellQuote repoDir @ '' 2>/dev/null | head -60'') of
        (_, Some _) \<Rightarrow> ''''
      | (out, None) \<Rightarrow> if trim_space out = '''' then '''' else capOutput (trim_space out) (2 * 1024))"

fun put_refs :: "cm_section list \<Rightarrow> cm_ref list \<Rightarrow> cm_section list" where
  "put_refs [] rs = []"
| "put_refs (s # ss) rs =
     s\<lparr>se_refs := take (length (se_refs s)) rs\<rparr> # put_refs ss (drop (length (se_refs s)) rs)"

definition clamp_sections :: "cm_section list \<Rightarrow> cm_section list" where
  "clamp_sections ss = map (\<lambda>s. s\<lparr>se_refs := take 10 (se_refs s)\<rparr>) (take 12 ss)"

definition hydrate_sections ::
  "dockerExec \<Rightarrow> (nat \<Rightarrow> nat) \<Rightarrow> string \<Rightarrow> cm_section list \<Rightarrow> cm_section list option" where
  "hydrate_sections dk cap repoDir ss =
     (let ss = clamp_sections ss; allRefs = concat (map se_refs ss)
      in case (if allRefs = [] then Some [] else hydrateRefs dk cap repoDir allRefs) of
           None \<Rightarrow> None
         | Some rs \<Rightarrow>
             Some (map (\<lambda>s. s\<lparr>se_refs := filter (\<lambda>r. rf_snippet r \<noteq> '''') (se_refs s)\<rparr>) (put_refs ss rs)))"

datatype ask_error = AgentFailed agent_error | InvalidJSON string string | NoSections string

text \<open>
  What \<open>Ask\<close> takes from outside: the prompts, the decoders of tool arguments and of the answer, the
  table of lower-case letters, the growth of slices.
\<close>

record ask_env =
  ak_prompt :: string
  ak_scopePrompt :: string
  ak_verdict :: "string \<Rightarrow> bool option"
  ak_tools :: "dockerExec \<Rightarrow> string \<Rightarrow> tool list"
  ak_decode :: "string \<Rightarrow> string + cm_section list"
  ak_lower :: "nat \<Rightarrow> nat"
  ak_cap :: "nat \<Rightarrow> nat"

definition refusal :: string where
  "refusal = ''This looks like an ops or non-code request '' @ em_dash @ '' CodeMaps answers questions about this repo's code.''"

definition ask_system :: "ask_env \<Rightarrow> dockerExec \<Rightarrow> string \<Rightarrow> string" where
  "ask_system A dk repoDir =
     (let nl = [CHR 0x0A, CHR 0x0A]; listing = repoOrientation dk repoDir
      in ak_prompt A @ nl @ ''Repo root: '' @ repoDir @ '' '' @ em_dash
         @ '' pass absolute paths under it for read_file/list_dir (e.g. '' @ repoDir @ ''/src/index.js).''
         @ (if listing = '''' then ''''
            else nl @ ''Repo root orientation (top-level files/dirs of this project '' @ em_dash
              @ '' use it to pick stack-appropriate first searches, e.g. package.json/src means JS, not Python):''
              @ [CHR 0x0A] @ listing))"

definition ask_scope :: "ask_env \<Rightarrow> scope_gate" where
  "ask_scope A = \<lparr>sg_prompt = ak_scopePrompt A, sg_schemaName = ''codemap_scope'',
     sg_refused = (\<lambda>v. \<not> GateVerdict (ak_verdict A) v), sg_refusal = refusal\<rparr>"

definition ask_spec :: "ask_env \<Rightarrow> dockerExec \<Rightarrow> string \<Rightarrow> turn_spec" where
  "ask_spec A dk repoDir = \<lparr>sp_system = ask_system A dk repoDir, sp_tools = ak_tools A dk repoDir,
     sp_maxSteps = 8, sp_schema = Some ''codemap'', sp_opts = []\<rparr>"

text \<open>What becomes of the answer of the pipeline; \<open>None\<close> is a panic.\<close>

definition ask_answer ::
  "ask_env \<Rightarrow> dockerExec \<Rightarrow> string \<Rightarrow> turn_result \<Rightarrow> (ask_error + cm_section list \<times> step list) option" where
  "ask_answer A dk repoDir res =
     (case tr_error res of
        Some e \<Rightarrow> Some (Inl (AgentFailed e))
      | None \<Rightarrow>
          (case ak_decode A (tr_answer res) of
             Inl e \<Rightarrow> Some (Inl (InvalidJSON e (excerpt (tr_answer res))))
           | Inr ss \<Rightarrow>
               if ss = [] then Some (Inl (NoSections (excerpt (tr_answer res))))
               else map_option (\<lambda>ss. Inr (shapeResult (ak_lower A) ss, capSteps (tr_rounds res)))
                      (hydrate_sections dk (ak_cap A) repoDir ss)))"

definition Ask ::
  "env \<Rightarrow> config \<Rightarrow> ask_env \<Rightarrow> dockerExec \<Rightarrow> string \<Rightarrow> string \<Rightarrow> history_entry list
   \<Rightarrow> (ask_error + cm_section list \<times> step list) option" where
  "Ask E cfg A dk repoDir question history =
     ask_answer A dk repoDir (fst (Execute_turn E cfg (Some (ask_scope A)) (Some (\<lambda>_. history)) (ask_spec A dk repoDir) question
       \<lparr>sn_trace = [], sn_lin = Some \<lparr>ln_model = '''', ln_tools = [], ln_events = [], ln_todos = []\<rparr>, sn_sent = []\<rparr>))"

section \<open>Paths stay inside the repository\<close>

lemma normalize_valid:
  "normalizeRepoPath raw repoDir = Inr p \<Longrightarrow> p = ''.'' \<or> validRepoPath p"
  by (auto simp: normalizeRepoPath_def Let_def split: if_splits)

lemma valid_dot: "validRepoPath ''.''" by code_simp

text \<open>
  A path the model names cannot leave the repository. Whatever text a tool call gives as its path,
  what \<open>normalizeRepoPath\<close> accepts, joined to an absolute clean repository root, is the root or lies
  below it.
\<close>

theorem normalized_path_inside:
  assumes "normalizeRepoPath raw repoDir = Inr p"
    and "prefix ''/'' repoDir" "path_clean repoDir = repoDir" "repoDir \<noteq> ''/''"
  shows "path_join [repoDir, p] = repoDir \<or> prefix (repoDir @ ''/'') (path_join [repoDir, p])"
proof (rule path_join_below [OF assms(2-4)])
  have "validRepoPath p" using normalize_valid [OF assms(1)] valid_dot by auto
  then show "list_all (\<lambda>s. s \<noteq> '''' \<and> s \<noteq> ''..'') (split_on CHR ''/'' p)"
    by (simp add: validRepoPath_def list_all_iff)
qed

theorem normalized_path_inside_witness:
  "path_join [''/work/app'', ''src/./main.go''] = ''/work/app''
   \<or> prefix (''/work/app'' @ ''/'') (path_join [''/work/app'', ''src/./main.go''])"
proof (rule normalized_path_inside)
  show "normalizeRepoPath '' /work/app/src/./main.go/ '' ''/work/app'' = Inr ''src/./main.go''" by code_simp
  show "path_clean ''/work/app'' = ''/work/app''" by code_simp
qed simp_all

section \<open>Snippets are the lines they name\<close>

definition seg :: "string list \<Rightarrow> int \<Rightarrow> int \<Rightarrow> string list" where
  "seg L s e = take (nat (e - s + 1)) (drop (nat (s - 1)) L)"

definition ranged :: "cm_ref \<Rightarrow> bool" where
  "ranged r \<longleftrightarrow> 1 \<le> rf_startLine r \<and> rf_startLine r \<le> rf_endLine r \<and> rf_endLine r < 2 ^ 63 - 1"

text \<open>Blocks, last first, are disjoint and do not touch.\<close>

definition blocks_ok :: "(int \<times> int) list \<Rightarrow> bool" where
  "blocks_ok bs \<longleftrightarrow> sorted_wrt (\<lambda>b c. snd b + 1 < fst c) bs \<and> (\<forall>b \<in> set bs. 1 \<le> fst b \<and> fst b \<le> snd b)"

definition covered :: "(int \<times> int) list \<Rightarrow> cm_ref \<Rightarrow> bool" where
  "covered bs r \<longleftrightarrow> (\<exists>b \<in> set bs. fst b \<le> rf_startLine r \<and> rf_endLine r \<le> snd b)"

definition acc_ok :: "(int \<times> int) list \<Rightarrow> bool" where
  "acc_ok bs \<longleftrightarrow> blocks_ok (rev bs) \<and> (\<forall>b \<in> set bs. snd b < 2 ^ 63 - 1)"

lemma acc_ok_Cons:
  "acc_ok (b # bs) \<longleftrightarrow> acc_ok bs \<and> 1 \<le> fst b \<and> fst b \<le> snd b \<and> snd b < 2 ^ 63 - 1 \<and> (\<forall>c \<in> set bs. snd c + 1 < fst b)"
  by (auto simp: acc_ok_def blocks_ok_def sorted_wrt_append)

lemma covered_Cons: "covered (b # bs) r \<longleftrightarrow> fst b \<le> rf_startLine r \<and> rf_endLine r \<le> snd b \<or> covered bs r"
  by (auto simp: covered_def)

lemma add_block_ok:
  assumes "acc_ok bs" "ranged r" "\<forall>b \<in> set bs. fst b \<le> rf_startLine r"
  shows "acc_ok (add_block bs r) \<and> (\<forall>b \<in> set (add_block bs r). fst b \<le> rf_startLine r)
    \<and> covered (add_block bs r) r \<and> (covered bs q \<longrightarrow> covered (add_block bs r) q)"
proof (cases bs)
  case Nil
  then show ?thesis using assms(2) by (auto simp: add_block_def acc_ok_def blocks_ok_def ranged_def covered_def)
next
  case (Cons b cs)
  obtain s e where b: "b = (s, e)" by fastforce
  have ok: "acc_ok cs" "1 \<le> s" "s \<le> e" "e < 2 ^ 63 - 1" "\<forall>c \<in> set cs. snd c + 1 < s" "s \<le> rf_startLine r"
    using assms(1,3) by (auto simp: Cons b acc_ok_Cons)
  have w: "wrap64 (e + 1) = e + 1" using ok(2-4) by simp
  have r: "1 \<le> rf_startLine r" "rf_startLine r \<le> rf_endLine r" "rf_endLine r < 2 ^ 63 - 1"
    using assms(2) by (simp_all add: ranged_def)
  show ?thesis
  proof (cases "rf_startLine r \<le> e + 1")
    case True
    then show ?thesis using ok r assms(3) by (auto simp: Cons b add_block_def w acc_ok_Cons covered_Cons)
  next
    case False
    then have "\<forall>c \<in> set cs. snd c + 1 < rf_startLine r" using ok by fastforce
    with False show ?thesis using ok r assms(3) by (auto simp: Cons b add_block_def w acc_ok_Cons covered_Cons)
  qed
qed

lemma foldl_blocks:
  assumes "acc_ok bs" "list_all ranged rs" "sorted (map rf_startLine rs)"
    "\<forall>r \<in> set rs. \<forall>b \<in> set bs. fst b \<le> rf_startLine r"
  shows "acc_ok (foldl add_block bs rs) \<and> (covered bs q \<or> q \<in> set rs \<longrightarrow> covered (foldl add_block bs rs) q)"
  using assms
proof (induction rs arbitrary: bs)
  case (Cons r rs)
  have r: "ranged r" "\<forall>b \<in> set bs. fst b \<le> rf_startLine r" using Cons.prems by auto
  note a = add_block_ok [OF Cons.prems(1) r]
  have "\<forall>x \<in> set rs. \<forall>b \<in> set (add_block bs r). fst b \<le> rf_startLine x"
    using a Cons.prems(3) by fastforce
  with Cons.IH [of "add_block bs r"] Cons.prems(2,3) a show ?case by auto
qed simp

lemma merge_refs_ok:
  assumes "list_all ranged rs" "sorted (map rf_startLine rs)"
  shows "blocks_ok (merge_refs rs)" "r \<in> set rs \<Longrightarrow> covered (merge_refs rs) r"
  using foldl_blocks [of "[]" rs r] assms
  by (simp_all add: merge_refs_def acc_ok_def blocks_ok_def covered_def)

text \<open>The lines a run of \<open>sed\<close> prints for disjoint blocks in ascending order.\<close>

definition segs :: "string list \<Rightarrow> (int \<times> int) list \<Rightarrow> string list" where
  "segs L bs = concat (map (\<lambda>(s, e). seg L s e) bs)"

lemma segs_simps [simp]: "segs L [] = []" "segs L ((s, e) # bs) = seg L s e @ segs L bs"
  by (simp_all add: segs_def)

lemma length_seg: "1 \<le> s \<Longrightarrow> s \<le> e \<Longrightarrow> int (length (seg L s e)) = max 0 (min (e - s + 1) (int (length L) - (s - 1)))"
  by (auto simp: seg_def)

lemma seg_beyond: "1 \<le> s \<Longrightarrow> s \<le> e \<Longrightarrow> int (length L) < s \<Longrightarrow> seg L s e = []"
  by (simp add: seg_def)

text \<open>After a block that the file cuts short, nothing follows.\<close>

lemma segs_after_short:
  assumes "blocks_ok ((s, e) # bs)" "int (length (seg L s e)) < e - s + 1"
  shows "segs L bs = []"
proof -
  have se: "1 \<le> s" "s \<le> e" using assms(1) by (auto simp: blocks_ok_def)
  then have len: "int (length L) < e + 1" using assms(2) length_seg [OF se, of L] by auto
  have "seg L s' e' = []" if "(s', e') \<in> set bs" for s' e'
  proof (rule seg_beyond)
    show "1 \<le> s'" "s' \<le> e'" "int (length L) < s'" using that assms(1) len by (auto simp: blocks_ok_def)
  qed
  then show ?thesis by (auto simp: segs_def)
qed

definition walk_inv :: "string list \<Rightarrow> string list \<Rightarrow> int \<Rightarrow> (int \<times> int) list \<Rightarrow> bool" where
  "walk_inv L ls pos bs \<longleftrightarrow> (\<exists>P. ls = P @ segs L bs \<and> int (length P) \<le> pos
     \<and> (int (length P) < pos \<longrightarrow> segs L bs = []))"

lemma skip_blocks_inv:
  assumes "walk_inv L ls pos bs" "blocks_ok bs" "skip_blocks pos bs start = (pos', bs')"
  shows "walk_inv L ls pos' bs' \<and> blocks_ok bs' \<and> bs' = dropWhile (\<lambda>b. snd b < start) bs"
  using assms
proof (induction pos bs start rule: skip_blocks.induct)
  case (2 pos s e bs start)
  show ?case
  proof (cases "e < start")
    case False
    then show ?thesis using 2 by auto
  next
    case True
    obtain P where P: "ls = P @ segs L ((s, e) # bs)" "int (length P) \<le> pos"
      "int (length P) < pos \<longrightarrow> segs L ((s, e) # bs) = []"
      using "2.prems"(1) by (auto simp: walk_inv_def)
    have se: "1 \<le> s" "s \<le> e" using "2.prems"(2) by (auto simp: blocks_ok_def)
    have "walk_inv L ls (pos + (e - s + 1)) bs"
      unfolding walk_inv_def
    proof (intro exI [of _ "P @ seg L s e"] conjI impI)
      show "ls = (P @ seg L s e) @ segs L bs" using P(1) by simp
      show "int (length (P @ seg L s e)) \<le> pos + (e - s + 1)"
        using P(2) se length_seg [OF se, of L] by (auto simp: max_def min_def)
      assume "int (length (P @ seg L s e)) < pos + (e - s + 1)"
      then show "segs L bs = []"
        using P(2,3) segs_after_short [OF "2.prems"(2)] by (cases "int (length P) < pos") auto
    qed
    moreover have "blocks_ok bs" using "2.prems"(2) by (auto simp: blocks_ok_def)
    ultimately show ?thesis using 2 True by auto
  qed
qed simp

text \<open>Dropping the blocks that end before a ref leaves the block that covers it in front.\<close>

lemma covered_front:
  assumes "blocks_ok bs" "covered bs r" "rf_startLine r \<le> rf_endLine r"
  shows "\<exists>s e cs. dropWhile (\<lambda>b. snd b < rf_startLine r) bs = (s, e) # cs \<and> s \<le> rf_startLine r \<and> rf_endLine r \<le> e"
  using assms
proof (induction bs)
  case (Cons b bs)
  obtain s e where b: "b = (s, e)" by fastforce
  show ?case
  proof (cases "e < rf_startLine r")
    case True
    then show ?thesis using Cons by (auto simp: b covered_Cons blocks_ok_def)
  next
    case False
    have "s \<le> rf_startLine r \<and> rf_endLine r \<le> e"
    proof (rule ccontr)
      assume "\<not> (s \<le> rf_startLine r \<and> rf_endLine r \<le> e)"
      then obtain c where "c \<in> set bs" "fst c \<le> rf_startLine r"
        using Cons.prems(2) by (auto simp: b covered_def)
      then show False using Cons.prems(1) False by (auto simp: b blocks_ok_def)
    qed
    then show ?thesis using False by (simp add: b)
  qed
qed (simp add: covered_def)

lemma covered_later:
  "covered bs q \<Longrightarrow> rf_startLine r \<le> rf_startLine q \<Longrightarrow> rf_startLine q \<le> rf_endLine q \<Longrightarrow>
   covered (dropWhile (\<lambda>b. snd b < rf_startLine r) bs) q"
proof (induction bs)
  case (Cons b bs)
  then show ?case by (auto simp: covered_Cons)
qed simp

text \<open>The slice of the printed lines that the offsets pick.\<close>

lemma slice_is_seg:
  assumes inv: "walk_inv L ls pos ((s, e) # bs)" and ok: "blocks_ok ((s, e) # bs)"
    and r: "s \<le> a" "a \<le> b" "b \<le> e"
  shows "drop (nat (min (pos + (a - s)) (int (length ls))))
           (take (nat (min (pos + (a - s) + (b - a) + 1) (int (length ls)))) ls) = seg L a b"
proof -
  obtain P where P: "ls = P @ segs L ((s, e) # bs)" "int (length P) \<le> pos"
    "int (length P) < pos \<longrightarrow> segs L ((s, e) # bs) = []"
    using inv by (auto simp: walk_inv_def)
  have se: "1 \<le> s" "s \<le> e" using ok by (auto simp: blocks_ok_def)
  let ?k = "nat (a - s)" and ?n = "nat (b - a + 1)"
  have pos: "0 \<le> pos" using P(2) by simp
  have clamp: "drop (nat (min (pos + (a - s)) (int (length ls)))) (take (nat (min (pos + (a - s) + (b - a) + 1) (int (length ls)))) ls)
      = drop (nat pos + ?k) (take (nat pos + ?k + ?n) ls)"
  proof -
    have t: "take (nat (min x (int (length ls)))) ls = take (nat x) ls" for x by (simp add: min_def)
    have d: "drop (nat (min x (int (length ls)))) (take m ls) = drop (nat x) (take m ls)" for x m
      by (simp add: min_def) arith
    have "nat (pos + (a - s)) = nat pos + ?k" "nat (pos + (a - s) + (b - a) + 1) = nat pos + ?k + ?n"
      using pos r by simp_all
    then show ?thesis by (simp only: t d)
  qed
  also have "\<dots> = take ?n (drop ?k (drop (nat pos) ls))"
    by (simp add: take_drop add.commute add.left_commute)
  also have "\<dots> = seg L a b"
  proof (cases "int (length P) < pos")
    case True
    then have "segs L ((s, e) # bs) = []" using P(3) by blast
    then have "seg L s e = []" "ls = P" using P(1) by simp_all
    then have "int (length L) < s" using se length_seg [OF se, of L] by auto
    then show ?thesis using True \<open>ls = P\<close> r se by (simp add: seg_def)
  next
    case False
    then have d: "drop (nat pos) ls = seg L s e @ segs L bs" using P(1,2) by simp
    have sub: "take ?n (drop ?k (seg L s e)) = seg L a b"
      using r se by (simp add: seg_def drop_take min_def add.commute) (simp add: nat_diff_distrib' nat_add_distrib)
    show ?thesis
    proof (cases "int (length (seg L s e)) < e - s + 1")
      case True
      then show ?thesis using segs_after_short [OF ok True] sub by (simp add: d)
    next
      case False
      then have "?k + ?n \<le> length (seg L s e)" using r length_seg [OF se, of L] by auto
      then show ?thesis using sub by (simp add: d)
    qed
  qed
  finally show ?thesis .
qed

definition snippet_or_drop :: "string list \<Rightarrow> cm_ref \<Rightarrow> string" where
  "snippet_or_drop L r =
     (let ls = seg L (rf_startLine r) (rf_endLine r) in if ls = [] then '''' else snippet_of ls)"

lemma walk_refs_exact:
  assumes "walk_inv L ls pos bs" "blocks_ok bs" "list_all ranged rs" "sorted (map rf_startLine rs)"
    "\<forall>r \<in> set rs. covered bs r"
  shows "walk_refs ls pos bs rs = map (snippet_or_drop L) rs"
  using assms
proof (induction rs arbitrary: pos bs)
  case (Cons r rs)
  obtain pos1 bs1 where k: "skip_blocks pos bs (rf_startLine r) = (pos1, bs1)" by fastforce
  note inv = skip_blocks_inv [OF Cons.prems(1,2) k]
  have r: "rf_startLine r \<le> rf_endLine r" using Cons.prems(3) by (simp add: ranged_def)
  obtain s e cs where c: "bs1 = (s, e) # cs" "s \<le> rf_startLine r" "rf_endLine r \<le> e"
    using covered_front [OF Cons.prems(2) _ r] Cons.prems(5) inv by auto
  have slice: "drop (nat (min (pos1 + (rf_startLine r - s)) (int (length ls))))
      (take (nat (min (pos1 + (rf_startLine r - s) + (rf_endLine r - rf_startLine r) + 1) (int (length ls)))) ls)
    = seg L (rf_startLine r) (rf_endLine r)"
  proof (rule slice_is_seg [OF _ _ c(2) r c(3)])
    show "walk_inv L ls pos1 ((s, e) # cs)" "blocks_ok ((s, e) # cs)" using inv unfolding c(1) by blast+
  qed
  have pos1: "0 \<le> pos1" using inv by (auto simp: walk_inv_def)
  let ?off = "min (pos1 + (rf_startLine r - s)) (int (length ls))"
  let ?stop = "min (pos1 + (rf_startLine r - s) + (rf_endLine r - rf_startLine r) + 1) (int (length ls))"
  have none: "?stop \<le> ?off \<longleftrightarrow> seg L (rf_startLine r) (rf_endLine r) = []"
    unfolding slice [symmetric] using pos1 r c(2) by (auto simp: min_def)
  have "walk_refs ls pos1 bs1 rs = map (snippet_or_drop L) rs"
  proof (rule Cons.IH)
    show "\<forall>q \<in> set rs. covered bs1 q"
      using Cons.prems(3-5) inv by (auto simp: ranged_def list_all_iff intro!: covered_later)
  qed (use inv Cons.prems(3,4) in auto)
  then show ?case
    using c none slice by (simp add: k Let_def snippet_or_drop_def)
qed simp

text \<open>What \<open>sed\<close> prints for the blocks, in a container whose file at \<open>path\<close> has the lines \<open>L\<close>.\<close>

definition prints_ranges :: "dockerExec \<Rightarrow> string \<Rightarrow> string \<Rightarrow> string list \<Rightarrow> (int \<times> int) list \<Rightarrow> bool" where
  "prints_ranges dk repoDir path L bs \<longleftrightarrow>
     dk (sed_command repoDir path bs) = Inr (concat (map (\<lambda>l. l @ [CHR 0x0A]) (segs L bs)), 0)"

lemma concat_lines: "ls \<noteq> [] \<Longrightarrow> concat (map (\<lambda>l. l @ [CHR 0x0A]) ls) = join [CHR 0x0A] ls @ [CHR 0x0A]"
  by (induction "[CHR 0x0A]" ls rule: join.induct) simp_all

text \<open>
  C15: snippets are the lines they name. When the printed lines begin and end with visible text, each ref
  of a file gets exactly the lines from its start to its end or to the end of the file (cut at 4,096 code
  points), and a ref past the end of the file gets nothing - however the ranges overlap, touch or repeat.
\<close>

theorem snippets_exact:
  assumes "prints_ranges dk repoDir path L (merge_refs rs)" "list_all ranged rs" "sorted (map rf_startLine rs)"
    and "list_all (\<lambda>l. CHR 0x0A \<notin> set l \<and> CHR 0x00 \<notin> set l) L"
    and "segs L (merge_refs rs) \<noteq> []"
    and "trim_space (join [CHR 0x0A] (segs L (merge_refs rs)) @ [CHR 0x0A]) = join [CHR 0x0A] (segs L (merge_refs rs))"
    and "join [CHR 0x0A] (segs L (merge_refs rs)) \<noteq> ''''"
  shows "group_snippets dk repoDir path rs = map (snippet_or_drop L) rs"
proof -
  let ?ls = "segs L (merge_refs rs)"
  let ?out = "join [CHR 0x0A] ?ls"
  have cmd: "ExecCommand dk (sed_command repoDir path (merge_refs rs)) = (?out, None)"
    using assms(1,5,6) by (simp add: prints_ranges_def ExecCommand_def concat_lines)
  have sub: "set ?ls \<subseteq> set L"
    by (auto simp: segs_def seg_def dest: in_set_takeD in_set_dropD)
  then have lines: "\<And>l. l \<in> set ?ls \<Longrightarrow> CHR 0x0A \<notin> set l \<and> CHR 0x00 \<notin> set l"
    using assms(4) by (auto simp: list_all_iff)
  have nul: "CHR 0x00 \<notin> set ?out"
  proof -
    have "set (join [CHR 0x0A] xs) \<subseteq> insert CHR 0x0A (\<Union> (set ` set xs))" for xs
      by (induction "[CHR 0x0A]" xs rule: join.induct) auto
    then show ?thesis using lines by fastforce
  qed
  have ts: "trim_space ?out = ?out" using assms(6) by (metis trim_space_idem)
  have noend: "trim_suffix ?out [CHR 0x0A] = ?out"
  proof -
    have "\<not> suffix [CHR 0x0A] ?out"
      using trim_space_no_prefix(2) [of "[CHR 0x0A]" ?out] ts by (simp add: space_seqs_def)
    then show ?thesis by (simp add: trim_suffix_def)
  qed
  have split: "split_on CHR 0x0A ?out = ?ls"
    using assms(5) lines by (intro split_on_join) auto
  have "walk_refs ?ls 0 (merge_refs rs) rs = map (snippet_or_drop L) rs"
  proof (rule walk_refs_exact)
    show "walk_inv L ?ls 0 (merge_refs rs)" by (auto simp: walk_inv_def intro: exI [of _ "[]"])
    show "blocks_ok (merge_refs rs)" "\<forall>r \<in> set rs. covered (merge_refs rs) r"
      using merge_refs_ok [OF assms(2,3)] by auto
  qed (use assms(2,3) in auto)
  then show ?thesis
    using cmd nul assms(7) by (simp add: group_snippets_def ts noend split)
qed

text \<open>
  A blank first line shifts every snippet. When line 1 of a file is blank, refs to line 1 and to
  line 2 get the text of line 2 and nothing: \<open>ExecCommand\<close> trims what \<open>sed\<close> printed, and the offsets
  count the line that is gone.
\<close>

theorem blank_line_shifts_snippets:
  assumes "prints_ranges dk repoDir path ('''' # x # L) (merge_refs [r, q])"
    and "CHR 0x0A \<notin> set x" "CHR 0x00 \<notin> set x" "x \<noteq> ''''" "trim_space (CHR 0x0A # x @ [CHR 0x0A]) = x"
    and "rf_startLine r = 1" "rf_endLine r = 1" "rf_startLine q = 2" "rf_endLine q = 2"
  shows "group_snippets dk repoDir path [r, q] = [snippet_of [x], '''']"
proof -
  have bs: "merge_refs [r, q] = [(1, 2)]" using assms(6-9) by (simp add: merge_refs_def add_block_def)
  have "segs ('''' # x # L) [(1, 2)] = ['''', x]" by (simp add: seg_def numeral_2_eq_2)
  then have cmd: "ExecCommand dk (sed_command repoDir path [(1, 2)]) = (x, None)"
    using assms(1,5) bs by (simp add: prints_ranges_def ExecCommand_def)
  have t: "trim_space x = x" using assms(5) by (metis trim_space_idem)
  then have "\<not> suffix [CHR 0x0A] x" using trim_space_no_prefix(2) [of "[CHR 0x0A]" x] by (simp add: space_seqs_def)
  then have "trim_suffix x [CHR 0x0A] = x" by (simp add: trim_suffix_def)
  then show ?thesis
    using cmd assms(2-4,6-9) t by (simp add: group_snippets_def bs split_on_absent Let_def)
qed

section \<open>What an answer looks like\<close>

definition ref_ok :: "cm_ref \<Rightarrow> bool" where
  "ref_ok r \<longleftrightarrow> rf_snippet r \<noteq> '''' \<and> validRepoPath (rf_path r)
     \<and> 1 \<le> rf_startLine r \<and> rf_startLine r \<le> rf_endLine r \<and> rf_endLine r \<le> rf_startLine r + 9"

lemma clamp_ref_range:
  "1 \<le> rf_startLine (clamp_ref r) \<and> rf_startLine (clamp_ref r) \<le> rf_endLine (clamp_ref r)
   \<and> rf_endLine (clamp_ref r) \<le> rf_startLine (clamp_ref r) + 9 \<and> rf_path (clamp_ref r) = rf_path r"
  by (simp add: clamp_ref_def Let_def)

lemma clamp_function_same:
  "clamp_function cap r = Kept q \<Longrightarrow> rf_path q = rf_path r \<and> rf_startLine q = rf_startLine r \<and> rf_endLine q = rf_endLine r"
  by (auto simp: clamp_function_def Let_def split: if_splits)

lemma check_ref_kept:
  "check_ref cap repoDir r = Kept q \<Longrightarrow> validRepoPath (rf_path q) \<and> 1 \<le> rf_startLine q
     \<and> rf_startLine q \<le> rf_endLine q \<and> rf_endLine q \<le> rf_startLine q + 9"
  using clamp_ref_range
  by (auto simp: check_ref_def Let_def split: sum.splits if_splits dest!: clamp_function_same)

lemma clamp_function_not_dropped: "clamp_function cap r \<noteq> Dropped q"
  by (simp add: clamp_function_def Let_def)

lemma check_ref_dropped: "check_ref cap repoDir r = Dropped q \<Longrightarrow> rf_snippet q = ''''"
  using clamp_function_not_dropped
  by (fastforce simp: check_ref_def Let_def split: sum.splits if_splits)

lemma hydrateRefs_ok:
  assumes "hydrateRefs dk cap repoDir refs = Some rs"
  shows "length rs = length refs" "r \<in> set rs \<Longrightarrow> rf_snippet r \<noteq> '''' \<Longrightarrow> ref_ok r"
proof -
  show "length rs = length refs" using assms by (auto simp: hydrateRefs_def Let_def split: if_splits)
  assume r: "r \<in> set rs" "rf_snippet r \<noteq> ''''"
  let ?cs = "map (check_ref cap repoDir) refs"
  obtain snips where "Panics \<notin> set ?cs" "rs = map (attach snips) (enumerate 0 ?cs)"
    using assms by (auto simp: hydrateRefs_def Let_def split: if_splits)
  then obtain i where i: "i < length refs" "r = attach snips (i, ?cs ! i)" "?cs ! i \<noteq> Panics"
    using r(1) by (auto simp: in_set_conv_nth nth_enumerate_eq) (metis image_eqI nth_mem)
  show "ref_ok r"
  proof (cases "?cs ! i")
    case (Dropped q)
    then show ?thesis using i r(2) check_ref_dropped [of cap repoDir "refs ! i" q] by (simp add: attach_def)
  next
    case (Kept q)
    then show ?thesis using i r(2) check_ref_kept [of cap repoDir "refs ! i" q] by (auto simp: ref_ok_def attach_def)
  qed (use i(3) in simp)
qed

lemma put_refs_spec:
  "length rs = length (concat (map se_refs ss)) \<Longrightarrow>
   list_all2 (\<lambda>s q. se_title q = se_title s \<and> se_summary q = se_summary s
     \<and> length (se_refs q) = length (se_refs s) \<and> set (se_refs q) \<subseteq> set rs) ss (put_refs ss rs)"
proof (induction ss rs rule: put_refs.induct)
  case (2 s ss rs)
  then have "list_all2 (\<lambda>t q. se_title q = se_title t \<and> se_summary q = se_summary t
     \<and> length (se_refs q) = length (se_refs t) \<and> set (se_refs q) \<subseteq> set (drop (length (se_refs s)) rs))
     ss (put_refs ss (drop (length (se_refs s)) rs))" by simp
  then have "list_all2 (\<lambda>s q. se_title q = se_title s \<and> se_summary q = se_summary s
     \<and> length (se_refs q) = length (se_refs s) \<and> set (se_refs q) \<subseteq> set rs)
     ss (put_refs ss (drop (length (se_refs s)) rs))"
    by (rule list_all2_mono) (auto dest: in_set_dropD)
  with 2(2) show ?case by (auto dest: in_set_takeD)
qed simp

definition section_ok :: "cm_section \<Rightarrow> bool" where
  "section_ok s \<longleftrightarrow> length (se_refs s) \<le> 10 \<and> list_all ref_ok (se_refs s)"

lemma hydrate_sections_ok:
  assumes "hydrate_sections dk cap repoDir ss = Some qs"
  shows "length qs \<le> 12 \<and> list_all section_ok qs"
proof -
  let ?ss = "clamp_sections ss"
  obtain rs where rs: "(if concat (map se_refs ?ss) = [] then Some [] else hydrateRefs dk cap repoDir (concat (map se_refs ?ss))) = Some rs"
    and qs: "qs = map (\<lambda>s. s\<lparr>se_refs := filter (\<lambda>r. rf_snippet r \<noteq> '''') (se_refs s)\<rparr>) (put_refs ?ss rs)"
    using assms by (auto simp: hydrate_sections_def Let_def split: option.splits)
  have len: "length rs = length (concat (map se_refs ?ss))"
    and ok: "\<And>r. r \<in> set rs \<Longrightarrow> rf_snippet r \<noteq> '''' \<Longrightarrow> ref_ok r"
    using rs hydrateRefs_ok [of dk cap repoDir "concat (map se_refs ?ss)" rs] by (auto split: if_splits)
  note p = put_refs_spec [OF len]
  have ten: "\<forall>s \<in> set ?ss. length (se_refs s) \<le> 10" and twelve: "length ?ss \<le> 12"
    by (auto simp: clamp_sections_def)
  have "section_ok (s\<lparr>se_refs := filter (\<lambda>r. rf_snippet r \<noteq> '''') (se_refs s)\<rparr>)" if s: "s \<in> set (put_refs ?ss rs)" for s
  proof -
    obtain i where i: "i < length (put_refs ?ss rs)" "s = put_refs ?ss rs ! i" using s by (auto simp: in_set_conv_nth)
    then have "length (se_refs s) = length (se_refs (?ss ! i))" "set (se_refs s) \<subseteq> set rs" "i < length ?ss"
      using p by (auto simp: list_all2_conv_all_nth)
    then have "length (se_refs s) \<le> 10" using ten by simp
    then have "length (filter (\<lambda>r. rf_snippet r \<noteq> '''') (se_refs s)) \<le> 10" by (meson length_filter_le le_trans)
    then show ?thesis using ok \<open>set (se_refs s) \<subseteq> set rs\<close> by (auto simp: section_ok_def list_all_iff)
  qed
  then show ?thesis using qs twelve list_all2_lengthD [OF p] by (simp add: list_all_iff)
qed

definition title_key :: "(nat \<Rightarrow> nat) \<Rightarrow> cm_section \<Rightarrow> string" where
  "title_key lo s = to_lower lo (trim_space (se_title s))"

lemma shape_sections_ok:
  "distinct (map (title_key lo) (shape_sections lo seen ss))
   \<and> set (map (title_key lo) (shape_sections lo seen ss)) \<inter> set seen = {}
   \<and> list_all (\<lambda>s. trim_space (se_title s) \<noteq> '''') (shape_sections lo seen ss)
   \<and> length (shape_sections lo seen ss) \<le> length ss
   \<and> (list_all section_ok ss \<longrightarrow> list_all section_ok (shape_sections lo seen ss))"
  by (induction lo seen ss rule: shape_sections.induct)
    (auto simp: Let_def title_key_def section_ok_def le_SucI)

text \<open>
  C38: an answer is displayable. Whatever the model wrote, an answer of \<open>Ask\<close> has at most twelve sections
  with titles that are not blank and differ even ignoring case, each with at most ten refs, and every
  ref has a non-empty snippet read from the repository, a path inside it and a range of one to ten lines.
\<close>

theorem answer_well_formed:
  assumes "Ask E cfg A dk repoDir question history = Some (Inr (ss, steps))"
  shows "length ss \<le> 12 \<and> list_all section_ok ss
    \<and> list_all (\<lambda>s. trim_space (se_title s) \<noteq> '''') ss \<and> distinct (map (title_key (ak_lower A)) ss)"
proof -
  obtain qs0 qs where "hydrate_sections dk (ak_cap A) repoDir qs0 = Some qs" "ss = shapeResult (ak_lower A) qs"
    using assms by (auto simp: Ask_def ask_answer_def split: option.splits sum.splits if_splits)
  then show ?thesis
    using hydrate_sections_ok [of dk "ak_cap A" repoDir qs0 qs] shape_sections_ok [of "ak_lower A" "[]" qs]
    by (auto simp: shapeResult_def)
qed


text \<open>A refusal of the scope gate comes back as a decoding error of the answer.\<close>

lemma refusal_becomes_error:
  assumes "Structured E cfg (ak_scopePrompt A) question ''codemap_scope''
      \<lparr>sn_trace = [], sn_lin = Some \<lparr>ln_model = '''', ln_tools = [], ln_events = [], ln_todos = []\<rparr>, sn_sent = []\<rparr> = (Inr v, s1)"
    and "\<not> GateVerdict (ak_verdict A) v" "ak_decode A refusal = Inl e"
  shows "Ask E cfg A dk repoDir question history = Some (Inl (InvalidJSON e (excerpt refusal)))"
  using assms by (simp add: Ask_def Execute_turn_def ask_scope_def ask_answer_def)

text \<open>
  A long name in a model's answer panics. A ref whose function name takes more than 200 bytes in
  fewer than 200 code points - seventy Chinese characters, say - makes \<open>hydrateRefs\<close> slice past the
  runes it has, whatever else the answer holds, as soon as its path is one the repository could have.
\<close>

theorem long_name_panics:
  assumes "r \<in> set refs" "validRepoPath (rf_path r)" "\<not> prefix ''/'' (trim_space (rf_path r))"
    and "200 < length (rf_function r)" "length (runes (rf_function r)) < 200"
    and "cap (length (runes (rf_function r))) < 200"
  shows "hydrateRefs dk cap repoDir refs = None"
proof -
  have "check_ref cap repoDir r = Panics"
    using assms(2-6) by (simp add: check_ref_def clamp_function_def clamp_ref_def Let_def)
  then have "Panics \<in> set (map (check_ref cap repoDir) refs)" using assms(1) by (metis image_eqI list.set_map)
  then show ?thesis by (simp add: hydrateRefs_def Let_def)
qed

definition wide_name :: string where
  "wide_name = of_runes (replicate 70 20013)"

lemma wide_name_lengths: "length wide_name = 210" "length (runes wide_name) = 70"
proof -
  have "length (enc_rune 20013) = 3" by (simp add: enc_rune_def enc_bytes_def valid_rune_def)
  then have "length (of_runes (replicate n 20013)) = 3 * n" for n by (induction n) simp_all
  then show "length wide_name = 210" by (simp add: wide_name_def)
  have "valid_rune 20013" by (simp add: valid_rune_def)
  then have "runes wide_name = replicate 70 20013"
    unfolding wide_name_def by (intro runes_of_runes) (auto dest: in_set_replicate [THEN iffD1])
  then show "length (runes wide_name) = 70" by simp
qed

definition sample_ref :: "int \<Rightarrow> int \<Rightarrow> string \<Rightarrow> cm_ref" where
  "sample_ref a b f = \<lparr>rf_path = ''a.go'', rf_startLine = a, rf_endLine = b, rf_snippet = '''', rf_function = f\<rparr>"

theorem long_name_panics_witness:
  "hydrateRefs (\<lambda>_. Inl ''x'') (\<lambda>n. n + 8) ''/work'' [sample_ref 1 2 '''', sample_ref 3 4 wide_name] = None"
proof (rule long_name_panics)
  show "sample_ref 3 4 wide_name \<in> set [sample_ref 1 2 '''', sample_ref 3 4 wide_name]" by simp
  have "validRepoPath ''a.go''" "\<not> prefix ''/'' (trim_space ''a.go'')" by code_simp+
  then show "validRepoPath (rf_path (sample_ref 3 4 wide_name))" "\<not> prefix ''/'' (trim_space (rf_path (sample_ref 3 4 wide_name)))"
    by (simp_all add: sample_ref_def)
qed (simp_all add: sample_ref_def wide_name_lengths)

section \<open>What globs match\<close>

lemma rests_while_iff: "q \<in> set (rests_while P rs) \<longleftrightarrow> (\<exists>p. rs = p @ q \<and> (\<forall>r \<in> set p. P r))"
proof (induction rs)
  case (Cons r rs)
  have "(\<exists>p. r # rs = p @ q \<and> (\<forall>x \<in> set p. P x)) \<longleftrightarrow> q = r # rs \<or> (P r \<and> (\<exists>p. rs = p @ q \<and> (\<forall>x \<in> set p. P x)))"
    (is "?l \<longleftrightarrow> ?r")
  proof
    assume ?l
    then obtain p where p: "r # rs = p @ q" "\<forall>x \<in> set p. P x" by blast
    then show ?r by (cases p) auto
  next
    assume ?r
    then show ?l
    proof
      assume "P r \<and> (\<exists>p. rs = p @ q \<and> (\<forall>x \<in> set p. P x))"
      then obtain p where "P r" "rs = p @ q" "\<forall>x \<in> set p. P x" by blast
      then show ?l by (intro exI [of _ "r # p"]) auto
    qed (auto intro: exI [of _ "[]"])
  qed
  with Cons show ?case by auto
qed auto

lemma match_literal: "gt_match (map GLit cs) rs \<longleftrightarrow> rs = cs"
  by (induction cs arbitrary: rs) (auto simp: tok_rests_def split: list.splits)

text \<open>A star stays inside one directory; a double star with a slash eats whole directories or none.\<close>

lemma rests_no: "q \<in> set (rests_while (\<lambda>r. r \<noteq> c) rs) \<longleftrightarrow> (\<exists>p. rs = p @ q \<and> c \<notin> set p)"
  unfolding rests_while_iff by (rule iff_exI) auto

lemma match_star: "gt_match (GStar # ts) rs \<longleftrightarrow> (\<exists>p q. rs = p @ q \<and> 47 \<notin> set p \<and> gt_match ts q)"
proof -
  have "gt_match (GStar # ts) rs \<longleftrightarrow> (\<exists>q. q \<in> set (rests_while (\<lambda>r. r \<noteq> 47) rs) \<and> gt_match ts q)"
    by (auto simp: tok_rests_def list_ex_iff)
  then show ?thesis unfolding rests_no by metis
qed

lemma match_dirs:
  "gt_match (GDirs # ts) rs \<longleftrightarrow> gt_match ts rs \<or> (\<exists>p q. rs = p @ 47 # q \<and> 10 \<notin> set p \<and> gt_match ts q)"
proof -
  have "(\<exists>x \<in> set (rests_while (\<lambda>r. r \<noteq> 10) rs). x \<noteq> [] \<and> hd x = 47 \<and> gt_match ts (tl x))
      \<longleftrightarrow> (\<exists>p q. rs = p @ 47 # q \<and> 10 \<notin> set p \<and> gt_match ts q)" (is "?l \<longleftrightarrow> ?r")
  proof
    assume ?l
    then obtain x where x: "x \<in> set (rests_while (\<lambda>r. r \<noteq> 10) rs)" "x \<noteq> []" "hd x = 47" "gt_match ts (tl x)" by blast
    then obtain p where p: "rs = p @ x" "10 \<notin> set p" unfolding rests_no by blast
    have "x = 47 # tl x" using x(2,3) by (metis list.collapse)
    then show ?r using p x(4) by metis
  next
    assume ?r
    then obtain p q where "rs = p @ 47 # q" "10 \<notin> set p" "gt_match ts q" by blast
    then have "47 # q \<in> set (rests_while (\<lambda>r. r \<noteq> 10) rs)" unfolding rests_no by blast
    with \<open>gt_match ts q\<close> show ?l by (intro bexI [of _ "47 # q"]) simp_all
  qed
  then show ?thesis by (simp add: tok_rests_def list_ex_iff) blast
qed

section \<open>Witnesses\<close>

definition sample_lines :: "string list" where
  "sample_lines = [''package a'', '''', ''func f() {'', ''}'']"

definition sample_sed :: dockerExec where
  "sample_sed c = Inr (''package a'' @ [CHR 0x0A, CHR 0x0A] @ ''func f() {'' @ [CHR 0x0A], 0)"

definition sample_refs :: "cm_ref list" where
  "sample_refs = [sample_ref 1 1 '''', sample_ref 1 3 ''f'', sample_ref 3 3 ''f'']"

theorem snippets_exact_witness:
  "group_snippets sample_sed ''/work'' ''a.go'' sample_refs = map (snippet_or_drop sample_lines) sample_refs"
proof (rule snippets_exact)
  have m: "merge_refs sample_refs = [(1, 3)]" by code_simp
  have s: "segs sample_lines [(1, 3)] = [''package a'', '''', ''func f() {'']" by code_simp
  show "prints_ranges sample_sed ''/work'' ''a.go'' sample_lines (merge_refs sample_refs)"
    unfolding prints_ranges_def m s sample_sed_def by simp
  show "list_all ranged sample_refs" by (simp add: sample_refs_def sample_ref_def ranged_def)
  show "sorted (map rf_startLine sample_refs)" by (simp add: sample_refs_def sample_ref_def)
  show "list_all (\<lambda>l. CHR 0x0A \<notin> set l \<and> CHR 0x00 \<notin> set l) sample_lines" by code_simp
  show "segs sample_lines (merge_refs sample_refs) \<noteq> []" unfolding m s by simp
  show "trim_space (join [CHR 0x0A] (segs sample_lines (merge_refs sample_refs)) @ [CHR 0x0A])
      = join [CHR 0x0A] (segs sample_lines (merge_refs sample_refs))" unfolding m s by code_simp
  show "join [CHR 0x0A] (segs sample_lines (merge_refs sample_refs)) \<noteq> ''''" unfolding m s by simp
qed

theorem blank_line_shifts_snippets_witness:
  "group_snippets (\<lambda>_. Inr ([CHR 0x0A] @ ''x'' @ [CHR 0x0A], 0)) ''/work'' ''a.go'' [sample_ref 1 1 '''', sample_ref 2 2 '''']
   = [snippet_of [''x''], '''']"
proof (rule blank_line_shifts_snippets [where L = "[]"])
  have "merge_refs [sample_ref 1 1 '''', sample_ref 2 2 ''''] = [(1, 2)]" "segs ['''', ''x''] [(1, 2)] = ['''', ''x'']"
    by code_simp+
  then show "prints_ranges (\<lambda>_. Inr ([CHR 0x0A] @ ''x'' @ [CHR 0x0A], 0)) ''/work'' ''a.go'' ['''', ''x'']
      (merge_refs [sample_ref 1 1 '''', sample_ref 2 2 ''''])" by (simp add: prints_ranges_def)
  show "trim_space (CHR 0x0A # ''x'' @ [CHR 0x0A]) = ''x''" by code_simp
qed (simp_all add: sample_ref_def)

definition sample_ask :: ask_env where
  "sample_ask = \<lparr>ak_prompt = ''g'', ak_scopePrompt = ''s'', ak_verdict = (\<lambda>_. Some True), ak_tools = (\<lambda>_ _. []),
     ak_decode = (\<lambda>t. if t = ''J'' then Inr [\<lparr>se_title = ''F'', se_summary = ''s'', se_refs = [sample_ref 1 3 ''f'']\<rparr>,
        \<lparr>se_title = '' f '', se_summary = ''s'', se_refs = []\<rparr>] else Inl ''bad''),
     ak_lower = (\<lambda>r. r), ak_cap = (\<lambda>n. n)\<rparr>"

definition sample_model :: env where
  "sample_model = \<lparr>env_answer = (\<lambda>k. Inr [\<lparr>rp_content = (if k = 2 then ''J'' else ''ok''), rp_calls = []\<rparr>]),
     env_cancel = (\<lambda>_. None), env_cancelWait = (\<lambda>_. None), env_raw = (\<lambda>_. '''')\<rparr>"

lemma sample_Completion:
  "Completion sample_model tr rq wh m s =
    (Inr [\<lparr>rp_content = (if length (sn_sent s) = 2 then ''J'' else ''ok''), rp_calls = []\<rparr>], s\<lparr>sn_sent := sn_sent s @ [rq]\<rparr>)"
proof -
  have "trim_space ''ok'' = ''ok''" "trim_space ''J'' = ''J''" by code_simp+
  then have "retry_loop sample_model tr rq wh n (ask sample_model rq s) = ask sample_model rq s" for n
    by (cases n) (simp_all add: ask_def sample_model_def describe_def)
  then show ?thesis by (simp add: Completion_def Let_def ask_def sample_model_def)
qed

lemma sample_trims: "trim_space ''ok'' = ''ok''" "trim_space ''J'' = ''J''" "Valid sample_config"
  by code_simp+

lemma sample_Structured:
  "length (sn_sent s) \<noteq> 2 \<Longrightarrow> fst (Structured sample_model sample_config p q n s) = Inr ''ok''
     \<and> length (sn_sent (snd (Structured sample_model sample_config p q n s))) = Suc (length (sn_sent s))"
  by (simp add: Structured_def Let_def sample_Completion sample_trims)

lemma sample_request_step:
  "lp_tools l = [] \<Longrightarrow> length (sn_sent l) \<noteq> 2 \<Longrightarrow>
   \<exists>l1. request_step sample_model k l = (Inr \<lparr>rp_content = ''ok'', rp_calls = []\<rparr>, l1)
     \<and> lp_tools l1 = [] \<and> length (sn_sent l1) = Suc (length (sn_sent l))"
  by (simp add: request_step_def Let_def sample_Completion)

lemma sample_gather_loop:
  assumes "lp_tools l = []" "length (sn_sent l) \<noteq> 2"
  shows "\<exists>l1. gather_loop sample_model (Suc n) l = (Inr ''ok'', l1) \<and> length (sn_sent l1) = Suc (length (sn_sent l))"
proof -
  have c: "env_cancel sample_model k = None" for k by (simp add: sample_model_def)
  obtain l1 where l1: "request_step sample_model (lp_maxStep l - Suc n) l = (Inr \<lparr>rp_content = ''ok'', rp_calls = []\<rparr>, l1)"
    "lp_tools l1 = []" "length (sn_sent l1) = Suc (length (sn_sent l))"
    using sample_request_step [OF assms] by blast
  have "fst (settleText k ''ok'' l1) = Inr (''ok'', False) \<and> sn_sent (snd (settleText k ''ok'' l1)) = sn_sent l1" for k
    using l1(2) by (simp add: settleText_def)
  then obtain l2 where "settleText (lp_maxStep l - Suc n) ''ok'' l1 = (Inr (''ok'', False), l2)" "sn_sent l2 = sn_sent l1"
    by (metis prod.collapse)
  then show ?thesis using l1 by (simp add: Let_def c sample_trims)
qed

lemma sample_format:
  "length (sn_sent s) = 2 \<Longrightarrow> fst (formatResult sample_model sample_config (Some n) t s) = Inr ''J''"
  by (simp add: formatResult_def Let_def sample_Completion sample_trims)

lemma sample_Run:
  assumes "length (sn_sent s) = 1"
  shows "fst (Run sample_model sample_config sys user [] [] (Some n) 8 [] s) = Inr ''J''"
proof -
  let ?s1 = "s\<lparr>sn_lin := map_option (\<lambda>l. SetTools [] (l\<lparr>ln_model := cf_model sample_config\<rparr>)) (sn_lin s)\<rparr>"
  let ?l = "newLoop sample_config [] (assembleMessages sys user []) (nat 8) ?s1"
  have l: "lp_tools ?l = []" "length (sn_sent ?l) \<noteq> 2" "sn_sent ?l = sn_sent s" "lp_maxStep ?l = Suc 7"
    using assms by (simp_all add: newLoop_def)
  obtain l1 where l1: "gather sample_model ?l = (Inr ''ok'', l1)" "length (sn_sent l1) = 2"
    using sample_gather_loop [OF l(1,2), of 7] assms unfolding gather_def l(3,4) by auto
  have "fst (formatResult sample_model sample_config (Some n) ''ok'' (session.truncate l1)) = Inr ''J''"
    using l1(2) by (intro sample_format) (simp add: session.defs)
  then show ?thesis using l1(1) by (simp add: Run_def Let_def sample_trims)
qed

lemma sample_Execute:
  "\<exists>rs. fst (Execute_turn sample_model sample_config (Some (ask_scope sample_ask)) (Some (\<lambda>_. [])) (ask_spec sample_ask dk dir) q
     \<lparr>sn_trace = [], sn_lin = Some \<lparr>ln_model = '''', ln_tools = [], ln_events = [], ln_todos = []\<rparr>, sn_sent = []\<rparr>)
   = \<lparr>tr_answer = ''J'', tr_rounds = rs, tr_error = None, tr_refused = False\<rparr>"
proof -
  let ?s = "\<lparr>sn_trace = [], sn_lin = Some \<lparr>ln_model = '''', ln_tools = [], ln_events = [], ln_todos = []\<rparr>, sn_sent = []\<rparr>"
  obtain s1 where s1: "Structured sample_model sample_config (sg_prompt (ask_scope sample_ask)) q
      (sg_schemaName (ask_scope sample_ask)) ?s = (Inr ''ok'', s1)" "length (sn_sent s1) = 1"
    using sample_Structured [of ?s] by (metis One_nat_def list.size(3) numeral_2_eq_2 old.nat.distinct(1) prod.collapse session.select_convs(3))
  have g: "\<not> sg_refused (ask_scope sample_ask) v" for v by (simp add: ask_scope_def GateVerdict_def sample_ask_def Let_def)
  obtain s2 where "Run sample_model sample_config (sp_system (ask_spec sample_ask dk dir)) q [] [] (Some ''codemap'') 8 [] s1
      = (Inr ''J'', s2)" using sample_Run [OF s1(2)] by (metis prod.collapse)
  then have "Run sample_model sample_config (sp_system (ask_spec sample_ask dk dir)) q []
      (sp_tools (ask_spec sample_ask dk dir)) (sp_schema (ask_spec sample_ask dk dir))
      (sp_maxSteps (ask_spec sample_ask dk dir)) (sp_opts (ask_spec sample_ask dk dir)) s1 = (Inr ''J'', s2)"
    by (simp add: ask_spec_def sample_ask_def)
  then show ?thesis by (simp add: Execute_turn_def s1(1) g run_turn_def)
qed

theorem answer_well_formed_witness:
  "case Ask sample_model sample_config sample_ask sample_sed ''/work'' ''why'' [] of
     Some (Inr (ss, steps)) \<Rightarrow> length ss \<le> 12 \<and> list_all section_ok ss
       \<and> list_all (\<lambda>s. trim_space (se_title s) \<noteq> '''') ss \<and> distinct (map (title_key (ak_lower sample_ask)) ss)
   | _ \<Rightarrow> False"
proof -
  obtain rs where rs: "fst (Execute_turn sample_model sample_config (Some (ask_scope sample_ask)) (Some (\<lambda>_. []))
      (ask_spec sample_ask sample_sed ''/work'') ''why''
      \<lparr>sn_trace = [], sn_lin = Some \<lparr>ln_model = '''', ln_tools = [], ln_events = [], ln_todos = []\<rparr>, sn_sent = []\<rparr>)
    = \<lparr>tr_answer = ''J'', tr_rounds = rs, tr_error = None, tr_refused = False\<rparr>"
    using sample_Execute by blast
  have "hydrate_sections sample_sed (ak_cap sample_ask) ''/work''
      [\<lparr>se_title = ''F'', se_summary = ''s'', se_refs = [sample_ref 1 3 ''f'']\<rparr>,
       \<lparr>se_title = '' f '', se_summary = ''s'', se_refs = []\<rparr>] \<noteq> None" by code_simp
  then obtain ss steps where "Ask sample_model sample_config sample_ask sample_sed ''/work'' ''why'' [] = Some (Inr (ss, steps))"
    by (auto simp: Ask_def rs ask_answer_def) (simp add: sample_ask_def)
  from answer_well_formed [OF this] this show ?thesis by simp
qed


end
