(* ===== verification/Events.thy ===== *)
theory Events
  imports Prelude
begin

text \<open>
  server/internal/events/events.go: the append-only audit log, one JSON line per event, with ids
  that grow across restarts and a read API that pages by the last id seen.

  The file is modelled as the pieces that writes put into it: whole records, fragments that a
  failed write left behind, and line ends. A line decodes when it is exactly one record: a
  fragment is a proper prefix of a JSON object, whose outer brace is open, so no line that
  contains one is JSON, and neither are two records on one line.
\<close>

type_synonym 'd payload = 'd

record 'd event =
  ev_id :: int
  ev_time :: gotime
  ev_type :: string
  ev_data :: 'd

datatype 'd piece = Rec "'d event" | Frag | NL

record 'd log =
  lg_file :: "'d piece list"
  lg_id :: int

fun lines_of :: "'d piece list \<Rightarrow> 'd piece list list" where
  "lines_of [] = [[]]"
| "lines_of (NL # ps) = [] # lines_of ps"
| "lines_of (p # ps) = (case lines_of ps of [] \<Rightarrow> [[p]] | l # ls \<Rightarrow> (p # l) # ls)"

fun decode_line :: "'d piece list \<Rightarrow> 'd event option" where
  "decode_line [Rec e] = Some e"
| "decode_line _ = None"

text \<open>The loop of \<open>Read\<close>: blank and undecodable lines are skipped; \<open>room\<close> is what the limit leaves.\<close>

fun read_loop :: "int \<Rightarrow> nat option \<Rightarrow> 'd piece list list \<Rightarrow> 'd event list" where
  "read_loop after room [] = []"
| "read_loop after room (l # ls) =
     (case decode_line l of
        None \<Rightarrow> read_loop after room ls
      | Some e \<Rightarrow>
          if ev_id e \<le> after then read_loop after room ls
          else (case room of
                  None \<Rightarrow> e # read_loop after None ls
                | Some n \<Rightarrow> if n \<le> 1 then [e] else e # read_loop after (Some (n - 1)) ls))"

definition Read :: "int \<Rightarrow> int \<Rightarrow> 'd log \<Rightarrow> 'd event list" where
  "Read after limit l =
     read_loop after (if 0 < limit then Some (nat limit) else None) (lines_of (lg_file l))"

definition lastID :: "'d piece list \<Rightarrow> int" where
  "lastID file =
     (case rev (Read 0 0 \<lparr>lg_file = file, lg_id = 0\<rparr>) of [] \<Rightarrow> 0 | e # _ \<Rightarrow> ev_id e)"

definition open_log :: "'d piece list \<Rightarrow> 'd log" where
  "open_log file = \<lparr>lg_file = file, lg_id = lastID file\<rparr>"

text \<open>How an append ends: the event cannot be encoded, the write stops early and leaves some part of
  the record (nothing, a fragment, or the record without its line end), or it is written.\<close>

datatype append_out = EncodeFails | StopsAtNothing | StopsInside | StopsBeforeNL | Written

datatype append_error = EncodeEvent | AppendEvent

definition Append :: "append_out \<Rightarrow> gotime \<Rightarrow> string \<Rightarrow> 'd \<Rightarrow> 'd log \<Rightarrow> (append_error + 'd event) \<times> 'd log" where
  "Append out now ty data l =
     (let e = \<lparr>ev_id = lg_id l + 1, ev_time = now, ev_type = ty, ev_data = data\<rparr>;
          l1 = l\<lparr>lg_id := lg_id l + 1\<rparr>
      in case out of
           EncodeFails \<Rightarrow> (Inl EncodeEvent, l1)
         | StopsAtNothing \<Rightarrow> (Inl AppendEvent, l1)
         | StopsInside \<Rightarrow> (Inl AppendEvent, l1\<lparr>lg_file := lg_file l1 @ [Frag]\<rparr>)
         | StopsBeforeNL \<Rightarrow> (Inl AppendEvent, l1\<lparr>lg_file := lg_file l1 @ [Rec e]\<rparr>)
         | Written \<Rightarrow> (Inr e, l1\<lparr>lg_file := lg_file l1 @ [Rec e, NL]\<rparr>))"

datatype reset_out = TruncateFails | SyncFails | ResetDone

definition Reset :: "reset_out \<Rightarrow> 'd log \<Rightarrow> bool \<times> 'd log" where
  "Reset out l =
     (case out of
        TruncateFails \<Rightarrow> (False, l)
      | SyncFails \<Rightarrow> (False, l\<lparr>lg_file := []\<rparr>)
      | ResetDone \<Rightarrow> (True, l\<lparr>lg_file := [], lg_id := 0\<rparr>))"


section \<open>What reading sees\<close>

definition events_of :: "'d piece list \<Rightarrow> 'd event list" where
  "events_of file = List.map_filter decode_line (lines_of file)"

lemma lines_of_nonempty [simp]: "lines_of ps \<noteq> []"
  by (induction ps rule: lines_of.induct) (auto split: list.splits)

lemma lines_of_append_nl: "lines_of (ps @ NL # qs) = lines_of ps @ lines_of qs"
  by (induction ps rule: lines_of.induct) (auto split: list.splits)

lemma lines_of_append:
  "NL \<notin> set qs \<Longrightarrow> lines_of (ps @ qs) = butlast (lines_of ps) @ [last (lines_of ps) @ qs]"
proof (induction ps rule: lines_of.induct)
  case 1
  then show ?case
  proof (induction qs)
    case (Cons q qs)
    then show ?case by (cases q) auto
  qed simp
qed (auto split: list.splits)

lemma read_loop_filter:
  "read_loop after room ls =
     (let es = filter (\<lambda>e. after < ev_id e) (List.map_filter decode_line ls)
      in case room of None \<Rightarrow> es | Some n \<Rightarrow> take (max 1 n) es)"
proof (induction ls arbitrary: room)
  case Nil
  then show ?case by (simp add: List.map_filter_simps split: option.splits)
next
  case (Cons l ls)
  show ?case
  proof (cases "decode_line l")
    case None
    then show ?thesis by (simp add: List.map_filter_simps Cons.IH)
  next
    case (Some e)
    show ?thesis
    proof (cases room)
      case None
      then show ?thesis by (simp add: List.map_filter_simps Cons.IH Some)
    next
      case room: (Some n)
      then show ?thesis
        by (cases "n \<le> 1")
           (simp_all add: List.map_filter_simps Cons.IH Some max_def take_Cons' Let_def)
    qed
  qed
qed

lemma Read_spec:
  "Read after limit l =
     (let es = filter (\<lambda>e. after < ev_id e) (events_of (lg_file l))
      in if 0 < limit then take (nat limit) es else es)"
  by (simp add: Read_def read_loop_filter events_of_def Let_def max_def)

definition log_ok :: "'d log \<Rightarrow> bool" where
  "log_ok l \<longleftrightarrow> sorted_wrt (<) (map ev_id (events_of (lg_file l)))
     \<and> (\<forall>e \<in> set (events_of (lg_file l)). 0 < ev_id e \<and> ev_id e \<le> lg_id l) \<and> 0 \<le> lg_id l"

lemma decode_append: "decode_line (ps @ [Rec e]) = (if ps = [] then Some e else None)"
  by (cases ps rule: decode_line.cases) auto

lemma events_of_rec:
  "events_of (file @ [Rec e]) =
     List.map_filter decode_line (butlast (lines_of file)) @ (if last (lines_of file) = [] then [e] else [])"
  by (simp add: events_of_def lines_of_append map_filter_append decode_append List.map_filter_simps)

lemma events_of_split:
  "events_of file = List.map_filter decode_line (butlast (lines_of file))
     @ (case decode_line (last (lines_of file)) of None \<Rightarrow> [] | Some e \<Rightarrow> [e])"
proof -
  have "lines_of file = butlast (lines_of file) @ [last (lines_of file)]" by simp
  then have "events_of file = List.map_filter decode_line (butlast (lines_of file) @ [last (lines_of file)])"
    by (simp add: events_of_def)
  then show ?thesis
    by (simp only: map_filter_append)
       (simp add: List.map_filter_simps split: option.splits)
qed

lemma events_of_frag: "decode_line (ps @ [Frag]) = None"
  by (cases ps rule: decode_line.cases) auto

lemma events_of_Rec_NL:
  "events_of (file @ [Rec e, NL]) =
     List.map_filter decode_line (butlast (lines_of file)) @ (if last (lines_of file) = [] then [e] else [])"
proof -
  have "events_of (file @ [Rec e, NL]) = events_of ((file @ [Rec e]) @ NL # [])" by simp
  also have "\<dots> = events_of (file @ [Rec e])"
    by (simp only: events_of_def lines_of_append_nl map_filter_append List.map_filter_simps) simp
  finally show ?thesis by (simp add: events_of_rec)
qed

lemma Append_ok:
  assumes "log_ok l" shows "log_ok (snd (Append out now ty data l))"
proof -
  let ?old = "List.map_filter decode_line (butlast (lines_of (lg_file l)))"
  obtain suf where split: "events_of (lg_file l) = ?old @ suf"
    using events_of_split by blast
  have frag: "events_of (lg_file l @ [Frag]) = ?old"
    by (simp add: events_of_def lines_of_append map_filter_append events_of_frag List.map_filter_simps)
  have s: "sorted_wrt (<) (map ev_id ?old)"
    and b: "\<forall>e \<in> set ?old. 0 < ev_id e \<and> ev_id e \<le> lg_id l"
    using assms by (auto simp: log_ok_def split sorted_wrt_append)
  have id: "0 \<le> lg_id l" using assms by (simp add: log_ok_def)
  show ?thesis
    using assms s b id
    by (cases out)
       (force simp: Append_def Let_def log_ok_def frag events_of_rec events_of_Rec_NL sorted_wrt_append)+
qed

lemma open_log_ok:
  assumes "sorted_wrt (<) (map ev_id (events_of file))" "\<forall>e \<in> set (events_of file). 0 < ev_id e"
  shows "log_ok (open_log file)"
proof -
  have f: "filter (\<lambda>e. 0 < ev_id e) (events_of file) = events_of file"
    using assms(2) by (simp add: filter_id_conv)
  have last: "lastID file = (if events_of file = [] then 0 else ev_id (last (events_of file)))"
    using f by (cases "events_of file" rule: rev_cases) (simp_all add: lastID_def Read_spec Let_def)
  have "ev_id e \<le> ev_id (last (events_of file))" if "e \<in> set (events_of file)" for e
    using assms(1) that
    by (cases "events_of file" rule: rev_cases) (auto simp: sorted_wrt_append)
  moreover have "events_of file \<noteq> [] \<Longrightarrow> 0 \<le> ev_id (last (events_of file))"
    using assms(2) by (simp add: less_imp_le)
  ultimately show ?thesis
    using assms by (auto simp: log_ok_def open_log_def last)
qed

section \<open>Runs of the log\<close>

datatype 'd log_op =
    LAppend append_out gotime string 'd
  | LReopen
  | LReset reset_out

fun log_step :: "'d log_op \<Rightarrow> 'd log \<Rightarrow> 'd log" where
  "log_step (LAppend out now ty data) l = snd (Append out now ty data l)"
| "log_step LReopen l = open_log (lg_file l)"
| "log_step (LReset out) l = snd (Reset out l)"

definition log_run :: "'d log_op list \<Rightarrow> 'd log" where
  "log_run steps = fold log_step steps (open_log [])"

lemma Reset_ok: "log_ok l \<Longrightarrow> log_ok (snd (Reset out l))"
  by (cases out) (simp_all add: Reset_def log_ok_def events_of_def)

lemma reopen_ok: "log_ok l \<Longrightarrow> log_ok (open_log (lg_file l))"
  by (rule open_log_ok) (simp_all add: log_ok_def)

lemma log_step_ok: "log_ok l \<Longrightarrow> log_ok (log_step st l)"
  by (cases st) (simp_all add: Append_ok Reset_ok reopen_ok)

lemma log_run_ok: "log_ok (log_run steps)"
proof -
  have "log_ok l \<Longrightarrow> log_ok (fold log_step steps l)" for l :: "'a log"
    by (induction steps arbitrary: l) (simp_all add: log_step_ok)
  moreover have "log_ok (open_log [])" by (rule open_log_ok) (simp_all add: events_of_def)
  ultimately show ?thesis by (simp add: log_run_def)
qed

text \<open>A client that pages through the log with the last id it saw, until a page comes back empty.\<close>

fun drain :: "nat \<Rightarrow> int \<Rightarrow> int \<Rightarrow> 'd log \<Rightarrow> 'd event list" where
  "drain 0 after limit l = []"
| "drain (Suc fuel) after limit l =
     (case Read after limit l of
        [] \<Rightarrow> []
      | p \<Rightarrow> p @ drain fuel (ev_id (last p)) limit l)"

lemma sorted_filter_take:
  assumes "sorted_wrt (<) (map f es)" "take n es \<noteq> []"
  shows "filter (\<lambda>e. (f (last (take n es)) :: int) < f e) es = drop n es"
proof -
  have split: "es = take n es @ drop n es" by simp
  have "sorted_wrt (<) (map f (take n es @ drop n es))" using assms(1) by simp
  then have s: "sorted_wrt (<) (map f (take n es))" and c: "\<forall>x\<in>set (take n es). \<forall>y\<in>set (drop n es). f x < f y"
    unfolding map_append sorted_wrt_append by auto
  obtain ys y where y: "take n es = ys @ [y]" using assms(2) by (metis rev_exhaust)
  have "filter (\<lambda>e. f y < f e) (take n es) = []"
    using s by (force simp: y sorted_wrt_append filter_empty_conv)
  moreover have "filter (\<lambda>e. f y < f e) (drop n es) = drop n es"
    using c by (simp add: y filter_id_conv)
  ultimately have "filter (\<lambda>e. f y < f e) (take n es @ drop n es) = drop n es"
    by (simp only: filter_append append_Nil)
  then show ?thesis by (simp only: append_take_drop_id) (simp add: y)
qed

lemma Read_next_page:
  assumes "log_ok l" "0 < limit" "Read after limit l = p" "p \<noteq> []"
  shows "Read after 0 l = p @ Read (ev_id (last p)) 0 l"
    and "length (Read (ev_id (last p)) 0 l) < length (Read after 0 l)"
proof -
  let ?es = "filter (\<lambda>e. after < ev_id e) (events_of (lg_file l))"
  have p: "p = take (nat limit) ?es" using assms by (simp add: Read_spec Let_def)
  have s: "sorted_wrt (<) (map ev_id ?es)"
    using assms(1) by (simp add: log_ok_def sorted_wrt_map sorted_wrt_filter)
  have "last p \<in> set ?es" using assms(4) unfolding p by (metis last_in_set in_set_takeD)
  then have gt: "after < ev_id (last p)" by simp
  have "filter (\<lambda>e. ev_id (last p) < ev_id e) (events_of (lg_file l))
      = filter (\<lambda>e. ev_id (last p) < ev_id e) ?es"
    using gt by (auto intro: filter_cong)
  also have "\<dots> = drop (nat limit) ?es"
    using sorted_filter_take [OF s, of "nat limit"] assms(4) unfolding p by simp
  finally have next_p: "Read (ev_id (last p)) 0 l = drop (nat limit) ?es"
    by (simp add: Read_spec Let_def)
  then show "Read after 0 l = p @ Read (ev_id (last p)) 0 l"
    by (simp add: p Read_spec Let_def)
  then show "length (Read (ev_id (last p)) 0 l) < length (Read after 0 l)"
    using assms(4) by simp
qed

lemma drain_all:
  assumes "log_ok l" "0 < limit" "length (Read after 0 l) < fuel"
  shows "drain fuel after limit l = Read after 0 l"
  using assms(3)
proof (induction fuel arbitrary: after)
  case (Suc fuel)
  show ?case
  proof (cases "Read after limit l")
    case Nil
    then have "Read after 0 l = []" using assms(2) by (simp add: Read_spec Let_def split: if_splits)
    with Nil show ?thesis by simp
  next
    case (Cons e es)
    note page = Read_next_page [OF assms(1,2) Cons]
    have "drain fuel (ev_id (last (e # es))) limit l = Read (ev_id (last (e # es))) 0 l"
      by (rule Suc.IH) (use page(2) Suc.prems in simp)
    with Cons page(1) show ?thesis by simp
  qed
qed simp

definition ends_line :: "'d piece list \<Rightarrow> bool" where
  "ends_line file \<longleftrightarrow> file = [] \<or> last file = NL"

lemma ends_line_last: "ends_line file \<Longrightarrow> last (lines_of file) = []"
proof -
  assume "ends_line file"
  then consider "file = []" | ps where "file = ps @ NL # []"
    unfolding ends_line_def by (metis append_butlast_last_id)
  then show ?thesis by cases (simp_all only: lines_of_append_nl, simp_all)
qed

lemma Append_written_events:
  "events_of (lg_file (snd (Append Written now ty data l))) =
     List.map_filter decode_line (butlast (lines_of (lg_file l)))
     @ (if last (lines_of (lg_file l)) = []
        then [\<lparr>ev_id = lg_id l + 1, ev_time = now, ev_type = ty, ev_data = data\<rparr>] else [])"
  by (simp add: Append_def Let_def events_of_Rec_NL)

text \<open>
  A write that stops inside a record leaves a line without its end, and the next append continues
  that line: it reports success, and no read ever returns its event.
\<close>

theorem torn_write_swallows_next:
  "let l1 = snd (Append StopsInside now1 typ1 data1 l);
       (r, l2) = Append Written now2 typ2 data2 l1
   in (\<exists>e. r = Inr e) \<and> Read after limit l2 = Read after limit l1"
proof -
  let ?l1 = "snd (Append StopsInside now1 typ1 data1 l)"
  have torn: "lg_file ?l1 = lg_file l @ [Frag]" by (simp add: Append_def Let_def)
  have l1: "events_of (lg_file ?l1) = List.map_filter decode_line (butlast (lines_of (lg_file l)))"
    by (simp add: torn events_of_def lines_of_append map_filter_append events_of_frag)
  have "events_of (lg_file (snd (Append Written now2 typ2 data2 ?l1))) = events_of (lg_file ?l1)"
    unfolding Append_written_events l1 by (simp add: torn lines_of_append)
  moreover have "\<exists>e. fst (Append Written now2 typ2 data2 ?l1) = Inr e"
    by (simp add: Append_def Let_def)
  ultimately show ?thesis by (simp add: Let_def split_beta Read_spec)
qed


section \<open>Properties\<close>

text \<open>
  Whatever happens to the log - appends that succeed, fail to encode, or stop at any point of
  the write, restarts that reopen the file, resets that fail half way - the events a read returns
  have strictly increasing ids.
\<close>

theorem log_ids_increase:
  "sorted_wrt (<) (map ev_id (Read 0 0 (log_run steps)))"
  using log_run_ok [of steps] by (simp add: Read_spec Let_def log_ok_def sorted_wrt_map sorted_wrt_filter)



text \<open>
  An event whose append succeeded on a log that ends at a line end is what a read returns
  next: reads before it are unchanged, and it comes last with the next id.
\<close>

theorem append_read_back:
  assumes "ends_line (lg_file l)"
  shows "\<exists>e l'. Append Written now ty data l = (Inr e, l')
     \<and> ev_id e = lg_id l + 1 \<and> ev_data e = data \<and> ev_type e = ty
     \<and> ends_line (lg_file l')
     \<and> Read after 0 l' = Read after 0 l @ (if after < ev_id e then [e] else [])"
proof -
  have fresh: "last (lines_of (lg_file l)) = []" by (rule ends_line_last [OF assms])
  have "events_of (lg_file l) = List.map_filter decode_line (butlast (lines_of (lg_file l)))"
    by (subst events_of_split) (simp add: fresh)
  with Append_written_events [of now ty data l] fresh show ?thesis
    by (simp add: Append_def Let_def Read_spec ends_line_def)
qed

theorem append_read_back_witness:
  "\<exists>e l'. Append Written 5 ''deploy'' (3::int) (open_log []) = (Inr e, l')
     \<and> ev_id e = lg_id (open_log [] :: int log) + 1 \<and> ev_data e = 3 \<and> ev_type e = ''deploy''
     \<and> ends_line (lg_file l')
     \<and> Read 0 0 l' = Read 0 0 (open_log []) @ (if 0 < ev_id e then [e] else [])"
  by (rule append_read_back) (simp add: open_log_def ends_line_def)

end
