(* ===== verification/Frames.thy ===== *)
theory Frames
  imports Prelude "HOL-Library.Word"
begin

text \<open>
  The encrypted payload of a work sync (sync/crypto.go): a stream of length-prefixed AES-GCM frames,
  numbered and bound to one session, project, branch, commit and direction. The cipher and the key
  derivation are parameters (the record \<open>aead\<close>); the connection is the bytes that arrive and how
  they end. Shown: what is written is read back, and whatever arrives, only a leading part of what
  was sealed is ever read.
\<close>

section \<open>Fixed-width numbers\<close>

fun be_bytes :: "nat \<Rightarrow> nat \<Rightarrow> string" where
  "be_bytes 0 v = []"
| "be_bytes (Suc k) v = be_bytes k (v div 256) @ [char_of (v mod 256)]"

definition be_val :: "string \<Rightarrow> nat" where
  "be_val s = foldl (\<lambda>n c. 256 * n + byte_of c) 0 s"

lemma length_be_bytes [simp]: "length (be_bytes k v) = k"
  by (induction k arbitrary: v) auto

lemma be_val_snoc [simp]: "be_val (s @ [c]) = 256 * be_val s + byte_of c"
  by (simp add: be_val_def)

lemma be_val_Nil [simp]: "be_val [] = 0"
  by (simp add: be_val_def)

lemma be_val_bytes: "v < 256 ^ k \<Longrightarrow> be_val (be_bytes k v) = v"
proof (induction k arbitrary: v)
  case (Suc k)
  then have "v div 256 < 256 ^ k" by (simp add: less_mult_imp_div_less mult.commute)
  with Suc.IH show ?case by (simp add: byte_of_def)
qed simp

lemma be_bytes_val: "length s = k \<Longrightarrow> be_bytes k (be_val s) = s"
proof (induction s arbitrary: k rule: rev_induct)
  case (snoc c s)
  then have "(256 * be_val s + byte_of c) div 256 = be_val s" "(256 * be_val s + byte_of c) mod 256 = byte_of c"
    by (simp_all add: div_mult_self2 add.commute)
  then show ?case using snoc by (auto simp del: byte_of_def)
qed simp

lemma be_bytes_inj: "v < 256 ^ k \<Longrightarrow> w < 256 ^ k \<Longrightarrow> be_bytes k v = be_bytes k w \<longleftrightarrow> v = w"
  by (metis be_val_bytes)

section \<open>Keys and frames\<close>

definition FrameSize :: nat where "FrameSize = 65536"
definition keyInfo :: string where "keyInfo = ''pcoder-sync v1''"
definition maxFrame :: nat where "maxFrame = FrameSize + 16"
definition frameHead :: nat where "frameHead = 4"

definition ErrBadFrame :: go_err where
  "ErrBadFrame = \<lparr>ge_text = ''sync payload failed authentication'', ge_is = [''sync payload failed authentication'']\<rparr>"

text \<open>AES-GCM under a key: seal and open take the nonce, the text and the associated data.\<close>

record aead =
  gc_seal :: "string \<Rightarrow> string \<Rightarrow> string \<Rightarrow> string \<Rightarrow> string"
  gc_open :: "string \<Rightarrow> string \<Rightarrow> string \<Rightarrow> string \<Rightarrow> string option"
  gc_overhead :: nat

text \<open>\<open>hkdf\<close> reads 32 bytes for a secret, a salt and an info text, or reports an error.\<close>

definition DeriveKey :: "(string \<Rightarrow> string \<Rightarrow> string \<Rightarrow> nat \<Rightarrow> go_err + string) \<Rightarrow> string \<Rightarrow> string \<Rightarrow> go_err + string" where
  "DeriveKey hkdf code nonce =
     (case hkdf code nonce keyInfo 32 of Inl e \<Rightarrow> Inl (wrapf ''derive sync key'' e) | Inr key \<Rightarrow> Inr key)"

text \<open>The random bytes are an argument; sixteen of them give 32 hex digits.\<close>

definition hex_byte :: "char \<Rightarrow> string" where
  "hex_byte c = [''0123456789abcdef'' ! (byte_of c div 16), ''0123456789abcdef'' ! (byte_of c mod 16)]"

definition NewNonce :: "go_err + string \<Rightarrow> go_err + string" where
  "NewNonce drawn = (case drawn of Inl e \<Rightarrow> Inl e | Inr bs \<Rightarrow> Inr (concat (map hex_byte bs)))"

record aad =
  aa_Session :: string
  aa_Project :: string
  aa_Branch :: string
  aa_Commit :: string
  aa_Direction :: string

definition aad_bytes :: "aad \<Rightarrow> 64 word \<Rightarrow> string" where
  "aad_bytes a n = join [CHR 0x00]
     [aa_Session a, aa_Project a, aa_Branch a, aa_Commit a, aa_Direction a, nat_digits (unat n)]"

definition frameNonce :: "64 word \<Rightarrow> string" where
  "frameNonce n = replicate 4 (CHR 0x00) @ be_bytes 8 (unat n)"

definition newGCM :: "string \<Rightarrow> go_err option" where
  "newGCM key =
     (if length key \<in> {16, 24, 32} then None
      else Some (errorf (''aes: crypto/aes: invalid key size '' @ itoa (int (length key)))))"

section \<open>Writing\<close>

record frame_writer =
  fw_key :: string
  fw_aad :: aad
  fw_out :: string
  fw_seq :: "64 word"

definition NewFrameWriter :: "string \<Rightarrow> aad \<Rightarrow> go_err + frame_writer" where
  "NewFrameWriter key a =
     (case newGCM key of
        Some e \<Rightarrow> Inl e
      | None \<Rightarrow> Inr \<lparr>fw_key = key, fw_aad = a, fw_out = [], fw_seq = 0\<rparr>)"

text \<open>What the connection does with a frame: it takes it, or fails in the header or in the body after some bytes.\<close>

datatype sink = Took | HeadStops nat go_err | BodyStops nat go_err

definition fw_Write :: "aead \<Rightarrow> sink \<Rightarrow> string \<Rightarrow> frame_writer \<Rightarrow> (go_err + nat) \<times> frame_writer" where
  "fw_Write g k p f =
     (if FrameSize < length p then (Inl (errorf (''sync frame too large: '' @ itoa (int (length p)) @ '' bytes'')), f)
      else
        (let ct = gc_seal g (fw_key f) (frameNonce (fw_seq f)) p (aad_bytes (fw_aad f) (fw_seq f));
             head = be_bytes frameHead (length ct)
         in case k of
              HeadStops n e \<Rightarrow> (Inl e, f\<lparr>fw_out := fw_out f @ take n head\<rparr>)
            | BodyStops n e \<Rightarrow> (Inl e, f\<lparr>fw_out := fw_out f @ head @ take n ct\<rparr>)
            | Took \<Rightarrow> (Inr (length p), f\<lparr>fw_out := fw_out f @ head @ ct, fw_seq := fw_seq f + 1\<rparr>)))"

section \<open>Reading\<close>

text \<open>What arrives: the bytes, and the error after them (\<open>None\<close> is the end of the stream).\<close>

record arrival =
  ar_bytes :: string
  ar_end :: "go_err option"

definition io_EOF :: go_err where
  "io_EOF = \<lparr>ge_text = ''EOF'', ge_is = [''EOF'']\<rparr>"

definition io_UnexpectedEOF :: go_err where
  "io_UnexpectedEOF = \<lparr>ge_text = ''unexpected EOF'', ge_is = [''unexpected EOF'']\<rparr>"

text \<open>\<open>io.ReadFull\<close> for \<open>n\<close> bytes.\<close>

definition ReadFull :: "nat \<Rightarrow> arrival \<Rightarrow> (go_err + string) \<times> arrival" where
  "ReadFull n r =
     (if n \<le> length (ar_bytes r) then (Inr (take n (ar_bytes r)), r\<lparr>ar_bytes := drop n (ar_bytes r)\<rparr>)
      else (Inl (case ar_end r of
                   Some e \<Rightarrow> e
                 | None \<Rightarrow> if ar_bytes r = [] then io_EOF else io_UnexpectedEOF), r\<lparr>ar_bytes := []\<rparr>))"

record frame_reader =
  fr_key :: string
  fr_aad :: aad
  fr_src :: arrival
  fr_seq :: "64 word"
  fr_buf :: string
  fr_done :: bool

definition NewFrameReader :: "arrival \<Rightarrow> string \<Rightarrow> aad \<Rightarrow> go_err + frame_reader" where
  "NewFrameReader r key a =
     (case newGCM key of
        Some e \<Rightarrow> Inl e
      | None \<Rightarrow> Inr \<lparr>fr_key = key, fr_aad = a, fr_src = r, fr_seq = 0, fr_buf = [], fr_done = False\<rparr>)"

definition fr_next :: "aead \<Rightarrow> frame_reader \<Rightarrow> go_err option \<times> frame_reader" where
  "fr_next g f =
     (case ReadFull frameHead (fr_src f) of
        (Inl e, r) \<Rightarrow>
          if is_err e ''EOF'' then (Some io_EOF, f\<lparr>fr_src := r, fr_done := True\<rparr>)
          else (Some (wrapf ''read sync frame'' e), f\<lparr>fr_src := r\<rparr>)
      | (Inr head, r) \<Rightarrow>
          (let n = be_val head
           in if n < gc_overhead g \<or> maxFrame < n then (Some ErrBadFrame, f\<lparr>fr_src := r\<rparr>)
              else (case ReadFull n r of
                      (Inl e, r') \<Rightarrow> (Some (wrapf ''read sync frame'' e), f\<lparr>fr_src := r'\<rparr>)
                    | (Inr ct, r') \<Rightarrow>
                        (case gc_open g (fr_key f) (frameNonce (fr_seq f)) ct (aad_bytes (fr_aad f) (fr_seq f)) of
                           None \<Rightarrow> (Some ErrBadFrame, f\<lparr>fr_src := r'\<rparr>)
                         | Some pt \<Rightarrow> (None, f\<lparr>fr_src := r', fr_seq := fr_seq f + 1, fr_buf := pt\<rparr>)))))"

text \<open>A frame takes its header from the source, so that a read that skips empty frames ends.\<close>

lemma fr_next_shorter:
  "fr_next g f = (None, f') \<Longrightarrow> length (ar_bytes (fr_src f')) < length (ar_bytes (fr_src f))"
  by (auto simp: fr_next_def ReadFull_def Let_def frameHead_def split: if_splits option.splits)

function fr_Read :: "aead \<Rightarrow> nat \<Rightarrow> frame_reader \<Rightarrow> (go_err + string) \<times> frame_reader" where
  "fr_Read g n f =
     (if fr_buf f = [] then
        (if fr_done f then (Inl io_EOF, f)
         else (case fr_next g f of
                 (Some e, f') \<Rightarrow> (Inl e, f')
               | (None, f') \<Rightarrow> fr_Read g n f'))
      else (Inr (take n (fr_buf f)), f\<lparr>fr_buf := drop n (fr_buf f)\<rparr>))"
  by pat_completeness auto
termination
  by (relation "measure (\<lambda>(g, n, f). length (ar_bytes (fr_src f)))") (auto dest: fr_next_shorter [OF sym])

declare fr_Read.simps [simp del]

section \<open>Whole streams\<close>

text \<open>
  A consumer that reads to the end with a buffer of \<open>Suc k\<close> bytes, and the same seen frame by frame:
  the plaintexts in order and the error that ends them.
\<close>

lemma fr_Read_shorter:
  "fr_Read g (Suc k) f = (Inr s, f') \<Longrightarrow> length (ar_bytes (fr_src f')) < length (ar_bytes (fr_src f)) \<or>
     fr_src f' = fr_src f \<and> length (fr_buf f') < length (fr_buf f)"
proof (induction g "Suc k" f rule: fr_Read.induct)
  case (1 g f)
  show ?case
  proof (cases "fr_buf f = [] \<and> \<not> fr_done f")
    case True
    then obtain f1 where f1: "fr_next g f = (None, f1)" using "1.prems"
      by (auto simp: fr_Read.simps [of g "Suc k" f] split: prod.splits option.splits)
    then have "fr_Read g (Suc k) f1 = (Inr s, f')" using "1.prems" True by (simp add: fr_Read.simps [of g "Suc k" f])
    then show ?thesis using "1.hyps" [OF _ _ f1 [symmetric] refl] True f1 fr_next_shorter [OF f1] by fastforce
  next
    case False
    then show ?thesis using "1.prems" by (auto simp: fr_Read.simps [of g "Suc k" f] split: if_splits)
  qed
qed

function ReadAll :: "aead \<Rightarrow> nat \<Rightarrow> frame_reader \<Rightarrow> string \<times> go_err" where
  "ReadAll g k f =
     (case fr_Read g (Suc k) f of
        (Inl e, f') \<Rightarrow> ([], e)
      | (Inr s, f') \<Rightarrow> (case ReadAll g k f' of (t, e) \<Rightarrow> (s @ t, e)))"
  by pat_completeness auto
termination
  by (relation "measures [\<lambda>(g, k, f). length (ar_bytes (fr_src f)), \<lambda>(g, k, f). length (fr_buf f)]")
    (auto dest!: fr_Read_shorter [OF sym])

declare ReadAll.simps [simp del]

function pull :: "aead \<Rightarrow> frame_reader \<Rightarrow> string list \<times> go_err" where
  "pull g f =
     (case fr_next g f of
        (Some e, f') \<Rightarrow> ([], e)
      | (None, f') \<Rightarrow> (case pull g f' of (ps, e) \<Rightarrow> (fr_buf f' # ps, e)))"
  by pat_completeness auto
termination
  by (relation "measure (\<lambda>(g, f). length (ar_bytes (fr_src f)))") (auto dest: fr_next_shorter [OF sym])

declare pull.simps [simp del]

lemma fr_next_buf: "fst (fr_next g (f\<lparr>fr_buf := b\<rparr>)) = fst (fr_next g f) \<and>
    (fst (fr_next g f) = None \<longrightarrow> snd (fr_next g (f\<lparr>fr_buf := b\<rparr>)) = snd (fr_next g f))"
  by (auto simp: fr_next_def Let_def split: prod.splits sum.splits option.splits if_splits)

lemma fr_next_not_done: "fr_next g f = (None, f') \<Longrightarrow> fr_done f' = fr_done f"
  by (auto simp: fr_next_def Let_def split: prod.splits sum.splits option.splits if_splits)

lemma pull_buf: "pull g (f\<lparr>fr_buf := b\<rparr>) = pull g f"
proof -
  obtain r f' where *: "fr_next g f = (r, f')" by fastforce
  obtain r2 f2 where b: "fr_next g (f\<lparr>fr_buf := b\<rparr>) = (r2, f2)" by fastforce
  show ?thesis using * b fr_next_buf [where f = f and b = b and g = g]
    by (simp add: pull.simps [of g "f\<lparr>fr_buf := b\<rparr>"] pull.simps [of g f] split: option.splits)
qed

lemma ReadAll_drain:
  "ReadAll g k f = (fr_buf f @ fst (ReadAll g k (f\<lparr>fr_buf := []\<rparr>)), snd (ReadAll g k (f\<lparr>fr_buf := []\<rparr>)))"
proof (induction "length (fr_buf f)" arbitrary: f rule: less_induct)
  case less
  show ?case
  proof (cases "fr_buf f = []")
    case True
    then have "f\<lparr>fr_buf := []\<rparr> = f" by (cases f) simp
    then show ?thesis using True by (metis append_Nil prod.collapse)
  next
    case False
    let ?f = "f\<lparr>fr_buf := drop (Suc k) (fr_buf f)\<rparr>"
    have r: "fr_Read g (Suc k) f = (Inr (take (Suc k) (fr_buf f)), ?f)" using False by (simp add: fr_Read.simps)
    have "ReadAll g k ?f = (fr_buf ?f @ fst (ReadAll g k (?f\<lparr>fr_buf := []\<rparr>)), snd (ReadAll g k (?f\<lparr>fr_buf := []\<rparr>)))"
      using False by (intro less) auto
    then show ?thesis using r by (simp add: ReadAll.simps [of g k f] flip: append_assoc)
  qed
qed

lemma ReadAll_pull:
  "\<not> fr_done f \<Longrightarrow> ReadAll g k f = (fr_buf f @ concat (fst (pull g f)), snd (pull g f))"
proof (induction g f rule: pull.induct)
  case (1 g f)
  let ?f = "f\<lparr>fr_buf := []\<rparr>"
  obtain r f' where n: "fr_next g ?f = (r, f')" by fastforce
  have "ReadAll g k ?f = (concat (fst (pull g ?f)), snd (pull g ?f))"
  proof (cases r)
    case (Some e)
    then show ?thesis using n "1.prems"
      by (simp add: ReadAll.simps [of g k ?f] fr_Read.simps [of g "Suc k" ?f] pull.simps [of g ?f])
  next
    case None
    have "fr_Read g (Suc k) ?f = fr_Read g (Suc k) f'"
      using n None "1.prems" by (simp add: fr_Read.simps [of g "Suc k" ?f])
    then have step: "ReadAll g k ?f = ReadAll g k f'" by (simp add: ReadAll.simps)
    have nf: "fr_next g f = (None, f')" using fr_next_buf [where f = f and b = "[]" and g = g] n None
      by (metis fst_conv prod.collapse snd_conv)
    have "ReadAll g k f' = (fr_buf f' @ concat (fst (pull g f')), snd (pull g f'))"
      using "1.IH" [OF nf [symmetric] refl] fr_next_not_done [OF nf] "1.prems" by simp
    then show ?thesis unfolding step using n None by (simp add: pull.simps [of g ?f] split: prod.splits)
  qed
  then show ?case by (subst ReadAll_drain) (simp add: pull_buf)
qed

section \<open>What is written is read back\<close>

text \<open>The frames of a list of plaintexts, from a number on.\<close>

fun sealed :: "aead \<Rightarrow> string \<Rightarrow> aad \<Rightarrow> 64 word \<Rightarrow> string list \<Rightarrow> string" where
  "sealed g key a n [] = []"
| "sealed g key a n (p # ps) =
     (let ct = gc_seal g key (frameNonce n) p (aad_bytes a n)
      in be_bytes frameHead (length ct) @ ct @ sealed g key a (n + 1) ps)"

definition write_all :: "aead \<Rightarrow> string list \<Rightarrow> frame_writer \<Rightarrow> frame_writer" where
  "write_all g ps f = fold (\<lambda>p f. snd (fw_Write g Took p f)) ps f"

definition frames_fit :: "string list \<Rightarrow> bool" where
  "frames_fit ps \<longleftrightarrow> list_all (\<lambda>p. length p \<le> FrameSize) ps"

text \<open>What the cipher's documentation promises: opening undoes sealing, and a tag adds 16 bytes.\<close>

definition aead_laws :: "aead \<Rightarrow> bool" where
  "aead_laws g \<longleftrightarrow> gc_overhead g = 16 \<and> (\<forall>key n p a. length (gc_seal g key n p a) = length p + 16 \<and>
     gc_open g key n (gc_seal g key n p a) a = Some p)"

lemma write_all_sealed:
  "frames_fit ps \<Longrightarrow> fw_out (write_all g ps f) = fw_out f @ sealed g (fw_key f) (fw_aad f) (fw_seq f) ps"
  by (induction ps arbitrary: f) (auto simp: write_all_def frames_fit_def fw_Write_def Let_def)

lemma frame_head:
  assumes "length p \<le> FrameSize" "aead_laws g"
  shows "be_val (be_bytes frameHead (length (gc_seal g key n p a))) = length p + 16"
  using assms be_val_bytes [of "length p + 16" frameHead]
  by (simp add: aead_laws_def FrameSize_def frameHead_def)

lemma pull_sealed:
  assumes "aead_laws g"
  shows "frames_fit ps \<Longrightarrow> fr_src f = \<lparr>ar_bytes = sealed g (fr_key f) (fr_aad f) (fr_seq f) ps, ar_end = None\<rparr> \<Longrightarrow>
    pull g f = (ps, io_EOF)"
proof (induction ps arbitrary: f)
  case Nil
  then show ?case by (simp add: pull.simps fr_next_def ReadFull_def frameHead_def io_EOF_def is_err_def)
next
  case (Cons p ps)
  let ?ct = "gc_seal g (fr_key f) (frameNonce (fr_seq f)) p (aad_bytes (fr_aad f) (fr_seq f))"
  let ?rest = "sealed g (fr_key f) (fr_aad f) (fr_seq f + 1) ps"
  let ?f = "f\<lparr>fr_src := \<lparr>ar_bytes = ?rest, ar_end = None\<rparr>, fr_seq := fr_seq f + 1, fr_buf := p\<rparr>"
  have fit: "length p \<le> FrameSize" "frames_fit ps" using Cons.prems by (simp_all add: frames_fit_def)
  have ct: "length ?ct = length p + 16" "gc_overhead g = 16"
    "gc_open g (fr_key f) (frameNonce (fr_seq f)) ?ct (aad_bytes (fr_aad f) (fr_seq f)) = Some p"
    using assms by (simp_all add: aead_laws_def)
  have "be_val (be_bytes frameHead (length p + 16)) = length p + 16"
    using frame_head [OF fit(1) assms] ct by metis
  then have "fr_next g f = (None, ?f)" using Cons.prems ct fit(1)
    by (simp add: fr_next_def ReadFull_def Let_def maxFrame_def)
  moreover have "pull g ?f = (ps, io_EOF)" by (rule Cons.IH) (simp_all add: fit)
  ultimately show ?case by (simp add: pull.simps [of g f])
qed

text \<open>
  C17: a payload arrives as it was sent. Whatever the chunks that were written (none above the frame
  size) and whatever the buffer of the reader, reading the frames with the same key and binding gives
  the chunks joined, and then the end of the stream.
\<close>

theorem frames_round_trip:
  assumes "aead_laws g" "frames_fit ps" "NewFrameWriter key a = Inr fw"
    "NewFrameReader \<lparr>ar_bytes = fw_out (write_all g ps fw), ar_end = None\<rparr> key a = Inr fr"
  shows "ReadAll g k fr = (concat ps, io_EOF)"
proof -
  have fw: "fw = \<lparr>fw_key = key, fw_aad = a, fw_out = [], fw_seq = 0\<rparr>"
    using assms(3) by (auto simp: NewFrameWriter_def split: option.splits)
  have fr: "fr = \<lparr>fr_key = key, fr_aad = a, fr_src = \<lparr>ar_bytes = sealed g key a 0 ps, ar_end = None\<rparr>,
      fr_seq = 0, fr_buf = [], fr_done = False\<rparr>"
    using assms(4) write_all_sealed [OF assms(2), of g fw] fw
    by (auto simp: NewFrameReader_def split: option.splits)
  then have "pull g fr = (ps, io_EOF)" by (intro pull_sealed [OF assms(1,2)]) simp
  then show ?thesis using ReadAll_pull [of fr g k] fr by simp
qed


section \<open>Only what was sealed is read\<close>

text \<open>No part of the binding holds a NUL, the separator of the associated data.\<close>

definition plain_aad :: "aad \<Rightarrow> bool" where
  "plain_aad a \<longleftrightarrow> list_all (\<lambda>s. CHR 0x00 \<notin> set s)
     [aa_Session a, aa_Project a, aa_Branch a, aa_Commit a, aa_Direction a]"

text \<open>
  Authenticity, as the cipher promises it for a key that only the writer of \<open>ps\<close> used: what opens
  under the key is one of the frames the writer sealed.
\<close>

definition authentic :: "aead \<Rightarrow> string \<Rightarrow> aad \<Rightarrow> string list \<Rightarrow> bool" where
  "authentic g key a ps \<longleftrightarrow> (\<forall>n ct ad p. gc_open g key n ct ad = Some p \<longrightarrow>
     (\<exists>i < length ps. n = frameNonce (of_nat i) \<and> ad = aad_bytes a (of_nat i) \<and> p = ps ! i \<and>
        ct = gc_seal g key n p ad))"

lemma digits_no_NUL: "CHR 0x00 \<notin> set (nat_digits n)"
  using nat_digits_all [of n] by (auto simp: list_all_iff is_digit_alt byte_of_def dest!: bspec)

lemma aad_bytes_inj:
  assumes "plain_aad a" "plain_aad b" "aad_bytes a n = aad_bytes b m"
  shows "a = b \<and> n = m"
proof -
  let ?parts = "\<lambda>a n. [aa_Session a, aa_Project a, aa_Branch a, aa_Commit a, aa_Direction a, nat_digits (unat n)]"
  have *: "split_on (CHR 0x00) (aad_bytes a n) = ?parts a n" if "plain_aad a" for a and n :: "64 word"
    unfolding aad_bytes_def using that digits_no_NUL by (intro split_on_join) (auto simp: plain_aad_def)
  have "?parts a n = ?parts b m" using * [OF assms(1), of n] * [OF assms(2), of m] assms(3) by simp
  then show ?thesis by (cases a, cases b) (metis digits_val_nat_digits list.inject word_unat_eq_iff aad.select_convs)
qed

lemma frameNonce_inj: "frameNonce n = frameNonce m \<longleftrightarrow> n = m"
proof -
  have "unat w < 256 ^ 8" for w :: "64 word"
  proof -
    have "unat w < 2 ^ LENGTH(64)" by (rule unsigned_less)
    then show ?thesis by simp
  qed
  then show ?thesis by (simp add: frameNonce_def be_bytes_inj word_unat_eq_iff)
qed

lemma of_nat_word_inj: "i < 2 ^ 64 \<Longrightarrow> j < 2 ^ 64 \<Longrightarrow> (of_nat i :: 64 word) = of_nat j \<longleftrightarrow> i = j"
  by (simp add: word_of_nat_eq_iff take_bit_eq_mod)

text \<open>One accepted frame: it is the next one of the writer, with the writer's binding.\<close>

lemma fr_next_authentic:
  assumes "authentic g (fr_key f) a ps" "fr_next g f = (None, f')" "fr_seq f = of_nat i" "i \<le> length ps"
    "length ps < 2 ^ 64" "plain_aad a" "plain_aad (fr_aad f)"
  shows "i < length ps \<and> fr_buf f' = ps ! i \<and> fr_aad f = a \<and> fr_seq f' = of_nat (Suc i) \<and>
    fr_key f' = fr_key f \<and> fr_aad f' = fr_aad f \<and> ar_end (fr_src f') = ar_end (fr_src f) \<and> fr_done f' = fr_done f \<and>
    ar_bytes (fr_src f) = be_bytes frameHead (length (gc_seal g (fr_key f) (frameNonce (of_nat i)) (ps ! i) (aad_bytes a (of_nat i)))) @
      gc_seal g (fr_key f) (frameNonce (of_nat i)) (ps ! i) (aad_bytes a (of_nat i)) @ ar_bytes (fr_src f')"
proof -
  let ?b = "ar_bytes (fr_src f)"
  define head where "head = take frameHead ?b"
  define ct where "ct = take (be_val head) (drop frameHead ?b)"
  have len: "frameHead \<le> length ?b" "be_val head \<le> length (drop frameHead ?b)"
    and op: "gc_open g (fr_key f) (frameNonce (of_nat i)) ct (aad_bytes (fr_aad f) (of_nat i)) = Some (fr_buf f')"
    and f': "f' = f\<lparr>fr_src := (fr_src f)\<lparr>ar_bytes := drop (be_val head) (drop frameHead ?b)\<rparr>,
      fr_seq := of_nat i + 1, fr_buf := fr_buf f'\<rparr>"
    using assms(2,3) by (auto simp: fr_next_def ReadFull_def Let_def head_def ct_def split: if_splits option.splits)
  obtain j where j: "j < length ps" "frameNonce (of_nat i) = frameNonce (of_nat j)"
      "aad_bytes (fr_aad f) (of_nat i) = aad_bytes a (of_nat j)" "fr_buf f' = ps ! j"
      "ct = gc_seal g (fr_key f) (frameNonce (of_nat i)) (fr_buf f') (aad_bytes (fr_aad f) (of_nat i))"
    using assms(1) op unfolding authentic_def by blast
  have ij: "i = j" using j(1,2) assms(4,5) by (simp add: frameNonce_inj of_nat_word_inj)
  have aad: "fr_aad f = a" using aad_bytes_inj [OF assms(7,6) j(3)] by simp
  have "length head = frameHead" using len by (simp add: head_def)
  moreover have "length ct = be_val head" using len by (simp add: ct_def)
  ultimately have "head = be_bytes frameHead (length ct)" by (simp add: be_bytes_val)
  moreover have "?b = head @ ct @ drop (be_val head) (drop frameHead ?b)"
    unfolding ct_def append_take_drop_id by (simp add: head_def)
  moreover have "ar_bytes (fr_src f') = drop (be_val head) (drop frameHead ?b)" by (subst f') simp
  ultimately have bytes: "?b = be_bytes frameHead (length ct) @ ct @ ar_bytes (fr_src f')" by metis
  have "fr_seq f' = of_nat i + 1" "fr_key f' = fr_key f" "fr_aad f' = fr_aad f" "fr_done f' = fr_done f"
    "ar_end (fr_src f') = ar_end (fr_src f)" by (subst f', simp)+
  then show ?thesis using bytes j ij aad by (simp add: add.commute)
qed

lemma sealed_take_Suc:
  "i < length ps \<Longrightarrow> sealed g key a (of_nat i) (take (Suc m) (drop i ps)) =
     be_bytes frameHead (length (gc_seal g key (frameNonce (of_nat i)) (ps ! i) (aad_bytes a (of_nat i)))) @
     gc_seal g key (frameNonce (of_nat i)) (ps ! i) (aad_bytes a (of_nat i)) @
     sealed g key a (of_nat (Suc i)) (take m (drop (Suc i) ps))"
  by (subst Cons_nth_drop_Suc [symmetric]) (auto simp: Let_def add.commute)

lemma fr_next_end:
  "fr_next g f = (Some io_EOF, f') \<Longrightarrow> ar_end (fr_src f) = None \<Longrightarrow> ar_bytes (fr_src f) = []"
  by (auto simp: fr_next_def ReadFull_def Let_def io_EOF_def io_UnexpectedEOF_def ErrBadFrame_def wrapf_def is_err_def
      split: if_splits option.splits)

lemma pull_authentic:
  assumes "length ps < 2 ^ 64" "plain_aad a"
  shows "authentic g key a ps \<Longrightarrow> fr_key f = key \<Longrightarrow> plain_aad (fr_aad f) \<Longrightarrow> ar_end (fr_src f) = None \<Longrightarrow>
    fr_seq f = of_nat i \<Longrightarrow> i \<le> length ps \<Longrightarrow>
    \<exists>m. fst (pull g f) = take m (drop i ps) \<and> (m \<noteq> 0 \<longrightarrow> fr_aad f = a) \<and>
      (snd (pull g f) = io_EOF \<longrightarrow> ar_bytes (fr_src f) = sealed g key a (of_nat i) (take m (drop i ps)))"
proof (induction g f arbitrary: i rule: pull.induct)
  case (1 g f)
  obtain r f' where n: "fr_next g f = (r, f')" by fastforce
  show ?case
  proof (cases r)
    case (Some e)
    then show ?thesis using n fr_next_end [of g f f'] "1.prems"(4)
      by (intro exI [of _ 0]) (auto simp: pull.simps [of g f])
  next
    case None
    note next_ok = n [unfolded None]
    have auth: "authentic g (fr_key f) a ps" using "1.prems"(1,2) by simp
    from fr_next_authentic [OF auth next_ok "1.prems"(5,6) assms "1.prems"(3)] "1.prems"(2,4)
    have f': "i < length ps" "fr_buf f' = ps ! i" "fr_aad f = a" "fr_seq f' = of_nat (Suc i)" "fr_key f' = key"
      "fr_aad f' = fr_aad f" "ar_end (fr_src f') = None"
      "ar_bytes (fr_src f) = be_bytes frameHead (length (gc_seal g key (frameNonce (of_nat i)) (ps ! i) (aad_bytes a (of_nat i)))) @
        gc_seal g key (frameNonce (of_nat i)) (ps ! i) (aad_bytes a (of_nat i)) @ ar_bytes (fr_src f')"
      by auto
    from "1.IH" [OF next_ok [symmetric] refl, of "Suc i"] f' "1.prems"
    obtain m where m: "fst (pull g f') = take m (drop (Suc i) ps)"
      "snd (pull g f') = io_EOF \<longrightarrow> ar_bytes (fr_src f') = sealed g key a (of_nat (Suc i)) (take m (drop (Suc i) ps))"
      by auto
    have "pull g f = (ps ! i # fst (pull g f'), snd (pull g f'))"
      using next_ok f'(2) by (simp add: pull.simps [of g f] split: prod.splits)
    moreover have "take (Suc m) (drop i ps) = ps ! i # take m (drop (Suc i) ps)"
      using f'(1) by (simp flip: Cons_nth_drop_Suc)
    ultimately show ?thesis using m f'(3,8) sealed_take_Suc [OF f'(1), of g key a m]
      by (intro exI [of _ "Suc m"]) simp
  qed
qed

text \<open>
  C16: a payload cannot be altered unnoticed. Whatever bytes arrive, under a key that only the sender
  of the chunks \<open>ps\<close> used, the text that is read is a leading part of what was sent, in whole chunks
  and in order; when the stream ends without an error the bytes are exactly those of that part; and
  with the binding of another session, project, branch, commit or direction nothing is read at all.
\<close>

theorem only_sealed_is_read:
  assumes "authentic g key a ps" "length ps < 2 ^ 64" "plain_aad a" "plain_aad b"
    "NewFrameReader \<lparr>ar_bytes = input, ar_end = None\<rparr> key b = Inr fr"
  shows "\<exists>m. fst (ReadAll g k fr) = concat (take m ps) \<and> (b \<noteq> a \<longrightarrow> m = 0) \<and>
    (snd (ReadAll g k fr) = io_EOF \<longrightarrow> input = sealed g key a 0 (take m ps))"
proof -
  have fr: "fr = \<lparr>fr_key = key, fr_aad = b, fr_src = \<lparr>ar_bytes = input, ar_end = None\<rparr>,
      fr_seq = 0, fr_buf = [], fr_done = False\<rparr>"
    using assms(5) by (auto simp: NewFrameReader_def split: option.splits)
  have "\<exists>m. fst (pull g fr) = take m (drop 0 ps) \<and> (m \<noteq> 0 \<longrightarrow> fr_aad fr = a) \<and>
      (snd (pull g fr) = io_EOF \<longrightarrow> ar_bytes (fr_src fr) = sealed g key a (of_nat 0) (take m (drop 0 ps)))"
    by (rule pull_authentic [OF assms(2,3,1)]) (simp_all add: fr assms(4))
  then obtain m where m: "fst (pull g fr) = take m (drop 0 ps)" "m \<noteq> 0 \<longrightarrow> fr_aad fr = a"
      "snd (pull g fr) = io_EOF \<longrightarrow> ar_bytes (fr_src fr) = sealed g key a (of_nat 0) (take m (drop 0 ps))"
    by blast
  have fields: "fr_aad fr = b" "ar_bytes (fr_src fr) = input" by (simp_all add: fr)
  have "ReadAll g k fr = (concat (fst (pull g fr)), snd (pull g fr))"
    by (subst ReadAll_pull) (simp_all add: fr)
  then show ?thesis using m unfolding fields by (intro exI [of _ m]) auto
qed

section \<open>A toy cipher for the witnesses\<close>

text \<open>
  The tag is 16 marks, and opening looks the frame up among those that were sealed: with such a list
  both laws hold for it.
\<close>

definition marked :: "string \<Rightarrow> string" where
  "marked p = p @ replicate 16 CHR ''#''"

definition open_marked :: "string \<Rightarrow> string option" where
  "open_marked ct =
     (if 16 \<le> length ct \<and> drop (length ct - 16) ct = replicate 16 CHR ''#'' then Some (take (length ct - 16) ct) else None)"

definition plain_cipher :: aead where
  "plain_cipher = \<lparr>gc_seal = (\<lambda>key n p a. marked p), gc_open = (\<lambda>key n ct a. open_marked ct), gc_overhead = 16\<rparr>"

definition sample_aad :: aad where
  "sample_aad = \<lparr>aa_Session = ''s'', aa_Project = ''me/app'', aa_Branch = ''main'', aa_Commit = ''c0'', aa_Direction = ''laptop-to-server''\<rparr>"

definition one_time_cipher :: "aad \<Rightarrow> string list \<Rightarrow> aead" where
  "one_time_cipher a ps = \<lparr>gc_seal = (\<lambda>key n p b. marked p),
     gc_open = (\<lambda>key n ct b. map_option (\<lambda>i. ps ! i)
       (find (\<lambda>i. n = frameNonce (of_nat i) \<and> b = aad_bytes a (of_nat i) \<and> ct = marked (ps ! i)) [0..<length ps])),
     gc_overhead = 16\<rparr>"

lemma plain_cipher_laws: "aead_laws plain_cipher"
  by (simp add: aead_laws_def plain_cipher_def marked_def open_marked_def)

lemma one_time_authentic: "authentic (one_time_cipher a ps) key a ps"
  by (auto simp: authentic_def one_time_cipher_def find_Some_iff)

theorem frames_round_trip_witness:
  "ReadAll plain_cipher 2
     \<lparr>fr_key = replicate 32 CHR ''k'', fr_aad = sample_aad,
      fr_src = \<lparr>ar_bytes = fw_out (write_all plain_cipher [''hello'', '''', ''world'']
        \<lparr>fw_key = replicate 32 CHR ''k'', fw_aad = sample_aad, fw_out = [], fw_seq = 0\<rparr>), ar_end = None\<rparr>,
      fr_seq = 0, fr_buf = [], fr_done = False\<rparr> = (concat [''hello'', '''', ''world''], io_EOF)"
  by (rule frames_round_trip [OF plain_cipher_laws, where key = "replicate 32 CHR ''k''" and a = sample_aad])
    (simp_all add: frames_fit_def FrameSize_def NewFrameWriter_def NewFrameReader_def newGCM_def)

text \<open>A frame of one commit presented for another: nothing is read.\<close>

theorem only_sealed_is_read_witness:
  "fst (ReadAll (one_time_cipher sample_aad [''one'', ''two'']) 0
     \<lparr>fr_key = replicate 16 CHR ''k'', fr_aad = sample_aad\<lparr>aa_Commit := ''c1''\<rparr>,
      fr_src = \<lparr>ar_bytes = be_bytes 4 19 @ marked ''one'', ar_end = None\<rparr>,
      fr_seq = 0, fr_buf = [], fr_done = False\<rparr>) = []"
proof -
  have "sample_aad\<lparr>aa_Commit := ''c1''\<rparr> \<noteq> sample_aad" by (simp add: sample_aad_def)
  with only_sealed_is_read [OF one_time_authentic, where ps = "[''one'', ''two'']" and a = sample_aad and k = 0 and
      b = "sample_aad\<lparr>aa_Commit := ''c1''\<rparr>" and key = "replicate 16 CHR ''k''" and input = "be_bytes 4 19 @ marked ''one''"]
  show ?thesis by (auto simp: plain_aad_def sample_aad_def NewFrameReader_def newGCM_def)
qed

end
