(* ===== verification/Files.thy ===== *)
theory Files
  imports Prelude
begin

text \<open>
  The file operations the server persists with (\<open>os.ReadFile\<close>, \<open>os.WriteFile\<close>,
  \<open>os.Rename\<close>, \<open>os.Remove\<close>, \<open>os.RemoveAll\<close>, \<open>os.ReadDir\<close>) over one data directory, and
  the write protocol that several components share: write a temporary file beside the target,
  then rename it over the target (\<open>writeJSONFile\<close> of server/internal/threads/threads.go and
  \<open>saveDoc\<close> of server/internal/state/state.go).

  A path is the list of its components under the data directory. A disk lists the regular
  files with their decoded contents; a directory exists when a file lies below it. Every
  operation that writes takes the outcome the operating system gives it as an argument, so
  all the error branches of the callers are reachable.
\<close>

type_synonym path = "string list"
type_synonym 'c disk = "(path \<times> 'c) list"

definition fs_read :: "path \<Rightarrow> 'c disk \<Rightarrow> 'c option" where
  "fs_read p d = map_of d p"

definition fs_write :: "path \<Rightarrow> 'c \<Rightarrow> 'c disk \<Rightarrow> 'c disk" where
  "fs_write p c d = AList.update p c d"

definition fs_remove :: "path \<Rightarrow> 'c disk \<Rightarrow> 'c disk" where
  "fs_remove p d = AList.delete p d"

definition fs_rename :: "path \<Rightarrow> path \<Rightarrow> 'c disk \<Rightarrow> 'c disk" where
  "fs_rename p q d =
     (case fs_read p d of None \<Rightarrow> d | Some c \<Rightarrow> fs_write q c (fs_remove p d))"

definition fs_remove_all :: "path \<Rightarrow> 'c disk \<Rightarrow> 'c disk" where
  "fs_remove_all p d = filter (\<lambda>(q, c). \<not> prefix p q) d"

text \<open>
  \<open>os.ReadDir\<close>: the entries of a directory in name order, each with \<open>IsDir\<close>; \<open>None\<close> when
  the directory does not exist.
\<close>

definition fs_children :: "path \<Rightarrow> 'c disk \<Rightarrow> (string \<times> bool) list" where
  "fs_children p d =
     map (\<lambda>(q, c). (q ! length p, Suc (length p) < length q))
       (filter (\<lambda>(q, c). strict_prefix p q) d)"

definition fs_readdir :: "path \<Rightarrow> 'c disk \<Rightarrow> (string \<times> bool) list option" where
  "fs_readdir p d =
     (if fs_children p d = [] then None
      else Some (sort_key fst (remdups (fs_children p d))))"

lemma fs_read_write [simp]: "fs_read q (fs_write p c d) = (if q = p then Some c else fs_read q d)"
  by (simp add: fs_read_def fs_write_def update_conv')

lemma fs_read_remove [simp]: "fs_read q (fs_remove p d) = (if q = p then None else fs_read q d)"
  by (simp add: fs_read_def fs_remove_def delete_conv')

lemma map_of_filter_key: "map_of (filter (\<lambda>(k, v). P k) al) k = (if P k then map_of al k else None)"
  by (induction al) auto

lemma fs_read_remove_all [simp]:
  "fs_read q (fs_remove_all p d) = (if prefix p q then None else fs_read q d)"
  unfolding fs_read_def fs_remove_all_def
  by (simp add: map_of_filter_key [of "\<lambda>q. \<not> prefix p q"])

lemma fs_read_rename:
  "fs_read q (fs_rename p r d) =
     (case fs_read p d of None \<Rightarrow> fs_read q d
      | Some c \<Rightarrow> if q = r then Some c else if q = p then None else fs_read q d)"
  by (simp add: fs_rename_def split: option.splits)

lemma fs_read_None_iff: "fs_read p d = None \<longleftrightarrow> p \<notin> fst ` set d"
  by (simp add: fs_read_def map_of_eq_None_iff)

text \<open>A file \<open>p/n\<close> shows up in the listing of \<open>p\<close>, and nothing else does.\<close>

lemma fs_children_file:
  "(n, False) \<in> set (fs_children p d) \<longleftrightarrow> fs_read (p @ [n]) d \<noteq> None"
proof -
  have "(n, False) \<in> set (fs_children p d) \<longleftrightarrow> p @ [n] \<in> fst ` set d"
  proof
    assume "(n, False) \<in> set (fs_children p d)"
    then obtain q c where q: "(q, c) \<in> set d" "strict_prefix p q" "n = q ! length p"
      "\<not> Suc (length p) < length q"
      by (auto simp: fs_children_def)
    then obtain r where r: "q = p @ r" "r \<noteq> []"
      by (auto simp: strict_prefix_def prefix_def)
    with q(4) obtain x where "r = [x]"
      by (cases r) auto
    with r q(3) have "q = p @ [n]" by simp
    with q(1) show "p @ [n] \<in> fst ` set d" by force
  next
    assume "p @ [n] \<in> fst ` set d"
    then obtain c where "(p @ [n], c) \<in> set d" by force
    then show "(n, False) \<in> set (fs_children p d)"
      by (auto simp: fs_children_def strict_prefix_def
          intro!: image_eqI [where x = "(p @ [n], c)"])
  qed
  then show ?thesis using fs_read_None_iff [of "p @ [n]" d] by argo
qed

lemma fs_readdir_set: "fs_readdir p d = Some es \<Longrightarrow> set es = set (fs_children p d)"
  by (auto simp: fs_readdir_def split: if_splits)

lemma fs_readdir_file:
  "fs_readdir p d = Some es \<Longrightarrow> (n, False) \<in> set es \<longleftrightarrow> fs_read (p @ [n]) d \<noteq> None"
  by (simp add: fs_readdir_set fs_children_file)

lemma fs_readdir_None: "fs_readdir p d = None \<Longrightarrow> fs_read (p @ [n]) d = None"
  using fs_children_file [of n p d] by (auto simp: fs_readdir_def split: if_splits)

lemma fs_children_dir:
  "(n, True) \<in> set (fs_children p d) \<longleftrightarrow> (\<exists>q \<in> fst ` set d. strict_prefix (p @ [n]) q)"
proof
  assume "(n, True) \<in> set (fs_children p d)"
  then obtain q c where q: "(q, c) \<in> set d" "strict_prefix p q" "n = q ! length p"
    "Suc (length p) < length q"
    by (auto simp: fs_children_def)
  then obtain r where r: "q = p @ r" by (auto simp: strict_prefix_def prefix_def)
  with q(3,4) obtain y ys where "r = n # y # ys"
    by (cases r; cases "tl r") auto
  with r have "strict_prefix (p @ [n]) q" by (simp add: strict_prefix_def)
  with q(1) show "\<exists>q \<in> fst ` set d. strict_prefix (p @ [n]) q" by force
next
  assume "\<exists>q \<in> fst ` set d. strict_prefix (p @ [n]) q"
  then obtain q c where q: "(q, c) \<in> set d" "strict_prefix (p @ [n]) q" by force
  then obtain y ys where "q = p @ n # y # ys"
    by (auto simp: strict_prefix_def prefix_def) (metis neq_Nil_conv)
  with q(1) show "(n, True) \<in> set (fs_children p d)"
    by (auto simp: fs_children_def strict_prefix_def
        intro!: image_eqI [where x = "(p @ n # y # ys, c)"])
qed

lemma fs_readdir_sorted: "fs_readdir p d = Some es \<Longrightarrow> sorted (map fst es)"
  by (auto simp: fs_readdir_def split: if_splits)


section \<open>Replacing a file through a temporary one\<close>

text \<open>
  How an attempt to replace a file can end: encoding the value fails, the directory cannot be
  made, the temporary file cannot be written in full (it may be left torn), the rename fails,
  or the file is replaced. A crash between two of the steps leaves the disk as one of these
  outcomes does.
\<close>

datatype io = IoDone | IoEncode | IoNoDir | IoTornTmp | IoNoRename

datatype io_error = EncodeFailed | MkdirFailed | WriteFailed | RenameFailed

definition tmp_path :: "path \<Rightarrow> path" where
  "tmp_path p = butlast p @ [last p @ ''.tmp'']"

text \<open>\<open>torn\<close> is what a file that was not written in full decodes as.\<close>

definition write_json_file :: "'c \<Rightarrow> io \<Rightarrow> path \<Rightarrow> 'c \<Rightarrow> 'c disk \<Rightarrow> io_error option \<times> 'c disk" where
  "write_json_file torn out p v d =
     (case out of
        IoEncode \<Rightarrow> (Some EncodeFailed, d)
      | IoNoDir \<Rightarrow> (Some MkdirFailed, d)
      | IoTornTmp \<Rightarrow> (Some WriteFailed, fs_write (tmp_path p) torn d)
      | IoNoRename \<Rightarrow> (Some RenameFailed, fs_write (tmp_path p) v d)
      | IoDone \<Rightarrow> (None, fs_rename (tmp_path p) p (fs_write (tmp_path p) v d)))"

lemma tmp_path_neq: "p \<noteq> [] \<Longrightarrow> tmp_path p \<noteq> p"
  by (metis append_butlast_last_id append_self_conv last_snoc list.discI tmp_path_def)

text \<open>
  The interface of a store of named contents that the protocol needs: what reading gives after
  a write and after a rename. Everything the protocol promises follows from these laws.
\<close>

locale replaceable_store =
  fixes rd :: "'p \<Rightarrow> 's \<Rightarrow> 'c option"
    and wr :: "'p \<Rightarrow> 'c \<Rightarrow> 's \<Rightarrow> 's"
    and rn :: "'p \<Rightarrow> 'p \<Rightarrow> 's \<Rightarrow> 's"
  assumes rd_wr: "rd q (wr p c s) = (if q = p then Some c else rd q s)"
    and rd_rn: "rd p s = Some c \<Longrightarrow>
      rd q (rn p r s) = (if q = r then Some c else if q = p then None else rd q s)"
begin

lemma replace_target: "t \<noteq> p \<Longrightarrow> rd p (rn t p (wr t v s)) = Some v"
  by (simp add: rd_wr rd_rn)

lemma replace_other: "q \<noteq> p \<Longrightarrow> q \<noteq> t \<Longrightarrow> rd q (rn t p (wr t v s)) = rd q s"
  using rd_rn [of t "wr t v s" v q p] by (simp add: rd_wr)

lemma tmp_only: "q \<noteq> t \<Longrightarrow> rd q (wr t v s) = rd q s"
  by (simp add: rd_wr)

lemma replace_tmp_gone: "t \<noteq> p \<Longrightarrow> rd t (rn t p (wr t v s)) = None"
  using rd_rn [of t "wr t v s" v t p] by (simp add: rd_wr)

end

interpretation disk: replaceable_store fs_read fs_write fs_rename
  by unfold_locales (auto simp: fs_read_rename)

lemma write_json_file_cases:
  assumes "write_json_file torn out p v d = (e, d')" "p \<noteq> []"
  shows "e = None \<longleftrightarrow> out = IoDone"
    and "fs_read p d' = (if e = None then Some v else fs_read p d)"
    and "q \<noteq> p \<Longrightarrow> q \<noteq> tmp_path p \<Longrightarrow> fs_read q d' = fs_read q d"
  using assms tmp_path_neq [of p]
  by (auto simp: write_json_file_def disk.replace_target disk.replace_other disk.tmp_only
      split: io.splits)

lemmas write_json_file_read = write_json_file_cases(2)
lemmas write_json_file_frame = write_json_file_cases(3)

end
