(* ===== verification/State.thy ===== *)
theory State
  imports Files
begin

text \<open>
  server/internal/state/state.go: the document of all desired state, the store that holds it in
  memory and in state.json, and the transaction (\<open>Mutate\<close>) every other component writes it
  through. Go maps are association lists; a nil map and an empty one are the same list, which
  is what \<open>omitempty\<close> makes of them on disk.
\<close>

section \<open>The document\<close>

record user =
  user_email :: string
  user_hash :: string
  user_version :: int

record shortcut =
  sc_id :: string
  sc_alias :: string
  sc_kind :: string
  sc_command :: string
  sc_keys :: string

record session_meta =
  sm_harness :: string

type_synonym harness_status = string

definition HarnessInstalled :: harness_status where "HarnessInstalled = ''true''"
definition HarnessInstalling :: harness_status where "HarnessInstalling = ''installing''"
definition HarnessNotInstalled :: harness_status where "HarnessNotInstalled = ''false''"

lemma harness_status_distinct [simp]:
  "HarnessInstalled \<noteq> HarnessInstalling" "HarnessInstalling \<noteq> HarnessInstalled"
  "HarnessInstalled \<noteq> []" "HarnessInstalling \<noteq> []"
  by (simp_all add: HarnessInstalled_def HarnessInstalling_def)

record project =
  pr_repo :: string
  pr_branch :: string
  pr_harnesses :: "(string \<times> harness_status) list"
  pr_sessions :: "(string \<times> session_meta) list"
  pr_shortcuts :: "shortcut list"

record harness =
  hs_id :: string
  hs_name :: string
  hs_command :: string
  hs_install :: string
  hs_config_path :: string
  hs_config :: string

record ai_model =
  ai_id :: string
  ai_label :: string
  ai_base_url :: string
  ai_api_key :: string
  ai_model_name :: string

record server_ssh_key =
  sk_private :: string
  sk_public :: string
  sk_fingerprint :: string
  sk_created_at :: string

record document =
  doc_user :: user
  doc_ai_models :: "ai_model list"
  doc_projects :: "(string \<times> project) list"
  doc_harnesses :: "(string \<times> harness) list"
  doc_server_key :: "server_ssh_key option"

definition empty_document :: document where
  "empty_document =
     \<lparr>doc_user = \<lparr>user_email = [], user_hash = [], user_version = 0\<rparr>, doc_ai_models = [],
      doc_projects = [], doc_harnesses = [], doc_server_key = None\<rparr>"

definition FirstAIModel :: "document \<Rightarrow> ai_model option" where
  "FirstAIModel doc = (case doc_ai_models doc of m # _ \<Rightarrow> Some m | [] \<Rightarrow> None)"


section \<open>The store\<close>

record bootstrap =
  bs_email :: string
  bs_ai :: "ai_model option"

datatype state_file = StateJson document | StateTorn

text \<open>The store handle: the document in memory, and the disk it is persisted on.\<close>

record store =
  st_path :: path
  st_doc :: document
  st_disk :: "state_file disk"

datatype 'e mutate_error = FnFailed 'e | SaveFailed io_error

definition seed :: "bootstrap \<Rightarrow> document \<Rightarrow> document" where
  "seed b doc =
     (let doc1 = (if bs_email b \<noteq> [] \<and> user_email (doc_user doc) = []
                  then doc\<lparr>doc_user := (doc_user doc)\<lparr>user_email := bs_email b\<rparr>\<rparr> else doc)
      in (case bs_ai b of
            Some m \<Rightarrow> if doc_ai_models doc1 = [] then doc1\<lparr>doc_ai_models := [m]\<rparr> else doc1
          | None \<Rightarrow> doc1))"

definition saveDoc :: "io \<Rightarrow> document \<Rightarrow> store \<Rightarrow> io_error option \<times> store" where
  "saveDoc out doc s =
     (let (e, d) = write_json_file StateTorn out (st_path s) (StateJson doc) (st_disk s)
      in (e, s\<lparr>st_disk := d\<rparr>))"

definition state_path :: path where
  "state_path = [''state.json'']"

datatype open_error = ParseFailed | OpenSaveFailed io_error

definition open_store :: "io \<Rightarrow> bootstrap \<Rightarrow> state_file disk \<Rightarrow> open_error + store" where
  "open_store out b d =
     (case fs_read state_path d of
        Some (StateJson doc) \<Rightarrow> Inr \<lparr>st_path = state_path, st_doc = seed b doc, st_disk = d\<rparr>
      | Some StateTorn \<Rightarrow> Inl ParseFailed
      | None \<Rightarrow>
          (let s = \<lparr>st_path = state_path, st_doc = seed b empty_document, st_disk = d\<rparr>
           in (case saveDoc out (st_doc s) s of
                 (Some e, s') \<Rightarrow> Inl (OpenSaveFailed e)
               | (None, s') \<Rightarrow> Inr s')))"

definition view :: "store \<Rightarrow> document" where
  "view s = st_doc s"

text \<open>
  \<open>Mutate\<close>: the function works on a copy of the document, which becomes current only once it
  is on disk. The function's other result (what its closure captures) comes back with success.
  The outcome \<open>IoEncode\<close> stands for a failed \<open>deepcopy\<close> as well: nothing has happened yet.
\<close>

definition mutate :: "io \<Rightarrow> (document \<Rightarrow> 'e + document \<times> 'a) \<Rightarrow> store \<Rightarrow>
    ('e mutate_error + 'a) \<times> store" where
  "mutate out fn s =
     (if out = IoEncode then (Inl (SaveFailed EncodeFailed), s)
      else (case fn (st_doc s) of
              Inl e \<Rightarrow> (Inl (FnFailed e), s)
            | Inr (clone, a) \<Rightarrow>
                (case saveDoc out clone s of
                   (Some e, s') \<Rightarrow> (Inl (SaveFailed e), s')
                 | (None, s') \<Rightarrow> (Inr a, s'\<lparr>st_doc := clone\<rparr>))))"

definition set_password_fn :: "string \<Rightarrow> string \<Rightarrow> document \<Rightarrow> 'e + document \<times> unit" where
  "set_password_fn email hash doc =
     Inr (doc\<lparr>doc_user := (doc_user doc)\<lparr>user_email := email, user_hash := hash,
            user_version := wrap64 (user_version (doc_user doc) + 1)\<rparr>\<rparr>, ())"

definition SetPassword :: "io \<Rightarrow> string \<Rightarrow> string \<Rightarrow> store \<Rightarrow> (unit mutate_error + unit) \<times> store" where
  "SetPassword out email hash = mutate out (set_password_fn email hash)"


section \<open>The transaction interface\<close>

text \<open>
  What the components over the store rely on: a transaction that succeeds made the function's
  document current, one that fails left the current document alone. Whatever a function keeps
  of the document, the transaction keeps.
\<close>

locale transactional =
  fixes current :: "'s \<Rightarrow> document"
    and transact :: "io \<Rightarrow> (document \<Rightarrow> 'e + document \<times> 'a) \<Rightarrow> 's \<Rightarrow> ('e mutate_error + 'a) \<times> 's"
  assumes commit: "transact out fn s = (Inr a, s') \<Longrightarrow> fn (current s) = Inr (current s', a)"
    and abort: "transact out fn s = (Inl e, s') \<Longrightarrow> current s' = current s"
    and failed: "transact out fn s = (Inl (FnFailed x), s') \<Longrightarrow> fn (current s) = Inl x"
begin

lemma transact_cases:
  assumes "transact out fn s = (r, s')"
  obtains (committed) doc a where "r = Inr a" "fn (current s) = Inr (doc, a)" "current s' = doc"
    | (kept) e where "r = Inl e" "current s' = current s"
proof (cases r)
  case (Inl e)
  with assms show ?thesis by (intro kept) (auto dest: abort)
next
  case (Inr a)
  with assms show ?thesis by (intro committed) (auto dest: commit)
qed

lemma keeps:
  assumes "transact out fn s = (r, s')" "P (current s)"
    and "\<And>doc a. fn (current s) = Inr (doc, a) \<Longrightarrow> P doc"
  shows "P (current s')"
  using assms by (metis transact_cases)

lemma relates:
  assumes "transact out fn s = (r, s')" "rel (current s) (current s)"
    and "\<And>doc a. fn (current s) = Inr (doc, a) \<Longrightarrow> rel (current s) doc"
  shows "rel (current s) (current s')"
  using assms by (metis transact_cases)

end

lemma saveDoc_simps [simp]:
  "saveDoc out doc s = (e, s') \<Longrightarrow> st_doc s' = st_doc s \<and> st_path s' = st_path s"
  by (auto simp: saveDoc_def split: prod.splits)

lemma mutate_commit:
  "mutate out fn s = (Inr a, s') \<Longrightarrow> fn (view s) = Inr (view s', a)"
  by (auto simp: mutate_def view_def split: if_splits sum.splits prod.splits option.splits)

lemma mutate_abort:
  "mutate out fn s = (Inl e, s') \<Longrightarrow> view s' = view s"
  by (auto simp: mutate_def view_def split: if_splits sum.splits prod.splits option.splits)

lemma mutate_failed:
  "mutate out fn s = (Inl (FnFailed e), s') \<Longrightarrow> fn (view s) = Inl e"
  by (auto simp: mutate_def view_def split: if_splits sum.splits prod.splits option.splits)

interpretation st: transactional view mutate
  by unfold_locales (auto dest: mutate_commit mutate_abort mutate_failed)


section \<open>Memory and disk\<close>

text \<open>
  What a restart would find: the document on disk, with the same seed, is the document in
  memory with the seed applied once more.
\<close>

definition durable :: "bootstrap \<Rightarrow> store \<Rightarrow> bool" where
  "durable b s \<longleftrightarrow> st_path s = state_path \<and>
     (\<exists>doc. fs_read state_path (st_disk s) = Some (StateJson doc) \<and> seed b doc = seed b (st_doc s))"

lemma seed_idem [simp]: "seed b (seed b doc) = seed b doc"
  by (auto simp: seed_def Let_def split: option.splits)

lemma state_path_nonempty: "state_path \<noteq> []"
  by (simp add: state_path_def)

lemma saveDoc_read:
  assumes "saveDoc out doc s = (e, s')" "st_path s = state_path"
  shows "fs_read state_path (st_disk s') =
      (if e = None then Some (StateJson doc) else fs_read state_path (st_disk s))"
proof -
  obtain e0 d where w: "write_json_file StateTorn out state_path (StateJson doc) (st_disk s) = (e0, d)"
    by (cases "write_json_file StateTorn out state_path (StateJson doc) (st_disk s)")
  with assms have "e0 = e" and "st_disk s' = d"
    by (auto simp: saveDoc_def)
  then show ?thesis
    using write_json_file_read [OF w state_path_nonempty] by simp
qed

lemma open_store_durable:
  "open_store out b d = Inr s \<Longrightarrow> durable b s"
  by (auto simp: open_store_def durable_def Let_def saveDoc_read
      split: option.splits state_file.splits prod.splits)

lemma mutate_durable:
  assumes d: "durable b s" and m: "mutate out fn s = (r, s')"
  shows "durable b s'"
proof (cases "out = IoEncode")
  case True
  with m d show ?thesis by (simp add: mutate_def)
next
  case no: False
  show ?thesis
  proof (cases "fn (st_doc s)")
    case (Inl e)
    with no m d show ?thesis by (simp add: mutate_def)
  next
    case (Inr x)
    obtain clone a where x: "x = (clone, a)" by (cases x)
    obtain e t where sv: "saveDoc out clone s = (e, t)" by (cases "saveDoc out clone s")
    have p: "st_path s = state_path" using d by (simp add: durable_def)
    from no m Inr x sv have "s' = (case e of Some _ \<Rightarrow> t | None \<Rightarrow> t\<lparr>st_doc := clone\<rparr>)"
      by (simp add: mutate_def split: option.splits)
    then show ?thesis
      using saveDoc_read [OF sv p] saveDoc_simps [OF sv] p d
      by (auto simp: durable_def split: option.splits)
  qed
qed

text \<open>A run of transactions, each with the outcome of its write.\<close>

fun mutate_run :: "(io \<times> (document \<Rightarrow> 'e + document \<times> 'a)) list \<Rightarrow> store \<Rightarrow> store" where
  "mutate_run [] s = s"
| "mutate_run ((out, fn) # ops) s = mutate_run ops (snd (mutate out fn s))"

lemma mutate_run_durable: "durable b s \<Longrightarrow> durable b (mutate_run ops s)"
proof (induction ops s rule: mutate_run.induct)
  case (2 out fn ops s)
  have "durable b (snd (mutate out fn s))" by (rule mutate_durable [OF 2(2) prod.collapse [symmetric]])
  with 2(1) show ?case by simp
qed simp

lemma durable_reopens:
  assumes "durable b s"
  shows "\<exists>s'. open_store out b (st_disk s) = Inr s' \<and> view s' = seed b (view s)"
  using assms by (auto simp: durable_def open_store_def view_def)


section \<open>Properties\<close>


definition no_seed :: bootstrap where
  "no_seed = \<lparr>bs_email = '''', bs_ai = None\<rparr>"

definition first_store :: store where
  "first_store = snd (saveDoc IoDone empty_document
     \<lparr>st_path = state_path, st_doc = empty_document, st_disk = []\<rparr>)"

definition demo_ops :: "(io \<times> (document \<Rightarrow> unit + document \<times> unit)) list" where
  "demo_ops = [(IoDone, set_password_fn ''a@b'' ''h1''), (IoTornTmp, set_password_fn ''c@d'' ''h2'')]"


end
