(* ===== verification/Harness.thy ===== *)
theory Harness
  imports State
begin

text \<open>
  server/internal/harness/harness.go: the registry of harness plugins over the state document,
  the slug that names a plugin, and the seeding of the builtin plugins.
\<close>

datatype harness_error = NoUsableName string | CommandRequired | HarnessExists string | NoSuchHarness string

type_synonym 'a registered = "(harness_error mutate_error + 'a) \<times> store"

text \<open>\<open>Binary\<close>: the first word of the command, empty for a blank command.\<close>

definition Binary :: "harness \<Rightarrow> string" where
  "Binary h = (case go_fields (hs_command h) of [] \<Rightarrow> [] | w # _ \<Rightarrow> w)"

text \<open>
  \<open>Slug\<close>: lower-case, then keep [a-z0-9] and turn each run of anything else into one dash. The
  loop's state is the builder and \<open>lastDash\<close>; \<open>lo\<close> is Unicode's lower-case table (see
  \<open>to_lower\<close>).
\<close>

definition slug_rune :: "nat \<Rightarrow> bool" where
  "slug_rune r \<longleftrightarrow> 97 \<le> r \<and> r \<le> 122 \<or> 48 \<le> r \<and> r \<le> 57"

fun slug_loop :: "bool \<Rightarrow> nat list \<Rightarrow> string" where
  "slug_loop lastDash [] = []"
| "slug_loop lastDash (r # rs) =
     (if slug_rune r then char_of r # slug_loop False rs
      else if \<not> lastDash then CHR ''-'' # slug_loop True rs
      else slug_loop lastDash rs)"

definition Slug :: "(nat \<Rightarrow> nat) \<Rightarrow> string \<Rightarrow> string" where
  "Slug lo name = trim_suffix (slug_loop True (runes (to_lower lo name))) ''-''"

text \<open>\<open>List\<close>: by name; names are not unique, and the order among equal names is not determined.\<close>

definition hs_list :: "store \<Rightarrow> harness list" where
  "hs_list s = sort_key hs_name (map (\<lambda>(i, h). h\<lparr>hs_id := i\<rparr>) (doc_harnesses (view s)))"

definition hs_get :: "string \<Rightarrow> store \<Rightarrow> harness_error + harness" where
  "hs_get i s = (case map_of (doc_harnesses (view s)) i of
     None \<Rightarrow> Inl (NoSuchHarness i) | Some h \<Rightarrow> Inr (h\<lparr>hs_id := i\<rparr>))"

definition put_harness :: "string \<Rightarrow> harness \<Rightarrow> document \<Rightarrow> document" where
  "put_harness i h doc = doc\<lparr>doc_harnesses := AList.update i (h\<lparr>hs_id := i\<rparr>) (doc_harnesses doc)\<rparr>"

definition save_fn :: "string \<Rightarrow> harness \<Rightarrow> document \<Rightarrow> harness_error + document \<times> string" where
  "save_fn i h doc =
     (if map_of (doc_harnesses doc) i \<noteq> None then Inl (HarnessExists i)
      else Inr (put_harness i h doc, i))"

definition hs_save :: "(nat \<Rightarrow> nat) \<Rightarrow> io \<Rightarrow> harness \<Rightarrow> store \<Rightarrow> string registered" where
  "hs_save lo out h s =
     (let i = Slug lo (hs_name h)
      in if i = [] then (Inl (FnFailed (NoUsableName (hs_name h))), s)
         else if trim_space (hs_command h) = [] then (Inl (FnFailed CommandRequired), s)
         else mutate out (save_fn i h) s)"

definition hs_remove :: "io \<Rightarrow> string \<Rightarrow> store \<Rightarrow> unit registered" where
  "hs_remove out i = mutate out (\<lambda>doc.
     Inr (doc\<lparr>doc_harnesses := AList.delete i (doc_harnesses doc)\<rparr>, ()))"

definition builtin :: "string \<Rightarrow> string \<Rightarrow> string \<Rightarrow> harness" where
  "builtin name command install =
     \<lparr>hs_id = [], hs_name = name, hs_command = command, hs_install = install,
      hs_config_path = [], hs_config = []\<rparr>"

definition builtins :: "harness list" where
  "builtins =
     [builtin ''Terminal'' ''bash'' [],
      builtin ''OpenCode'' ''opencode'' ''npm i -g opencode-ai'',
      builtin ''Codex'' ''codex'' ''npm i -g @openai/codex'',
      builtin ''Claude'' ''claude'' ''npm i -g @anthropic-ai/claude-code'',
      builtin ''Freebuff'' ''freebuff'' ''npm i -g freebuff && freebuff --version || true'',
      builtin ''Cline'' ''cline'' ''npm i -g cline'',
      builtin ''Pi'' ''pi'' ''npm install -g --ignore-scripts @earendil-works/pi-coding-agent'',
      builtin ''Kiro'' ''kiro-cli'' ''curl -fsSL https://cli.kiro.dev/install | bash'']"

text \<open>The loop over the builtins, with the names it wrote.\<close>

fun ensure_loop :: "(nat \<Rightarrow> nat) \<Rightarrow> harness list \<Rightarrow> document \<Rightarrow> string list \<Rightarrow> document \<times> string list" where
  "ensure_loop lo [] doc written = (doc, written)"
| "ensure_loop lo (b # bs) doc written =
     (let i = Slug lo (hs_name b)
      in if map_of (doc_harnesses doc) i \<noteq> None then ensure_loop lo bs doc written
         else ensure_loop lo bs (put_harness i b doc) (written @ [hs_name b]))"

definition EnsureBuiltins :: "(nat \<Rightarrow> nat) \<Rightarrow> io \<Rightarrow> store \<Rightarrow> string list registered" where
  "EnsureBuiltins lo out = mutate out (\<lambda>doc. Inr (ensure_loop lo builtins doc []))"


section \<open>Slugs\<close>

definition slug_char :: "char \<Rightarrow> bool" where
  "slug_char c \<longleftrightarrow> is_lower c \<or> is_digit c"

lemma slug_char_rune: "slug_rune r \<Longrightarrow> slug_char (char_of r) \<and> byte_of (char_of r) = r"
  by (auto simp: slug_rune_def slug_char_def is_digit_alt is_lower_def byte_of_le byte_of_char_of)
     (simp_all add: byte_of_def)

text \<open>
  What a slug looks like: words of [a-z0-9] joined by single dashes, none of them empty. The
  automaton below accepts exactly those, given whether a word must start.
\<close>

fun slug_shape :: "bool \<Rightarrow> string \<Rightarrow> bool" where
  "slug_shape start [] = True"
| "slug_shape start (c # cs) =
     (if slug_char c then slug_shape False cs
      else c = CHR ''-'' \<and> \<not> start \<and> slug_shape True cs)"

lemma dash_not_slug_char [simp]: "\<not> slug_char CHR ''-''"
  by (simp add: slug_char_def is_lower_def is_digit_def)

lemma slug_loop_shape: "slug_shape b (slug_loop b rs)"
  by (induction b rs rule: slug_loop.induct) (auto simp: slug_char_rune)

lemma slug_shape_snoc: "slug_shape b (s @ [CHR ''-'']) \<Longrightarrow> slug_shape b s \<and> (s = [] \<and> \<not> b \<or> s \<noteq> [] \<and> slug_char (last s))"
  by (induction s arbitrary: b) (auto split: if_splits)

lemma slug_shape_last: "slug_shape b s \<Longrightarrow> s \<noteq> [] \<Longrightarrow> slug_char (last s) \<or> last s = CHR ''-''"
  by (induction s arbitrary: b) (auto split: if_splits)

definition is_slug :: "string \<Rightarrow> bool" where
  "is_slug s \<longleftrightarrow> slug_shape True s \<and> (s = [] \<or> slug_char (last s))"

lemma Slug_is_slug: "is_slug (Slug lo name)"
proof -
  let ?s = "slug_loop True (runes (to_lower lo name))"
  have sh: "slug_shape True ?s" by (rule slug_loop_shape)
  show ?thesis
  proof (cases "suffix ''-'' ?s")
    case True
    then obtain t where t: "?s = t @ ''-''" by (auto simp: suffix_def)
    then have "Slug lo name = t" by (simp add: Slug_def)
    moreover have "slug_shape True t \<and> (t = [] \<or> slug_char (last t))"
      using slug_shape_snoc [of True t] sh t by auto
    ultimately show ?thesis by (simp add: is_slug_def)
  next
    case False
    then have e: "Slug lo name = ?s" by (simp add: Slug_def trim_suffix_def)
    have "?s = [] \<or> slug_char (last ?s)"
    proof (cases ?s rule: rev_cases)
      case (snoc t x)
      with False have "x \<noteq> CHR ''-''" by (auto simp: suffix_def)
      with snoc slug_shape_last [OF sh] show ?thesis by auto
    qed simp
    with sh e show ?thesis by (simp add: is_slug_def)
  qed
qed

lemma slug_byte: "slug_char c \<or> c = CHR ''-'' \<Longrightarrow> byte_of c < 128 \<and> \<not> (65 \<le> byte_of c \<and> byte_of c \<le> 90)"
proof -
  have "byte_of CHR ''-'' = 45" by (simp add: byte_of_def)
  moreover assume "slug_char c \<or> c = CHR ''-''"
  ultimately show ?thesis
    by (auto simp: slug_char_def is_digit_alt is_lower_def byte_of_le) (simp_all add: byte_of_def)
qed

lemma slug_shape_chars: "slug_shape b s \<Longrightarrow> c \<in> set s \<Longrightarrow> slug_char c \<or> c = CHR ''-''"
  by (induction s arbitrary: b) (auto split: if_splits)

lemma slug_loop_id:
  "slug_shape b s \<Longrightarrow> slug_loop b (map byte_of s) = s"
proof (induction s arbitrary: b)
  case Nil
  then show ?case by simp
next
  case (Cons c s)
  have "slug_char d \<longleftrightarrow> slug_rune (byte_of d)" for d
    by (auto simp: slug_char_def slug_rune_def is_digit_alt is_lower_def byte_of_le)
       (simp_all add: byte_of_def)
  with Cons show ?case by (auto split: if_splits)
qed

lemma to_lower_slug: "slug_shape b s \<Longrightarrow> runes (to_lower lo s) = map byte_of s"
proof -
  assume sh: "slug_shape b s"
  have b: "byte_of c < 128 \<and> \<not> (65 \<le> byte_of c \<and> byte_of c \<le> 90)" if "c \<in> set s" for c
    using slug_byte slug_shape_chars [OF sh that] by blast
  then have r: "runes s = map byte_of s" by (intro runes_ascii) auto
  have "map (lower_rune lo) (map byte_of s) = map byte_of s"
    using b by (auto simp: lower_rune_def)
  then show ?thesis
    using b by (simp add: to_lower_def r runes_of_runes valid_rune_def less_imp_le_nat)
       (subst runes_of_runes, auto simp: valid_rune_def dest!: b)
qed

text \<open>The slug of any name, Unicode names included, is empty or made of words of [a-z0-9] with
  single dashes between them, and taking the slug of a slug changes nothing.\<close>

theorem slug_canonical: "is_slug (Slug lo name) \<and> Slug lo (Slug lo name) = Slug lo name"
proof
  show sl: "is_slug (Slug lo name)" by (rule Slug_is_slug)
  let ?t = "Slug lo name"
  have sh: "slug_shape True ?t" and la: "?t = [] \<or> slug_char (last ?t)"
    using sl by (simp_all add: is_slug_def)
  have "slug_loop True (runes (to_lower lo ?t)) = ?t"
    by (simp add: to_lower_slug [OF sh] slug_loop_id [OF sh])
  moreover have "\<not> suffix ''-'' ?t"
    using la by (auto simp: suffix_def)
  ultimately show "Slug lo ?t = ?t"
    by (simp add: Slug_def [of lo ?t] trim_suffix_def)
qed


section \<open>The registry\<close>

abbreviation registry :: "document \<Rightarrow> string \<rightharpoonup> harness" where
  "registry doc \<equiv> map_of (doc_harnesses doc)"

lemma registry_put [simp]: "registry (put_harness i h doc) = (registry doc)(i \<mapsto> h\<lparr>hs_id := i\<rparr>)"
  by (simp add: put_harness_def update_conv')

lemma ensure_loop_le: "registry doc \<subseteq>\<^sub>m registry (fst (ensure_loop lo bs doc w))"
proof (induction lo bs doc w rule: ensure_loop.induct)
  case (2 lo b bs doc w)
  let ?i = "Slug lo (hs_name b)"
  show ?case
  proof (cases "registry doc ?i = None")
    case True
    then have "registry doc \<subseteq>\<^sub>m registry (put_harness ?i b doc)"
      by (auto simp: map_le_def)
    moreover have "registry (put_harness ?i b doc) \<subseteq>\<^sub>m
        registry (fst (ensure_loop lo bs (put_harness ?i b doc) (w @ [hs_name b])))"
      using True by (intro 2(2)) auto
    ultimately have "registry doc \<subseteq>\<^sub>m
        registry (fst (ensure_loop lo bs (put_harness ?i b doc) (w @ [hs_name b])))"
      by (rule map_le_trans)
    with True show ?thesis by (simp add: Let_def)
  next
    case False
    with 2(1) [OF refl] show ?thesis by (auto simp: Let_def)
  qed
qed simp

lemma ensure_loop_all:
  "b \<in> set bs \<Longrightarrow> Slug lo (hs_name b) \<in> dom (registry (fst (ensure_loop lo bs doc w)))"
proof (induction lo bs doc w rule: ensure_loop.induct)
  case (2 lo c bs doc w)
  let ?i = "Slug lo (hs_name c)"
  show ?case
  proof (cases "b = c")
    case True
    have "?i \<in> dom (registry (if registry doc ?i = None then put_harness ?i c doc else doc))"
      by auto
    then show ?thesis
      using True ensure_loop_le [of doc lo bs w] ensure_loop_le [of "put_harness ?i c doc" lo bs "w @ [hs_name c]"]
      by (auto simp: Let_def map_le_def dom_def split: if_splits)
  next
    case False
    with 2 show ?thesis by (auto simp: Let_def)
  qed
qed simp

lemma ensure_loop_noop:
  "(\<And>b. b \<in> set bs \<Longrightarrow> Slug lo (hs_name b) \<in> dom (registry doc)) \<Longrightarrow> ensure_loop lo bs doc w = (doc, w)"
  by (induction lo bs doc w rule: ensure_loop.induct) (auto simp: Let_def)

text \<open>Seeding the builtins keeps every entry that is already in the registry, edited ones
  included, whatever the outcome; once it succeeds every builtin is present, and seeding again
  writes no name and changes nothing.\<close>

theorem ensure_builtins_keeps:
  assumes "EnsureBuiltins lo out s = (r, s')"
  shows "registry (view s) \<subseteq>\<^sub>m registry (view s')
    \<and> (r = Inr w \<longrightarrow> (\<forall>b \<in> set builtins. Slug lo (hs_name b) \<in> dom (registry (view s'))) \<and>
         (\<forall>r2 s2. EnsureBuiltins lo out2 s' = (r2, s2) \<longrightarrow> view s2 = view s' \<and> (\<forall>w2. r2 = Inr w2 \<longrightarrow> w2 = [])))"
proof (intro conjI impI allI)
  show "registry (view s) \<subseteq>\<^sub>m registry (view s')"
    by (rule st.relates [OF assms [unfolded EnsureBuiltins_def]])
       (auto simp: ensure_loop_le dest!: arg_cong [where f = fst] intro: ensure_loop_le [of _ lo builtins "[]", THEN map_le_trans])
  assume r: "r = Inr w"
  then have e: "ensure_loop lo builtins (view s) [] = (view s', w)"
    using st.commit [OF assms [unfolded EnsureBuiltins_def r]] by auto
  have all: "\<forall>b \<in> set builtins. Slug lo (hs_name b) \<in> dom (registry (view s'))"
    using ensure_loop_all [of _ builtins lo "view s" "[]"] by (simp add: e)
  then show "\<forall>b \<in> set builtins. Slug lo (hs_name b) \<in> dom (registry (view s'))" .
  fix r2 s2
  assume again: "EnsureBuiltins lo out2 s' = (r2, s2)"
  have noop: "ensure_loop lo builtins (view s') [] = (view s', [])"
    using all by (intro ensure_loop_noop) auto
  show "view s2 = view s'"
    by (rule st.relates [OF again [unfolded EnsureBuiltins_def], where rel = "\<lambda>a b. b = a"])
       (simp_all add: noop)
  show "w2 = []" if "r2 = Inr w2" for w2
    using st.commit [OF again [unfolded EnsureBuiltins_def that]] noop by auto
qed

text \<open>Saving a plugin never replaces an existing one: it either registers the plugin under the
  slug of its name, where nothing was registered, or leaves the registry as it was.\<close>

theorem save_never_overwrites:
  assumes "hs_save lo out h s = (r, s')"
  shows "(\<exists>i. r = Inr i \<and> i = Slug lo (hs_name h) \<and> registry (view s) i = None \<and>
            registry (view s') = (registry (view s))(i \<mapsto> h\<lparr>hs_id := i\<rparr>))
       \<or> (\<exists>e. r = Inl e \<and> view s' = view s)"
proof (cases "Slug lo (hs_name h) = [] \<or> trim_space (hs_command h) = []")
  case True
  with assms show ?thesis by (auto simp: hs_save_def Let_def split: if_splits)
next
  case False
  then have m: "mutate out (save_fn (Slug lo (hs_name h)) h) s = (r, s')"
    using assms by (simp add: hs_save_def Let_def)
  show ?thesis
    using m by (rule st.transact_cases)
      (auto simp: save_fn_def simp flip: registry_put split: if_splits)
qed

definition plain_store :: store where
  "plain_store = \<lparr>st_path = state_path, st_doc = empty_document, st_disk = []\<rparr>"

definition my_harness :: harness where
  "my_harness = builtin ''My Tool'' ''mytool --fast'' []"

theorem save_never_overwrites_witness:
  "hs_save (\<lambda>r. r) IoDone my_harness plain_store = (Inr ''my-tool'', snd (hs_save (\<lambda>r. r) IoDone my_harness plain_store))
    \<and> registry (view (snd (hs_save (\<lambda>r. r) IoDone my_harness plain_store))) ''my-tool'' \<noteq> None"
proof -
  let ?s = "snd (hs_save (\<lambda>r. r) IoDone my_harness plain_store)"
  have r: "fst (hs_save (\<lambda>r. r) IoDone my_harness plain_store) = Inr ''my-tool''"
    by code_simp
  then have eq: "hs_save (\<lambda>r. r) IoDone my_harness plain_store = (Inr ''my-tool'', ?s)"
    by (metis prod.collapse)
  from save_never_overwrites [OF eq] eq show ?thesis by auto
qed

theorem ensure_builtins_keeps_witness:
  "list_all (\<lambda>b. Slug (\<lambda>r. r) (hs_name b) \<in>
     dom (registry (view (snd (EnsureBuiltins (\<lambda>r. r) IoDone plain_store))))) builtins"
proof -
  let ?x = "EnsureBuiltins (\<lambda>r. r) IoDone plain_store"
  obtain w where "fst ?x = Inr w"
    by (simp add: EnsureBuiltins_def mutate_def saveDoc_def write_json_file_def split_def)
  then have "\<forall>b \<in> set builtins. Slug (\<lambda>r. r) (hs_name b) \<in> dom (registry (view (snd ?x)))"
    using ensure_builtins_keeps [of "\<lambda>r. r" IoDone plain_store "Inr w" "snd ?x" w IoDone]
    by (metis prod.collapse)
  then show ?thesis by (simp only: list_all_iff)
qed

end
