(* ===== verification/Http.thy ===== *)
theory Http
  imports Prelude
begin

text \<open>
  What the handlers share (httpapi/httpapi.go, origin.go): JSON bodies, responses and error
  responses, and the guard that turns cross-site writes away before any handler runs.
\<close>

section \<open>Responses\<close>

text \<open>A JSON value; an object lists its fields as the code does (of a map Go prints the keys in order).\<close>

datatype json =
    JNull
  | JBool bool
  | JInt int
  | JStr string
  | JArr "json list"
  | JObj "(string \<times> json) list"

record response =
  rs_status :: nat
  rs_body :: json

definition writeJSON :: "nat \<Rightarrow> json \<Rightarrow> response" where
  "writeJSON status v = \<lparr>rs_status = status, rs_body = v\<rparr>"

definition writeErr :: "nat \<Rightarrow> string \<Rightarrow> response" where
  "writeErr status msg = writeJSON status (JObj [(''error'', JStr msg)])"

abbreviation errInternal :: string where "errInternal \<equiv> ''internal error''"

text \<open>The cause goes to the log of the process, never to the client.\<close>

definition writeInternalErr :: "go_err \<Rightarrow> response" where
  "writeInternalErr e = writeErr 500 errInternal"

definition ok_true :: json where
  "ok_true = JObj [(''ok'', JBool True)]"

text \<open>
  A body that was decoded, or the decoder's error. \<open>tolerateEOF\<close> lets an empty body count as the zero value.
\<close>

datatype 'b body = Decoded 'b | EmptyBody | BadJSON

definition decodeBody :: "'b \<Rightarrow> 'b body \<Rightarrow> bool \<Rightarrow> response + 'b" where
  "decodeBody zero b tolerateEOF =
     (case b of
        Decoded v \<Rightarrow> Inr v
      | EmptyBody \<Rightarrow> if tolerateEOF then Inr zero else Inl (writeErr 400 ''invalid JSON body'')
      | BadJSON \<Rightarrow> Inl (writeErr 400 ''invalid JSON body''))"

section \<open>The origin guard\<close>

text \<open>
  The parts of a request the guard reads. \<open>rq_header\<close> is the first value of a header or the empty
  string; \<open>hostname\<close> is \<open>u.Hostname()\<close> of a parsed URL, \<open>None\<close> where parsing fails. \<open>fo\<close> is Unicode's
  simple case folding beyond ASCII.
\<close>

record request =
  rq_method :: string
  rq_path :: string
  rq_host :: string
  rq_url_host :: string
  rq_header :: "string \<Rightarrow> string"

definition equal_fold :: "(nat \<Rightarrow> nat) \<Rightarrow> string \<Rightarrow> string \<Rightarrow> bool" where
  "equal_fold fo s t \<longleftrightarrow> map (lower_rune fo) (runes s) = map (lower_rune fo) (runes t)"

text \<open>\<open>net.SplitHostPort\<close>, up to the text of its errors.\<close>

definition split_host_port :: "string \<Rightarrow> (string \<times> string) option" where
  "split_host_port hp =
     (case cut_last (CHR '':'') hp of
        None \<Rightarrow> None
      | Some (before, port) \<Rightarrow>
          if prefix ''['' hp then
            (case index_of '']'' hp of
               None \<Rightarrow> None
             | Some e \<Rightarrow>
                 if Suc e = length before \<and> \<not> contains (tl hp) ''['' \<and> \<not> contains (drop (Suc e) hp) '']''
                 then Some (take (e - 1) (tl hp), port) else None)
          else if contains before '':'' \<or> contains hp ''['' \<or> contains hp '']'' then None
          else Some (before, port))"

definition originHostname :: "(nat \<Rightarrow> nat) \<Rightarrow> (string \<Rightarrow> string option) \<Rightarrow> string \<Rightarrow> string option" where
  "originHostname lo hostname origin =
     (case hostname origin of
        None \<Rightarrow> None
      | Some h \<Rightarrow> if h = [] then None else Some (to_lower lo h))"

definition trim_brackets :: "string \<Rightarrow> string" where
  "trim_brackets s = (let b = (\<lambda>c. c = CHR ''['' \<or> c = CHR '']'') in rev (dropWhile b (rev (dropWhile b s))))"

definition requestHostname :: "(nat \<Rightarrow> nat) \<Rightarrow> request \<Rightarrow> string" where
  "requestHostname lo r =
     (let h = (if rq_host r = [] then rq_url_host r else rq_host r);
          h = (case split_host_port h of Some (host, _) \<Rightarrow> host | None \<Rightarrow> h)
      in to_lower lo (trim_brackets h))"

definition isLoopbackHost :: "string \<Rightarrow> bool" where
  "isLoopbackHost h \<longleftrightarrow> List.member [''localhost'', ''127.0.0.1'', ''::1''] h"

definition originAllowed :: "(nat \<Rightarrow> nat) \<Rightarrow> (nat \<Rightarrow> nat) \<Rightarrow> (string \<Rightarrow> string option) \<Rightarrow> request \<Rightarrow> bool" where
  "originAllowed lo fo hostname r =
     (let origin = rq_header r ''Origin''
      in origin = [] \<or>
         (case originHostname lo hostname origin of
            None \<Rightarrow> False
          | Some oh \<Rightarrow> equal_fold fo oh (requestHostname lo r) \<or> isLoopbackHost oh))"

definition needsOriginCheck :: "(nat \<Rightarrow> nat) \<Rightarrow> request \<Rightarrow> bool" where
  "needsOriginCheck fo r \<longleftrightarrow>
     (prefix ''/api'' (rq_path r) \<or> prefix ''/ws'' (rq_path r)) \<and>
     (List.member [''POST'', ''PUT'', ''PATCH'', ''DELETE''] (rq_method r) \<or>
      equal_fold fo (rq_header r ''Upgrade'') ''websocket'')"

text \<open>\<open>next\<close> is everything behind the guard: a handler over a state.\<close>

definition requireSameOriginForWrites ::
  "(nat \<Rightarrow> nat) \<Rightarrow> (nat \<Rightarrow> nat) \<Rightarrow> (string \<Rightarrow> string option) \<Rightarrow> (request \<Rightarrow> 's \<Rightarrow> response \<times> 's) \<Rightarrow> request \<Rightarrow> 's \<Rightarrow> response \<times> 's" where
  "requireSameOriginForWrites lo fo hostname handler r s =
     (if needsOriginCheck fo r \<and> \<not> originAllowed lo fo hostname r
      then (writeErr 403 ''cross-site request blocked'', s) else handler r s)"

lemma foreign_write_blocked:
  assumes "prefix ''/api'' (rq_path r)" "rq_method r = ''POST''" "rq_header r ''Origin'' \<noteq> []"
    "hostname (rq_header r ''Origin'') = Some h" "\<not> equal_fold fo (to_lower lo h) (requestHostname lo r)"
    "\<not> isLoopbackHost (to_lower lo h)"
  shows "requireSameOriginForWrites lo fo hostname handler r s = (writeErr 403 ''cross-site request blocked'', s)"
  using assms by (auto simp: requireSameOriginForWrites_def needsOriginCheck_def originAllowed_def originHostname_def Let_def)

text \<open>The port and the brackets of an address are not part of the host.\<close>

lemma host_of_addresses:
  "split_host_port ''[::1]:8080'' = Some (''::1'', ''8080'')" "split_host_port ''app.example.com:443'' = Some (''app.example.com'', ''443'')"
  "split_host_port ''::1'' = None" "split_host_port ''[::1]'' = None"
  by code_simp+

end
