(* ===== verification/Repo.thy ===== *)
theory Repo
  imports Prelude
begin

text \<open>
  server/internal/project/repo.go: from a repository URL to the project id, the URL git clones from
  and the slug that names containers and volumes. \<open>net/url\<close> is a parameter (the parsed parts or
  \<open>None\<close> for an error), so is Unicode's lower-case table beyond ASCII; the regular expressions are
  written out as scans over bytes.
\<close>

abbreviation ErrInvalidInput :: string where "ErrInvalidInput \<equiv> ''invalid input''"

definition invalid_input :: "string \<Rightarrow> go_err" where
  "invalid_input t = \<lparr>ge_text = ErrInvalidInput @ '': '' @ t, ge_is = [ErrInvalidInput]\<rparr>"

definition badRepoURL :: go_err where
  "badRepoURL = invalid_input ''repoUrl must look like https://github.com/<owner>/<repo> or git@github.com:<owner>/<repo>.git''"

definition not_github :: go_err where
  "not_github = invalid_input ''repoUrl must be a GitHub repository URL (https://github.com/<owner>/<repo> or git@github.com:<owner>/<repo>.git)''"

text \<open>\<open>^[A-Za-z0-9_.-]+$\<close>\<close>

definition seg_byte :: "char \<Rightarrow> bool" where
  "seg_byte c \<longleftrightarrow> is_lower c \<or> is_upper c \<or> is_digit c \<or> c = CHR ''_'' \<or> c = CHR ''.'' \<or> c = CHR ''-''"

definition segmentRe :: "string \<Rightarrow> bool" where
  "segmentRe s \<longleftrightarrow> s \<noteq> [] \<and> list_all seg_byte s"

text \<open>
  \<open>^[^@/:]+@[^:]+:(.+)$\<close>: the first part cannot hold the at sign that ends it and the second not the
  colon, so the match is determined; the dot matches no line end.
\<close>

definition scpRe :: "string \<Rightarrow> string option" where
  "scpRe raw =
     (let user = takeWhile (\<lambda>c. c \<notin> {CHR ''@'', CHR ''/'', CHR '':''}) raw;
          r1 = drop (length user) raw;
          host = takeWhile (\<lambda>c. c \<noteq> CHR '':'') (tl r1);
          r2 = drop (length host) (tl r1)
      in if user = [] \<or> r1 = [] \<or> hd r1 \<noteq> CHR ''@'' \<or> host = [] \<or> r2 = [] \<or> tl r2 = [] \<or> CHR 0x0A \<in> set (tl r2)
         then None else Some (tl r2))"

record parsed_url =
  pu_Scheme :: string
  pu_Host :: string
  pu_Hostname :: string
  pu_Port :: string
  pu_Path :: string

record parsedRepo =
  rp_owner :: string
  rp_repo :: string
  rp_host :: string
  rp_scheme :: string
  rp_hasPort :: bool
  rp_isGitHub :: bool

definition repo_segs :: "bool \<Rightarrow> string \<Rightarrow> string list" where
  "repo_segs allowAny path =
     (let segs = split_on CHR ''/'' (trim_suffix (trim_byte CHR ''/'' path) ''.git'')
      in if length segs = 1 \<and> allowAny then [''local'', hd segs] else segs)"

definition address :: "(nat \<Rightarrow> nat) \<Rightarrow> (string \<Rightarrow> parsed_url option) \<Rightarrow> string \<Rightarrow> (string \<times> string \<times> bool \<times> string) option" where
  "address lo url_parse raw =
     (case scpRe raw of
        Some path \<Rightarrow>
          (let host = takeWhile (\<lambda>c. c \<noteq> CHR '':'') raw;
               host = (case cut_last CHR ''@'' host of None \<Rightarrow> host | Some (_, h) \<Rightarrow> h)
           in Some (''scp'', to_lower lo host, False, path))
      | None \<Rightarrow>
          (case url_parse (if contains raw ''://'' then raw else ''https://'' @ raw) of
             None \<Rightarrow> None
           | Some u \<Rightarrow>
               if pu_Host u = [] then None
               else Some (to_lower lo (pu_Scheme u), to_lower lo (pu_Hostname u), pu_Port u \<noteq> [], pu_Path u)))"

definition splitURL :: "(nat \<Rightarrow> nat) \<Rightarrow> (string \<Rightarrow> parsed_url option) \<Rightarrow> string \<Rightarrow> bool \<Rightarrow> go_err + parsedRepo" where
  "splitURL lo url_parse raw allowAny =
     (case address lo url_parse raw of
        None \<Rightarrow> Inl badRepoURL
      | Some (scheme, host, hasPort, path) \<Rightarrow>
          (case repo_segs allowAny path of
             [a, b] \<Rightarrow>
               if a = [] \<or> b = [] then Inl badRepoURL
               else if a = ''.'' \<or> a = ''..'' \<or> b = ''.'' \<or> b = ''..'' then Inl badRepoURL
               else if \<not> segmentRe a \<or> \<not> segmentRe b then Inl badRepoURL
               else Inr \<lparr>rp_owner = a, rp_repo = b, rp_host = host, rp_scheme = scheme, rp_hasPort = hasPort,
                         rp_isGitHub = (host = ''github.com'')\<rparr>
           | _ \<Rightarrow> Inl badRepoURL))"

definition parseRepoID :: "(nat \<Rightarrow> nat) \<Rightarrow> (string \<Rightarrow> parsed_url option) \<Rightarrow> string \<Rightarrow> bool \<Rightarrow> go_err + string" where
  "parseRepoID lo url_parse repoURL allowAny =
     (let repoURL = trim_space repoURL
      in if repoURL = [] then Inl (invalid_input (''repoUrl is required '' @ [CHR 0xE2, CHR 0x80, CHR 0x94] @ '' clone a GitHub repository URL''))
         else if prefix ''-'' repoURL then Inl (invalid_input ''repo url and branch must not start with \"-\"'')
         else (case splitURL lo url_parse repoURL allowAny of
                 Inl e \<Rightarrow> Inl e
               | Inr r \<Rightarrow>
                   if \<not> rp_isGitHub r \<and> \<not> allowAny then Inl not_github
                   else Inr (to_lower lo (rp_owner r @ ''/'' @ rp_repo r))))"

definition toSSHURL :: "(nat \<Rightarrow> nat) \<Rightarrow> (string \<Rightarrow> parsed_url option) \<Rightarrow> string \<Rightarrow> bool \<Rightarrow> go_err + string" where
  "toSSHURL lo url_parse repoURL allowAny =
     (let trimmed = trim_space repoURL
      in case splitURL lo url_parse trimmed allowAny of
           Inl e \<Rightarrow> Inl e
         | Inr r \<Rightarrow>
             if rp_scheme r = ''scp'' then Inr trimmed
             else if rp_scheme r = ''git'' \<and> allowAny then Inr trimmed
             else if rp_scheme r = ''ssh'' \<and> rp_hasPort r then Inr trimmed
             else if rp_hasPort r then Inl badRepoURL
             else if \<not> rp_isGitHub r \<and> \<not> allowAny then Inl not_github
             else if rp_scheme r \<noteq> ''https'' \<and> rp_scheme r \<noteq> ''ssh'' then Inl badRepoURL
             else Inr (''git@'' @ rp_host r @ '':'' @ rp_owner r @ ''/'' @ rp_repo r @ ''.git''))"

text \<open>\<open>strings.Trim(s, "-.")\<close>\<close>

definition trim_dashdot :: "string \<Rightarrow> string" where
  "trim_dashdot s = rev (dropWhile (\<lambda>c. c = CHR ''-'' \<or> c = CHR ''.'') (rev (dropWhile (\<lambda>c. c = CHR ''-'' \<or> c = CHR ''.'') s)))"

definition slug_byte :: "nat \<Rightarrow> char" where
  "slug_byte r =
     (if 97 \<le> r \<and> r \<le> 122 \<or> 48 \<le> r \<and> r \<le> 57 \<or> r = 95 \<or> r = 46 \<or> r = 45 then char_of r else CHR ''-'')"

definition SanitizeName :: "(nat \<Rightarrow> nat) \<Rightarrow> string \<Rightarrow> string" where
  "SanitizeName lo i =
     (let out = trim_dashdot (map slug_byte (runes (to_lower lo i)))
      in if out = [] then ''project'' else out)"

section \<open>Names\<close>

definition slug_char :: "char \<Rightarrow> bool" where
  "slug_char c \<longleftrightarrow> is_lower c \<or> is_digit c \<or> c = CHR ''_'' \<or> c = CHR ''.'' \<or> c = CHR ''-''"

definition trimmed_char :: "char \<Rightarrow> bool" where
  "trimmed_char c \<longleftrightarrow> c = CHR ''-'' \<or> c = CHR ''.''"

definition is_slug :: "string \<Rightarrow> bool" where
  "is_slug s \<longleftrightarrow> s \<noteq> [] \<and> list_all slug_char s \<and> \<not> trimmed_char (hd s) \<and> \<not> trimmed_char (last s)"

lemma byte_of_char: "n < 256 \<Longrightarrow> byte_of (char_of n) = n"
  by (rule byte_of_char_of)

lemma char_eq_byte: "c = d \<longleftrightarrow> byte_of c = byte_of d"
  by simp

lemma slug_char_bytes:
  "slug_char c \<longleftrightarrow> 97 \<le> byte_of c \<and> byte_of c \<le> 122 \<or> 48 \<le> byte_of c \<and> byte_of c \<le> 57
     \<or> byte_of c = 95 \<or> byte_of c = 46 \<or> byte_of c = 45"
  unfolding slug_char_def is_lower_def is_digit_alt char_eq_byte [of c "CHR ''_''"] char_eq_byte [of c "CHR ''.''"]
    char_eq_byte [of c "CHR ''-''"] byte_of_le
  by (simp add: byte_of_def)

lemma slug_byte_slug: "slug_char (slug_byte r)"
  by (auto simp: slug_byte_def slug_char_bytes byte_of_char) (simp_all add: byte_of_def)

lemma slug_byte_id: "slug_char c \<Longrightarrow> slug_byte (byte_of c) = c"
  by (auto simp: slug_byte_def slug_char_bytes)

lemma trim_dashdot_eq: "trim_dashdot s = rev (dropWhile trimmed_char (rev (dropWhile trimmed_char s)))"
  by (simp add: trim_dashdot_def trimmed_char_def [abs_def])

lemma trim_dashdot_fixed: "s \<noteq> [] \<Longrightarrow> \<not> trimmed_char (hd s) \<Longrightarrow> \<not> trimmed_char (last s) \<Longrightarrow> trim_dashdot s = s"
proof -
  assume s: "s \<noteq> []" "\<not> trimmed_char (hd s)" "\<not> trimmed_char (last s)"
  then obtain c t where "s = c # t" by (cases s) auto
  moreover obtain d u where "rev s = d # u" "d = last s" using s(1) by (cases "rev s") (auto simp: hd_rev [symmetric])
  ultimately have "dropWhile trimmed_char s = s" "dropWhile trimmed_char (rev s) = rev s" using s by simp_all
  then show ?thesis by (simp add: trim_dashdot_eq)
qed

lemma trim_dashdot_ends:
  assumes "trim_dashdot s \<noteq> []"
  shows "\<not> trimmed_char (hd (trim_dashdot s))" "\<not> trimmed_char (last (trim_dashdot s))" "set (trim_dashdot s) \<subseteq> set s"
proof -
  let ?a = "dropWhile trimmed_char s"
  let ?b = "dropWhile trimmed_char (rev ?a)"
  have b: "?b \<noteq> []" using assms by (auto simp: trim_dashdot_eq)
  have a: "?a \<noteq> []" using b by (metis dropWhile.simps(1) rev.simps(1))
  show "\<not> trimmed_char (last (trim_dashdot s))"
    using hd_dropWhile [OF b] by (simp only: trim_dashdot_eq last_rev not_False_eq_True)
  have "rev ?a = takeWhile trimmed_char (rev ?a) @ ?b" by simp
  then have "?a = rev ?b @ rev (takeWhile trimmed_char (rev ?a))" by (metis rev_append rev_rev_ident)
  then have "hd ?a = hd (rev ?b)" using b by (metis hd_append2 Nil_is_rev_conv)
  then show "\<not> trimmed_char (hd (trim_dashdot s))"
    using hd_dropWhile [of trimmed_char s] a by (simp add: trim_dashdot_eq)
  have "set ?b \<subseteq> set s" by (auto dest!: set_dropWhileD)
  then show "set (trim_dashdot s) \<subseteq> set s" by (simp only: trim_dashdot_eq set_rev)
qed

definition lowered :: "char \<Rightarrow> bool" where
  "lowered c \<longleftrightarrow> byte_of c < 128 \<and> \<not> (65 \<le> byte_of c \<and> byte_of c \<le> 90)"

lemma to_lower_fixed: "list_all lowered s \<Longrightarrow> to_lower lo s = s"
proof -
  assume s: "list_all lowered s"
  then have r: "runes s = map byte_of s" by (intro runes_ascii) (simp add: list_all_iff lowered_def)
  have "to_lower lo s = map char_of (map byte_of s)"
    unfolding to_lower_def r using s
    by (subst of_runes_ascii) (auto simp: lower_rune_def list_all_iff lowered_def)
  also have "\<dots> = s" by (simp add: map_idI)
  finally show ?thesis .
qed

lemma slug_char_lowered: "slug_char c \<Longrightarrow> lowered c"
  by (auto simp: slug_char_bytes lowered_def)

lemma slug_lower_fixed: "list_all slug_char s \<Longrightarrow> map slug_byte (runes (to_lower lo s)) = s"
proof -
  assume s: "list_all slug_char s"
  then have "list_all lowered s" by (auto simp: list_all_iff slug_char_lowered)
  moreover from this have "runes s = map byte_of s"
    by (intro runes_ascii) (simp add: list_all_iff lowered_def)
  ultimately show ?thesis using s by (simp add: to_lower_fixed map_idI slug_byte_id list_all_iff)
qed

text \<open>
  A slug is never empty, holds only [a-z0-9_.-] and neither starts nor ends with a dash or a dot,
  whatever the id; making a slug of a slug changes nothing.
\<close>

theorem slug_shape: "is_slug (SanitizeName lo i) \<and> SanitizeName lo (SanitizeName lo i) = SanitizeName lo i"
proof -
  have sh: "is_slug (SanitizeName lo i)" for i
  proof (cases "trim_dashdot (map slug_byte (runes (to_lower lo i))) = []")
    case True
    have "is_slug ''project''" by code_simp
    then show ?thesis using True by (simp add: SanitizeName_def)
  next
    case False
    then show ?thesis using trim_dashdot_ends [OF False]
      by (auto simp: SanitizeName_def is_slug_def list_all_iff Let_def slug_byte_slug dest!: subsetD)
  qed
  have "SanitizeName lo s = s" if "is_slug s" for s
    using that by (simp add: SanitizeName_def is_slug_def slug_lower_fixed trim_dashdot_fixed)
  with sh show ?thesis by blast
qed


text \<open>
  Two different projects can share a container. The ids \<open>a/b-c\<close> and \<open>a-b/c\<close> are both accepted and
  have the same slug, hence the same container and volume names.
\<close>

theorem ids_share_slug:
  "\<exists>u v. parseRepoID lo url_parse u False = Inr ''a/b-c'' \<and> parseRepoID lo url_parse v False = Inr ''a-b/c'' \<and>
     SanitizeName lo ''a/b-c'' = SanitizeName lo ''a-b/c''"
proof -
  have t: "trim_space ''git@github.com:a/b-c'' = ''git@github.com:a/b-c''"
    "trim_space ''git@github.com:a-b/c'' = ''git@github.com:a-b/c''"
    by (rule trim_space_printable; code_simp)+
  have l: "to_lower lo ''git@github.com'' = ''git@github.com''" "to_lower lo ''github.com'' = ''github.com''"
    "to_lower lo ''a/b-c'' = ''a/b-c''" "to_lower lo ''a-b/c'' = ''a-b/c''"
    by (rule to_lower_fixed; code_simp)+
  have s: "scpRe ''git@github.com:a/b-c'' = Some ''a/b-c''" "scpRe ''git@github.com:a-b/c'' = Some ''a-b/c''"
    "repo_segs False ''a/b-c'' = [''a'', ''b-c'']" "repo_segs False ''a-b/c'' = [''a-b'', ''c'']"
    "segmentRe ''a''" "segmentRe ''b-c''" "segmentRe ''a-b''" "segmentRe ''c''"
    by code_simp+
  have "parseRepoID lo url_parse ''git@github.com:a/b-c'' False = Inr ''a/b-c''"
    "parseRepoID lo url_parse ''git@github.com:a-b/c'' False = Inr ''a-b/c''"
    by (simp_all add: parseRepoID_def splitURL_def address_def t s l cut_last_def)
  moreover have "SanitizeName lo ''a/b-c'' = SanitizeName lo ''a-b/c''"
    unfolding SanitizeName_def l by code_simp
  ultimately show ?thesis by blast
qed


section \<open>Repository URLs\<close>

definition low_char :: "char \<Rightarrow> char" where
  "low_char c = (if is_upper c then char_of (byte_of c + 32) else c)"

lemma is_upper_bytes: "is_upper c \<longleftrightarrow> 65 \<le> byte_of c \<and> byte_of c \<le> 90"
  by (simp add: is_upper_def byte_of_le) (simp add: byte_of_def)

lemma is_lower_bytes: "is_lower c \<longleftrightarrow> 97 \<le> byte_of c \<and> byte_of c \<le> 122"
  by (simp add: is_lower_def byte_of_le) (simp add: byte_of_def)

lemma to_lower_ascii: "list_all (\<lambda>c. byte_of c < 128) s \<Longrightarrow> to_lower lo s = map low_char s"
proof -
  assume s: "list_all (\<lambda>c. byte_of c < 128) s"
  then have "runes s = map byte_of s" by (intro runes_ascii) (simp add: list_all_iff)
  then show ?thesis unfolding to_lower_def using s
    by (subst of_runes_ascii) (auto simp: lower_rune_def list_all_iff low_char_def is_upper_bytes)
qed

lemma seg_byte_bytes:
  "seg_byte c \<longleftrightarrow> is_upper c \<or> slug_char c"
  by (auto simp: seg_byte_def slug_char_def)

lemma low_char_seg: "seg_byte c \<Longrightarrow> slug_char (low_char c) \<and> byte_of c < 128 \<and> c \<noteq> CHR ''/'' \<and> c \<noteq> CHR 0x0A"
  by (auto simp: seg_byte_bytes low_char_def is_upper_bytes slug_char_bytes byte_of_char_of byte_of_def)

lemma byte_literals: "byte_of CHR ''.'' = 46" "byte_of CHR ''/'' = 47"
  by (simp_all add: byte_of_def)

lemma byte_of_low_char: "byte_of (low_char c) = (if is_upper c then byte_of c + 32 else byte_of c)"
  by (auto simp: low_char_def is_upper_bytes byte_of_char_of)

lemma low_char_dot: "low_char c = CHR ''.'' \<longleftrightarrow> c = CHR ''.''"
  unfolding byte_of_inj [symmetric] byte_of_low_char byte_literals by (simp add: is_upper_bytes)

lemma slug_char_not_slash: "slug_char c \<Longrightarrow> c \<noteq> CHR ''/''"
  by (auto simp: slug_char_bytes byte_of_def)

lemma splitURL_Inr:
  assumes "splitURL lo url_parse raw allowAny = Inr r"
  shows "segmentRe (rp_owner r)" "segmentRe (rp_repo r)" "plain_seg (rp_owner r)" "plain_seg (rp_repo r)"
    "rp_isGitHub r \<longleftrightarrow> rp_host r = ''github.com''"
  using assms by (auto simp: splitURL_def plain_seg_def split: option.splits list.splits if_splits)

text \<open>
  An accepted id is an owner and a repository name over [a-z0-9_.-], neither of them a dot
  segment, so that the directory of the project lies directly two levels below any clean root.
\<close>

theorem repo_id_shape:
  assumes "parseRepoID lo url_parse u allowAny = Inr i"
  shows "(\<exists>a b. split_on CHR ''/'' i = [a, b] \<and> plain_seg a \<and> plain_seg b \<and> list_all slug_char (a @ b)) \<and>
    (prefix ''/'' root \<and> path_clean root = root \<and> root \<noteq> ''/'' \<longrightarrow> path_join [root, i] = root @ ''/'' @ i)"
proof -
  obtain r where r: "splitURL lo url_parse (trim_space u) allowAny = Inr r"
      "i = to_lower lo (rp_owner r @ ''/'' @ rp_repo r)"
    using assms by (auto simp: parseRepoID_def Let_def split: if_splits sum.splits)
  note seg = splitURL_Inr [OF r(1)]
  have i: "i = map low_char (rp_owner r) @ ''/'' @ map low_char (rp_repo r)"
    unfolding r(2) using seg(1,2)
    by (subst to_lower_ascii) (auto simp: segmentRe_def list_all_iff low_char_seg byte_literals low_char_def is_upper_bytes)
  have plain: "plain_seg (map low_char s)" if "plain_seg s" for s
    using that by (cases s rule: remdups_adj.cases) (auto simp: plain_seg_def low_char_dot split: list.splits)
  have slug: "list_all slug_char (map low_char s)" if "segmentRe s" for s
    using that by (auto simp: segmentRe_def list_all_iff low_char_seg)
  have "split_on CHR ''/'' i = [map low_char (rp_owner r), map low_char (rp_repo r)]"
  proof -
    have "CHR ''/'' \<notin> set (map low_char s)" if "segmentRe s" for s
      using slug [OF that] slug_char_not_slash by (fastforce simp: list_all_iff)
    then show ?thesis using seg(1,2) by (simp add: i split_on_append split_on_absent)
  qed
  moreover from this have "path_join [root, i] = root @ ''/'' @ i"
    if "prefix ''/'' root" "path_clean root = root" "root \<noteq> ''/''"
    using plain seg(3,4) that by (intro path_join_inside) auto
  ultimately show ?thesis using plain slug seg by auto
qed


lemma scp_own:
  assumes "rest \<noteq> []" "CHR 0x0A \<notin> set rest"
  shows "scpRe (''git@github.com:'' @ rest) = Some rest"
  using assms by (simp add: scpRe_def Let_def)

lemma address_own:
  assumes "rest \<noteq> []" "CHR 0x0A \<notin> set rest"
  shows "address lo url_parse (''git@github.com:'' @ rest) = Some (''scp'', ''github.com'', False, rest)"
proof -
  have "to_lower lo ''github.com'' = ''github.com''" by (rule to_lower_fixed; code_simp)
  moreover have "cut_last CHR ''@'' ''git@github.com'' = Some (''git'', ''github.com'')" by code_simp
  moreover have "takeWhile (\<lambda>c. c \<noteq> CHR '':'') (''git@github.com:'' @ rest) = ''git@github.com''" by simp
  ultimately show ?thesis unfolding address_def scp_own [OF assms] by simp
qed

lemma seg_no_slash: "segmentRe s \<Longrightarrow> CHR ''/'' \<notin> set s \<and> CHR 0x0A \<notin> set s \<and> s \<noteq> []"
  using low_char_seg by (fastforce simp: segmentRe_def list_all_iff)

lemma trim_byte_fixed: "s \<noteq> [] \<Longrightarrow> hd s \<noteq> c \<Longrightarrow> last s \<noteq> c \<Longrightarrow> trim_byte c s = s"
proof -
  assume s: "s \<noteq> []" "hd s \<noteq> c" "last s \<noteq> c"
  then have "dropWhile ((=) c) s = s" by (cases s) auto
  moreover have "dropWhile ((=) c) (rev s) = rev s" using s by (cases "rev s") (auto simp: hd_rev [symmetric])
  ultimately show ?thesis by (simp add: trim_byte_def)
qed

lemma repo_segs_own:
  assumes "segmentRe a" "segmentRe b"
  shows "repo_segs allowAny (a @ ''/'' @ b @ ''.git'') = [a, b]"
proof -
  let ?p = "a @ ''/'' @ b"
  have p: "trim_byte CHR ''/'' (?p @ ''.git'') = ?p @ ''.git''"
    using seg_no_slash [OF assms(1)] by (intro trim_byte_fixed) (auto simp: hd_append dest: hd_in_set)
  have "split_on CHR ''/'' ?p = [a, b]"
    using assms by (simp add: split_on_append split_on_absent seg_no_slash)
  then show ?thesis
    using trim_suffix_append [of ?p "''.git''"] p by (simp add: repo_segs_def Let_def)
qed

text \<open>
  The URL that is stored is canonical. For every accepted GitHub URL the normalised form names the
  same project, and normalising it again changes nothing.
\<close>

theorem ssh_url_canonical:
  assumes "parseRepoID lo url_parse u False = Inr i" "toSSHURL lo url_parse u False = Inr s"
  shows "parseRepoID lo url_parse s False = Inr i \<and> toSSHURL lo url_parse s False = Inr s"
proof -
  obtain r where r: "splitURL lo url_parse (trim_space u) False = Inr r"
      "i = to_lower lo (rp_owner r @ ''/'' @ rp_repo r)" "rp_isGitHub r"
    using assms(1) by (auto simp: parseRepoID_def Let_def split: if_splits sum.splits)
  note seg = splitURL_Inr [OF r(1)]
  consider "s = trim_space u" | "s = ''git@github.com:'' @ rp_owner r @ ''/'' @ rp_repo r @ ''.git''"
    using assms(2) r seg(5) by (auto simp: toSSHURL_def Let_def split: if_splits)
  then show ?thesis
  proof cases
    case 1
    then show ?thesis using assms by (simp add: parseRepoID_def toSSHURL_def)
  next
    case 2
    let ?rest = "rp_owner r @ ''/'' @ rp_repo r @ ''.git''"
    have trim: "trim_space s = s"
      unfolding 2 by (rule trim_space_printable) (simp_all add: less_char_def)
    have rest: "?rest \<noteq> []" "CHR 0x0A \<notin> set ?rest"
      using seg_no_slash [OF seg(1)] seg_no_slash [OF seg(2)] by auto
    have "splitURL lo url_parse s False = Inr \<lparr>rp_owner = rp_owner r, rp_repo = rp_repo r, rp_host = ''github.com'',
        rp_scheme = ''scp'', rp_hasPort = False, rp_isGitHub = True\<rparr>"
      using seg unfolding splitURL_def 2 address_own [OF rest] option.case prod.case repo_segs_own [OF seg(1,2)]
      by (simp add: plain_seg_def)
    then show ?thesis using trim 2 r(2) by (simp add: parseRepoID_def toSSHURL_def)
  qed
qed

definition no_url :: "string \<Rightarrow> parsed_url option" where
  "no_url u = (if u = ''https://github.com/Me/App'' then
      Some \<lparr>pu_Scheme = ''https'', pu_Host = ''github.com'', pu_Hostname = ''github.com'', pu_Port = [], pu_Path = ''/Me/App''\<rparr>
    else None)"

lemma sample_url:
  "parseRepoID id no_url ''https://github.com/Me/App'' False = Inr ''me/app''"
  "toSSHURL id no_url ''https://github.com/Me/App'' False = Inr ''git@github.com:Me/App.git''"
  by code_simp+

theorem ssh_url_canonical_witness:
  "parseRepoID id no_url ''git@github.com:Me/App.git'' False = Inr ''me/app'' \<and>
   toSSHURL id no_url ''git@github.com:Me/App.git'' False = Inr ''git@github.com:Me/App.git''"
  by (rule ssh_url_canonical [OF sample_url])

theorem repo_id_shape_witness:
  "(\<exists>a b. split_on CHR ''/'' ''me/app'' = [a, b] \<and> plain_seg a \<and> plain_seg b \<and> list_all slug_char (a @ b)) \<and>
    path_join [''/data'', ''me/app''] = ''/data'' @ ''/'' @ ''me/app''"
proof -
  have "prefix ''/'' ''/data''" "path_clean ''/data'' = ''/data''" "''/data'' \<noteq> ''/''" by code_simp+
  then show ?thesis using repo_id_shape [OF sample_url(1), of "''/data''"] by blast
qed

end
