(* ===== verification/Obs.thy ===== *)
theory Obs
  imports Http Repo "HOL-Library.Multiset"
begin

text \<open>
  The observability store (obs/store.go, obs.go, api.go and the read API of httpapi/observe.go): one log
  per project, written by a single flush loop from a bounded queue through buffered file handles, with
  rotation to one backup, sequence numbers, filtered reads with cursors and the grouping of errors.
  File handles point to files, not to names, so that rotation, deletion and two projects that share a
  file name behave as on a disk; every write, flush, rename and remove takes the outcome the system
  gives it.
\<close>

section \<open>Entries and files\<close>

text \<open>\<open>ob_Attrs\<close> is the printed form of the attributes: the text \<open>null\<close> when there are none.\<close>

record obs_entry =
  ob_TS :: gotime
  ob_Seq :: int
  ob_Project :: string
  ob_Trace :: string
  ob_Source :: string
  ob_Level :: string
  ob_Type :: string
  ob_Msg :: string
  ob_Attrs :: string

text \<open>A line of a file: what it decodes as and its length without the line end.\<close>

record log_line =
  ln_entry :: "obs_entry option"
  ln_len :: nat

text \<open>The lines of a file; \<open>lf_torn\<close> says that the last one has no line end yet.\<close>

record logfile =
  lf_lines :: "log_line list"
  lf_torn :: bool

text \<open>Appending whole lines, the first of which joins a torn one, and appending a piece of a line.\<close>

definition put_lines :: "log_line list \<Rightarrow> logfile \<Rightarrow> logfile" where
  "put_lines ls f =
     (case ls of
        [] \<Rightarrow> f
      | l # rest \<Rightarrow>
          if lf_torn f \<and> lf_lines f \<noteq> [] then
            \<lparr>lf_lines = butlast (lf_lines f) @ \<lparr>ln_entry = None, ln_len = ln_len (last (lf_lines f)) + ln_len l\<rparr> # rest,
             lf_torn = False\<rparr>
          else \<lparr>lf_lines = lf_lines f @ ls, lf_torn = False\<rparr>)"

definition put_piece :: "nat option \<Rightarrow> logfile \<Rightarrow> logfile" where
  "put_piece piece f =
     (case piece of
        None \<Rightarrow> f
      | Some n \<Rightarrow>
          if lf_torn f \<and> lf_lines f \<noteq> [] then
            f\<lparr>lf_lines := butlast (lf_lines f) @ [\<lparr>ln_entry = None, ln_len = ln_len (last (lf_lines f)) + n\<rparr>]\<rparr>
          else \<lparr>lf_lines = lf_lines f @ [\<lparr>ln_entry = None, ln_len = n\<rparr>], lf_torn = True\<rparr>)"

definition file_size :: "logfile \<Rightarrow> nat" where
  "file_size f = sum_list (map (\<lambda>l. Suc (ln_len l)) (lf_lines f)) - (if lf_torn f then 1 else 0)"

text \<open>The scanner gives up for good at a line that does not fit its buffer with the line end.\<close>

definition scan_limit :: nat where "scan_limit = 1024 * 1024"

definition scan :: "logfile \<Rightarrow> obs_entry list" where
  "scan f = List.map_filter ln_entry (takeWhile (\<lambda>l. ln_len l < scan_limit) (lf_lines f))"

section \<open>The store\<close>

definition MaxFile :: nat where "MaxFile = 4194304"
definition chanCap :: nat where "chanCap = 1024"

record handle =
  oh_node :: nat
  oh_buf :: "log_line list"
  oh_size :: nat
  oh_broken :: bool

record err_group =
  eg_Key :: string
  eg_Type :: string
  eg_Count :: nat
  eg_FirstSeen :: gotime
  eg_LastSeen :: gotime
  eg_SampleTrace :: string
  eg_SampleMsg :: string

text \<open>\<open>os_names\<close> maps file names to the numbers of files, \<open>os_nodes\<close> the numbers to contents.\<close>

record obs_store =
  os_names :: "(string \<times> nat) list"
  os_nodes :: "logfile list"
  os_handles :: "(string \<times> handle) list"
  os_seq :: "(string \<times> int) list"
  os_queue :: "obs_entry list"
  os_dropped :: nat
  os_errs :: "(string \<times> gotime \<times> err_group list) list"

definition NewStore :: "(string \<times> nat) list \<Rightarrow> logfile list \<Rightarrow> obs_store" where
  "NewStore names nodes = \<lparr>os_names = names, os_nodes = nodes, os_handles = [], os_seq = [], os_queue = [],
     os_dropped = 0, os_errs = []\<rparr>"

definition sanitize :: "(nat \<Rightarrow> nat) \<Rightarrow> string \<Rightarrow> string" where
  "sanitize lo i =
     (let out = trim_dashdot (map slug_byte (runes (to_lower lo i)))
      in if out = [] then ''project'' else out)"

definition log_name :: "(nat \<Rightarrow> nat) \<Rightarrow> string \<Rightarrow> string" where
  "log_name lo p = sanitize lo p @ ''.log.jsonl''"

definition old_name :: "(nat \<Rightarrow> nat) \<Rightarrow> string \<Rightarrow> string" where
  "old_name lo p = log_name lo p @ ''.1''"

definition node_at :: "obs_store \<Rightarrow> string \<Rightarrow> logfile option" where
  "node_at s name = map_option (\<lambda>i. os_nodes s ! i) (map_of (os_names s) name)"

definition scan_at :: "obs_store \<Rightarrow> string \<Rightarrow> obs_entry list" where
  "scan_at s name = (case node_at s name of None \<Rightarrow> [] | Some f \<Rightarrow> scan f)"

definition on_node :: "nat \<Rightarrow> (logfile \<Rightarrow> logfile) \<Rightarrow> obs_store \<Rightarrow> obs_store" where
  "on_node i f s = s\<lparr>os_nodes := (os_nodes s)[i := f (os_nodes s ! i)]\<rparr>"

definition set_handle :: "string \<Rightarrow> handle \<Rightarrow> obs_store \<Rightarrow> obs_store" where
  "set_handle p h s = s\<lparr>os_handles := AList.update p h (os_handles s)\<rparr>"

definition drop_line :: "obs_store \<Rightarrow> obs_store" where
  "drop_line s = s\<lparr>os_dropped := os_dropped s + 1\<rparr>"

text \<open>\<open>openLocked\<close>: the handle of the project, or a new one on the named file, made if need be.\<close>

definition openLocked :: "(nat \<Rightarrow> nat) \<Rightarrow> string \<Rightarrow> bool \<Rightarrow> obs_store \<Rightarrow> handle option \<times> obs_store" where
  "openLocked lo p ok s =
     (case map_of (os_handles s) p of
        Some h \<Rightarrow> (Some h, s)
      | None \<Rightarrow>
          if \<not> ok then (None, s)
          else
            (let (i, s1) = (case map_of (os_names s) (log_name lo p) of
                   Some i \<Rightarrow> (i, s)
                 | None \<Rightarrow> (length (os_nodes s), s\<lparr>os_names := AList.update (log_name lo p) (length (os_nodes s)) (os_names s),
                              os_nodes := os_nodes s @ [\<lparr>lf_lines = [], lf_torn = False\<rparr>]\<rparr>));
                 h = \<lparr>oh_node = i, oh_buf = [], oh_size = file_size (os_nodes s1 ! i), oh_broken = False\<rparr>
             in (Some h, set_handle p h s1)))"

text \<open>
  A buffered write is taken, or the file cannot be opened, or the buffer is written out on the way and
  stops: the first \<open>n\<close> buffered lines and perhaps a piece of the next reach the file, the rest is lost,
  and from then on the buffered writer answers with its first error.
\<close>

datatype write_out = Buffered | NoOpen | Fails nat "nat option"
datatype flush_out = Flushed | Stops nat "nat option"

definition spill :: "string \<Rightarrow> handle \<Rightarrow> nat \<Rightarrow> nat option \<Rightarrow> obs_store \<Rightarrow> obs_store" where
  "spill p h n piece s =
     set_handle p (h\<lparr>oh_buf := [], oh_broken := True\<rparr>)
       (on_node (oh_node h) (\<lambda>f. put_piece piece (put_lines (take n (oh_buf h)) f)) s)"

definition write_item :: "(nat \<Rightarrow> nat) \<Rightarrow> (obs_entry \<Rightarrow> nat) \<Rightarrow> write_out \<Rightarrow> obs_entry \<Rightarrow> obs_store \<Rightarrow> bool \<times> obs_store" where
  "write_item lo line_len out e s =
     (let p = ob_Project e
      in case openLocked lo p (out \<noteq> NoOpen) s of
           (None, s1) \<Rightarrow> (False, drop_line s1)
         | (Some h, s1) \<Rightarrow>
             if oh_broken h then (False, drop_line s1)
             else (case out of
                     Fails n piece \<Rightarrow> (False, drop_line (spill p h n piece s1))
                   | _ \<Rightarrow> (True, set_handle p (h\<lparr>oh_buf := oh_buf h @ [\<lparr>ln_entry = Some e, ln_len = line_len e\<rparr>],
                            oh_size := oh_size h + Suc (line_len e)\<rparr>) s1)))"

definition rotateLocked :: "(nat \<Rightarrow> nat) \<Rightarrow> string \<Rightarrow> bool \<times> bool \<Rightarrow> obs_store \<Rightarrow> obs_store" where
  "rotateLocked lo p ok s =
     (let s1 = s\<lparr>os_handles := AList.delete p (os_handles s)\<rparr>;
          s2 = (if fst ok then s1\<lparr>os_names := AList.delete (old_name lo p) (os_names s1)\<rparr> else s1)
      in if snd ok then
           (case map_of (os_names s2) (log_name lo p) of
              None \<Rightarrow> s2
            | Some i \<Rightarrow> s2\<lparr>os_names := AList.update (old_name lo p) i (AList.delete (log_name lo p) (os_names s2))\<rparr>)
         else s2)"

definition flush_handle :: "(nat \<Rightarrow> nat) \<Rightarrow> flush_out \<Rightarrow> bool \<times> bool \<Rightarrow> string \<Rightarrow> obs_store \<Rightarrow> obs_store" where
  "flush_handle lo out ok p s =
     (case map_of (os_handles s) p of
        None \<Rightarrow> s
      | Some h \<Rightarrow>
          (let s1 = (if oh_broken h then s
                     else (case out of
                             Flushed \<Rightarrow> set_handle p (h\<lparr>oh_buf := []\<rparr>) (on_node (oh_node h) (put_lines (oh_buf h)) s)
                           | Stops n piece \<Rightarrow> spill p h n piece s))
           in if MaxFile < oh_size h then rotateLocked lo p ok s1 else s1))"

text \<open>The outcomes of one flush: of each write, of the final flush of each project, and of a rotation.\<close>

record flush_env =
  fe_write :: "nat \<Rightarrow> write_out"
  fe_flush :: "string \<Rightarrow> flush_out"
  fe_rotate :: "string \<Rightarrow> bool \<times> bool"

text \<open>The projects that got a line are collected: only their handles are flushed and looked at for rotation.\<close>

fun write_items :: "(nat \<Rightarrow> nat) \<Rightarrow> (obs_entry \<Rightarrow> nat) \<Rightarrow> flush_env \<Rightarrow> nat \<Rightarrow> obs_entry list \<Rightarrow> string list \<times> obs_store \<Rightarrow> string list \<times> obs_store" where
  "write_items lo line_len ev k [] (seen, s) = (seen, s)"
| "write_items lo line_len ev k (e # es) (seen, s) =
     (case write_item lo line_len (fe_write ev k) e s of
        (ok, s') \<Rightarrow> write_items lo line_len ev (Suc k) es (if ok then List.insert (ob_Project e) seen else seen, s'))"

definition obs_flush :: "(nat \<Rightarrow> nat) \<Rightarrow> (obs_entry \<Rightarrow> nat) \<Rightarrow> flush_env \<Rightarrow> obs_store \<Rightarrow> obs_store" where
  "obs_flush lo line_len ev s =
     (case write_items lo line_len ev 0 (os_queue s) ([], s\<lparr>os_queue := []\<rparr>) of
        (seen, s') \<Rightarrow> fold (\<lambda>p. flush_handle lo (fe_flush ev p) (fe_rotate ev p) p) seen s')"

section \<open>Appending\<close>

definition max_seq :: "obs_entry list \<Rightarrow> int" where
  "max_seq es = fold (\<lambda>e n. if n < ob_Seq e then ob_Seq e else n) es 0"

definition maxSeq :: "(nat \<Rightarrow> nat) \<Rightarrow> string \<Rightarrow> obs_store \<Rightarrow> int" where
  "maxSeq lo p s = max_seq (scan_at s (old_name lo p) @ scan_at s (log_name lo p))"

definition counter :: "(nat \<Rightarrow> nat) \<Rightarrow> string \<Rightarrow> obs_store \<Rightarrow> int" where
  "counter lo p s = (case map_of (os_seq s) p of Some n \<Rightarrow> n | None \<Rightarrow> maxSeq lo p s)"

text \<open>
  An append takes the next number and then offers the line to the queue; other requests can run in
  between. Strings are printed as valid UTF-8.
\<close>

definition json_clean :: "string \<Rightarrow> string" where
  "json_clean s = of_runes (runes s)"

definition stamp :: "(nat \<Rightarrow> nat) \<Rightarrow> obs_entry \<Rightarrow> obs_store \<Rightarrow> obs_entry \<times> obs_store" where
  "stamp lo e s =
     (let n = wrap64 (counter lo (ob_Project e) s + 1)
      in (e\<lparr>ob_Seq := n, ob_Trace := json_clean (ob_Trace e), ob_Msg := json_clean (ob_Msg e)\<rparr>,
          s\<lparr>os_seq := AList.update (ob_Project e) n (os_seq s)\<rparr>))"

definition enqueue :: "obs_entry \<Rightarrow> obs_store \<Rightarrow> obs_store" where
  "enqueue e s = (if length (os_queue s) < chanCap then s\<lparr>os_queue := os_queue s @ [e]\<rparr> else drop_line s)"

definition obs_append :: "(nat \<Rightarrow> nat) \<Rightarrow> obs_entry \<Rightarrow> obs_store \<Rightarrow> obs_entry \<times> obs_store" where
  "obs_append lo e s = (case stamp lo e s of (e', s') \<Rightarrow> (e', enqueue e' s'))"

section \<open>Deleting and closing\<close>

text \<open>The flags say whether each of the two files could be removed.\<close>

definition DeleteProject :: "(nat \<Rightarrow> nat) \<Rightarrow> (obs_entry \<Rightarrow> nat) \<Rightarrow> flush_env \<Rightarrow> bool \<times> bool \<Rightarrow> string \<Rightarrow> obs_store \<Rightarrow> obs_store" where
  "DeleteProject lo line_len ev ok p s =
     (let s1 = obs_flush lo line_len ev s;
          names = (if fst ok then AList.delete (log_name lo p) (os_names s1) else os_names s1);
          names = (if snd ok then AList.delete (old_name lo p) names else names)
      in s1\<lparr>os_handles := AList.delete p (os_handles s1), os_names := names,
            os_seq := AList.delete p (os_seq s1), os_errs := AList.delete p (os_errs s1)\<rparr>)"

definition Close_store :: "(nat \<Rightarrow> nat) \<Rightarrow> (obs_entry \<Rightarrow> nat) \<Rightarrow> flush_env \<Rightarrow> obs_store \<Rightarrow> obs_store" where
  "Close_store lo line_len ev s = (obs_flush lo line_len ev s)\<lparr>os_handles := []\<rparr>"

text \<open>A restart keeps the files and forgets everything in memory.\<close>

definition restart :: "obs_store \<Rightarrow> obs_store" where
  "restart s = NewStore (os_names s) (os_nodes s)"


section \<open>Reading\<close>

definition matchType :: "string \<Rightarrow> string \<Rightarrow> bool" where
  "matchType got want =
     (if \<not> contains want '','' then got = want
      else list_ex (\<lambda>w. trim_space w = got) (split_on (CHR '','') want))"

record obs_filter =
  of_level :: string
  of_source :: string
  of_type :: string
  of_trace :: string
  of_q :: string

definition obs_match :: "(nat \<Rightarrow> nat) \<Rightarrow> obs_filter \<Rightarrow> obs_entry \<Rightarrow> bool" where
  "obs_match lo f e \<longleftrightarrow>
     (of_level f = [] \<or> of_level f = ''all'' \<or> ob_Level e = of_level f) \<and>
     (of_source f = [] \<or> of_source f = ''all'' \<or> ob_Source e = of_source f) \<and>
     (of_type f = [] \<or> matchType (ob_Type e) (of_type f)) \<and>
     (of_trace f = [] \<or> ob_Trace e = of_trace f) \<and>
     (of_q f = [] \<or>
      (let hay = to_lower lo (ob_Msg e @ '' '' @ ob_Type e @ '' '' @ ob_Trace e);
           hay = (if ob_Attrs e \<noteq> [] then hay @ '' '' @ to_lower lo (ob_Attrs e) else hay)
       in contains hay (of_q f)))"

definition last_n :: "nat \<Rightarrow> 'a list \<Rightarrow> 'a list" where
  "last_n n xs = drop (length xs - n) xs"

definition cursor :: "int \<Rightarrow> int \<Rightarrow> nat \<Rightarrow> obs_entry list \<Rightarrow> obs_entry list" where
  "cursor after before limit es =
     (if 0 < before then last_n limit (filter (\<lambda>e. ob_Seq e < before) es)
      else if 0 < after then take limit (filter (\<lambda>e. after < ob_Seq e) es)
      else last_n limit es)"

definition read_limit :: "int \<Rightarrow> nat" where
  "read_limit n = (if n \<le> 0 then 200 else if 1000 < n then 1000 else nat n)"

text \<open>The entries with the first and the last number; sorting is by number (the order of equal ones is left to the sort).\<close>

definition obs_Read :: "(nat \<Rightarrow> nat) \<Rightarrow> (obs_entry \<Rightarrow> nat) \<Rightarrow> flush_env \<Rightarrow> string \<Rightarrow> int \<Rightarrow> int \<Rightarrow> int \<Rightarrow> obs_filter \<Rightarrow> obs_store
    \<Rightarrow> (obs_entry list \<times> int \<times> int) \<times> obs_store" where
  "obs_Read lo line_len ev p after before limit f s =
     (let s' = obs_flush lo line_len ev s;
          f = f\<lparr>of_q := to_lower lo (of_q f)\<rparr>;
          found = filter (obs_match lo f) (scan_at s' (old_name lo p) @ scan_at s' (log_name lo p));
          es = cursor after before (read_limit limit) (sort_key ob_Seq found)
      in (if es = [] then ([], 0, 0) else (es, ob_Seq (hd es), ob_Seq (last es)), s'))"

definition parseSeq :: "string \<Rightarrow> int" where
  "parseSeq v = (if v = [] then 0 else case atoi v of None \<Rightarrow> -1 | Some n \<Rightarrow> if n < 0 then -1 else n)"

section \<open>The errors inbox\<close>

definition word_char :: "char \<Rightarrow> bool" where
  "word_char c \<longleftrightarrow> is_lower c \<or> is_upper c \<or> is_digit c \<or> c = CHR ''_''"

definition hex_char :: "char \<Rightarrow> bool" where
  "hex_char c \<longleftrightarrow> is_digit c \<or> CHR ''a'' \<le> c \<and> c \<le> CHR ''f'' \<or> CHR ''A'' \<le> c \<and> c \<le> CHR ''F''"

definition ends_word :: "string \<Rightarrow> bool" where
  "ends_word s \<longleftrightarrow> s = [] \<or> \<not> word_char (hd s)"

text \<open>
  The three patterns, each as the length of the match that starts here at the beginning of a word. A run
  inside a pattern cannot be cut short, since what follows must be a dot or the end of a word.
\<close>

definition num_match :: "string \<Rightarrow> nat option" where
  "num_match s =
     (let n = length (takeWhile is_digit s) in if 0 < n \<and> ends_word (drop n s) then Some n else None)"

definition hex_match :: "string \<Rightarrow> nat option" where
  "hex_match s =
     (let n = length (takeWhile hex_char s) in if 7 \<le> n \<and> n \<le> 64 \<and> ends_word (drop n s) then Some n else None)"

fun ip_match :: "nat \<Rightarrow> string \<Rightarrow> nat option" where
  "ip_match k s =
     (let n = length (takeWhile is_digit s); rest = drop n s
      in if n = 0 \<or> 3 < n then None
         else (case k of
                 0 \<Rightarrow> if ends_word rest then Some n else None
               | Suc k' \<Rightarrow> if prefix ''.'' rest then map_option (\<lambda>m. n + 1 + m) (ip_match k' (tl rest)) else None))"

function replace_all :: "(string \<Rightarrow> nat option) \<Rightarrow> string \<Rightarrow> bool \<Rightarrow> string \<Rightarrow> string" where
  "replace_all m rep in_word [] = []"
| "replace_all m rep in_word (c # s) =
     (case (if in_word then None else m (c # s)) of
        Some n \<Rightarrow> rep @ replace_all m rep (0 < n \<and> word_char ((c # s) ! (n - 1))) (drop (max 1 n) (c # s))
      | None \<Rightarrow> c # replace_all m rep (word_char c) s)"
  by pat_completeness auto
termination by (relation "measure (\<lambda>(m, rep, w, s). length s)") auto

definition Template :: "string \<Rightarrow> string" where
  "Template msg =
     replace_all num_match ''<n>'' False
       (replace_all hex_match ''<hex>'' False (replace_all (ip_match 3) ''<ip>'' False msg))"

fun add_error :: "obs_entry \<Rightarrow> err_group list \<Rightarrow> err_group list" where
  "add_error e [] = [\<lparr>eg_Key = ob_Type e @ ''|'' @ Template (ob_Msg e), eg_Type = ob_Type e, eg_Count = 1,
     eg_FirstSeen = ob_TS e, eg_LastSeen = ob_TS e, eg_SampleTrace = ob_Trace e, eg_SampleMsg = ob_Msg e\<rparr>]"
| "add_error e (g # gs) =
     (if eg_Key g = ob_Type e @ ''|'' @ Template (ob_Msg e)
      then g\<lparr>eg_Count := eg_Count g + 1, eg_LastSeen := ob_TS e,
             eg_FirstSeen := (if ob_TS e < eg_FirstSeen g then ob_TS e else eg_FirstSeen g)\<rparr> # gs
      else g # add_error e gs)"

definition error_groups :: "obs_entry list \<Rightarrow> err_group list" where
  "error_groups es = take 20 (sort_key (\<lambda>g. - int (eg_Count g)) (fold add_error es []))"

definition only_errors :: obs_filter where
  "only_errors = \<lparr>of_level = ''error'', of_source = [], of_type = [], of_trace = [], of_q = []\<rparr>"

definition Errors :: "(nat \<Rightarrow> nat) \<Rightarrow> (obs_entry \<Rightarrow> nat) \<Rightarrow> flush_env \<Rightarrow> gotime \<Rightarrow> string \<Rightarrow> obs_store \<Rightarrow> err_group list \<times> obs_store" where
  "Errors lo line_len ev now p s =
     (case map_of (os_errs s) p of
        Some (at, gs) \<Rightarrow>
          if now - at < 5 * second then (gs, s)
          else (case obs_Read lo line_len ev p 0 0 1000 only_errors s of
                  ((es, _), s') \<Rightarrow> (error_groups es, s'\<lparr>os_errs := AList.update p (now, error_groups es) (os_errs s')\<rparr>))
      | None \<Rightarrow>
          (case obs_Read lo line_len ev p 0 0 1000 only_errors s of
             ((es, _), s') \<Rightarrow> (error_groups es, s'\<lparr>os_errs := AList.update p (now, error_groups es) (os_errs s')\<rparr>)))"


section \<open>Lines of a request\<close>

text \<open>What the context of a request carries; the empty string where it carries nothing.\<close>

record obs_ctx =
  cx_project :: string
  cx_trace :: string
  cx_source :: string

definition SourceOf :: "obs_ctx \<Rightarrow> string" where
  "SourceOf c = (if cx_source c = [] then ''server'' else cx_source c)"

text \<open>The copy on the server's own log: attributes in the order of their keys, envelope keys renamed.\<close>

definition log_attrs :: "string \<Rightarrow> string \<Rightarrow> string \<Rightarrow> (string \<times> json) list \<Rightarrow> (string \<times> json) list" where
  "log_attrs p key trace data =
     (''type'', JStr key) # (if p \<noteq> [] then [(''project'', JStr p)] else []) @ [(''trace'', JStr trace)] @
     map (\<lambda>(k, v). (if k \<in> {''type'', ''project'', ''trace'', ''level'', ''msg'', ''time''} then ''data_'' @ k else k, v))
       (sort_key fst data)"

text \<open>
  \<open>emit\<close> returns the attributes of the server's line and the store; \<open>print\<close> prints the attributes, with
  errors as their text already. The server runs without an events sink.
\<close>

definition emit :: "(nat \<Rightarrow> nat) \<Rightarrow> ((string \<times> json) list \<Rightarrow> string) \<Rightarrow> gotime \<Rightarrow> obs_ctx \<Rightarrow> string \<Rightarrow> string \<Rightarrow> string
    \<Rightarrow> (string \<times> json) list \<Rightarrow> obs_store \<Rightarrow> (string \<times> json) list \<times> obs_store" where
  "emit lo print now c level key msg data s =
     (let trace = (if cx_trace c = [] then ''none'' else cx_trace c)
      in (log_attrs (cx_project c) key trace data,
          if cx_project c = [] then s
          else snd (obs_append lo \<lparr>ob_TS = now, ob_Seq = 0, ob_Project = cx_project c, ob_Trace = trace,
                 ob_Source = SourceOf c, ob_Level = level, ob_Type = key, ob_Msg = msg,
                 ob_Attrs = (if data = [] then ''null'' else print data)\<rparr> s)))"

definition obsFail :: "(nat \<Rightarrow> nat) \<Rightarrow> ((string \<times> json) list \<Rightarrow> string) \<Rightarrow> gotime \<Rightarrow> obs_ctx \<Rightarrow> string \<Rightarrow> string \<Rightarrow> string
    \<Rightarrow> (string \<times> json) list \<Rightarrow> obs_store \<Rightarrow> obs_store" where
  "obsFail lo print now c key msg err data s =
     snd (emit lo print now c ''error'' key (msg @ '': '' @ err) (AList.update ''error'' (JStr err) data) s)"

text \<open>The read route; the numbers of the query arrive as text, empty where absent.\<close>

record obs_query =
  oq_after :: string
  oq_before :: string
  oq_limit :: string
  oq_filter :: obs_filter

definition query_limit :: "string \<Rightarrow> int option" where
  "query_limit v =
     (if v = [] then Some 200
      else case atoi v of None \<Rightarrow> None | Some n \<Rightarrow> if n < 0 then None else Some (if 1000 < n then 1000 else n))"

datatype observe_reply = Page "obs_entry list" int int | BadQuery string

definition handleObserve :: "(nat \<Rightarrow> nat) \<Rightarrow> (obs_entry \<Rightarrow> nat) \<Rightarrow> ((string \<times> json) list \<Rightarrow> string) \<Rightarrow> gotime \<Rightarrow> flush_env
    \<Rightarrow> obs_ctx \<Rightarrow> string \<Rightarrow> obs_query \<Rightarrow> obs_store \<Rightarrow> observe_reply \<times> obs_store" where
  "handleObserve lo line_len print now ev c p q s =
     (let after = parseSeq (oq_after q); before = parseSeq (oq_before q);
          bad = (\<lambda>e. (BadQuery e, obsFail lo print now c ''observe.read'' ''observe read failed'' e [] s))
      in if after < 0 \<or> before < 0 then bad ''after and before must be numbers''
         else case query_limit (oq_limit q) of
                None \<Rightarrow> bad ''limit must be a non-negative number''
              | Some limit \<Rightarrow>
                  (case obs_Read lo line_len ev p after before limit (oq_filter q) s of
                     ((es, a, b), s') \<Rightarrow> (Page es a b, s')))"

section \<open>What is kept\<close>

text \<open>All decodable entries of a file, of the two files of a project, and of its buffer.\<close>

definition entries :: "logfile \<Rightarrow> obs_entry list" where
  "entries f = List.map_filter ln_entry (lf_lines f)"

definition entries_at :: "obs_store \<Rightarrow> string \<Rightarrow> obs_entry list" where
  "entries_at s name = (case node_at s name of None \<Rightarrow> [] | Some f \<Rightarrow> entries f)"

definition stored :: "(nat \<Rightarrow> nat) \<Rightarrow> string \<Rightarrow> obs_store \<Rightarrow> obs_entry list" where
  "stored lo p s = entries_at s (old_name lo p) @ entries_at s (log_name lo p)"

definition buffered :: "string \<Rightarrow> obs_store \<Rightarrow> obs_entry list" where
  "buffered p s = (case map_of (os_handles s) p of None \<Rightarrow> [] | Some h \<Rightarrow> List.map_filter ln_entry (oh_buf h))"

definition held :: "(nat \<Rightarrow> nat) \<Rightarrow> string \<Rightarrow> obs_store \<Rightarrow> obs_entry multiset" where
  "held lo p s = mset (stored lo p s @ buffered p s)"

text \<open>
  Names point to different files, a handle points to the file with the name of its project, and the
  projects \<open>P\<close> do not share a name.
\<close>

definition apart :: "(nat \<Rightarrow> nat) \<Rightarrow> string set \<Rightarrow> bool" where
  "apart lo P \<longleftrightarrow> inj_on (log_name lo) P"

definition obs_wf :: "(nat \<Rightarrow> nat) \<Rightarrow> string set \<Rightarrow> obs_store \<Rightarrow> bool" where
  "obs_wf lo P s \<longleftrightarrow>
     (\<forall>n i. map_of (os_names s) n = Some i \<longrightarrow> i < length (os_nodes s)) \<and>
     (\<forall>n m i. map_of (os_names s) n = Some i \<longrightarrow> map_of (os_names s) m = Some i \<longrightarrow> n = m) \<and>
     (\<forall>p h. map_of (os_handles s) p = Some h \<longrightarrow> p \<in> P \<and> map_of (os_names s) (log_name lo p) = Some (oh_node h))"

lemma obs_wfD:
  assumes "obs_wf lo P s"
  shows "map_of (os_names s) n = Some i \<Longrightarrow> i < length (os_nodes s)"
    and "map_of (os_names s) n = Some i \<Longrightarrow> map_of (os_names s) m = Some i \<Longrightarrow> n = m"
    and "map_of (os_handles s) p = Some h \<Longrightarrow> p \<in> P"
    and "map_of (os_handles s) p = Some h \<Longrightarrow> map_of (os_names s) (log_name lo p) = Some (oh_node h)"
  using assms unfolding obs_wf_def by blast+

lemma log_not_old [simp]: "log_name lo p \<noteq> old_name lo q" "old_name lo q \<noteq> log_name lo p"
proof -
  have "last (log_name lo p) = CHR ''l''" "last (old_name lo q) = CHR ''1''" by (simp_all add: log_name_def old_name_def)
  then show "log_name lo p \<noteq> old_name lo q" "old_name lo q \<noteq> log_name lo p" by auto
qed

lemma old_name_inj: "old_name lo p = old_name lo q \<longleftrightarrow> log_name lo p = log_name lo q"
  by (simp add: old_name_def)

lemma apartD: "apart lo P \<Longrightarrow> p \<in> P \<Longrightarrow> q \<in> P \<Longrightarrow> log_name lo p = log_name lo q \<longleftrightarrow> p = q"
  by (auto simp: apart_def inj_on_def)

lemma entries_at_on_node:
  "map_of (os_names s) name \<noteq> Some i \<Longrightarrow> entries_at (on_node i f s) name = entries_at s name"
  "map_of (os_names s) name = Some i \<Longrightarrow> i < length (os_nodes s) \<Longrightarrow>
     entries_at (on_node i f s) name = entries (f (os_nodes s ! i))"
  by (auto simp: entries_at_def node_at_def on_node_def split: option.splits)

lemma entries_at_handle [simp]: "entries_at (set_handle p h s) name = entries_at s name"
  "entries_at (drop_line s) name = entries_at s name" "os_names (set_handle p h s) = os_names s"
  "os_handles (on_node i f s) = os_handles s" "os_names (on_node i f s) = os_names s"
  "os_names (drop_line s) = os_names s" "os_handles (drop_line s) = os_handles s"
  by (simp_all add: entries_at_def node_at_def set_handle_def drop_line_def on_node_def)

lemma entries_butlast: "mset (List.map_filter ln_entry (butlast ls)) \<subseteq># mset (List.map_filter ln_entry ls)"
  by (cases ls rule: rev_cases) (auto simp: map_filter_append)

lemma entries_put_lines: "mset (entries (put_lines ls f)) \<subseteq># mset (entries f) + mset (List.map_filter ln_entry ls)"
proof (cases ls)
  case Nil
  then show ?thesis by (simp add: put_lines_def)
next
  case (Cons l rest)
  have "mset (List.map_filter ln_entry rest) \<subseteq># mset (List.map_filter ln_entry ls)"
    using Cons by (simp add: List.map_filter_simps split: option.splits)
  then show ?thesis using Cons entries_butlast [of "lf_lines f"]
    by (auto simp: put_lines_def entries_def map_filter_append List.map_filter_simps(1) intro: subset_mset.add_mono)
qed

lemma entries_put_piece: "mset (entries (put_piece piece f)) \<subseteq># mset (entries f)"
  using entries_butlast [of "lf_lines f"]
  by (auto simp: put_piece_def entries_def map_filter_append List.map_filter_simps split: option.splits)

lemma entries_spilled:
  "mset (entries (put_piece piece (put_lines (take n ls) f))) \<subseteq># mset (entries f) + mset (List.map_filter ln_entry ls)"
proof -
  have "List.map_filter ln_entry ls = List.map_filter ln_entry (take n ls) @ List.map_filter ln_entry (drop n ls)"
    by (simp flip: map_filter_append)
  then have "mset (List.map_filter ln_entry (take n ls)) \<subseteq># mset (List.map_filter ln_entry ls)" by simp
  with entries_put_piece [of piece "put_lines (take n ls) f"] entries_put_lines [of "take n ls" f]
  show ?thesis by (meson subset_mset.add_left_mono subset_mset.order_trans)
qed


lemma held_split:
  assumes "obs_wf lo P s" "map_of (os_handles s) p = Some h"
  shows "held lo p s = mset (entries_at s (old_name lo p)) + mset (entries (os_nodes s ! oh_node h)) + mset (List.map_filter ln_entry (oh_buf h))"
  using assms obs_wfD(4) [OF assms] by (simp add: held_def stored_def buffered_def entries_at_def node_at_def)

text \<open>Changing the file behind a handle and the handle itself touches only its project.\<close>

lemma rewrite_file:
  fixes F :: "logfile \<Rightarrow> logfile"
  assumes "obs_wf lo P s" "apart lo P" "map_of (os_handles s) p = Some h" "oh_node h' = oh_node h"
  defines "s' \<equiv> set_handle p h' (on_node (oh_node h) F s)"
  shows "obs_wf lo P s'"
    and "q \<in> P \<Longrightarrow> q \<noteq> p \<Longrightarrow> held lo q s' = held lo q s"
    and "held lo p s' = mset (entries_at s (old_name lo p)) + mset (entries (F (os_nodes s ! oh_node h))) + mset (List.map_filter ln_entry (oh_buf h'))"
proof -
  note wf = obs_wfD [OF assms(1)]
  have p: "p \<in> P" and name: "map_of (os_names s) (log_name lo p) = Some (oh_node h)" using wf(3,4) assms(3) by blast+
  have bound: "oh_node h < length (os_nodes s)" using wf(1) name by blast
  have other: "map_of (os_names s) n \<noteq> Some (oh_node h)" if "n \<noteq> log_name lo p" for n
    using wf(2) name that by blast
  have handles: "map_of (os_handles s') q = (if q = p then Some h' else map_of (os_handles s) q)" for q
    by (simp add: s'_def set_handle_def on_node_def update_conv')
  have names: "os_names s' = os_names s" "length (os_nodes s') = length (os_nodes s)"
    by (simp_all add: s'_def set_handle_def on_node_def)
  show "obs_wf lo P s'" using assms(1) assms(3,4) unfolding obs_wf_def handles names by auto
  show "held lo q s' = held lo q s" if "q \<in> P" "q \<noteq> p"
  proof -
    have "log_name lo q \<noteq> log_name lo p" using apartD [OF assms(2) that(1) p] that(2) by simp
    then show ?thesis using other that(2)
      by (simp add: held_def stored_def buffered_def handles) (simp add: s'_def entries_at_on_node)
  qed
  show "held lo p s' = mset (entries_at s (old_name lo p)) + mset (entries (F (os_nodes s ! oh_node h))) + mset (List.map_filter ln_entry (oh_buf h'))"
    using other [of "old_name lo p"] name bound
    by (simp add: held_def stored_def buffered_def handles) (simp add: s'_def entries_at_on_node)
qed

lemma spill_keeps:
  assumes "obs_wf lo P s" "apart lo P" "map_of (os_handles s) p = Some h" "q \<in> P"
  shows "obs_wf lo P (spill p h n piece s)" and "held lo q (spill p h n piece s) \<subseteq># held lo q s"
proof -
  let ?F = "\<lambda>f. put_piece piece (put_lines (take n (oh_buf h)) f)"
  let ?h = "h\<lparr>oh_buf := [], oh_broken := True\<rparr>"
  note r = rewrite_file [OF assms(1-3), where h' = ?h and F = ?F]
  show "obs_wf lo P (spill p h n piece s)" using r(1) by (simp add: spill_def)
  show "held lo q (spill p h n piece s) \<subseteq># held lo q s"
  proof (cases "q = p")
    case False
    then show ?thesis using r(2) [OF _ assms(4)] by (simp add: spill_def)
  next
    case True
    have "mset (entries (?F (os_nodes s ! oh_node h))) \<subseteq># mset (entries (os_nodes s ! oh_node h)) + mset (List.map_filter ln_entry (oh_buf h))"
      by (rule entries_spilled)
    then show ?thesis using True r(3) held_split [OF assms(1,3)] by (simp add: spill_def List.map_filter_simps(2) add.assoc)
  qed
qed

lemma openLocked_keeps:
  assumes "obs_wf lo P s" "apart lo P" "p \<in> P" "openLocked lo p ok s = (r, s1)"
  shows "obs_wf lo P s1" and "q \<in> P \<Longrightarrow> held lo q s1 = held lo q s"
    and "r = Some h \<Longrightarrow> map_of (os_handles s1) p = Some h"
    and "map_of (os_handles s1) q = Some h' \<Longrightarrow> oh_buf h' \<noteq> [] \<Longrightarrow> map_of (os_handles s) q = Some h'"
proof -
  note wf = obs_wfD [OF assms(1)]
  have "obs_wf lo P s1 \<and> (\<forall>q \<in> P. held lo q s1 = held lo q s) \<and> (\<forall>h. r = Some h \<longrightarrow> map_of (os_handles s1) p = Some h) \<and>
    (\<forall>q h'. map_of (os_handles s1) q = Some h' \<longrightarrow> oh_buf h' \<noteq> [] \<longrightarrow> map_of (os_handles s) q = Some h')"
  proof (cases "map_of (os_handles s) p = None \<and> ok")
    case False
    then have "s1 = s" "\<forall>h. r = Some h \<longrightarrow> map_of (os_handles s) p = Some h"
      using assms(4) by (auto simp: openLocked_def split: option.splits)
    then show ?thesis using assms(1) by simp
  next
    case True
    define i where "i = (case map_of (os_names s) (log_name lo p) of Some i \<Rightarrow> i | None \<Rightarrow> length (os_nodes s))"
    define s0 where "s0 = (case map_of (os_names s) (log_name lo p) of Some i \<Rightarrow> s
      | None \<Rightarrow> s\<lparr>os_names := AList.update (log_name lo p) (length (os_nodes s)) (os_names s),
                  os_nodes := os_nodes s @ [\<lparr>lf_lines = [], lf_torn = False\<rparr>]\<rparr>)"
    define h where "h = \<lparr>oh_node = i, oh_buf = [], oh_size = file_size (os_nodes s0 ! i), oh_broken = False\<rparr>"
    have eq: "r = Some h" "s1 = set_handle p h s0"
      using assms(4) True by (auto simp: openLocked_def Let_def i_def s0_def h_def split: option.splits)
    have h0: "os_handles s0 = os_handles s" by (simp add: s0_def split: option.splits)
    have n0: "map_of (os_names s0) n = (if n = log_name lo p then Some i else map_of (os_names s) n)" for n
      by (simp add: s0_def i_def update_conv' split: option.splits)
    have fresh: "map_of (os_names s) (log_name lo p) = None \<Longrightarrow> map_of (os_names s) n \<noteq> Some (length (os_nodes s))" for n
      using wf(1) [of n "length (os_nodes s)"] by blast
    have at0: "entries_at s0 n = entries_at s n" for n
    proof (cases "map_of (os_names s) (log_name lo p)")
      case None
      have "map_of (os_names s) n = Some j \<Longrightarrow> j < length (os_nodes s)" for j using wf(1) by blast
      then show ?thesis using None
        by (auto simp: s0_def entries_at_def node_at_def update_conv' nth_append entries_def List.map_filter_simps(2) split: option.splits)
    qed (simp add: s0_def)
    have wf0: "obs_wf lo P s0"
    proof (cases "map_of (os_names s) (log_name lo p)")
      case None
      then have s0: "s0 = s\<lparr>os_names := AList.update (log_name lo p) (length (os_nodes s)) (os_names s),
                  os_nodes := os_nodes s @ [\<lparr>lf_lines = [], lf_torn = False\<rparr>]\<rparr>" by (simp add: s0_def)
      show ?thesis unfolding obs_wf_def
      proof (intro conjI allI impI)
        fix n j assume "map_of (os_names s0) n = Some j"
        then show "j < length (os_nodes s0)" using wf(1) [of n j] by (auto simp: s0 update_conv' split: if_splits)
      next
        fix n m j assume "map_of (os_names s0) n = Some j" "map_of (os_names s0) m = Some j"
        then show "n = m" using wf(2) [of n j m] fresh [OF None] by (auto simp: s0 update_conv' split: if_splits)
      next
        fix q hq assume "map_of (os_handles s0) q = Some hq"
        then have hq: "map_of (os_handles s) q = Some hq" by (simp add: h0)
        then show "q \<in> P" by (rule wf(3))
        show "map_of (os_names s0) (log_name lo q) = Some (oh_node hq)"
          using wf(4) [OF hq] None by (auto simp: s0 update_conv')
      qed
    qed (simp add: s0_def assms(1))
    have handles: "map_of (os_handles s1) q = (if q = p then Some h else map_of (os_handles s) q)" for q
      by (simp add: eq set_handle_def update_conv' h0)
    have nodes: "os_nodes s1 = os_nodes s0" "os_names s1 = os_names s0" by (simp_all add: eq set_handle_def)
    have "obs_wf lo P s1" unfolding obs_wf_def
    proof (intro conjI allI impI)
      fix n j assume "map_of (os_names s1) n = Some j"
      then show "j < length (os_nodes s1)" using obs_wfD(1) [OF wf0] by (simp add: nodes)
    next
      fix n m j assume "map_of (os_names s1) n = Some j" "map_of (os_names s1) m = Some j"
      then show "n = m" using obs_wfD(2) [OF wf0] by (simp add: nodes)
    next
      fix q hq assume hq: "map_of (os_handles s1) q = Some hq"
      show "q \<in> P" using hq assms(3) wf(3) by (auto simp: handles split: if_splits)
      show "map_of (os_names s1) (log_name lo q) = Some (oh_node hq)"
      proof (cases "q = p")
        case True
        then show ?thesis using hq n0 by (auto simp: handles nodes h_def)
      next
        case False
        then show ?thesis using hq obs_wfD(4) [OF wf0, of q hq] by (simp add: handles nodes h0)
      qed
    qed
    moreover have "held lo q s1 = held lo q s" for q
      using True by (simp add: held_def stored_def buffered_def handles) (simp add: eq at0 h_def List.map_filter_simps(2))
    ultimately show ?thesis using handles by (auto simp: eq(1) h_def split: if_splits)
  qed
  then show "obs_wf lo P s1" and "q \<in> P \<Longrightarrow> held lo q s1 = held lo q s"
    and "r = Some h \<Longrightarrow> map_of (os_handles s1) p = Some h"
    and "map_of (os_handles s1) q = Some h' \<Longrightarrow> oh_buf h' \<noteq> [] \<Longrightarrow> map_of (os_handles s) q = Some h'" by blast+
qed


text \<open>One line of a batch: it is buffered or dropped, and nothing appears twice.\<close>

definition line_of :: "string \<Rightarrow> obs_entry \<Rightarrow> obs_entry multiset" where
  "line_of q e = (if ob_Project e = q then {#e#} else {#})"

definition pending_bufs :: "obs_store \<Rightarrow> string set" where
  "pending_bufs s = {p. \<exists>h. map_of (os_handles s) p = Some h \<and> oh_buf h \<noteq> []}"

lemma drop_line_keeps [simp]: "obs_wf lo P (drop_line s) = obs_wf lo P s" "held lo q (drop_line s) = held lo q s"
  "pending_bufs (drop_line s) = pending_bufs s"
  by (simp_all add: obs_wf_def drop_line_def held_def stored_def entries_at_def node_at_def buffered_def pending_bufs_def)

lemma pending_set_handle:
  "pending_bufs (set_handle p h s) = (if oh_buf h = [] then pending_bufs s - {p} else insert p (pending_bufs s))"
  "pending_bufs (on_node i f s) = pending_bufs s"
  by (auto simp: pending_bufs_def set_handle_def on_node_def update_conv' split: if_splits)

lemma write_item_keeps:
  assumes "obs_wf lo P s" "apart lo P" "ob_Project e \<in> P" "write_item lo line_len out e s = (ok, s')"
  shows "obs_wf lo P s'" and "q \<in> P \<Longrightarrow> held lo q s' \<subseteq># held lo q s + line_of q e"
    and "pending_bufs s' \<subseteq> pending_bufs s \<union> (if ok then {ob_Project e} else {})"
proof -
  let ?p = "ob_Project e"
  obtain r s1 where o: "openLocked lo ?p (out \<noteq> NoOpen) s = (r, s1)" by fastforce
  note opened = openLocked_keeps [OF assms(1-3) o]
  have pend1: "pending_bufs s1 \<subseteq> pending_bufs s" using opened(4) by (auto simp: pending_bufs_def)
  have "obs_wf lo P s' \<and> (\<forall>q \<in> P. held lo q s' \<subseteq># held lo q s + line_of q e) \<and>
    pending_bufs s' \<subseteq> pending_bufs s \<union> (if ok then {?p} else {})"
  proof (cases r)
    case None
    then have "s' = drop_line s1" using assms(4) o by (simp add: write_item_def)
    then show ?thesis using opened(1,2) pend1 by auto
  next
    case (Some h)
    have h: "map_of (os_handles s1) ?p = Some h" by (rule opened(3)) (rule Some)
    show ?thesis
    proof (cases "oh_broken h \<or> (\<exists>n piece. out = Fails n piece)")
      case True
      then have s': "s' = drop_line s1 \<or> (\<exists>n piece. s' = drop_line (spill ?p h n piece s1))" and "\<not> ok"
        using assms(4) o Some by (auto simp: write_item_def Let_def split: if_splits) blast
      have sp: "obs_wf lo P (spill ?p h n piece s1) \<and> (\<forall>q \<in> P. held lo q (spill ?p h n piece s1) \<subseteq># held lo q s1) \<and>
          pending_bufs (spill ?p h n piece s1) \<subseteq> pending_bufs s1" for n piece
        using spill_keeps(1) [OF opened(1) assms(2) h assms(3)] spill_keeps(2) [OF opened(1) assms(2) h]
        by (auto simp: spill_def pending_set_handle)
      have "held lo q s' \<subseteq># held lo q s + line_of q e" if "q \<in> P" for q
      proof -
        have "held lo q s' \<subseteq># held lo q s1" using s' sp that by auto
        then show ?thesis using opened(2) [OF that] by (simp add: subset_mset.add_increasing2)
      qed
      then show ?thesis using s' sp opened(1) pend1 \<open>\<not> ok\<close> by auto blast
    next
      case False
      let ?h = "h\<lparr>oh_buf := oh_buf h @ [\<lparr>ln_entry = Some e, ln_len = line_len e\<rparr>], oh_size := oh_size h + Suc (line_len e)\<rparr>"
      have s': "s' = set_handle ?p ?h (on_node (oh_node h) (\<lambda>f. f) s1)" "ok"
        using assms(4) o Some False by (auto simp: write_item_def Let_def on_node_def split: write_out.splits if_splits)
      note r = rewrite_file [OF opened(1) assms(2) h, where h' = ?h and F = "\<lambda>f. f"]
      have "held lo q s' \<subseteq># held lo q s + line_of q e" if "q \<in> P" for q
      proof (cases "q = ?p")
        case False
        then show ?thesis using r(2) [OF _ that] opened(2) [OF that] by (simp add: s' line_of_def)
      next
        case True
        then show ?thesis using r(3) held_split [OF opened(1) h] opened(2) [OF that]
          by (simp add: s' line_of_def map_filter_append List.map_filter_simps)
      qed
      moreover have "pending_bufs s' \<subseteq> pending_bufs s \<union> {?p}" using pend1 by (auto simp: s' pending_set_handle)
      ultimately show ?thesis using r(1) by (simp add: s')
    qed
  qed
  then show "obs_wf lo P s'" and "q \<in> P \<Longrightarrow> held lo q s' \<subseteq># held lo q s + line_of q e"
    and "pending_bufs s' \<subseteq> pending_bufs s \<union> (if ok then {?p} else {})" by blast+
qed

lemma rotate_keeps:
  assumes "obs_wf lo P s" "apart lo P" "p \<in> P" "q \<in> P"
  shows "obs_wf lo P (rotateLocked lo p ok s)" and "held lo q (rotateLocked lo p ok s) \<subseteq># held lo q s"
    and "pending_bufs (rotateLocked lo p ok s) \<subseteq> pending_bufs s - {p}"
proof -
  let ?s = "rotateLocked lo p ok s"
  note wf = obs_wfD [OF assms(1)]
  have handles: "map_of (os_handles ?s) x = (if x = p then None else map_of (os_handles s) x)" for x
    by (simp add: rotateLocked_def Let_def AList.delete_conv' split: option.splits)
  have nodes: "os_nodes ?s = os_nodes s" by (simp add: rotateLocked_def Let_def split: option.splits)
  have names: "map_of (os_names ?s) n =
      (if snd ok \<and> map_of (os_names s) (log_name lo p) \<noteq> None then
         (if n = old_name lo p then map_of (os_names s) (log_name lo p)
          else if n = log_name lo p then None else map_of (os_names s) n)
       else if n = old_name lo p \<and> fst ok then None else map_of (os_names s) n)" for n
    by (simp add: rotateLocked_def Let_def AList.delete_conv' update_conv' split: option.splits)
  show "pending_bufs ?s \<subseteq> pending_bufs s - {p}" by (auto simp: pending_bufs_def handles split: if_splits)
  show "obs_wf lo P ?s" unfolding obs_wf_def
  proof (intro conjI allI impI)
    fix n j assume "map_of (os_names ?s) n = Some j"
    then show "j < length (os_nodes ?s)" using wf(1) by (auto simp: names nodes split: if_splits)
  next
    fix n m j assume "map_of (os_names ?s) n = Some j" "map_of (os_names ?s) m = Some j"
    then show "n = m" using wf(2) by (auto simp: names split: if_splits)
  next
    fix x h assume "map_of (os_handles ?s) x = Some h"
    then have x: "x \<noteq> p" "map_of (os_handles s) x = Some h" by (simp_all add: handles split: if_splits)
    show "x \<in> P" using x wf(3) by blast
    have "log_name lo x \<noteq> log_name lo p" using apartD [OF assms(2) \<open>x \<in> P\<close> assms(3)] x(1) by simp
    then show "map_of (os_names ?s) (log_name lo x) = Some (oh_node h)" using wf(4) [OF x(2)] by (simp add: names)
  qed
  have at': "entries_at ?s n = (case map_of (os_names ?s) n of None \<Rightarrow> [] | Some i \<Rightarrow> entries (os_nodes s ! i))" for n
    by (simp add: entries_at_def node_at_def nodes split: option.splits)
  have at: "entries_at s n = (case map_of (os_names s) n of None \<Rightarrow> [] | Some i \<Rightarrow> entries (os_nodes s ! i))" for n
    by (simp add: entries_at_def node_at_def split: option.splits)
  show "held lo q ?s \<subseteq># held lo q s"
  proof (cases "q = p")
    case False
    then have "log_name lo q \<noteq> log_name lo p" using apartD [OF assms(2,4,3)] by simp
    then show ?thesis using False
      by (simp add: held_def stored_def buffered_def handles at at' names old_name_inj)
  next
    case True
    have "mset (stored lo p ?s) \<subseteq># mset (stored lo p s)"
      by (auto simp: stored_def at at' names split: option.splits)
    moreover have "buffered p ?s = []" by (simp add: buffered_def handles)
    ultimately show ?thesis using True by (simp add: held_def subset_mset.add_increasing2)
  qed
qed

lemma flush_handle_keeps:
  assumes "obs_wf lo P s" "apart lo P" "q \<in> P"
  shows "obs_wf lo P (flush_handle lo out ok p s)" and "held lo q (flush_handle lo out ok p s) \<subseteq># held lo q s"
    and "pending_bufs (flush_handle lo out ok p s) \<subseteq> (if (\<exists>h. map_of (os_handles s) p = Some h \<and> oh_broken h \<and> oh_buf h \<noteq> []) then pending_bufs s else pending_bufs s - {p})"
proof -
  have "obs_wf lo P (flush_handle lo out ok p s) \<and> held lo q (flush_handle lo out ok p s) \<subseteq># held lo q s \<and>
    pending_bufs (flush_handle lo out ok p s) \<subseteq> (if (\<exists>h. map_of (os_handles s) p = Some h \<and> oh_broken h \<and> oh_buf h \<noteq> []) then pending_bufs s else pending_bufs s - {p})"
  proof (cases "map_of (os_handles s) p")
    case None
    then show ?thesis using assms(1) by (auto simp: flush_handle_def pending_bufs_def)
  next
    case (Some h)
    have p: "p \<in> P" using obs_wfD(3) [OF assms(1) Some] .
    define s1 where "s1 = (if oh_broken h then s
      else (case out of
              Flushed \<Rightarrow> set_handle p (h\<lparr>oh_buf := []\<rparr>) (on_node (oh_node h) (put_lines (oh_buf h)) s)
            | Stops n piece \<Rightarrow> spill p h n piece s))"
    have s1: "obs_wf lo P s1 \<and> held lo q s1 \<subseteq># held lo q s \<and>
        (if oh_broken h then s1 = s else pending_bufs s1 \<subseteq> pending_bufs s - {p})"
    proof (cases "oh_broken h")
      case True
      then show ?thesis using assms(1) by (simp add: s1_def)
    next
      case False
      show ?thesis
      proof (cases out)
        case Flushed
        let ?h = "h\<lparr>oh_buf := []\<rparr>"
        note r = rewrite_file [OF assms(1,2) Some, where h' = ?h and F = "put_lines (oh_buf h)"]
        have "held lo q s1 \<subseteq># held lo q s"
        proof (cases "q = p")
          case True
          then show ?thesis using r(3) held_split [OF assms(1) Some] entries_put_lines [of "oh_buf h" "os_nodes s ! oh_node h"] False Flushed
            by (simp add: s1_def List.map_filter_simps(2) add.assoc)
        next
          case False
          then show ?thesis using r(2) [OF _ assms(3)] \<open>\<not> oh_broken h\<close> Flushed by (simp add: s1_def)
        qed
        then show ?thesis using r(1) False Flushed by (auto simp: s1_def pending_set_handle)
      next
        case (Stops n piece)
        then show ?thesis using spill_keeps [OF assms(1,2) Some assms(3)] False
          by (auto simp: s1_def spill_def pending_set_handle)
      qed
    qed
    have eq: "flush_handle lo out ok p s = (if MaxFile < oh_size h then rotateLocked lo p ok s1 else s1)"
      by (simp add: flush_handle_def Some s1_def Let_def)
    show ?thesis
    proof (cases "MaxFile < oh_size h")
      case True
      have w: "obs_wf lo P s1" using s1 by blast
      show ?thesis using rotate_keeps [OF w assms(2) p assms(3), of ok] s1 eq True Some
        by (auto split: if_splits intro: subset_mset.order_trans)
    next
      case False
      then show ?thesis using s1 eq Some by (auto simp: pending_bufs_def split: if_splits)
    qed
  qed
  then show "obs_wf lo P (flush_handle lo out ok p s)" and "held lo q (flush_handle lo out ok p s) \<subseteq># held lo q s"
    and "pending_bufs (flush_handle lo out ok p s) \<subseteq> (if (\<exists>h. map_of (os_handles s) p = Some h \<and> oh_broken h \<and> oh_buf h \<noteq> []) then pending_bufs s else pending_bufs s - {p})" by blast+
qed


text \<open>A broken handle has nothing buffered.\<close>

definition broken_empty :: "obs_store \<Rightarrow> bool" where
  "broken_empty s \<longleftrightarrow> (\<forall>p h. map_of (os_handles s) p = Some h \<longrightarrow> oh_broken h \<longrightarrow> oh_buf h = [])"

lemma broken_empty_set: "broken_empty s \<Longrightarrow> (oh_broken h \<Longrightarrow> oh_buf h = []) \<Longrightarrow> broken_empty (set_handle p h s)"
  by (auto simp: broken_empty_def set_handle_def update_conv' split: if_splits)

lemma broken_empty_same: "os_handles s' = os_handles s \<Longrightarrow> broken_empty s' = broken_empty s"
  by (simp add: broken_empty_def)

lemma broken_empty_delete: "broken_empty s \<Longrightarrow> os_handles s' = AList.delete p (os_handles s) \<Longrightarrow> broken_empty s'"
  by (auto simp: broken_empty_def AList.delete_conv' split: if_splits)

lemma spill_broken: "broken_empty s \<Longrightarrow> broken_empty (spill p h n piece s)"
  unfolding spill_def by (rule broken_empty_set) (simp_all add: broken_empty_def on_node_def)

lemma openLocked_broken: "broken_empty s \<Longrightarrow> openLocked lo p ok s = (r, s1) \<Longrightarrow> broken_empty s1"
  by (auto simp: openLocked_def Let_def broken_empty_def set_handle_def update_conv' split: option.splits if_splits)

lemma write_item_broken:
  assumes "broken_empty s" "write_item lo line_len out e s = (ok, s')"
  shows "broken_empty s'"
proof -
  obtain r s1 where o: "openLocked lo (ob_Project e) (out \<noteq> NoOpen) s = (r, s1)" by fastforce
  have s1: "broken_empty s1" by (rule openLocked_broken [OF assms(1) o])
  then have "broken_empty (drop_line s1)" "broken_empty (drop_line (spill p h n piece s1))" for p h n piece
    using broken_empty_same [of "drop_line s1" s1] broken_empty_same [of "drop_line (spill p h n piece s1)"]
      spill_broken [OF s1] by (simp_all add: drop_line_def)
  then show ?thesis using assms(2) o s1
    by (auto simp: write_item_def Let_def split: option.splits write_out.splits if_splits intro!: broken_empty_set)
qed

lemma flush_handle_broken:
  assumes "broken_empty s"
  shows "broken_empty (flush_handle lo out ok p s)"
proof (cases "map_of (os_handles s) p")
  case None
  then show ?thesis using assms by (simp add: flush_handle_def)
next
  case (Some h)
  have "broken_empty (on_node i f s)" for i f using assms by (simp add: broken_empty_def on_node_def)
  then have "broken_empty (set_handle p (h\<lparr>oh_buf := []\<rparr>) (on_node i f s))" for i f by (simp add: broken_empty_set)
  moreover have "os_handles (rotateLocked lo p ok t) = AList.delete p (os_handles t)" for t
    by (simp add: rotateLocked_def Let_def split: option.splits)
  then have "broken_empty t \<Longrightarrow> broken_empty (rotateLocked lo p ok t)" for t using broken_empty_delete by blast
  ultimately show ?thesis using Some assms
    by (auto simp: flush_handle_def Let_def spill_broken split: flush_out.splits)
qed

text \<open>What holds between the operations: every buffer is empty.\<close>

definition obs_ok :: "(nat \<Rightarrow> nat) \<Rightarrow> string set \<Rightarrow> obs_store \<Rightarrow> bool" where
  "obs_ok lo P s \<longleftrightarrow> obs_wf lo P s \<and> broken_empty s \<and> pending_bufs s = {}"

definition of_project :: "string \<Rightarrow> obs_entry list \<Rightarrow> obs_entry multiset" where
  "of_project q es = mset (filter (\<lambda>e. ob_Project e = q) es)"

lemma write_items_keeps:
  assumes "apart lo P"
  shows "write_items lo line_len ev k es (seen, s) = (seen', s') \<Longrightarrow> obs_wf lo P s \<Longrightarrow> broken_empty s \<Longrightarrow>
    ob_Project ` set es \<subseteq> P \<Longrightarrow> pending_bufs s \<subseteq> set seen \<Longrightarrow>
    obs_wf lo P s' \<and> broken_empty s' \<and> pending_bufs s' \<subseteq> set seen' \<and>
    (\<forall>q \<in> P. held lo q s' \<subseteq># held lo q s + of_project q es)"
proof (induction es arbitrary: k seen s)
  case Nil
  then show ?case by (simp add: of_project_def)
next
  case (Cons e es)
  obtain ok s1 where w: "write_item lo line_len (fe_write ev k) e s = (ok, s1)" by fastforce
  note item = write_item_keeps [OF Cons.prems(2) assms _ w]
  have e: "ob_Project e \<in> P" using Cons.prems(4) by simp
  let ?seen = "if ok then List.insert (ob_Project e) seen else seen"
  have rest: "write_items lo line_len ev (Suc k) es (?seen, s1) = (seen', s')" using Cons.prems(1) w by simp
  have "pending_bufs s1 \<subseteq> set ?seen" using item(3) [OF e] Cons.prems(5) by (auto split: if_splits)
  with Cons.IH [OF rest item(1) [OF e] write_item_broken [OF Cons.prems(3) w]] Cons.prems(4)
  have IH: "obs_wf lo P s' \<and> broken_empty s' \<and> pending_bufs s' \<subseteq> set seen' \<and>
      (\<forall>q \<in> P. held lo q s' \<subseteq># held lo q s1 + of_project q es)" by simp
  have "held lo q s' \<subseteq># held lo q s + of_project q (e # es)" if q: "q \<in> P" for q
  proof -
    have "held lo q s' \<subseteq># (held lo q s + line_of q e) + of_project q es"
      using IH item(2) [OF e q] q by (meson subset_mset.add_right_mono subset_mset.order_trans)
    also have "\<dots> = held lo q s + of_project q (e # es)" by (simp add: of_project_def line_of_def)
    finally show ?thesis .
  qed
  then show ?case using IH by blast
qed

lemma flush_handle_step:
  assumes "obs_wf lo P s" "apart lo P" "broken_empty s"
  shows "obs_wf lo P (flush_handle lo out ok p s)"
    and "pending_bufs (flush_handle lo out ok p s) \<subseteq> pending_bufs s - {p}"
proof -
  have "obs_wf lo P (flush_handle lo out ok p s) \<and> pending_bufs (flush_handle lo out ok p s) \<subseteq> pending_bufs s - {p}"
  proof (cases "map_of (os_handles s) p")
    case None
    then show ?thesis using assms(1) by (auto simp: flush_handle_def pending_bufs_def)
  next
    case (Some h)
    have p: "p \<in> P" by (rule obs_wfD(3) [OF assms(1) Some])
    have no: "\<not> (\<exists>h. map_of (os_handles s) p = Some h \<and> oh_broken h \<and> oh_buf h \<noteq> [])"
      using assms(3) by (auto simp: broken_empty_def)
    show ?thesis using flush_handle_keeps(1,3) [OF assms(1,2) p, of out ok p] unfolding if_not_P [OF no] by blast
  qed
  then show "obs_wf lo P (flush_handle lo out ok p s)"
    and "pending_bufs (flush_handle lo out ok p s) \<subseteq> pending_bufs s - {p}" by blast+
qed

lemma flush_handles_keep:
  assumes "apart lo P"
  shows "obs_wf lo P s \<Longrightarrow> broken_empty s \<Longrightarrow> s' = fold (\<lambda>p. flush_handle lo (fo p) (ro p) p) ps s \<Longrightarrow>
    obs_wf lo P s' \<and> broken_empty s' \<and> pending_bufs s' \<subseteq> pending_bufs s - set ps \<and>
    (\<forall>q \<in> P. held lo q s' \<subseteq># held lo q s)"
proof (induction ps arbitrary: s)
  case (Cons p ps)
  let ?s = "flush_handle lo (fo p) (ro p) p s"
  note step = flush_handle_step [OF Cons.prems(1) assms Cons.prems(2), of "fo p" "ro p" p]
  have IH: "obs_wf lo P s' \<and> broken_empty s' \<and> pending_bufs s' \<subseteq> pending_bufs ?s - set ps \<and>
      (\<forall>q \<in> P. held lo q s' \<subseteq># held lo q ?s)"
    by (rule Cons.IH [OF step(1) flush_handle_broken [OF Cons.prems(2)]]) (simp add: Cons.prems(3))
  moreover have "held lo q s' \<subseteq># held lo q s" if "q \<in> P" for q
    using IH flush_handle_keeps(2) [OF Cons.prems(1) assms that, of "fo p" "ro p" p] that subset_mset.order_trans by blast
  ultimately show ?case using step(2) by auto
qed simp

lemma obs_flush_keeps:
  assumes "apart lo P" "obs_ok lo P s" "ob_Project ` set (os_queue s) \<subseteq> P"
  shows "obs_ok lo P (obs_flush lo line_len ev s)"
    and "q \<in> P \<Longrightarrow> held lo q (obs_flush lo line_len ev s) \<subseteq># held lo q s + of_project q (os_queue s)"
proof -
  let ?s = "s\<lparr>os_queue := []\<rparr>"
  obtain seen s1 where w: "write_items lo line_len ev 0 (os_queue s) ([], ?s) = (seen, s1)" by fastforce
  have same: "held lo q ?s = held lo q s" for q
    by (simp add: held_def stored_def entries_at_def node_at_def buffered_def)
  have start: "obs_wf lo P ?s" "broken_empty ?s" "pending_bufs ?s = {}"
    using assms(2) by (simp_all add: obs_ok_def obs_wf_def broken_empty_def pending_bufs_def)
  from write_items_keeps [OF assms(1) w start(1,2) assms(3)] start(3)
  have s1: "obs_wf lo P s1 \<and> broken_empty s1 \<and> pending_bufs s1 \<subseteq> set seen \<and>
      (\<forall>q \<in> P. held lo q s1 \<subseteq># held lo q s + of_project q (os_queue s))" by (simp add: same)
  have eq: "obs_flush lo line_len ev s = fold (\<lambda>p. flush_handle lo (fe_flush ev p) (fe_rotate ev p) p) seen s1"
    by (simp add: obs_flush_def w)
  have "obs_wf lo P s1" "broken_empty s1" using s1 by blast+
  note f = flush_handles_keep [OF assms(1) this eq]
  show "obs_ok lo P (obs_flush lo line_len ev s)" using f s1 by (auto simp: obs_ok_def)
  show "held lo q (obs_flush lo line_len ev s) \<subseteq># held lo q s + of_project q (os_queue s)" if "q \<in> P"
    using f s1 that subset_mset.order_trans by blast
qed


section \<open>Sequence numbers\<close>

lemma write_item_frame:
  "write_item lo line_len out e s = (ok, s') \<Longrightarrow> os_queue s' = os_queue s \<and> os_seq s' = os_seq s"
  by (auto simp: write_item_def Let_def openLocked_def set_handle_def drop_line_def spill_def on_node_def
      split: option.splits write_out.splits if_splits)

lemma write_items_frame:
  "write_items lo line_len ev k es (seen, s) = (seen', s') \<Longrightarrow> os_queue s' = os_queue s \<and> os_seq s' = os_seq s"
proof (induction es arbitrary: k seen s)
  case (Cons e es)
  obtain ok s1 where "write_item lo line_len (fe_write ev k) e s = (ok, s1)" by fastforce
  then show ?case using Cons.prems Cons.IH write_item_frame by (metis (no_types, lifting) case_prod_conv write_items.simps(2))
qed simp

lemma flush_handle_frame:
  "os_queue (flush_handle lo out ok p s) = os_queue s \<and> os_seq (flush_handle lo out ok p s) = os_seq s"
  by (auto simp: flush_handle_def Let_def rotateLocked_def set_handle_def spill_def on_node_def
      split: option.splits flush_out.splits)

lemma obs_flush_frame [simp]: "os_queue (obs_flush lo line_len ev s) = []" "os_seq (obs_flush lo line_len ev s) = os_seq s"
proof -
  obtain seen s1 where w: "write_items lo line_len ev 0 (os_queue s) ([], s\<lparr>os_queue := []\<rparr>) = (seen, s1)" by fastforce
  have f: "os_queue (fold (\<lambda>p. flush_handle lo (fe_flush ev p) (fe_rotate ev p) p) ps t) = os_queue t \<and>
      os_seq (fold (\<lambda>p. flush_handle lo (fe_flush ev p) (fe_rotate ev p) p) ps t) = os_seq t" for ps t
    by (induction ps arbitrary: t) (simp_all add: flush_handle_frame)
  show "os_queue (obs_flush lo line_len ev s) = []" "os_seq (obs_flush lo line_len ev s) = os_seq s"
    using write_items_frame [OF w] f by (simp_all add: obs_flush_def w)
qed

text \<open>No line of any file is too long for the scanner.\<close>

definition scannable :: "obs_store \<Rightarrow> bool" where
  "scannable s \<longleftrightarrow> list_all (\<lambda>f. list_all (\<lambda>l. ln_len l < scan_limit) (lf_lines f)) (os_nodes s)"

lemma max_seq_ge: "e \<in> set es \<Longrightarrow> ob_Seq e \<le> max_seq es"
proof -
  have mono: "n \<le> fold (\<lambda>e n. if n < ob_Seq e then ob_Seq e else n) es n" for es n
  proof (induction es arbitrary: n)
    case Nil
    show ?case by simp
  next
    case (Cons e es)
    show ?case using Cons.IH [of "ob_Seq e"] Cons.IH [of n] by (auto intro: order_trans [OF less_imp_le])
  qed
  have "e \<in> set es \<Longrightarrow> ob_Seq e \<le> fold (\<lambda>e n. if n < ob_Seq e then ob_Seq e else n) es n" for n
  proof (induction es arbitrary: n)
    case (Cons x es)
    show ?case
    proof (cases "e = x")
      case True
      then show ?thesis using mono [of "if n < ob_Seq e then ob_Seq e else n" es] by (auto split: if_splits)
    next
      case False
      then show ?thesis using Cons by simp
    qed
  qed simp
  then show "e \<in> set es \<Longrightarrow> ob_Seq e \<le> max_seq es" by (simp add: max_seq_def)
qed

lemma scan_entries: "obs_wf lo P s \<Longrightarrow> scannable s \<Longrightarrow> scan_at s n = entries_at s n"
proof -
  assume wf: "obs_wf lo P s" and short: "scannable s"
  have "scan (os_nodes s ! i) = entries (os_nodes s ! i)" if "i < length (os_nodes s)" for i
  proof -
    have "list_all (\<lambda>l. ln_len l < scan_limit) (lf_lines (os_nodes s ! i))"
      using short that by (simp add: scannable_def list_all_length)
    then show ?thesis by (simp add: scan_def entries_def takeWhile_eq_all_conv [THEN iffD2] list_all_iff)
  qed
  then show "scan_at s n = entries_at s n" using obs_wfD(1) [OF wf, of n]
    by (auto simp: scan_at_def entries_at_def node_at_def split: option.splits)
qed

definition once :: "obs_entry multiset \<Rightarrow> bool" where
  "once T \<longleftrightarrow> (\<forall>n. count (image_mset ob_Seq T) n \<le> 1)"

lemma once_sub: "once T \<Longrightarrow> T' \<subseteq># T \<Longrightarrow> once T'"
  unfolding once_def by (meson image_mset_subseteq_mono mset_subset_eq_count order_trans)

lemma once_add: "once T \<Longrightarrow> ob_Seq e \<notin># image_mset ob_Seq T \<Longrightarrow> once (T + {#e#})"
  unfolding not_in_iff once_def by auto

definition total_of :: "(nat \<Rightarrow> nat) \<Rightarrow> string \<Rightarrow> obs_store \<Rightarrow> obs_entry list \<Rightarrow> obs_entry multiset" where
  "total_of lo p s pend = held lo p s + of_project p (os_queue s @ pend)"

definition numbered_ok :: "(nat \<Rightarrow> nat) \<Rightarrow> string \<Rightarrow> obs_store \<Rightarrow> obs_entry list \<Rightarrow> bool" where
  "numbered_ok lo p s pend \<longleftrightarrow> once (total_of lo p s pend) \<and>
     (case map_of (os_seq s) p of
        None \<Rightarrow> of_project p (os_queue s @ pend) = {#}
      | Some n \<Rightarrow> \<forall>e \<in># total_of lo p s pend. ob_Seq e \<le> n)"

lemma numbered_sub:
  assumes "numbered_ok lo p s pend" "total_of lo p s' pend' \<subseteq># total_of lo p s pend"
    "map_of (os_seq s') p = map_of (os_seq s) p \<or> map_of (os_seq s') p = None"
    "map_of (os_seq s') p = None \<Longrightarrow> of_project p (os_queue s' @ pend') = {#}"
  shows "numbered_ok lo p s' pend'"
  using assms once_sub [of "total_of lo p s pend"] mset_subset_eqD [OF assms(2)]
  by (auto simp: numbered_ok_def split: option.splits)

text \<open>
  The runs of a server: numbers taken, lines offered in any order, flushes, deletions that no append of
  the project overlaps, closing, crashes. No number reaches the end of the range.
\<close>

inductive obs_reach :: "(nat \<Rightarrow> nat) \<Rightarrow> (obs_entry \<Rightarrow> nat) \<Rightarrow> string set \<Rightarrow> obs_store \<Rightarrow> obs_entry list \<Rightarrow> bool"
  for lo line_len P where
  start: "obs_reach lo line_len P (NewStore [] []) []"
| stamped: "obs_reach lo line_len P s pend \<Longrightarrow> ob_Project e \<in> P \<Longrightarrow> scannable s \<Longrightarrow>
    counter lo (ob_Project e) s \<in> {0..<2 ^ 63 - 1} \<Longrightarrow> stamp lo e s = (e', s') \<Longrightarrow> obs_reach lo line_len P s' (pend @ [e'])"
| offered: "obs_reach lo line_len P s (as @ e # bs) \<Longrightarrow> obs_reach lo line_len P (enqueue e s) (as @ bs)"
| flushed: "obs_reach lo line_len P s pend \<Longrightarrow> obs_reach lo line_len P (obs_flush lo line_len ev s) pend"
| deleted: "obs_reach lo line_len P s pend \<Longrightarrow> p \<in> P \<Longrightarrow> p \<notin> ob_Project ` set pend \<Longrightarrow>
    obs_reach lo line_len P (DeleteProject lo line_len ev ok p s) pend"
| closed: "obs_reach lo line_len P s pend \<Longrightarrow> obs_reach lo line_len P (Close_store lo line_len ev s) pend"
| crashed: "obs_reach lo line_len P s pend \<Longrightarrow> obs_reach lo line_len P (restart s) []"

definition obs_inv :: "(nat \<Rightarrow> nat) \<Rightarrow> string set \<Rightarrow> obs_store \<Rightarrow> obs_entry list \<Rightarrow> bool" where
  "obs_inv lo P s pend \<longleftrightarrow> obs_ok lo P s \<and> ob_Project ` set (os_queue s @ pend) \<subseteq> P \<and> (\<forall>p \<in> P. numbered_ok lo p s pend)"

lemma of_project_simps [simp]:
  "of_project p [] = {#}" "of_project p (es @ fs) = of_project p es + of_project p fs"
  "of_project p (e # es) = line_of p e + of_project p es"
  by (simp_all add: of_project_def line_of_def)

lemma held_same:
  assumes "os_names s' = os_names s" "os_nodes s' = os_nodes s" "os_handles s' = os_handles s"
  shows "held lo q s' = held lo q s" "obs_wf lo P s' = obs_wf lo P s" "obs_ok lo P s' = obs_ok lo P s"
  using assms by (simp_all add: held_def stored_def entries_at_def node_at_def buffered_def
      obs_wf_def obs_ok_def broken_empty_def pending_bufs_def)

lemma stamp_inv:
  assumes "obs_inv lo P s pend" "ob_Project e \<in> P" "scannable s"
    "counter lo (ob_Project e) s \<in> {0..<2 ^ 63 - 1}" "stamp lo e s = (e', s')"
  shows "obs_inv lo P s' (pend @ [e'])"
proof -
  let ?p = "ob_Project e" and ?n = "counter lo (ob_Project e) s + 1"
  have wrap: "wrap64 ?n = ?n" using assms(4) by simp
  have e': "ob_Project e' = ?p" "ob_Seq e' = ?n"
    and s': "s' = s\<lparr>os_seq := AList.update ?p ?n (os_seq s)\<rparr>"
    using assms(5) wrap by (auto simp: stamp_def Let_def)
  have "obs_ok lo P s' = obs_ok lo P s" by (rule held_same(3)) (simp_all add: s')
  then have ok: "obs_ok lo P s'" using assms(1) by (simp add: obs_inv_def)
  have held: "held lo q s' = held lo q s" for q
    by (rule held_same(1)) (simp_all add: s')
  have total: "total_of lo q s' (pend @ [e']) = total_of lo q s pend + line_of q e'" for q
    unfolding total_of_def held by (simp add: s')
  have below: "ob_Seq x < ?n" if x: "x \<in># total_of lo ?p s pend" for x
  proof (cases "map_of (os_seq s) ?p")
    case (Some n)
    then show ?thesis using assms(1,2) x by (auto simp: obs_inv_def numbered_ok_def counter_def)
  next
    case None
    then have "x \<in># held lo ?p s" using assms(1,2) x by (auto simp: obs_inv_def numbered_ok_def total_of_def)
    moreover have "buffered ?p s = []"
      using assms(1) by (auto simp: obs_inv_def obs_ok_def pending_bufs_def buffered_def List.map_filter_simps(2) split: option.splits)
    ultimately have "x \<in> set (stored lo ?p s)" by (simp add: held_def)
    moreover have "obs_wf lo P s" using assms(1) by (simp add: obs_inv_def obs_ok_def)
    ultimately have "x \<in> set (scan_at s (old_name lo ?p) @ scan_at s (log_name lo ?p))"
      using scan_entries [OF _ assms(3)] by (simp add: stored_def)
    then show ?thesis using max_seq_ge by (auto simp: counter_def None maxSeq_def)
  qed
  have "numbered_ok lo q s' (pend @ [e'])" if q: "q \<in> P" for q
  proof (cases "q = ?p")
    case False
    have l: "line_of q e' = {#}" using False by (simp add: line_of_def e')
    have m: "map_of (os_seq s') q = map_of (os_seq s) q" "os_queue s' = os_queue s"
      using False by (simp_all add: s' update_conv')
    have "numbered_ok lo q s' (pend @ [e']) = numbered_ok lo q s pend"
      by (simp add: numbered_ok_def total m l split: option.split)
    then show ?thesis using assms(1) q by (simp add: obs_inv_def)
  next
    case True
    have "once (total_of lo ?p s pend)" using assms(1,2) by (simp add: obs_inv_def numbered_ok_def)
    moreover have "?n \<notin># image_mset ob_Seq (total_of lo ?p s pend)" by (auto dest!: below)
    ultimately have "once (total_of lo ?p s' (pend @ [e']))"
      unfolding total line_of_def using once_add [of "total_of lo ?p s pend" e'] by (simp add: e')
    moreover have "map_of (os_seq s') ?p = Some ?n" by (simp add: s' update_conv')
    moreover have "\<forall>x \<in># total_of lo ?p s' (pend @ [e']). ob_Seq x \<le> ?n"
      unfolding total by (auto simp: line_of_def e' dest!: below)
    ultimately show ?thesis using True by (simp add: numbered_ok_def)
  qed
  moreover have "ob_Project ` set (os_queue s' @ pend @ [e']) \<subseteq> P" using assms(1,2) by (auto simp: obs_inv_def s' e')
  ultimately show ?thesis using ok by (simp add: obs_inv_def)
qed

text \<open>Taking away names and handles only takes entries away.\<close>

lemma held_shrinks:
  assumes "map_of (os_names s') \<subseteq>\<^sub>m map_of (os_names s)" "os_nodes s' = os_nodes s"
    "map_of (os_handles s') \<subseteq>\<^sub>m map_of (os_handles s)"
  shows "held lo q s' \<subseteq># held lo q s"
proof -
  have n: "entries_at s' n = [] \<or> entries_at s' n = entries_at s n" for n
  proof (cases "map_of (os_names s') n")
    case None
    then show ?thesis by (simp add: entries_at_def node_at_def)
  next
    case (Some i)
    then have "map_of (os_names s) n = Some i" using assms(1) by (metis domI map_le_def)
    then show ?thesis using Some assms(2) by (simp add: entries_at_def node_at_def)
  qed
  have b: "buffered q s' = [] \<or> buffered q s' = buffered q s"
  proof (cases "map_of (os_handles s') q")
    case None
    then show ?thesis by (simp add: buffered_def)
  next
    case (Some h)
    then have "map_of (os_handles s) q = Some h" using assms(3) by (metis domI map_le_def)
    then show ?thesis using Some by (simp add: buffered_def)
  qed
  show ?thesis using n [of "old_name lo q"] n [of "log_name lo q"] b
    by (auto simp: held_def stored_def add_ac intro: subset_mset.add_mono)
qed

lemma flush_inv:
  assumes "apart lo P" "obs_inv lo P s pend"
  shows "obs_inv lo P (obs_flush lo line_len ev s) pend"
proof -
  have inv: "obs_ok lo P s" "ob_Project ` set (os_queue s) \<subseteq> P" "ob_Project ` set pend \<subseteq> P"
    and num: "\<And>q. q \<in> P \<Longrightarrow> numbered_ok lo q s pend" using assms(2) by (auto simp: obs_inv_def)
  note f = obs_flush_keeps [OF assms(1) inv(1,2), where line_len = line_len and ev = ev]
  have "numbered_ok lo q (obs_flush lo line_len ev s) pend" if q: "q \<in> P" for q
  proof (rule numbered_sub [OF num [OF q]])
    show "total_of lo q (obs_flush lo line_len ev s) pend \<subseteq># total_of lo q s pend"
      using f(2) [OF q] by (simp add: total_of_def add.assoc [symmetric])
    show "of_project q (os_queue (obs_flush lo line_len ev s) @ pend) = {#}"
      if "map_of (os_seq (obs_flush lo line_len ev s)) q = None"
      using that num [OF q] by (simp add: numbered_ok_def)
  qed simp
  then show ?thesis using f(1) inv(3) by (simp add: obs_inv_def)
qed

lemma shrink_inv:
  assumes "obs_inv lo P s pend" "obs_ok lo P s'"
    "map_of (os_names s') \<subseteq>\<^sub>m map_of (os_names s)" "os_nodes s' = os_nodes s"
    "map_of (os_handles s') \<subseteq>\<^sub>m map_of (os_handles s)"
    "of_project q (os_queue s' @ pend') \<subseteq># of_project q (os_queue s @ pend)"
    "map_of (os_seq s') q = map_of (os_seq s) q \<or> map_of (os_seq s') q = None \<and> of_project q (os_queue s' @ pend') = {#}"
    "q \<in> P"
  shows "numbered_ok lo q s' pend'"
proof (rule numbered_sub)
  show "numbered_ok lo q s pend" using assms(1,8) by (simp add: obs_inv_def)
  then show "of_project q (os_queue s' @ pend') = {#}" if "map_of (os_seq s') q = None"
    using that assms(6,7) by (auto simp: numbered_ok_def)
  show "total_of lo q s' pend' \<subseteq># total_of lo q s pend"
    unfolding total_of_def by (rule subset_mset.add_mono [OF held_shrinks [OF assms(3-5)] assms(6)])
  show "map_of (os_seq s') q = map_of (os_seq s) q \<or> map_of (os_seq s') q = None"
    using assms(7) by (elim disjE) simp_all
qed

lemma map_le_delete [intro]: "map_of xs \<subseteq>\<^sub>m m \<Longrightarrow> map_of (AList.delete k xs) \<subseteq>\<^sub>m m"
  by (auto simp: map_le_def AList.delete_conv' domI)

lemma enqueue_inv:
  assumes "obs_inv lo P s (as @ e # bs)"
  shows "obs_inv lo P (enqueue e s) (as @ bs)"
proof -
  have ok: "obs_ok lo P (enqueue e s)"
    using assms held_same(3) [of "enqueue e s" s] by (simp add: obs_inv_def enqueue_def drop_line_def)
  have "numbered_ok lo q (enqueue e s) (as @ bs)" if "q \<in> P" for q
    by (rule shrink_inv [OF assms ok _ _ _ _ _ that]) (simp_all add: enqueue_def drop_line_def add_ac)
  then show ?thesis using ok assms by (auto simp: obs_inv_def enqueue_def drop_line_def)
qed

lemma delete_inv:
  assumes "apart lo P" "obs_inv lo P s pend" "p \<in> P" "p \<notin> ob_Project ` set pend"
  shows "obs_inv lo P (DeleteProject lo line_len ev ok p s) pend"
proof -
  define s1 where "s1 = obs_flush lo line_len ev s"
  let ?s = "DeleteProject lo line_len ev ok p s"
  have i: "obs_inv lo P s1 pend" unfolding s1_def by (rule flush_inv [OF assms(1,2)])
  then have wf: "obs_wf lo P s1" and ok1: "broken_empty s1" "pending_bufs s1 = {}" by (simp_all add: obs_inv_def obs_ok_def)
  have s: "os_nodes ?s = os_nodes s1" "os_handles ?s = AList.delete p (os_handles s1)" "os_queue ?s = os_queue s1"
      "os_seq ?s = AList.delete p (os_seq s1)"
    by (simp_all add: DeleteProject_def Let_def s1_def [symmetric])
  have le: "map_of (os_names ?s) \<subseteq>\<^sub>m map_of (os_names s1)"
    by (simp add: DeleteProject_def Let_def s1_def [symmetric] map_le_delete)
  have keep: "map_of (os_names ?s) (log_name lo q) = map_of (os_names s1) (log_name lo q)" if "q \<noteq> p" "q \<in> P" for q
    using apartD [OF assms(1) that(2) assms(3)] that(1)
    by (simp add: DeleteProject_def Let_def s1_def [symmetric] AList.delete_conv')
  have "obs_wf lo P ?s"
    unfolding obs_wf_def
  proof (intro conjI allI impI)
    show "i < length (os_nodes ?s)" if "map_of (os_names ?s) n = Some i" for n i
      using obs_wfD(1) [OF wf] that le s(1) by (metis domI map_le_def)
    show "n = m" if "map_of (os_names ?s) n = Some i" "map_of (os_names ?s) m = Some i" for n m i
      using obs_wfD(2) [OF wf] that le by (metis domI map_le_def)
    fix q h assume h: "map_of (os_handles ?s) q = Some h"
    then have q: "q \<noteq> p" "map_of (os_handles s1) q = Some h" by (auto simp: s AList.delete_conv' split: if_splits)
    show P: "q \<in> P" by (rule obs_wfD(3) [OF wf q(2)])
    show "map_of (os_names ?s) (log_name lo q) = Some (oh_node h)"
      using keep [OF q(1) P] obs_wfD(4) [OF wf q(2)] by simp
  qed
  moreover have "broken_empty ?s" by (rule broken_empty_delete [OF ok1(1) s(2)])
  moreover have "pending_bufs ?s = {}" using ok1(2) by (auto simp: pending_bufs_def s AList.delete_conv' split: if_splits)
  ultimately have ok: "obs_ok lo P ?s" by (simp add: obs_ok_def)
  have "numbered_ok lo q ?s pend" if q: "q \<in> P" for q
  proof (rule shrink_inv [OF i ok le s(1) _ _ _ q])
    show "map_of (os_handles ?s) \<subseteq>\<^sub>m map_of (os_handles s1)" by (simp add: s map_le_delete)
    show "of_project q (os_queue ?s @ pend) \<subseteq># of_project q (os_queue s1 @ pend)" by (simp add: s)
    have "of_project p pend = {#}" using assms(4) by (auto simp: of_project_def filter_empty_conv)
    then show "map_of (os_seq ?s) q = map_of (os_seq s1) q \<or>
        map_of (os_seq ?s) q = None \<and> of_project q (os_queue ?s @ pend) = {#}"
      by (simp add: s AList.delete_conv' s1_def)
  qed
  then show ?thesis using ok i by (simp add: obs_inv_def s)
qed

lemma forget_inv:
  assumes "obs_inv lo P s pend" "os_names s' = os_names s" "os_nodes s' = os_nodes s" "os_handles s' = []"
    "os_queue s' = []" "os_queue s = [] \<and> os_seq s' = os_seq s \<and> pend' = pend \<or> os_seq s' = [] \<and> pend' = []"
  shows "obs_inv lo P s' pend'"
proof -
  have ok: "obs_ok lo P s'" using assms(1-4)
    by (simp add: obs_inv_def obs_ok_def obs_wf_def broken_empty_def pending_bufs_def)
  have "numbered_ok lo q s' pend'" if q: "q \<in> P" for q
    by (rule shrink_inv [OF assms(1) ok _ _ _ _ _ q]) (use assms(2-6) in \<open>auto simp: map_le_def\<close>)
  then show ?thesis using ok assms(1,5,6) by (auto simp: obs_inv_def)
qed

lemma obs_reach_inv: "obs_reach lo line_len P s pend \<Longrightarrow> apart lo P \<Longrightarrow> obs_inv lo P s pend"
proof (induction rule: obs_reach.induct)
  case start
  then show ?case
    by (simp add: obs_inv_def obs_ok_def obs_wf_def broken_empty_def pending_bufs_def NewStore_def numbered_ok_def
        once_def total_of_def held_def stored_def entries_at_def node_at_def buffered_def)
next
  case (stamped s pend e e' s')
  then show ?case using stamp_inv by blast
next
  case (offered s as e bs)
  then show ?case using enqueue_inv by blast
next
  case (flushed s pend ev)
  then show ?case using flush_inv by blast
next
  case (deleted s pend p ev ok)
  then show ?case using delete_inv by blast
next
  case (closed s pend ev)
  then have "obs_inv lo P (obs_flush lo line_len ev s) pend" using flush_inv by blast
  then show ?case by (rule forget_inv) (simp_all add: Close_store_def)
next
  case (crashed s pend)
  from crashed.IH [OF crashed.prems] show ?case by (rule forget_inv) (simp_all add: restart_def NewStore_def)
qed

section \<open>Tails\<close>

lemma scan_sub: "mset (scan f) \<subseteq># mset (entries f)"
proof -
  have "lf_lines f = takeWhile (\<lambda>l. ln_len l < scan_limit) (lf_lines f) @ dropWhile (\<lambda>l. ln_len l < scan_limit) (lf_lines f)"
    by simp
  then have "entries f = scan f @ List.map_filter ln_entry (dropWhile (\<lambda>l. ln_len l < scan_limit) (lf_lines f))"
    unfolding entries_def scan_def by (metis map_filter_append)
  then show ?thesis by simp
qed

lemma scanned_sub: "mset (scan_at s (old_name lo p) @ scan_at s (log_name lo p)) \<subseteq># held lo p s"
proof -
  have "mset (scan_at s n) \<subseteq># mset (entries_at s n)" for n
    using scan_sub by (simp add: scan_at_def entries_at_def split: option.split)
  then have "mset (scan_at s (old_name lo p) @ scan_at s (log_name lo p)) \<subseteq># mset (stored lo p s)"
    by (simp add: stored_def subset_mset.add_mono)
  then show ?thesis by (simp add: held_def subset_mset.add_increasing2)
qed

lemma once_distinct: "once T \<Longrightarrow> mset es \<subseteq># T \<Longrightarrow> distinct (map ob_Seq es)"
proof -
  assume "once T" "mset es \<subseteq># T"
  then have "once (mset es)" by (rule once_sub)
  then have le: "count (mset (map ob_Seq es)) n \<le> 1" for n by (simp add: once_def)
  have "count (mset (map ob_Seq es)) n = (if n \<in> set (map ob_Seq es) then 1 else 0)" for n
  proof (cases "n \<in> set (map ob_Seq es)")
    case True
    then have "count (mset (map ob_Seq es)) n \<noteq> 0" by (simp only: count_mset_0_iff not_not)
    then show ?thesis using le [of n] True by (simp only: if_True)
  next
    case False
    then have "count (mset (map ob_Seq es)) n = 0" by (simp only: count_mset_0_iff not_False_eq_True)
    then show ?thesis using False by (simp only: if_False)
  qed
  then show ?thesis using distinct_count_atmost_1 by blast
qed

definition by_seq :: "obs_entry list \<Rightarrow> bool" where
  "by_seq es \<longleftrightarrow> sorted_wrt (<) (map ob_Seq es)"

lemma by_seq_filter [intro]: "by_seq es \<Longrightarrow> by_seq (filter P es)"
  by (simp add: by_seq_def sorted_wrt_map sorted_wrt_filter)

lemma by_seq_append: "by_seq (xs @ ys) \<Longrightarrow> \<forall>x \<in> set xs. \<forall>y \<in> set ys. ob_Seq x < ob_Seq y"
  by (simp add: by_seq_def sorted_wrt_append)

lemma by_seq_cursor: "by_seq es \<Longrightarrow> by_seq (cursor after before n es)"
proof -
  have drop: "by_seq xs \<Longrightarrow> by_seq (drop k xs)" and take: "by_seq xs \<Longrightarrow> by_seq (take k xs)" for k xs
    by (simp_all add: by_seq_def sorted_wrt_drop sorted_wrt_take flip: drop_map take_map)
  assume "by_seq es"
  then show ?thesis by (auto simp: cursor_def last_n_def intro: drop take)
qed

lemma cursor_after:
  assumes "by_seq es" "before \<le> 0" "0 < after" "e \<in> set es" "after < ob_Seq e"
  shows "e \<in> set (cursor after before n es) \<or>
    length (cursor after before n es) = n \<and> (\<forall>x \<in> set (cursor after before n es). ob_Seq x < ob_Seq e)"
proof (cases "e \<in> set (cursor after before n es)")
  case False
  let ?xs = "filter (\<lambda>e. after < ob_Seq e) es"
  have c: "cursor after before n es = take n ?xs" using assms(2,3) by (simp add: cursor_def)
  have "e \<in> set ?xs" using assms(4,5) by simp
  then have d: "e \<in> set (drop n ?xs)" using False c by (metis UnE append_take_drop_id set_append)
  then have "n < length ?xs" by (metis drop_all empty_iff empty_set not_less)
  moreover have "by_seq (take n ?xs @ drop n ?xs)" unfolding append_take_drop_id using assms(1) by blast
  then have "\<forall>x \<in> set (take n ?xs). \<forall>y \<in> set (drop n ?xs). ob_Seq x < ob_Seq y" by (rule by_seq_append)
  ultimately show ?thesis using d c by simp
qed simp

lemma reach_scanned:
  assumes "apart lo P" "obs_reach lo line_len P s pend" "p \<in> P"
  shows "by_seq (sort_key ob_Seq (filter Q (scan_at s (old_name lo p) @ scan_at s (log_name lo p))))"
proof -
  let ?es = "scan_at s (old_name lo p) @ scan_at s (log_name lo p)"
  have "once (total_of lo p s pend)" using obs_reach_inv [OF assms(2,1)] assms(3) by (simp add: obs_inv_def numbered_ok_def)
  moreover have "mset ?es \<subseteq># total_of lo p s pend"
    using scanned_sub by (simp add: total_of_def subset_mset.add_increasing2 del: mset_append)
  ultimately have "distinct (map ob_Seq ?es)" by (rule once_distinct)
  then have "distinct (map ob_Seq (filter Q ?es))" using distinct_map_filter by blast
  then show ?thesis by (simp add: by_seq_def sort_key_strict)
qed


text \<open>Two lines of one project, appended and flushed without a failure.\<close>

definition plain_line :: "string \<Rightarrow> obs_entry" where
  "plain_line msg = \<lparr>ob_TS = 0, ob_Seq = 0, ob_Project = ''p'', ob_Trace = ''none'', ob_Source = ''server'',
     ob_Level = ''info'', ob_Type = ''http.request'', ob_Msg = msg, ob_Attrs = ''null''\<rparr>"

definition no_filter :: obs_filter where
  "no_filter = \<lparr>of_level = [], of_source = [], of_type = [], of_trace = [], of_q = []\<rparr>"

definition no_failure :: flush_env where
  "no_failure = \<lparr>fe_write = (\<lambda>_. Buffered), fe_flush = (\<lambda>_. Flushed), fe_rotate = (\<lambda>_. (True, True))\<rparr>"

definition two_lines :: obs_store where
  "two_lines = snd (obs_append (\<lambda>c. c) (plain_line ''b'') (snd (obs_append (\<lambda>c. c) (plain_line ''a'') (NewStore [] []))))"

lemma append_reach:
  assumes "obs_reach lo line_len P s []" "ob_Project e \<in> P" "scannable s" "counter lo (ob_Project e) s \<in> {0..<2 ^ 63 - 1}"
  shows "obs_reach lo line_len P (snd (obs_append lo e s)) []"
proof -
  obtain e' s' where st: "stamp lo e s = (e', s')" by fastforce
  from obs_reach.stamped [OF assms st] have "obs_reach lo line_len P s' ([] @ e' # [])" by simp
  from obs_reach.offered [OF this] show ?thesis by (simp add: obs_append_def st)
qed

lemma plain_names:
  "log_name (\<lambda>c. c) ''p'' = ''p.log.jsonl''" "old_name (\<lambda>c. c) ''p'' = ''p.log.jsonl.1''"
  "json_clean ''none'' = ''none''" "json_clean ''a'' = ''a''" "json_clean ''b'' = ''b''" "to_lower (\<lambda>c. c) [] = []"
  by code_simp+

lemmas plain_append = obs_append_def stamp_def enqueue_def plain_line_def plain_names counter_def maxSeq_def scan_at_def
  node_at_def NewStore_def max_seq_def chanCap_def two_lines_def Let_def

lemmas plain_flush = obs_flush_def write_item_def openLocked_def set_handle_def on_node_def flush_handle_def put_lines_def
  file_size_def no_failure_def MaxFile_def spill_def put_piece_def drop_line_def scan_def scan_limit_def List.map_filter_simps

lemmas plain_read = obs_Read_def obs_match_def no_filter_def cursor_def last_n_def read_limit_def

lemma two_lines_reach: "obs_reach (\<lambda>c. c) line_len {''p''} two_lines []"
proof -
  let ?s = "snd (obs_append (\<lambda>c. c) (plain_line ''a'') (NewStore [] []))"
  have "scannable (NewStore [] [])" "counter (\<lambda>c. c) (ob_Project (plain_line ''a'')) (NewStore [] []) = 0"
    "scannable ?s" "counter (\<lambda>c. c) (ob_Project (plain_line ''b'')) ?s = 1"
    by (simp_all add: plain_append scannable_def)
  then show ?thesis unfolding two_lines_def
    by (intro append_reach obs_reach.start) (simp_all add: plain_line_def)
qed


section \<open>What can go missing\<close>

text \<open>
  After one failed write of its file a project's log takes no more lines: the buffered writer keeps its
  error, every further line is dropped, and as only projects that got a line are looked at, the handle is
  neither renewed nor rotated.
\<close>

lemma dead_log_items:
  "map_of (os_handles s) p = Some h \<Longrightarrow> oh_broken h \<Longrightarrow> ob_Project ` set es \<subseteq> {p} \<Longrightarrow>
    write_items lo line_len ev k es (seen, s) = (seen, s\<lparr>os_dropped := os_dropped s + length es\<rparr>)"
proof (induction es arbitrary: k s)
  case (Cons e es)
  have "write_item lo line_len (fe_write ev k) e s = (False, drop_line s)"
    using Cons.prems by (simp add: write_item_def openLocked_def Let_def)
  moreover have "map_of (os_handles (drop_line s)) p = Some h" using Cons.prems(1) by (simp add: drop_line_def)
  ultimately show ?case using Cons.IH [of "drop_line s" "Suc k"] Cons.prems(2,3) by (simp add: drop_line_def)
qed simp

theorem dead_log_stays:
  assumes "map_of (os_handles s) p = Some h" "oh_broken h" "ob_Project ` set (os_queue s) \<subseteq> {p}"
  shows "obs_flush lo line_len ev s = s\<lparr>os_queue := [], os_dropped := os_dropped s + length (os_queue s)\<rparr>"
  using dead_log_items [of "s\<lparr>os_queue := []\<rparr>" p h "os_queue s" lo line_len ev 0 "[]"] assms
  by (simp add: obs_flush_def)

text \<open>Lines lost in the flush at the end of a cycle are not counted as dropped.\<close>

lemma lost_uncounted:
  "let s = obs_flush (\<lambda>c. c) (\<lambda>_. 100) (no_failure\<lparr>fe_flush := (\<lambda>_. Stops 0 None)\<rparr>) two_lines
   in os_dropped s = 0 \<and> scan_at s (log_name (\<lambda>c. c) ''p'') = [] \<and> os_queue s = []"
  by (simp add: plain_append plain_flush)

text \<open>
  A line that got its number before another but is queued after it, with a read in between, is behind the
  cursor that read returned: the next tail passes over it.
\<close>

lemma late_first_read:
  "obs_Read (\<lambda>c. c) (\<lambda>_. 100) no_failure ''p'' 0 0 200 no_filter
      (enqueue (plain_line ''b''\<lparr>ob_Seq := 2\<rparr>) ((NewStore [] [])\<lparr>os_seq := [(''p'', 2)]\<rparr>)) =
    (([plain_line ''b''\<lparr>ob_Seq := 2\<rparr>], 2, 2),
     \<lparr>os_names = [(''p.log.jsonl'', 0)],
      os_nodes = [\<lparr>lf_lines = [\<lparr>ln_entry = Some (plain_line ''b''\<lparr>ob_Seq := 2\<rparr>), ln_len = 100\<rparr>], lf_torn = False\<rparr>],
      os_handles = [(''p'', \<lparr>oh_node = 0, oh_buf = [], oh_size = 101, oh_broken = False\<rparr>)],
      os_seq = [(''p'', 2)], os_queue = [], os_dropped = 0, os_errs = []\<rparr>)"
  by (simp add: plain_append plain_flush plain_read)

lemma late_stamps:
  "stamp (\<lambda>c. c) (plain_line ''a'') (NewStore [] []) =
    (plain_line ''a''\<lparr>ob_Seq := 1\<rparr>, (NewStore [] [])\<lparr>os_seq := [(''p'', 1)]\<rparr>)"
  "stamp (\<lambda>c. c) (plain_line ''b'') ((NewStore [] [])\<lparr>os_seq := [(''p'', 1)]\<rparr>) =
    (plain_line ''b''\<lparr>ob_Seq := 2\<rparr>, (NewStore [] [])\<lparr>os_seq := [(''p'', 2)]\<rparr>)"
  by (simp_all add: plain_append)

lemma late_line_is_skipped:
  "let (e1, s1) = stamp (\<lambda>c. c) (plain_line ''a'') (NewStore [] []);
       (e2, s2) = stamp (\<lambda>c. c) (plain_line ''b'') s1;
       ((r1, _, cur), s3) = obs_Read (\<lambda>c. c) (\<lambda>_. 100) no_failure ''p'' 0 0 200 no_filter (enqueue e2 s2);
       ((r2, _), s4) = obs_Read (\<lambda>c. c) (\<lambda>_. 100) no_failure ''p'' cur 0 200 no_filter (enqueue e1 s3)
   in map ob_Seq r1 = [2] \<and> cur = 2 \<and> r2 = [] \<and> map ob_Seq (scan_at s4 (log_name (\<lambda>c. c) ''p'')) = [2, 1]"
  unfolding late_stamps Let_def prod.case late_first_read
  by (simp add: plain_append plain_flush plain_read)

text \<open>A line too long for the scanner hides all that follow it.\<close>

lemma long_line_hides:
  "scan_limit \<le> ln_len l \<Longrightarrow>
    scan \<lparr>lf_lines = before @ l # later, lf_torn = t\<rparr> = scan \<lparr>lf_lines = before, lf_torn = t\<rparr>"
  by (simp add: scan_def takeWhile_append takeWhile_eq_all_conv [THEN iffD2])

text \<open>The text \<open>null\<close>, the printed form of no attributes, is found in every line without attributes.\<close>

lemma null_matches_all:
  assumes "ob_Attrs e = ''null''"
  shows "obs_match lo (no_filter\<lparr>of_q := to_lower lo ''null''\<rparr>) e"
proof -
  have "sublist q (h @ '' '' @ q)" for q h :: string
    using sublist_appendI [of q "h @ '' ''" "[]"] by simp
  then have c: "contains (h @ '' '' @ q) q" for q h by (simp only: contains_sublist)
  show ?thesis unfolding obs_match_def no_filter_def Let_def assms using c [of _ "to_lower lo ''null''"] by simp
qed

end
