(* ===== verification/ProjectStore.thy ===== *)
theory ProjectStore
  imports State
begin

text \<open>
  server/internal/project/project.go: the project records over the state document. Every
  operation is the function the code hands to \<open>Mutate\<close> (or \<open>View\<close>) and the transaction
  around it.
\<close>

datatype store_error = ProjectNotExist string

type_synonym 'a stored = "(store_error mutate_error + 'a) \<times> store"

record entry =
  en_id :: string
  en_harnesses :: "string list"

abbreviation projects_of :: "store \<Rightarrow> (string \<times> project) list" where
  "projects_of s \<equiv> doc_projects (view s)"

definition put_project :: "string \<Rightarrow> project \<Rightarrow> document \<Rightarrow> document" where
  "put_project pid p doc = doc\<lparr>doc_projects := AList.update pid p (doc_projects doc)\<rparr>"

definition ps_create :: "io \<Rightarrow> string \<Rightarrow> project \<Rightarrow> store \<Rightarrow> unit stored" where
  "ps_create out pid p = mutate out (\<lambda>doc. Inr (put_project pid p doc, ()))"

definition ps_get :: "string \<Rightarrow> store \<Rightarrow> store_error + project" where
  "ps_get pid s = (case map_of (projects_of s) pid of None \<Rightarrow> Inl (ProjectNotExist pid) | Some p \<Rightarrow> Inr p)"

definition ps_update :: "io \<Rightarrow> string \<Rightarrow> project \<Rightarrow> store \<Rightarrow> unit stored" where
  "ps_update out pid p = mutate out (\<lambda>doc.
     case map_of (doc_projects doc) pid of
       None \<Rightarrow> Inl (ProjectNotExist pid)
     | Some _ \<Rightarrow> Inr (put_project pid p doc, ()))"

definition ps_delete :: "io \<Rightarrow> string \<Rightarrow> store \<Rightarrow> unit stored" where
  "ps_delete out pid = mutate out (\<lambda>doc.
     Inr (doc\<lparr>doc_projects := AList.delete pid (doc_projects doc)\<rparr>, ()))"

text \<open>The three install-state writers share \<open>updateProject\<close>.\<close>

definition update_fn :: "string \<Rightarrow> (project \<Rightarrow> project) \<Rightarrow> document \<Rightarrow> store_error + document \<times> unit" where
  "update_fn pid fn doc =
     (case map_of (doc_projects doc) pid of
        None \<Rightarrow> Inl (ProjectNotExist pid)
      | Some p \<Rightarrow> Inr (put_project pid (fn p) doc, ()))"

definition updateProject :: "io \<Rightarrow> string \<Rightarrow> (project \<Rightarrow> project) \<Rightarrow> store \<Rightarrow> unit stored" where
  "updateProject out pid fn = mutate out (update_fn pid fn)"

text \<open>Reading a Go map at an absent key gives the zero value, here the empty string.\<close>

definition status_of :: "string \<Rightarrow> project \<Rightarrow> harness_status" where
  "status_of hid p = (case map_of (pr_harnesses p) hid of None \<Rightarrow> [] | Some st \<Rightarrow> st)"

definition set_installed :: "string \<Rightarrow> project \<Rightarrow> project" where
  "set_installed hid p = p\<lparr>pr_harnesses := AList.update hid HarnessInstalled (pr_harnesses p)\<rparr>"

definition set_installing :: "string \<Rightarrow> project \<Rightarrow> project" where
  "set_installing hid p =
     (if status_of hid p \<noteq> HarnessInstalled
      then p\<lparr>pr_harnesses := AList.update hid HarnessInstalling (pr_harnesses p)\<rparr> else p)"

definition clear_installing :: "string \<Rightarrow> project \<Rightarrow> project" where
  "clear_installing hid p =
     (if status_of hid p = HarnessInstalling
      then p\<lparr>pr_harnesses := AList.delete hid (pr_harnesses p)\<rparr> else p)"

definition clear_all_installing :: "project \<Rightarrow> project" where
  "clear_all_installing p =
     p\<lparr>pr_harnesses := filter (\<lambda>(hid, st). st \<noteq> HarnessInstalling) (pr_harnesses p)\<rparr>"

definition RecordInstall :: "io \<Rightarrow> string \<Rightarrow> string \<Rightarrow> store \<Rightarrow> unit stored" where
  "RecordInstall out pid hid = updateProject out pid (set_installed hid)"

definition RecordInstalling :: "io \<Rightarrow> string \<Rightarrow> string \<Rightarrow> store \<Rightarrow> unit stored" where
  "RecordInstalling out pid hid = updateProject out pid (set_installing hid)"

definition ClearInstalling :: "io \<Rightarrow> string \<Rightarrow> string \<Rightarrow> store \<Rightarrow> unit stored" where
  "ClearInstalling out pid hid = updateProject out pid (clear_installing hid)"

definition ClearAllInstalling :: "io \<Rightarrow> store \<Rightarrow> unit stored" where
  "ClearAllInstalling out = mutate out (\<lambda>doc.
     Inr (doc\<lparr>doc_projects := map (\<lambda>(pid, p). (pid, clear_all_installing p)) (doc_projects doc)\<rparr>, ()))"

definition HarnessStates :: "string \<Rightarrow> store \<Rightarrow> store_error + (string \<times> harness_status) list" where
  "HarnessStates pid s =
     (case map_of (projects_of s) pid of
        None \<Rightarrow> Inl (ProjectNotExist pid) | Some p \<Rightarrow> Inr (pr_harnesses p))"

definition InstalledIDs :: "project \<Rightarrow> string list" where
  "InstalledIDs p = sort (map fst (filter (\<lambda>(hid, st). st = HarnessInstalled) (pr_harnesses p)))"

definition ps_list :: "store \<Rightarrow> entry list" where
  "ps_list s =
     sort_key en_id (map (\<lambda>(pid, p). \<lparr>en_id = pid, en_harnesses = InstalledIDs p\<rparr>) (projects_of s))"

definition RecordSession :: "io \<Rightarrow> string \<Rightarrow> string \<Rightarrow> string \<Rightarrow> store \<Rightarrow> unit stored" where
  "RecordSession out pid name hid = mutate out (update_fn pid (\<lambda>p.
     p\<lparr>pr_sessions := AList.update name \<lparr>sm_harness = hid\<rparr> (pr_sessions p)\<rparr>))"

definition GetSession :: "string \<Rightarrow> string \<Rightarrow> store \<Rightarrow> session_meta option" where
  "GetSession pid name s =
     (case map_of (projects_of s) pid of None \<Rightarrow> None | Some p \<Rightarrow> map_of (pr_sessions p) name)"

text \<open>Removing the session of an unknown project is no error: the document is saved as it is.\<close>

definition RemoveSession :: "io \<Rightarrow> string \<Rightarrow> string \<Rightarrow> store \<Rightarrow> unit stored" where
  "RemoveSession out pid name = mutate out (\<lambda>doc.
     case map_of (doc_projects doc) pid of
       None \<Rightarrow> Inr (doc, ())
     | Some p \<Rightarrow> Inr (put_project pid (p\<lparr>pr_sessions := AList.delete name (pr_sessions p)\<rparr>) doc, ()))"


section \<open>Install marks\<close>

definition mark :: "string \<Rightarrow> string \<Rightarrow> document \<Rightarrow> harness_status option" where
  "mark pid hid doc =
     (case map_of (doc_projects doc) pid of None \<Rightarrow> None | Some p \<Rightarrow> map_of (pr_harnesses p) hid)"

lemma status_of_mark: "map_of (doc_projects doc) pid = Some p \<Longrightarrow>
    status_of hid p = (case mark pid hid doc of None \<Rightarrow> [] | Some st \<Rightarrow> st)"
  by (simp add: status_of_def mark_def)

lemma map_of_put_project [simp]:
  "map_of (doc_projects (put_project pid p doc)) = (map_of (doc_projects doc))(pid \<mapsto> p)"
  by (simp add: put_project_def update_conv')

lemma update_fn_mark:
  "update_fn pid fn doc = Inr (doc', u) \<Longrightarrow>
     (\<exists>p. map_of (doc_projects doc) pid = Some p \<and> mark pid' hid doc' =
        (if pid' = pid then map_of (pr_harnesses (fn p)) hid else mark pid' hid doc))"
  by (auto simp: update_fn_def mark_def split: option.splits)

lemma map_of_set_installed:
  "map_of (pr_harnesses (set_installed h p)) = (map_of (pr_harnesses p))(h \<mapsto> HarnessInstalled)"
  by (simp add: set_installed_def update_conv')

lemma map_of_set_installing:
  "map_of (pr_harnesses (set_installing h p)) =
     (if map_of (pr_harnesses p) h = Some HarnessInstalled then map_of (pr_harnesses p)
      else (map_of (pr_harnesses p))(h \<mapsto> HarnessInstalling))"
  by (auto simp: set_installing_def update_conv' status_of_def harness_status_distinct(3) [symmetric]
      split: option.splits)

lemma map_of_clear_installing:
  "map_of (pr_harnesses (clear_installing h p)) =
     (if map_of (pr_harnesses p) h = Some HarnessInstalling
      then (map_of (pr_harnesses p))(h := None) else map_of (pr_harnesses p))"
  by (auto simp: clear_installing_def delete_conv' status_of_def split: option.splits)

lemma map_of_filter_val: "distinct (map fst al) \<Longrightarrow>
    map_of (filter (\<lambda>(k, v). P v) al) k = (case map_of al k of Some v \<Rightarrow> if P v then Some v else None | None \<Rightarrow> None)"
  by (induction al) (auto simp: map_of_eq_None_iff image_iff split: option.splits)

lemma map_of_map_snd: "map_of (map (\<lambda>(k, v). (k, f v)) al) k = map_option f (map_of al k)"
  by (induction al) auto

lemmas install_simps =
  RecordInstall_def RecordInstalling_def ClearInstalling_def updateProject_def
  map_of_set_installed map_of_set_installing map_of_clear_installing

text \<open>The lists that stand for Go maps have no duplicate keys.\<close>

definition doc_wf :: "document \<Rightarrow> bool" where
  "doc_wf doc \<longleftrightarrow> distinct (map fst (doc_projects doc)) \<and> distinct (map fst (doc_harnesses doc)) \<and>
     (\<forall>(pid, p) \<in> set (doc_projects doc).
        distinct (map fst (pr_harnesses p)) \<and> distinct (map fst (pr_sessions p)))"

definition project_wf :: "project \<Rightarrow> bool" where
  "project_wf p \<longleftrightarrow> distinct (map fst (pr_harnesses p)) \<and> distinct (map fst (pr_sessions p))"

lemma doc_wf_alt: "doc_wf doc \<longleftrightarrow> distinct (map fst (doc_projects doc)) \<and>
    distinct (map fst (doc_harnesses doc)) \<and> (\<forall>p \<in> snd ` set (doc_projects doc). project_wf p)"
  by (auto simp: doc_wf_def project_wf_def)

lemma set_update_snd: "snd ` set (AList.update k v al) \<subseteq> insert v (snd ` set al)"
  by (induction al) auto

lemma set_delete_sub: "set (AList.delete k al) \<subseteq> set al"
  by (auto simp: AList.delete_eq)

lemma put_project_wf: "doc_wf doc \<Longrightarrow> project_wf p \<Longrightarrow> doc_wf (put_project pid p doc)"
proof -
  assume wf: "doc_wf doc" "project_wf p"
  have "\<forall>q \<in> snd ` set (AList.update pid p (doc_projects doc)). project_wf q"
    using wf set_update_snd [of pid p "doc_projects doc"] unfolding doc_wf_alt by blast
  with wf show ?thesis
    unfolding doc_wf_alt put_project_def by (simp add: distinct_update)
qed

lemma doc_wf_lookup: "doc_wf doc \<Longrightarrow> map_of (doc_projects doc) pid = Some p \<Longrightarrow> project_wf p"
  unfolding doc_wf_alt by (force dest: map_of_SomeD)

lemma project_wf_ops [simp]:
  "project_wf p \<Longrightarrow> project_wf (set_installed h p)"
  "project_wf p \<Longrightarrow> project_wf (set_installing h p)"
  "project_wf p \<Longrightarrow> project_wf (clear_installing h p)"
  "project_wf p \<Longrightarrow> project_wf (p\<lparr>pr_sessions := AList.update n m (pr_sessions p)\<rparr>)"
  "project_wf p \<Longrightarrow> project_wf (p\<lparr>pr_sessions := AList.delete n (pr_sessions p)\<rparr>)"
  by (simp_all add: project_wf_def set_installed_def set_installing_def clear_installing_def
      distinct_update distinct_delete)

lemma clear_all_wf [simp]: "project_wf p \<Longrightarrow> project_wf (clear_all_installing p)"
  by (auto simp: project_wf_def clear_all_installing_def distinct_map inj_on_def)

lemma update_fn_wf:
  "update_fn pid fn doc = Inr (doc', u) \<Longrightarrow> doc_wf doc \<Longrightarrow> (\<And>p. project_wf p \<Longrightarrow> project_wf (fn p))
     \<Longrightarrow> doc_wf doc'"
  by (auto simp: update_fn_def put_project_wf doc_wf_lookup split: option.splits)


lemma map_of_filter_keep:
  "map_of al k = Some v \<Longrightarrow> P v \<Longrightarrow> map_of (filter (\<lambda>(k, v). P v) al) k = Some v"
  by (induction al) (auto split: if_splits)

lemma mark_clear_all:
  "doc_wf doc \<Longrightarrow>
     mark pid hid (doc\<lparr>doc_projects := map (\<lambda>(pid, p). (pid, clear_all_installing p)) (doc_projects doc)\<rparr>) =
     (if mark pid hid doc = Some HarnessInstalling then None else mark pid hid doc)"
  by (auto simp: mark_def map_of_map_snd clear_all_installing_def map_of_filter_val project_wf_def
      dest!: doc_wf_lookup split: option.splits)

text \<open>The four writers of install marks as the steps of one machine, run in any order.\<close>

datatype install_op =
    Installed string string
  | Installing string string
  | Cleared string string
  | ClearedAll

fun install_step :: "io \<Rightarrow> install_op \<Rightarrow> store \<Rightarrow> unit stored" where
  "install_step out (Installed pid hid) = RecordInstall out pid hid"
| "install_step out (Installing pid hid) = RecordInstalling out pid hid"
| "install_step out (Cleared pid hid) = ClearInstalling out pid hid"
| "install_step out ClearedAll = ClearAllInstalling out"

fun install_run :: "(io \<times> install_op) list \<Rightarrow> store \<Rightarrow> store" where
  "install_run [] s = s"
| "install_run ((out, op) # ops) s = install_run ops (snd (install_step out op s))"

lemma install_step_keeps_installed:
  assumes "mark pid hid (view s) = Some HarnessInstalled"
  shows "mark pid hid (view (snd (install_step out op s))) = Some HarnessInstalled"
proof -
  obtain r s' where m: "install_step out op s = (r, s')" by (cases "install_step out op s")
  let ?P = "\<lambda>doc. mark pid hid doc = Some HarnessInstalled"
  have "?P (view s')"
  proof (cases op)
    case (Installed p h)
    with m show ?thesis
      by (intro st.keeps [where P = ?P, OF _ assms])
         (auto simp: install_simps dest!: update_fn_mark [where pid' = pid and hid = hid],
          use assms in \<open>auto simp: mark_def\<close>)
  next
    case (Installing p h)
    with m show ?thesis
      by (intro st.keeps [where P = ?P, OF _ assms])
         (auto simp: install_simps dest!: update_fn_mark [where pid' = pid and hid = hid],
          use assms in \<open>auto simp: mark_def\<close>)
  next
    case (Cleared p h)
    with m show ?thesis
      by (intro st.keeps [where P = ?P, OF _ assms])
         (auto simp: install_simps dest!: update_fn_mark [where pid' = pid and hid = hid],
          use assms in \<open>auto simp: mark_def\<close>)
  next
    case ClearedAll
    have "mark pid hid (doc\<lparr>doc_projects :=
        map (\<lambda>(pid, p). (pid, clear_all_installing p)) (doc_projects doc)\<rparr>) = Some HarnessInstalled"
      if "?P doc" for doc
      using that by (auto simp: mark_def map_of_map_snd clear_all_installing_def
          intro: map_of_filter_keep split: option.splits)
    with ClearedAll m assms show ?thesis
      by (intro st.keeps [where P = ?P, OF _ assms]) (auto simp: ClearAllInstalling_def)
  qed
  with m show ?thesis by simp
qed

text \<open>Once a harness is recorded as installed in a project, no sequence of install-state
  writers, whatever their disk outcomes, takes the mark away or turns it back to installing.\<close>

theorem installed_never_lost:
  assumes "mark pid hid (view s) = Some HarnessInstalled"
  shows "mark pid hid (view (install_run ops s)) = Some HarnessInstalled"
  using assms
  by (induction ops s rule: install_run.induct) (simp_all add: install_step_keeps_installed)

definition sample_store :: store where
  "sample_store =
     \<lparr>st_path = state_path,
      st_doc = empty_document\<lparr>doc_projects :=
        [(''o/r'', \<lparr>pr_repo = ''git@github.com:o/r.git'', pr_branch = [],
           pr_harnesses = [(''codex'', HarnessInstalled), (''pi'', HarnessInstalling)],
           pr_sessions = [], pr_shortcuts = []\<rparr>)]\<rparr>,
      st_disk = []\<rparr>"

lemma sample_store_wf: "doc_wf (view sample_store)"
  by (simp add: doc_wf_def view_def sample_store_def empty_document_def HarnessInstalled_def
      HarnessInstalling_def)

theorem installed_never_lost_witness:
  "mark ''o/r'' ''codex'' (view (install_run
     [(IoDone, Installing ''o/r'' ''codex''), (IoTornTmp, ClearedAll), (IoDone, ClearedAll)]
     sample_store)) = Some HarnessInstalled"
  by (rule installed_never_lost) (simp add: sample_store_def mark_def view_def)

text \<open>Clearing all marks at boot drops every mark that says an install is running, in every
  project, and changes no other mark.\<close>

theorem boot_clears_installing:
  assumes "doc_wf (view s)" "ClearAllInstalling out s = (Inr u, s')"
  shows "mark pid hid (view s') =
     (if mark pid hid (view s) = Some HarnessInstalling then None else mark pid hid (view s))"
  using st.commit [OF assms(2) [unfolded ClearAllInstalling_def]] mark_clear_all [OF assms(1), of pid hid]
  by auto

theorem boot_clears_installing_witness:
  "mark ''o/r'' ''pi'' (view (snd (ClearAllInstalling IoDone sample_store))) = None"
proof -
  have "doc_wf (view sample_store)" by (rule sample_store_wf)
  moreover obtain s' where s': "ClearAllInstalling IoDone sample_store = (Inr (), s')"
    by (simp add: ClearAllInstalling_def mutate_def saveDoc_def write_json_file_def split_def)
  ultimately have "mark ''o/r'' ''pi'' (view s') =
     (if mark ''o/r'' ''pi'' (view sample_store) = Some HarnessInstalling then None
      else mark ''o/r'' ''pi'' (view sample_store))"
    by (rule boot_clears_installing)
  then show ?thesis
    by (simp add: s') (simp add: sample_store_def mark_def view_def)
qed

lemma set_InstalledIDs: "project_wf p \<Longrightarrow>
    hid \<in> set (InstalledIDs p) \<longleftrightarrow> map_of (pr_harnesses p) hid = Some HarnessInstalled"
  by (auto simp: InstalledIDs_def project_wf_def intro: rev_image_eqI)

text \<open>The projects index lists every project once, in strictly increasing id order, and each
  row carries the sorted ids of exactly the harnesses that are marked installed.\<close>

theorem index_exact:
  assumes "doc_wf (view s)"
  shows "sorted_wrt (<) (map en_id (ps_list s))
    \<and> set (map en_id (ps_list s)) = dom (map_of (projects_of s))
    \<and> (\<forall>e \<in> set (ps_list s). sorted (en_harnesses e) \<and>
         set (en_harnesses e) = {hid. mark (en_id e) hid (view s) = Some HarnessInstalled})"
proof (intro conjI ballI)
  have d: "distinct (map fst (projects_of s))" using assms by (simp add: doc_wf_def)
  have m: "mset (map en_id (ps_list s)) = mset (map fst (projects_of s))"
    by (simp add: ps_list_def case_prod_beta comp_def image_mset.compositionality)
  then have "distinct (map en_id (ps_list s))"
    using d mset_eq_imp_distinct_iff by blast
  moreover have "sorted (map en_id (ps_list s))" by (simp add: ps_list_def)
  ultimately show "sorted_wrt (<) (map en_id (ps_list s))"
    by (simp add: strict_sorted_iff)
  show "set (map en_id (ps_list s)) = dom (map_of (projects_of s))"
    using m by (metis dom_map_of_conv_image_fst list.set_map set_mset_mset)
next
  fix e
  assume "e \<in> set (ps_list s)"
  then obtain pid p where e: "e = \<lparr>en_id = pid, en_harnesses = InstalledIDs p\<rparr>"
    and p: "(pid, p) \<in> set (projects_of s)"
    by (auto simp: ps_list_def)
  have l: "map_of (projects_of s) pid = Some p"
    using p assms by (simp add: doc_wf_def)
  then have wf: "project_wf p" by (rule doc_wf_lookup [OF assms])
  show "sorted (en_harnesses e)" by (simp add: e InstalledIDs_def)
  show "set (en_harnesses e) = {hid. mark (en_id e) hid (view s) = Some HarnessInstalled}"
    using set_InstalledIDs [OF wf] l by (auto simp: e mark_def)
qed


theorem index_exact_witness:
  "set (map en_id (ps_list sample_store)) = {''o/r''}"
  using index_exact [OF sample_store_wf] by (simp add: sample_store_def view_def)

end
