(* ===== verification/Docker.thy ===== *)
theory Docker
  imports Complex_Main Prelude "HOL-Library.Word"
begin

text \<open>
  server/internal/docker: the thin wrapper over the Docker engine. The engine client (go-dockerclient)
  is a parameter: the record \<open>engine\<close> gives its answer to a call after any history of earlier calls, so
  that every engine and every interference by others is covered. Each operation returns its
  result and the history with its own calls appended.
\<close>

section \<open>Errors\<close>

abbreviation ErrUnavailable :: string where "ErrUnavailable \<equiv> ''docker unavailable''"
abbreviation ErrNotFound :: string where "ErrNotFound \<equiv> ''container not found''"

text \<open>The errors of the client library that the wrapper tells apart, with their texts.\<close>

datatype client_error =
    NoSuchContainer string
  | ContainerNotRunning string
  | NoSuchImage string
  | NoSuchVolume string
  | ApiError int string string
  | OtherError string

fun client_text :: "client_error \<Rightarrow> string" where
  "client_text (NoSuchContainer t) = t"
| "client_text (ContainerNotRunning t) = t"
| "client_text (NoSuchImage t) = t"
| "client_text (NoSuchVolume t) = t"
| "client_text (ApiError _ _ t) = t"
| "client_text (OtherError t) = t"

definition engine_err :: "client_error \<Rightarrow> go_err" where
  "engine_err e = errorf (client_text e)"

fun isAlreadyStopped :: "client_error \<Rightarrow> bool" where
  "isAlreadyStopped (ContainerNotRunning _) = True"
| "isAlreadyStopped _ = False"

fun isRemovalInProgress :: "client_error \<Rightarrow> bool" where
  "isRemovalInProgress (ApiError status message _) = (status = 409 \<and> contains message ''already in progress'')"
| "isRemovalInProgress _ = False"

fun isNotFoundVolume :: "client_error \<Rightarrow> bool" where
  "isNotFoundVolume (NoSuchVolume _) = True"
| "isNotFoundVolume _ = False"

fun isNotFound :: "client_error \<Rightarrow> bool" where
  "isNotFound (NoSuchContainer _) = True"
| "isNotFound _ = False"

definition wrapNotFound :: "string \<Rightarrow> client_error \<Rightarrow> go_err" where
  "wrapNotFound i e =
     (if isNotFound e then \<lparr>ge_text = ErrNotFound @ '': '' @ i, ge_is = [ErrNotFound]\<rparr>
      else wrapf (''inspect container '' @ i) (engine_err e))"


section \<open>What a container is asked to be (spec.go)\<close>

definition DefaultNetwork :: string where "DefaultNetwork = ''pcoder-net''"
definition loopbackIP :: string where "loopbackIP = ''127.0.0.1''"

record mount =
  mt_Name :: string
  mt_Dest :: string

definition NetworkNamespace :: "string \<Rightarrow> string" where
  "NetworkNamespace i = (if i = [] then [] else ''container:'' @ i)"

record spec =
  sp_Name :: string
  sp_Image :: string
  sp_Cmd :: "string list"
  sp_Env :: "string list"
  sp_WorkDir :: string
  sp_Writable :: bool
  sp_Memory :: int
  sp_Network :: string
  sp_Volumes :: "mount list"
  sp_Binds :: "string list"
  sp_Entrypoint :: "string list"
  sp_PublishLoopback :: "int list"

record port_binding =
  pb_HostIP :: string
  pb_HostPort :: string

record create_options =
  co_Name :: string
  co_Image :: string
  co_Cmd :: "string list"
  co_Env :: "string list"
  co_WorkingDir :: string
  co_Entrypoint :: "string list"
  co_ExposedPorts :: "string list"
  co_NetworkMode :: string
  co_ReadonlyRootfs :: bool
  co_Memory :: int
  co_Binds :: "string list"
  co_PortBindings :: "(string \<times> port_binding list) list"
  co_ExtraHosts :: "string list"
  co_Mounts :: "(string \<times> string \<times> string) list"

text \<open>The two maps keyed by the port are association lists; a repeated port sets the same key again.\<close>

definition tcp_port :: "int \<Rightarrow> string" where
  "tcp_port p = itoa p @ ''/tcp''"

definition containerOptions :: "spec \<Rightarrow> create_options" where
  "containerOptions sp =
     (let network = (if sp_Network sp = [] then DefaultNetwork else sp_Network sp);
          bindings = fold (\<lambda>p. AList.update (tcp_port p) [\<lparr>pb_HostIP = loopbackIP, pb_HostPort = []\<rparr>]) (sp_PublishLoopback sp) []
      in \<lparr>co_Name = sp_Name sp, co_Image = sp_Image sp, co_Cmd = sp_Cmd sp, co_Env = sp_Env sp,
          co_WorkingDir = sp_WorkDir sp, co_Entrypoint = sp_Entrypoint sp, co_ExposedPorts = map fst bindings,
          co_NetworkMode = network, co_ReadonlyRootfs = (\<not> sp_Writable sp), co_Memory = sp_Memory sp,
          co_Binds = sp_Binds sp, co_PortBindings = bindings,
          co_ExtraHosts = (if prefix ''container:'' network then [] else [''host.docker.internal:host-gateway'']),
          co_Mounts = map (\<lambda>m. (''volume'', mt_Name m, mt_Dest m)) (sp_Volumes sp)\<rparr>)"

text \<open>
  What the engine asks of such options: a container in the namespace of another publishes no ports
  and has no extra hosts (the engine refuses both).
\<close>

definition engine_accepts :: "create_options \<Rightarrow> bool" where
  "engine_accepts co \<longleftrightarrow>
     prefix ''container:'' (co_NetworkMode co) \<longrightarrow> co_PortBindings co = [] \<and> co_ExtraHosts co = []"


section \<open>Listings\<close>

record api_container =
  ac_ID :: string
  ac_Names :: "string list"
  ac_State :: string

record container_info =
  ci_ID :: string
  ci_Name :: string
  ci_Running :: bool

definition first_name :: "string \<Rightarrow> string list \<Rightarrow> string option" where
  "first_name pre names = find (prefix pre) (map (\<lambda>raw. trim_prefix raw ''/'') names)"

definition matchContainers :: "api_container list \<Rightarrow> string \<Rightarrow> container_info list" where
  "matchContainers cs pre = List.map_filter (\<lambda>c.
     map_option (\<lambda>n. \<lparr>ci_ID = ac_ID c, ci_Name = n, ci_Running = (ac_State c = ''running'')\<rparr>)
       (first_name pre (ac_Names c))) cs"

text \<open>
  \<open>port_of\<close> is \<open>Port.Port()\<close> of the client library, the part before the slash. The bindings come from a
  Go map: the model reads them in list order.
\<close>

definition own_binding :: "port_binding \<Rightarrow> bool" where
  "own_binding b \<longleftrightarrow> \<not> (pb_HostIP b \<noteq> [] \<and> pb_HostIP b \<noteq> loopbackIP \<and> pb_HostIP b \<noteq> ''0.0.0.0'')"

definition host_port :: "port_binding \<Rightarrow> int option" where
  "host_port b =
     (if own_binding b then
        (case atoi (pb_HostPort b) of None \<Rightarrow> None | Some hp \<Rightarrow> if 0 < hp then Some hp else None)
      else None)"

fun first_port :: "port_binding list \<Rightarrow> int option" where
  "first_port [] = None"
| "first_port (b # bs) = (case host_port b of None \<Rightarrow> first_port bs | Some hp \<Rightarrow> Some hp)"

definition publish_one :: "(string \<Rightarrow> string) \<Rightarrow> string \<times> port_binding list \<Rightarrow> (int \<times> int) list \<Rightarrow> (int \<times> int) list" where
  "publish_one port_of pb acc =
     (case atoi (port_of (fst pb)) of
        None \<Rightarrow> acc
      | Some cp \<Rightarrow>
          if cp \<le> 0 then acc
          else (case first_port (snd pb) of None \<Rightarrow> acc | Some hp \<Rightarrow> AList.update cp hp acc))"

definition publishedPorts :: "(string \<Rightarrow> string) \<Rightarrow> (string \<times> port_binding list) list \<Rightarrow> (int \<times> int) list" where
  "publishedPorts port_of bindings = fold (publish_one port_of) bindings []"

section \<open>Calls to the engine\<close>

datatype engine_call =
    EListContainers
  | EListNetworks
  | ECreateNetwork string
  | ECreateContainer create_options
  | EStart string
  | EStop string int
  | ERemove string bool
  | EInspect string
  | EInspectImage string
  | ERemoveVolume string
  | ECreateExec string "string list" bool bool
  | EStartExec string
  | EInspectExec string

record raw_container =
  rc_ID :: string
  rc_Running :: bool
  rc_Status :: string
  rc_Image :: string
  rc_IPAddress :: string
  rc_Networks :: "string list"
  rc_Ports :: "(string \<times> port_binding list) list"

text \<open>
  The engine's answers; each field is asked with the history ending in the call it answers.
  \<open>en_now\<close> is the clock after that call and \<open>en_cancelled\<close> the error of a context that is over.
\<close>

record engine =
  en_unit :: "engine_call list \<Rightarrow> client_error option"
  en_containers :: "engine_call list \<Rightarrow> client_error + api_container list"
  en_networks :: "engine_call list \<Rightarrow> client_error + string list"
  en_newid :: "engine_call list \<Rightarrow> client_error + string"
  en_inspect :: "engine_call list \<Rightarrow> client_error + raw_container"
  en_output :: "engine_call list \<Rightarrow> string \<times> string"
  en_exit :: "engine_call list \<Rightarrow> client_error + int"
  en_now :: "engine_call list \<Rightarrow> gotime"
  en_cancelled :: "engine_call list \<Rightarrow> string option"

type_synonym 'a engine_op = "engine_call list \<Rightarrow> 'a \<times> engine_call list"

definition unit_call :: "engine \<Rightarrow> engine_call \<Rightarrow> string \<Rightarrow> (client_error \<Rightarrow> bool) \<Rightarrow> go_err option engine_op" where
  "unit_call en c what ok h =
     (let h' = h @ [c]
      in case en_unit en h' of
           None \<Rightarrow> (None, h')
         | Some e \<Rightarrow> (if ok e then None else Some (wrapf what (engine_err e)), h'))"

definition ListContainers :: "engine \<Rightarrow> string \<Rightarrow> (go_err + container_info list) engine_op" where
  "ListContainers en pre h =
     (let h' = h @ [EListContainers]
      in case en_containers en h' of
           Inl e \<Rightarrow> (Inl (wrapf ''list containers'' (engine_err e)), h')
         | Inr cs \<Rightarrow> (Inr (matchContainers cs pre), h'))"

definition EnsureNetwork :: "engine \<Rightarrow> string \<Rightarrow> go_err option engine_op" where
  "EnsureNetwork en name h =
     (let h' = h @ [EListNetworks]
      in case en_networks en h' of
           Inl e \<Rightarrow> (Some (wrapf ''list networks'' (engine_err e)), h')
         | Inr nets \<Rightarrow>
             if List.member nets name then (None, h')
             else unit_call en (ECreateNetwork name) (''create network '' @ name) (\<lambda>_. False) h')"

definition create_container :: "engine \<Rightarrow> spec \<Rightarrow> (go_err + string) engine_op" where
  "create_container en sp h =
     (let h' = h @ [ECreateContainer (containerOptions sp)]
      in case en_newid en h' of
           Inl e \<Rightarrow> (Inl (wrapf (''create container '' @ sp_Name sp) (engine_err e)), h')
         | Inr i \<Rightarrow> (Inr i, h'))"

definition Start :: "engine \<Rightarrow> string \<Rightarrow> go_err option engine_op" where
  "Start en i = unit_call en (EStart i) (''start container '' @ i) (\<lambda>_. False)"

text \<open>The timeout is converted to whole seconds.\<close>

definition Stop :: "engine \<Rightarrow> string \<Rightarrow> int \<Rightarrow> go_err option engine_op" where
  "Stop en i timeout = unit_call en (EStop i (timeout div second)) (''stop container '' @ i) isAlreadyStopped"

definition RemoveVolume :: "engine \<Rightarrow> string \<Rightarrow> go_err option engine_op" where
  "RemoveVolume en name = unit_call en (ERemoveVolume name) (''remove volume '' @ name) isNotFoundVolume"

definition InspectImage :: "engine \<Rightarrow> string \<Rightarrow> go_err option engine_op" where
  "InspectImage en name h =
     (let h' = h @ [EInspectImage name]
      in case en_unit en h' of
           None \<Rightarrow> (None, h')
         | Some (NoSuchImage t) \<Rightarrow> (Some \<lparr>ge_text = ErrNotFound @ '': image '' @ name, ge_is = [ErrNotFound]\<rparr>, h')
         | Some e \<Rightarrow> (Some (wrapf (''inspect image '' @ name) (engine_err e)), h'))"

text \<open>
  Removing waits out a removal that is already running, until the deadline; the loop is as long as
  the engine makes it, so it is a partial function and that it returns is proved below.
\<close>

definition removeRetryDelay :: int where "removeRetryDelay = 200 * 1000000"
definition removeWait :: int where "removeWait = 30 * second"

partial_function (option) remove_loop ::
  "engine \<Rightarrow> gotime \<Rightarrow> string \<Rightarrow> bool \<Rightarrow> engine_call list \<Rightarrow> (go_err option \<times> engine_call list) option" where
  [code]: "remove_loop en deadline i force h =
     (let h' = h @ [ERemove i force];
          failed = (\<lambda>e. Some (Some (wrapf (''remove container '' @ i) e), h'))
      in case en_unit en h' of
           None \<Rightarrow> Some (None, h')
         | Some e \<Rightarrow>
             if isNotFound e then Some (None, h')
             else if \<not> isRemovalInProgress e then failed (engine_err e)
             else if deadline < en_now en h' then failed (engine_err e)
             else (case en_cancelled en h' of
                     Some c \<Rightarrow> failed (errorf c)
                   | None \<Rightarrow> remove_loop en deadline i force h'))"

definition Remove :: "engine \<Rightarrow> string \<Rightarrow> bool \<Rightarrow> engine_call list \<Rightarrow> (go_err option \<times> engine_call list) option" where
  "Remove en i force h = remove_loop en (en_now en h + removeWait) i force h"

text \<open>\<open>None\<close>: the clean-up of a container that did not start does not return.\<close>

definition Run :: "engine \<Rightarrow> spec \<Rightarrow> engine_call list \<Rightarrow> ((go_err + string) \<times> engine_call list) option" where
  "Run en sp h =
     (case create_container en sp h of
        (Inl e, h1) \<Rightarrow> Some (Inl e, h1)
      | (Inr i, h1) \<Rightarrow>
          (case Start en i h1 of
             (None, h2) \<Rightarrow> Some (Inr i, h2)
           | (Some e, h2) \<Rightarrow>
               (case Remove en i True h2 of None \<Rightarrow> None | Some (_, h3) \<Rightarrow> Some (Inl e, h3))))"

record container =
  ct_ID :: string
  ct_Running :: bool
  ct_Status :: string
  ct_Image :: string
  ct_NetworkIP :: string
  ct_Published :: "(int \<times> int) list"

definition network_ip :: "raw_container \<Rightarrow> string" where
  "network_ip c =
     (if rc_IPAddress c = [] then (case find (\<lambda>a. a \<noteq> []) (rc_Networks c) of None \<Rightarrow> [] | Some a \<Rightarrow> a)
      else rc_IPAddress c)"

definition Inspect :: "engine \<Rightarrow> (string \<Rightarrow> string) \<Rightarrow> string \<Rightarrow> (go_err + container) engine_op" where
  "Inspect en port_of i h =
     (let h' = h @ [EInspect i]
      in case en_inspect en h' of
           Inl e \<Rightarrow> (Inl (wrapNotFound i e), h')
         | Inr c \<Rightarrow>
             (Inr \<lparr>ct_ID = rc_ID c, ct_Running = rc_Running c, ct_Status = rc_Status c, ct_Image = rc_Image c,
                   ct_NetworkIP = network_ip c, ct_Published = publishedPorts port_of (rc_Ports c)\<rparr>, h'))"

record exec_result =
  er_ExitCode :: int
  er_Output :: string

text \<open>
  \<open>en_output\<close> is what the command wrote to the two streams of the exec; \<open>Exec\<close> hands the engine one
  buffer for both, so its output is their interleaving, here given by the first component.
\<close>

definition run_exec :: "engine \<Rightarrow> string \<Rightarrow> string list \<Rightarrow> bool \<Rightarrow> bool \<Rightarrow> (go_err + int \<times> string \<times> string) engine_op" where
  "run_exec en i cmd has_stdin tty h =
     (let h1 = h @ [ECreateExec i cmd has_stdin tty]
      in case en_newid en h1 of
           Inl e \<Rightarrow> (Inl (wrapf (''create exec in '' @ i) (engine_err e)), h1)
         | Inr x \<Rightarrow>
             (let h2 = h1 @ [EStartExec x]
              in case en_unit en h2 of
                   Some e \<Rightarrow> (Inl (wrapf (''start exec in '' @ i) (engine_err e)), h2)
                 | None \<Rightarrow>
                     (let h3 = h2 @ [EInspectExec x]
                      in case en_exit en h3 of
                           Inl e \<Rightarrow> (Inl (wrapf (''inspect exec in '' @ i) (engine_err e)), h3)
                         | Inr code \<Rightarrow> (Inr (code, en_output en h2), h3))))"

definition Exec :: "engine \<Rightarrow> string \<Rightarrow> string list \<Rightarrow> bool \<Rightarrow> (go_err + exec_result) engine_op" where
  "Exec en i cmd tty h =
     (case run_exec en i cmd False tty h of
        (Inl e, h') \<Rightarrow> (Inl e, h')
      | (Inr (code, out, _), h') \<Rightarrow> (Inr \<lparr>er_ExitCode = code, er_Output = out\<rparr>, h'))"

text \<open>The streamed output, the exit code and the error; the output is written before the exit code is known.\<close>

definition StreamExec :: "engine \<Rightarrow> string \<Rightarrow> string list \<Rightarrow> bool \<Rightarrow> (string \<times> int \<times> go_err option) engine_op" where
  "StreamExec en i cmd has_stdin h =
     (case run_exec en i cmd has_stdin False h of
        (Inl e, h') \<Rightarrow> ((case last h' of EInspectExec _ \<Rightarrow> fst (en_output en (butlast h')) | _ \<Rightarrow> [], 0, Some e), h')
      | (Inr (code, out, err), h') \<Rightarrow>
          ((out, code,
            if code \<noteq> 0 then Some (errorf (''exec in '' @ i @ '': exit '' @ itoa code @ '': '' @ err)) else None), h'))"

section \<open>Resource samples (stats.go)\<close>

text \<open>
  Counters are 64-bit and wrap; floating point is modelled by exact rationals (a conversion or
  division in the code is off by a relative error of at most 2^-53).
\<close>

record stats_sample =
  ss_TotalUsage :: "64 word"
  ss_PreTotalUsage :: "64 word"
  ss_SystemUsage :: "64 word"
  ss_PreSystemUsage :: "64 word"
  ss_OnlineCPUs :: "64 word"
  ss_PercpuUsage :: "64 word list"
  ss_MemUsage :: "64 word"
  ss_MemLimit :: "64 word"
  ss_PidsCurrent :: "64 word"
  ss_NumProcs :: "32 word"
  ss_Networks :: "(64 word \<times> 64 word) list"
  ss_Network :: "64 word \<times> 64 word"
  ss_BlkioOps :: "(string \<times> 64 word) list"

record container_stats =
  cs_CPUPercent :: rat
  cs_MemUsed :: "64 word"
  cs_MemLimit :: "64 word"
  cs_NetRX :: "64 word"
  cs_NetTX :: "64 word"
  cs_BlockRead :: "64 word"
  cs_BlockWrite :: "64 word"
  cs_PIDs :: int

definition rat_of_word :: "64 word \<Rightarrow> rat" where
  "rat_of_word w = rat_of_int (uint w)"

definition sum_words :: "64 word list \<Rightarrow> 64 word" where
  "sum_words ws = fold (\<lambda>w acc. acc + w) ws 0"

definition cpu_percent :: "stats_sample \<Rightarrow> rat" where
  "cpu_percent s =
     (let cpuDelta = rat_of_word (ss_TotalUsage s - ss_PreTotalUsage s);
          sysDelta = rat_of_word (ss_SystemUsage s - ss_PreSystemUsage s);
          cpus = sint (ss_OnlineCPUs s);
          cpus = (if cpus \<le> 0 then int (length (ss_PercpuUsage s)) else cpus)
      in if 0 < sysDelta \<and> 0 < cpus then cpuDelta / sysDelta * rat_of_int cpus * 100 else 0)"

definition blkio :: "string \<Rightarrow> stats_sample \<Rightarrow> 64 word" where
  "blkio op s = sum_words (map snd (filter (\<lambda>e. fst e = op) (ss_BlkioOps s)))"

definition SummarizeStats :: "stats_sample \<Rightarrow> container_stats" where
  "SummarizeStats s =
     (let pids = sint (ss_PidsCurrent s);
          nets = (if ss_Networks s = [] then [ss_Network s] else ss_Networks s)
      in \<lparr>cs_CPUPercent = cpu_percent s, cs_MemUsed = ss_MemUsage s, cs_MemLimit = ss_MemLimit s,
          cs_NetRX = sum_words (map fst nets), cs_NetTX = sum_words (map snd nets),
          cs_BlockRead = blkio ''Read'' s, cs_BlockWrite = blkio ''Write'' s,
          cs_PIDs = (if pids = 0 then uint (ss_NumProcs s) else pids)\<rparr>)"


section \<open>What the rest of the server sees\<close>

text \<open>
  The operations of the \<open>Client\<close> interface with which projects, sessions and previews work, as calls
  with answers; \<open>client\<close> is an implementation seen through its answers to any history.
\<close>

datatype docker_call =
    CEnsureNetwork string
  | CBuild string
  | CInspectImage string
  | CStart string
  | CRun spec
  | CStop string int
  | CRemove string bool
  | CRemoveVolume string
  | CInspect string
  | CExec string "string list" bool
  | CWriteFile string string string
  | CListContainers string

record client =
  cl_unit :: "docker_call list \<Rightarrow> go_err option"
  cl_run :: "docker_call list \<Rightarrow> go_err + string"
  cl_inspect :: "docker_call list \<Rightarrow> go_err + container"
  cl_exec :: "docker_call list \<Rightarrow> go_err + exec_result"
  cl_list :: "docker_call list \<Rightarrow> go_err + container_info list"

type_synonym 'a docker_op = "docker_call list \<Rightarrow> 'a \<times> docker_call list"

definition dk_unit :: "client \<Rightarrow> docker_call \<Rightarrow> go_err option docker_op" where
  "dk_unit d c h = (cl_unit d (h @ [c]), h @ [c])"

definition dk_run :: "client \<Rightarrow> spec \<Rightarrow> (go_err + string) docker_op" where
  "dk_run d sp h = (cl_run d (h @ [CRun sp]), h @ [CRun sp])"

definition dk_inspect :: "client \<Rightarrow> string \<Rightarrow> (go_err + container) docker_op" where
  "dk_inspect d i h = (cl_inspect d (h @ [CInspect i]), h @ [CInspect i])"

definition dk_exec :: "client \<Rightarrow> string \<Rightarrow> string list \<Rightarrow> bool \<Rightarrow> (go_err + exec_result) docker_op" where
  "dk_exec d i cmd tty h = (cl_exec d (h @ [CExec i cmd tty]), h @ [CExec i cmd tty])"

definition dk_list :: "client \<Rightarrow> string \<Rightarrow> (go_err + container_info list) docker_op" where
  "dk_list d pre h = (cl_list d (h @ [CListContainers pre]), h @ [CListContainers pre])"

lemmas dk_defs = dk_unit_def dk_run_def dk_inspect_def dk_exec_def dk_list_def

section \<open>Removing\<close>

lemma remove_loop_hist:
  "remove_loop en dl i force h = Some rh \<Longrightarrow> \<exists>n > 0. snd rh = h @ replicate n (ERemove i force)"
proof (induction rule: remove_loop.raw_induct [rotated, consumes 1, case_names step])
  case (step rl en dl i force h rh)
  show ?case
  proof (cases "rl en dl i force (h @ [ERemove i force]) = Some rh")
    case True
    then obtain n where "snd rh = (h @ [ERemove i force]) @ replicate n (ERemove i force)" using step(1) by blast
    then show ?thesis by (intro exI [of _ "Suc n"]) simp
  next
    case False
    then have "snd rh = h @ [ERemove i force]"
      using step(2) by (auto simp: Let_def split: option.splits if_splits)
    then show ?thesis by (intro exI [of _ 1]) simp
  qed
qed

text \<open>
  What the sleep between two attempts means for the clock: an attempt that follows one answered
  "already in progress" is answered at least the delay later.
\<close>

definition sleeps :: "engine \<Rightarrow> bool" where
  "sleeps en \<longleftrightarrow> (\<forall>h i force e. en_unit en (h @ [ERemove i force]) = Some e \<and> isRemovalInProgress e \<longrightarrow>
     en_now en (h @ [ERemove i force]) + removeRetryDelay \<le> en_now en (h @ [ERemove i force, ERemove i force]))"

lemma remove_loop_returns:
  assumes "sleeps en"
  shows "dl < en_now en (h @ [ERemove i force]) + int n * removeRetryDelay \<Longrightarrow>
    \<exists>rh. remove_loop en dl i force h = Some rh \<and> length (snd rh) \<le> length h + Suc n"
proof (induction n arbitrary: h)
  case 0
  show ?case using 0
    by (subst remove_loop.simps) (auto simp: Let_def split: option.split)
next
  case (Suc n)
  let ?h = "h @ [ERemove i force]"
  have more: "\<exists>rh. remove_loop en dl i force ?h = Some rh \<and> length (snd rh) \<le> length h + Suc (Suc n)"
    if "en_unit en ?h = Some e" "isRemovalInProgress e" for e
  proof -
    have "en_now en ?h + removeRetryDelay \<le> en_now en (?h @ [ERemove i force])"
      using assms that by (auto simp: sleeps_def)
    then have "dl < en_now en (?h @ [ERemove i force]) + int n * removeRetryDelay"
      using Suc.prems by (simp add: algebra_simps)
    from Suc.IH [OF this] show ?thesis by auto
  qed
  show ?case
    by (subst remove_loop.simps) (auto simp: Let_def simp del: append_assoc split: option.split dest: more)
qed

lemma Remove_returns_parts:
  assumes "sleeps en" "en_now en h \<le> en_now en (h @ [ERemove i force])"
  obtains r h' where "Remove en i force h = Some (r, h')" "length h' \<le> length h + 152"
proof -
  have "en_now en h + removeWait < en_now en (h @ [ERemove i force]) + int 151 * removeRetryDelay"
    using assms(2) by (simp add: removeWait_def removeRetryDelay_def)
  from remove_loop_returns [OF assms(1) this]
  obtain rh where "Remove en i force h = Some rh" "length (snd rh) \<le> length h + Suc 151"
    unfolding Remove_def by blast
  then show ?thesis using that by (cases rh) simp
qed

lemma remove_loop_success:
  "remove_loop en dl i force h = Some rh \<Longrightarrow> fst rh = None \<Longrightarrow>
   en_unit en (snd rh) = None \<or> (\<exists>e. en_unit en (snd rh) = Some e \<and> isNotFound e)"
proof (induction rule: remove_loop.raw_induct [rotated, consumes 1, case_names step])
  case (step rl en dl i force h rh)
  have again: "rl en dl i force (h @ [ERemove i force]) = Some rh \<Longrightarrow> ?case"
    using step(1) step(3) by blast
  show ?case
    using step(2,3) again by (auto simp: Let_def split: option.splits if_splits)
qed

text \<open>
  C39: removing a container always returns. When waiting takes time, an engine that answers
  "already in progress" for ever is asked at most 152 times; success means that the engine
  confirmed the removal or no longer knew the container.
\<close>

theorem Remove_returns:
  assumes "sleeps en" "en_now en h \<le> en_now en (h @ [ERemove i force])"
  shows "\<exists>r h'. Remove en i force h = Some (r, h') \<and> length h' \<le> length h + 152 \<and>
    (r = None \<longrightarrow> en_unit en h' = None \<or> (\<exists>e. en_unit en h' = Some e \<and> isNotFound e))"
proof -
  obtain r h' where h: "Remove en i force h = Some (r, h')" "length h' \<le> length h + 152"
    by (rule Remove_returns_parts [OF assms])
  moreover have "r = None \<Longrightarrow> en_unit en h' = None \<or> (\<exists>e. en_unit en h' = Some e \<and> isNotFound e)"
    using remove_loop_success [of en _ i force h "(r, h')"] h(1) by (auto simp: Remove_def)
  ultimately show ?thesis by blast
qed

text \<open>An engine that never finishes a removal; its clock moves by the delay with every call.\<close>

definition stuck_engine :: engine where
  "stuck_engine = \<lparr>en_unit = \<lambda>_. Some (ApiError 409 ''removal already in progress'' ''conflict''),
     en_containers = \<lambda>_. Inr [], en_networks = \<lambda>_. Inr [], en_newid = \<lambda>_. Inr ''c'',
     en_inspect = \<lambda>_. Inl (NoSuchContainer ''none''), en_output = \<lambda>_. ([], []), en_exit = \<lambda>_. Inr 0,
     en_now = \<lambda>h. int (length h) * removeRetryDelay, en_cancelled = \<lambda>_. None\<rparr>"

theorem Remove_returns_witness:
  "\<exists>r h'. Remove stuck_engine ''c'' True [] = Some (r, h') \<and> length h' \<le> length ([] :: engine_call list) + 152 \<and>
    (r = None \<longrightarrow> en_unit stuck_engine h' = None \<or> (\<exists>e. en_unit stuck_engine h' = Some e \<and> isNotFound e))"
  by (rule Remove_returns) (simp_all add: sleeps_def stuck_engine_def removeRetryDelay_def)

lemma Run_cleans:
  assumes "Run en sp h = Some (Inl e, h')" "en_newid en (h @ [ECreateContainer (containerOptions sp)]) = Inr i"
  shows "ERemove i True \<in> set (drop (length h) h')"
proof -
  let ?h2 = "h @ [ECreateContainer (containerOptions sp), EStart i]"
  have "\<exists>r. remove_loop en (en_now en ?h2 + removeWait) i True ?h2 = Some (r, h')"
    using assms by (auto simp: Run_def create_container_def Start_def unit_call_def Remove_def Let_def
      split: option.splits sum.splits prod.splits)
  then obtain n where "0 < n" "h' = ?h2 @ replicate n (ERemove i True)"
    by (auto dest!: remove_loop_hist)
  then show ?thesis by simp
qed

section \<open>What is asked of the engine\<close>

lemma options_accepted:
  "sp_PublishLoopback sp = [] \<or> \<not> prefix ''container:'' (sp_Network sp) \<Longrightarrow> engine_accepts (containerOptions sp)"
  by (auto simp: engine_accepts_def containerOptions_def Let_def DefaultNetwork_def)

lemma NetworkNamespace_shared: "i \<noteq> [] \<Longrightarrow> prefix ''container:'' (NetworkNamespace i)"
  by (simp add: NetworkNamespace_def)

lemma first_port_loopback:
  "0 < hp \<Longrightarrow> in_int64 hp \<Longrightarrow> first_port [\<lparr>pb_HostIP = loopbackIP, pb_HostPort = itoa hp\<rparr>] = Some hp"
  by (simp add: host_port_def own_binding_def atoi_itoa)

lemma publish_fold:
  assumes "\<And>p. p \<in> set ps \<Longrightarrow> port_of (tcp_port p) = itoa p \<and> 0 < p \<and> in_int64 p \<and> 0 < host p \<and> in_int64 (host p)"
  shows "map_of (fold (publish_one port_of)
      (map (\<lambda>p. (tcp_port p, [\<lparr>pb_HostIP = loopbackIP, pb_HostPort = itoa (host p)\<rparr>])) ps) acc) q
    = (if q \<in> set ps then Some (host q) else map_of acc q)"
  using assms
proof (induction ps arbitrary: acc)
  case (Cons p ps)
  have "publish_one port_of (tcp_port p, [\<lparr>pb_HostIP = loopbackIP, pb_HostPort = itoa (host p)\<rparr>]) acc
      = AList.update p (host p) acc"
    using Cons.prems [of p] by (simp add: publish_one_def atoi_itoa first_port_loopback del: first_port.simps)
  then show ?case using Cons by (simp add: update_conv')
qed simp


lemma update_same:
  "AList.update (f p) v (map (\<lambda>p. (f p, v)) qs) = map (\<lambda>p. (f p, v)) (if f p \<in> f ` set qs then qs else qs @ [p])"
  by (induction qs) auto

lemma fold_update_map:
  "\<exists>rs. fold (\<lambda>p. AList.update (f p) v) ps (map (\<lambda>p. (f p, v)) qs) = map (\<lambda>p. (f p, v)) rs \<and>
     set rs \<subseteq> set qs \<union> set ps \<and> f ` set qs \<union> f ` set ps \<subseteq> f ` set rs"
proof (induction ps arbitrary: qs)
  case (Cons p ps)
  define qs' where "qs' = (if f p \<in> f ` set qs then qs else qs @ [p])"
  have sub: "set qs' \<subseteq> set qs \<union> {p}" "f ` set qs \<union> {f p} \<subseteq> f ` set qs'" unfolding qs'_def by auto
  obtain rs where "fold (\<lambda>p. AList.update (f p) v) ps (map (\<lambda>p. (f p, v)) qs') = map (\<lambda>p. (f p, v)) rs"
      "set rs \<subseteq> set qs' \<union> set ps" "f ` set qs' \<union> f ` set ps \<subseteq> f ` set rs"
    using Cons.IH [of qs'] by blast
  then show ?case using sub unfolding qs'_def
    by (intro exI [of _ rs]) (auto simp: update_same)
qed auto

lemma tcp_port_inj: "in_int64 p \<Longrightarrow> in_int64 q \<Longrightarrow> tcp_port p = tcp_port q \<longleftrightarrow> p = q"
  by (simp add: tcp_port_def itoa_inj)

text \<open>What the engine makes of the requested bindings: it picks a host port for every one.\<close>

definition assign_ports :: "(string \<Rightarrow> int) \<Rightarrow> (string \<times> port_binding list) list \<Rightarrow> (string \<times> port_binding list) list" where
  "assign_ports host = map (\<lambda>(k, bs). (k, map (\<lambda>b. b\<lparr>pb_HostPort := itoa (host k)\<rparr>) bs))"

text \<open>
  The ports a container asked for are read back with the host ports the engine chose, and no
  other port is reported.
\<close>

theorem published_read_back:
  assumes port_of: "\<And>p. port_of (tcp_port p) = itoa p"
    and ports: "\<And>p. p \<in> set (sp_PublishLoopback sp) \<Longrightarrow> 0 < p \<and> in_int64 p"
    and host: "\<And>k. 0 < host k \<and> in_int64 (host k)"
  shows "map_of (publishedPorts port_of (assign_ports host (co_PortBindings (containerOptions sp)))) p
    = (if p \<in> set (sp_PublishLoopback sp) then Some (host (tcp_port p)) else None)"
proof -
  let ?v = "[\<lparr>pb_HostIP = loopbackIP, pb_HostPort = []\<rparr>]"
  let ?ps = "sp_PublishLoopback sp"
  obtain rs where rs: "co_PortBindings (containerOptions sp) = map (\<lambda>p. (tcp_port p, ?v)) rs"
      "set rs \<subseteq> set ?ps" "tcp_port ` set ?ps \<subseteq> tcp_port ` set rs"
    using fold_update_map [of tcp_port ?v ?ps "[]"] by (auto simp: containerOptions_def Let_def)
  have "set ?ps \<subseteq> set rs"
    using rs(2,3) ports by (force simp: tcp_port_inj subset_iff image_iff)
  then have "set rs = set ?ps" using rs(2) by blast
  moreover have "assign_ports host (co_PortBindings (containerOptions sp))
      = map (\<lambda>p. (tcp_port p, [\<lparr>pb_HostIP = loopbackIP, pb_HostPort = itoa ((host \<circ> tcp_port) p)\<rparr>])) rs"
    by (simp add: assign_ports_def rs(1))
  moreover have "map_of (fold (publish_one port_of) (map (\<lambda>p. (tcp_port p,
      [\<lparr>pb_HostIP = loopbackIP, pb_HostPort = itoa ((host \<circ> tcp_port) p)\<rparr>])) rs) []) p
    = (if p \<in> set rs then Some ((host \<circ> tcp_port) p) else map_of [] p)"
    by (rule publish_fold) (use rs(2) ports host port_of in auto)
  ultimately show ?thesis by (simp add: publishedPorts_def)
qed

text \<open>\<open>Port()\<close> of the client library: the part before the slash.\<close>

definition before_slash :: "string \<Rightarrow> string" where
  "before_slash s = takeWhile (\<lambda>c. c \<noteq> CHR ''/'') s"

lemma before_slash_tcp: "before_slash (tcp_port p) = itoa p"
proof -
  have "CHR ''/'' \<notin> set (nat_digits n)" for n
    using nat_digits_all [of n] by (auto simp: list_all_iff is_digit_alt byte_of_def dest!: bspec)
  then have "c \<noteq> CHR ''/''" if "c \<in> set (itoa p)" for c
    using that by (auto simp: itoa_def split: if_splits)
  then show ?thesis unfolding before_slash_def tcp_port_def
    by (subst takeWhile_append2) auto
qed

definition relay_spec :: spec where
  "relay_spec = \<lparr>sp_Name = ''r'', sp_Image = ''i'', sp_Cmd = [], sp_Env = [], sp_WorkDir = [], sp_Writable = False,
     sp_Memory = 0, sp_Network = DefaultNetwork, sp_Volumes = [], sp_Binds = [], sp_Entrypoint = [],
     sp_PublishLoopback = [9223, 6080]\<rparr>"

theorem published_read_back_witness:
  "map_of (publishedPorts before_slash (assign_ports (\<lambda>k. 40000) (co_PortBindings (containerOptions relay_spec)))) 6080
    = (if 6080 \<in> set (sp_PublishLoopback relay_spec) then Some 40000 else None)"
  by (rule published_read_back [where host = "\<lambda>k. 40000"])
     (auto simp: before_slash_tcp relay_spec_def in_int64_def)

section \<open>Samples\<close>

text \<open>
  The share of the processor is between 0 and 100 percent per processor as long as the container did
  not use more than the system. A counter that went back (a restarted container) wraps to a huge
  difference, for which nothing is promised.
\<close>

lemma cpu_percent_bounds:
  assumes "ss_TotalUsage s - ss_PreTotalUsage s \<le> ss_SystemUsage s - ss_PreSystemUsage s"
  shows "0 \<le> cpu_percent s \<and> cpu_percent s \<le> 100 * rat_of_int (max (sint (ss_OnlineCPUs s)) (int (length (ss_PercpuUsage s))))"
proof -
  define c d where "c = rat_of_word (ss_TotalUsage s - ss_PreTotalUsage s)"
    and "d = rat_of_word (ss_SystemUsage s - ss_PreSystemUsage s)"
  define n where "n = (if sint (ss_OnlineCPUs s) \<le> 0 then int (length (ss_PercpuUsage s)) else sint (ss_OnlineCPUs s))"
  have cd: "0 \<le> c" "c \<le> d" using assms
    by (simp_all only: c_def d_def rat_of_word_def of_int_le_iff of_int_0_le_iff uint_ge_0 word_le_def)
  have n: "n \<le> max (sint (ss_OnlineCPUs s)) (int (length (ss_PercpuUsage s)))" by (simp add: n_def)
  have p: "cpu_percent s = (if 0 < d \<and> 0 < n then c / d * rat_of_int n * 100 else 0)"
    by (simp add: cpu_percent_def c_def d_def n_def Let_def)
  show ?thesis
  proof (cases "0 < d \<and> 0 < n")
    case True
    then have "c / d \<le> 1" "0 \<le> c / d" using cd by simp_all
    moreover have "0 \<le> rat_of_int n" using True by simp
    ultimately have "c / d * rat_of_int n \<le> 1 * rat_of_int n" "0 \<le> c / d * rat_of_int n"
      by (simp_all only: mult_right_mono mult_nonneg_nonneg)
    moreover have "rat_of_int n \<le> rat_of_int (max (sint (ss_OnlineCPUs s)) (int (length (ss_PercpuUsage s))))"
      using n by (simp only: of_int_le_iff)
    moreover have "cpu_percent s = 100 * (c / d * rat_of_int n)" using p True by simp
    ultimately show ?thesis by linarith
  next
    case False
    then have "cpu_percent s = 0" using p by auto
    then show ?thesis by simp
  qed
qed

end
