(* ===== verification/Threads.thy ===== *)
theory Threads
  imports Files
begin

text \<open>
  server/internal/threads/threads.go: chats kept as folders of JSON files - a manifest, one file per
  turn, a lineage beside it, and a sidecar of approvals. The random ids, the clock and the outcome
  of every write are arguments.
\<close>

section \<open>Names\<close>

definition hexDigits :: string where
  "hexDigits = ''0123456789ABCDEF''"

definition plain_byte :: "char \<Rightarrow> bool" where
  "plain_byte c \<longleftrightarrow> is_lower c \<or> is_upper c \<or> is_digit c
     \<or> c = CHR ''-'' \<or> c = CHR ''_'' \<or> c = CHR ''.'' \<or> c = CHR ''~''"

definition escape_byte :: "char \<Rightarrow> string" where
  "escape_byte c =
     (if plain_byte c then [c]
      else [CHR ''%'', hexDigits ! (byte_of c div 16), hexDigits ! (byte_of c mod 16)])"

definition urlPathEscape :: "string \<Rightarrow> string" where
  "urlPathEscape s = concat (map escape_byte s)"

definition hex_rune :: "nat \<Rightarrow> bool" where
  "hex_rune c \<longleftrightarrow> 48 \<le> c \<and> c \<le> 57 \<or> 97 \<le> c \<and> c \<le> 102 \<or> 65 \<le> c \<and> c \<le> 70"

definition validID :: "string \<Rightarrow> bool" where
  "validID i \<longleftrightarrow> \<not> (i = '''' \<or> 128 < length i) \<and> list_all hex_rune (runes i)"

definition truncate_runes :: "string \<Rightarrow> nat \<Rightarrow> string" where
  "truncate_runes s m =
     (let r = runes (trim_space s)
      in if m < length r then of_runes (take m r) @ ellipsis else of_runes r)"

definition TitleFromPrompt :: "string \<Rightarrow> string" where
  "TitleFromPrompt prompt =
     (let t = takeWhile (\<lambda>c. c \<noteq> CHR 0x0D \<and> c \<noteq> CHR 0x0A) (trim_space prompt);
          t = join '' '' (go_fields t)
      in if t = '''' then ''New chat'' else truncate_runes t 60)"

definition turnFileN :: "string \<Rightarrow> int option" where
  "turnFileN name =
     (if \<not> suffix ''.json'' name then None
      else if suffix ''.lineage.json'' name then None
      else if name = ''manifest.json'' then None
      else let base = trim_suffix name ''.json''
           in if 1 < length base \<and> prefix ''0'' base then None
              else (case atoi base of
                      None \<Rightarrow> None
                    | Some n \<Rightarrow> if n < 1 then None else Some n))"

definition turn_file :: "int \<Rightarrow> string" where
  "turn_file n = itoa n @ ''.json''"

definition lineage_file :: "int \<Rightarrow> string" where
  "lineage_file n = itoa n @ ''.lineage.json''"


section \<open>Records and files\<close>

record turn =
  tn_turnID :: string
  tn_prompt :: string
  tn_time :: gotime
  tn_error :: "string option"
  tn_sha :: string
  tn_projectHint :: string
  tn_payload :: "string option"

record thread_manifest =
  mf_id :: string
  mf_title :: string
  mf_createdAt :: gotime

record approval =
  ap_id :: string
  ap_turnID :: string
  ap_status :: string
  ap_tool :: string
  ap_args :: string
  ap_summary :: string
  ap_blastRadius :: string
  ap_createdAt :: gotime
  ap_resolvedAt :: gotime

record thread =
  th_id :: string
  th_title :: string
  th_createdAt :: gotime
  th_updatedAt :: gotime
  th_turns :: "turn list"
  th_approvals :: "approval list"

record summary =
  su_id :: string
  su_title :: string
  su_createdAt :: gotime
  su_updatedAt :: gotime
  su_turnCount :: nat
  su_preview :: string

definition ApprovalPending :: string where "ApprovalPending = ''pending''"
definition ApprovalApproved :: string where "ApprovalApproved = ''approved''"
definition ApprovalDiscarded :: string where "ApprovalDiscarded = ''discarded''"

text \<open>What a file decodes as. A file of another kind, or a torn one, reads as absent.\<close>

datatype tfile =
    FTurn turn
  | FManifest thread_manifest
  | FApprovals "approval list"
  | FLineage string
  | FTorn

record thread_store =
  ts_dir :: path
  ts_approvals :: bool
  ts_disk :: "tfile disk"

datatype thread_error =
    NotConfigured
  | PromptRequired
  | UnknownThread
  | PendingApproval
  | BadTurn
  | UnknownTurn
  | WriteError io_error
  | LineageError
  | ScopeRequired
  | UnknownLineage
  | ApprovalsDisabled
  | BadApproval
  | UnknownApproval
  | InvalidStatus
  | AlreadyResolved

text \<open>\<open>filepath.Join\<close> of the root and one escaped segment: dot and dot-dot are cleaned away.\<close>

definition scopeDir :: "string \<Rightarrow> thread_store \<Rightarrow> path" where
  "scopeDir scope s =
     (if scope = '''' then ts_dir s
      else let seg = urlPathEscape scope
           in if seg = ''.'' then ts_dir s
              else if seg = ''..'' then butlast (ts_dir s)
              else ts_dir s @ [seg])"

definition threadDir :: "string \<Rightarrow> string \<Rightarrow> thread_store \<Rightarrow> path" where
  "threadDir scope i s = scopeDir scope s @ [i]"

definition not_configured :: "thread_store \<Rightarrow> bool" where
  "not_configured s \<longleftrightarrow> ts_dir s = []"

definition sortedTurnNs :: "path \<Rightarrow> tfile disk \<Rightarrow> int list" where
  "sortedTurnNs dir d =
     (case fs_readdir dir d of
        None \<Rightarrow> []
      | Some es \<Rightarrow> sort (List.map_filter (\<lambda>(n, isDir). if isDir then None else turnFileN n) es))"

definition maxTurnN :: "path \<Rightarrow> tfile disk \<Rightarrow> int" where
  "maxTurnN dir d = (let ns = sortedTurnNs dir d in if ns = [] then 0 else ns ! (length ns - 1))"

definition readTurn :: "path \<Rightarrow> tfile disk \<Rightarrow> turn option" where
  "readTurn p d =
     (case fs_read p d of
        Some (FTurn t) \<Rightarrow> if tn_turnID t = '''' \<or> tn_prompt t = '''' then None else Some t
      | _ \<Rightarrow> None)"

definition readManifest :: "path \<Rightarrow> tfile disk \<Rightarrow> thread_manifest option" where
  "readManifest dir d =
     (case fs_read (dir @ [''manifest.json'']) d of
        Some (FManifest m) \<Rightarrow> if mf_id m = '''' \<or> mf_createdAt m = 0 then None else Some m
      | _ \<Rightarrow> None)"

definition readApprovals :: "path \<Rightarrow> tfile disk \<Rightarrow> approval list" where
  "readApprovals dir d =
     (case fs_read (dir @ [''approvals.json'']) d of Some (FApprovals as) \<Rightarrow> as | _ \<Rightarrow> [])"

definition approvalStatus :: "approval \<Rightarrow> string" where
  "approvalStatus a = (if ap_status a = '''' then ApprovalPending else ap_status a)"

definition write_file :: "io \<Rightarrow> path \<Rightarrow> tfile \<Rightarrow> thread_store \<Rightarrow> io_error option \<times> thread_store" where
  "write_file out p v s =
     (let (e, d) = write_json_file FTorn out p v (ts_disk s) in (e, s\<lparr>ts_disk := d\<rparr>))"


section \<open>Turns\<close>

text \<open>How the plain write of a lineage ends: nothing, a torn file, or the file.\<close>

datatype plain_write = WroteNothing | WroteTorn | WroteAll

definition persistTurn ::
  "io \<Rightarrow> plain_write \<Rightarrow> gotime \<Rightarrow> path \<Rightarrow> int \<Rightarrow> turn \<Rightarrow> string option \<Rightarrow> thread_store
   \<Rightarrow> thread_error option \<times> thread_store" where
  "persistTurn out lout now dir n turn lineage s =
     (let turn = (if tn_time turn = 0 then turn\<lparr>tn_time := now\<rparr> else turn)
      in case write_file out (dir @ [turn_file n]) (FTurn turn) s of
           (Some e, s1) \<Rightarrow> (Some (WriteError e), s1)
         | (None, s1) \<Rightarrow>
             (case lineage of
                None \<Rightarrow> (None, s1)
              | Some l \<Rightarrow>
                  (case lout of
                     WroteNothing \<Rightarrow> (Some LineageError, s1)
                   | WroteTorn \<Rightarrow> (Some LineageError,
                       s1\<lparr>ts_disk := fs_write (dir @ [lineage_file n]) FTorn (ts_disk s1)\<rparr>)
                   | WroteAll \<Rightarrow> (None,
                       s1\<lparr>ts_disk := fs_write (dir @ [lineage_file n]) (FLineage (l @ [CHR 0x0A])) (ts_disk s1)\<rparr>))))"

definition placeholder :: "string \<Rightarrow> string \<Rightarrow> string \<Rightarrow> string option \<Rightarrow> gotime \<Rightarrow> turn" where
  "placeholder turnID sha prompt payload now =
     \<lparr>tn_turnID = turnID, tn_prompt = prompt, tn_time = now, tn_error = None, tn_sha = sha,
      tn_projectHint = '''', tn_payload = payload\<rparr>"

definition ReserveNewThread ::
  "io \<Rightarrow> io \<Rightarrow> gotime \<Rightarrow> string \<Rightarrow> string \<Rightarrow> string \<Rightarrow> string \<Rightarrow> string \<Rightarrow> string option \<Rightarrow> thread_store
   \<Rightarrow> (thread_error + string \<times> string) \<times> thread_store" where
  "ReserveNewThread out1 out2 now threadID turnID scope prompt sha payload s =
     (if not_configured s then (Inl NotConfigured, s)
      else if trim_space prompt = '''' then (Inl PromptRequired, s)
      else
        (let dir = threadDir scope threadID s
         in case write_file out1 (dir @ [''manifest.json''])
                  (FManifest \<lparr>mf_id = threadID, mf_title = TitleFromPrompt prompt, mf_createdAt = now\<rparr>) s of
              (Some e, s1) \<Rightarrow> (Inl (WriteError e), s1)
            | (None, s1) \<Rightarrow>
                (case write_file out2 (dir @ [''1.json''])
                       (FTurn (placeholder turnID sha prompt payload now)) s1 of
                   (Some e, s2) \<Rightarrow> (Inl (WriteError e), s2\<lparr>ts_disk := fs_remove_all dir (ts_disk s2)\<rparr>)
                 | (None, s2) \<Rightarrow> (Inr (threadID, turnID), s2))))"

definition ReserveFollowup ::
  "io \<Rightarrow> gotime \<Rightarrow> string \<Rightarrow> string \<Rightarrow> string \<Rightarrow> string \<Rightarrow> string \<Rightarrow> string option \<Rightarrow> thread_store
   \<Rightarrow> (thread_error + int \<times> string) \<times> thread_store" where
  "ReserveFollowup out now turnID scope threadID prompt sha payload s =
     (if not_configured s then (Inl NotConfigured, s)
      else if \<not> validID threadID then (Inl UnknownThread, s)
      else if trim_space prompt = '''' then (Inl PromptRequired, s)
      else
        (let dir = threadDir scope threadID s
         in if readManifest dir (ts_disk s) = None then (Inl UnknownThread, s)
            else if ts_approvals s
                 \<and> list_ex (\<lambda>a. approvalStatus a = ApprovalPending) (readApprovals dir (ts_disk s))
              then (Inl PendingApproval, s)
            else
              (let ns = sortedTurnNs dir (ts_disk s)
               in if ns = [] then (Inl UnknownThread, s)
                  else
                    (let n = wrap64 (ns ! (length ns - 1) + 1)
                     in case write_file out (dir @ [turn_file n])
                              (FTurn (placeholder turnID sha prompt payload now)) s of
                          (Some e, s1) \<Rightarrow> (Inl (WriteError e), s1)
                        | (None, s1) \<Rightarrow> (Inr (n, turnID), s1)))))"

definition CompleteTurn ::
  "io \<Rightarrow> plain_write \<Rightarrow> gotime \<Rightarrow> string \<Rightarrow> string \<Rightarrow> int \<Rightarrow> turn \<Rightarrow> string option \<Rightarrow> thread_store
   \<Rightarrow> thread_error option \<times> thread_store" where
  "CompleteTurn out lout now scope threadID n turn lineage s =
     (if not_configured s then (Some NotConfigured, s)
      else if \<not> validID threadID \<or> n < 1 \<or> tn_turnID turn = '''' \<or> trim_space (tn_prompt turn) = ''''
        then (Some BadTurn, s)
      else
        (let dir = threadDir scope threadID s
         in if readManifest dir (ts_disk s) = None then (Some UnknownThread, s)
            else if n \<notin> set (sortedTurnNs dir (ts_disk s)) then (Some UnknownTurn, s)
            else persistTurn out lout now dir n turn lineage s))"

text \<open>\<open>removed\<close>: whether the lineage could be removed; the code does not ask.\<close>

definition BeginRetry ::
  "io \<Rightarrow> bool \<Rightarrow> gotime \<Rightarrow> string \<Rightarrow> string \<Rightarrow> string \<Rightarrow> thread_store
   \<Rightarrow> (thread_error + int \<times> string \<times> string) \<times> thread_store" where
  "BeginRetry out removed now scope threadID newSHA s =
     (if not_configured s then (Inl NotConfigured, s)
      else if \<not> validID threadID then (Inl UnknownThread, s)
      else
        (let dir = threadDir scope threadID s
         in if readManifest dir (ts_disk s) = None then (Inl UnknownThread, s)
            else
              (let n = maxTurnN dir (ts_disk s)
               in if n < 1 then (Inl UnknownThread, s)
                  else
                    (case readTurn (dir @ [turn_file n]) (ts_disk s) of
                       None \<Rightarrow> (Inl UnknownThread, s)
                     | Some cur \<Rightarrow>
                         (case write_file out (dir @ [turn_file n])
                                (FTurn (placeholder (tn_turnID cur) newSHA (tn_prompt cur) None now)) s of
                            (Some e, s1) \<Rightarrow> (Inl (WriteError e), s1)
                          | (None, s1) \<Rightarrow>
                              (Inr (n, tn_turnID cur, tn_prompt cur),
                               if removed then s1\<lparr>ts_disk := fs_remove (dir @ [lineage_file n]) (ts_disk s1)\<rparr>
                               else s1))))))"


section \<open>Reading\<close>

definition Get :: "string \<Rightarrow> string \<Rightarrow> thread_store \<Rightarrow> thread_error + thread" where
  "Get scope i s =
     (if not_configured s then Inl NotConfigured
      else if \<not> validID i then Inl UnknownThread
      else
        (let dir = threadDir scope i s
         in case readManifest dir (ts_disk s) of
              None \<Rightarrow> Inl UnknownThread
            | Some man \<Rightarrow>
                if mf_id man \<noteq> i then Inl UnknownThread
                else
                  (let turns = List.map_filter (\<lambda>n. readTurn (dir @ [turn_file n]) (ts_disk s))
                                 (sortedTurnNs dir (ts_disk s))
                   in if turns = [] then Inl UnknownThread
                      else Inr
                        \<lparr>th_id = mf_id man, th_title = mf_title man, th_createdAt = mf_createdAt man,
                         th_updatedAt = (if tn_time (last turns) = 0 then mf_createdAt man else tn_time (last turns)),
                         th_turns = turns,
                         th_approvals = (if ts_approvals s then readApprovals dir (ts_disk s) else [])\<rparr>)))"

definition summary_of :: "path \<Rightarrow> string \<Rightarrow> tfile disk \<Rightarrow> summary option" where
  "summary_of dir name d =
     (case readManifest dir d of
        None \<Rightarrow> None
      | Some man \<Rightarrow>
          if mf_id man \<noteq> name then None
          else
            (case readTurn (dir @ [''1.json'']) d of
               None \<Rightarrow> None
             | Some first \<Rightarrow>
                 (let ns = sortedTurnNs dir d;
                      updated = (if ns = [] then mf_createdAt man
                        else (case readTurn (dir @ [turn_file (ns ! (length ns - 1))]) d of
                                None \<Rightarrow> mf_createdAt man
                              | Some l \<Rightarrow> if tn_time l = 0 then mf_createdAt man else tn_time l))
                  in Some \<lparr>su_id = mf_id man, su_title = mf_title man, su_createdAt = mf_createdAt man,
                           su_updatedAt = updated, su_turnCount = length ns,
                           su_preview = truncate_runes (tn_prompt first) 120\<rparr>)))"

text \<open>Newest first; equal times fall back to the id, which is unique among folders.\<close>

definition newer :: "summary \<Rightarrow> summary \<Rightarrow> bool" where
  "newer a b \<longleftrightarrow> (if su_createdAt a = su_createdAt b then su_id b < su_id a else su_createdAt b < su_createdAt a)"

fun insert_newest :: "summary \<Rightarrow> summary list \<Rightarrow> summary list" where
  "insert_newest a [] = [a]"
| "insert_newest a (b # bs) = (if newer b a then b # insert_newest a bs else a # b # bs)"

definition List_threads :: "string \<Rightarrow> thread_store \<Rightarrow> thread_error + summary list" where
  "List_threads scope s =
     (if not_configured s then Inl NotConfigured
      else
        (case fs_readdir (scopeDir scope s) (ts_disk s) of
           None \<Rightarrow> Inr []
         | Some es \<Rightarrow>
             Inr (foldr insert_newest
               (List.map_filter (\<lambda>(name, isDir).
                  if \<not> isDir \<or> \<not> validID name then None
                  else summary_of (scopeDir scope s @ [name]) name (ts_disk s)) es) [])))"

definition ReadTurnLineage :: "string \<Rightarrow> string \<Rightarrow> int \<Rightarrow> thread_store \<Rightarrow> thread_error + tfile" where
  "ReadTurnLineage scope threadID n s =
     (if not_configured s then Inl NotConfigured
      else if \<not> validID threadID \<or> n < 1 then Inl UnknownLineage
      else (case fs_read (threadDir scope threadID s @ [lineage_file n]) (ts_disk s) of
              None \<Rightarrow> Inl UnknownLineage
            | Some f \<Rightarrow> Inr f))"


section \<open>Deleting\<close>

definition remove_tree :: "path \<Rightarrow> thread_store \<Rightarrow> thread_store" where
  "remove_tree p s = s\<lparr>ts_disk := fs_remove_all p (ts_disk s)\<rparr>"

definition Delete :: "string \<Rightarrow> string \<Rightarrow> thread_store \<Rightarrow> thread_error option \<times> thread_store" where
  "Delete scope i s =
     (if not_configured s then (Some NotConfigured, s)
      else if \<not> validID i then (None, s)
      else (None, remove_tree (threadDir scope i s) s))"

definition DeleteScope :: "string \<Rightarrow> thread_store \<Rightarrow> thread_error option \<times> thread_store" where
  "DeleteScope scope s =
     (if not_configured s then (Some NotConfigured, s)
      else if trim_space scope = '''' then (Some ScopeRequired, s)
      else (None, remove_tree (scopeDir scope s) s))"

definition Purge :: "thread_store \<Rightarrow> thread_error option \<times> thread_store" where
  "Purge s = (if not_configured s then (Some NotConfigured, s) else (None, remove_tree (ts_dir s) s))"


section \<open>Approvals\<close>

definition AddApproval :: "io \<Rightarrow> string \<Rightarrow> approval \<Rightarrow> thread_store \<Rightarrow> thread_error option \<times> thread_store" where
  "AddApproval out threadID a s =
     (if \<not> ts_approvals s then (Some ApprovalsDisabled, s)
      else if \<not> validID threadID \<or> ap_id a = '''' \<or> ap_tool a = '''' then (Some BadApproval, s)
      else
        (let a = (if ap_status a = '''' then a\<lparr>ap_status := ApprovalPending\<rparr> else a);
             dir = threadDir '''' threadID s
         in if readManifest dir (ts_disk s) = None then (Some UnknownThread, s)
            else (let (e, s1) = write_file out (dir @ [''approvals.json''])
                                  (FApprovals (readApprovals dir (ts_disk s) @ [a])) s
                  in (map_option WriteError e, s1))))"

definition Approvals :: "string \<Rightarrow> thread_store \<Rightarrow> thread_error + approval list" where
  "Approvals threadID s =
     (if \<not> ts_approvals s then Inl ApprovalsDisabled
      else if \<not> validID threadID then Inl UnknownThread
      else
        (let dir = threadDir '''' threadID s
         in if readManifest dir (ts_disk s) = None then Inl UnknownThread
            else Inr (readApprovals dir (ts_disk s))))"

definition thread_names :: "thread_store \<Rightarrow> string list" where
  "thread_names s =
     (case fs_readdir (ts_dir s) (ts_disk s) of
        None \<Rightarrow> []
      | Some es \<Rightarrow> List.map_filter (\<lambda>(name, isDir). if isDir \<and> validID name then Some name else None) es)"

definition ApprovalCount :: "thread_store \<Rightarrow> nat" where
  "ApprovalCount s =
     sum_list (map (\<lambda>name. length (filter (\<lambda>a. approvalStatus a = ApprovalPending)
       (readApprovals (threadDir '''' name s) (ts_disk s)))) (thread_names s))"

definition FindApproval :: "string \<Rightarrow> thread_store \<Rightarrow> thread_error + approval \<times> string" where
  "FindApproval i s =
     (case List.map_filter (\<lambda>name. map_option (\<lambda>a. (a, name))
             (find (\<lambda>a. ap_id a = i) (readApprovals (threadDir '''' name s) (ts_disk s)))) (thread_names s) of
        [] \<Rightarrow> Inl UnknownApproval
      | x # _ \<Rightarrow> Inr x)"

fun resolve_first :: "string \<Rightarrow> string \<Rightarrow> gotime \<Rightarrow> approval list \<Rightarrow> thread_error + approval list" where
  "resolve_first i status now [] = Inl UnknownApproval"
| "resolve_first i status now (a # as) =
     (if ap_id a = i then
        (if approvalStatus a \<noteq> ApprovalPending then Inl AlreadyResolved
         else Inr (a\<lparr>ap_status := status, ap_resolvedAt := now\<rparr> # as))
      else (case resolve_first i status now as of Inl e \<Rightarrow> Inl e | Inr bs \<Rightarrow> Inr (a # bs)))"

definition ResolveApproval ::
  "io \<Rightarrow> gotime \<Rightarrow> string \<Rightarrow> string \<Rightarrow> string \<Rightarrow> thread_store \<Rightarrow> thread_error option \<times> thread_store" where
  "ResolveApproval out now threadID i status s =
     (if \<not> ts_approvals s then (Some ApprovalsDisabled, s)
      else if \<not> validID threadID then (Some UnknownThread, s)
      else if status \<noteq> ApprovalApproved \<and> status \<noteq> ApprovalDiscarded then (Some InvalidStatus, s)
      else
        (let dir = threadDir '''' threadID s
         in case resolve_first i status now (readApprovals dir (ts_disk s)) of
              Inl e \<Rightarrow> (Some e, s)
            | Inr items \<Rightarrow>
                (let (e, s1) = write_file out (dir @ [''approvals.json'']) (FApprovals items) s
                 in (map_option WriteError e, s1))))"


section \<open>Turn files\<close>

lemma itoa_digits: "0 \<le> n \<Longrightarrow> list_all is_digit (itoa n)"
  by (simp add: itoa_nonneg nat_digits_all)

lemma itoa_nonempty [simp]: "itoa n \<noteq> []"
  by (simp add: itoa_def)

lemma itoa_last: "0 \<le> n \<Longrightarrow> is_digit (last (itoa n))"
  using itoa_digits [of n] by (metis itoa_nonempty last_in_set list_all_iff)

lemma suffix_append_same: "suffix (p @ r) (s @ r) \<longleftrightarrow> suffix p s"
  by (simp add: suffix_def)

lemma not_suffix_digits: "0 \<le> n \<Longrightarrow> p \<noteq> [] \<Longrightarrow> \<not> is_digit (last p) \<Longrightarrow> \<not> suffix p (itoa n)"
  using itoa_last [of n] by (auto simp: suffix_def)

lemma itoa_leading: "1 \<le> n \<Longrightarrow> hd (itoa n) \<noteq> CHR ''0''"
  by (simp add: itoa_nonneg nat_digits_leading)

lemma turnFileN_turn_file: "1 \<le> n \<Longrightarrow> n < 2 ^ 63 \<Longrightarrow> turnFileN (turn_file n) = Some n"
proof -
  assume n: "1 \<le> n" "n < 2 ^ 63"
  have a: "\<not> suffix ''.lineage.json'' (itoa n @ ''.json'')"
    using not_suffix_digits [of n "''.lineage''"] suffix_append_same [of "''.lineage''" "''.json''" "itoa n"] n
    by (simp add: is_digit_def)
  have b: "itoa n @ ''.json'' \<noteq> ''manifest.json''"
  proof
    assume "itoa n @ ''.json'' = ''manifest.json''"
    then have "itoa n @ ''.json'' = ''manifest'' @ ''.json''" by simp
    then have "itoa n = ''manifest''" by (rule append_same_eq [THEN iffD1])
    then show False using itoa_last [of n] n by (simp add: is_digit_def)
  qed
  have c: "\<not> prefix ''0'' (itoa n)"
    using itoa_leading [of n] n by (cases "itoa n") auto
  have d: "atoi (itoa n) = Some n"
    using n by (intro atoi_itoa) (simp add: in_int64_def)
  have e: "suffix ''.json'' (itoa n @ ''.json'')" by (simp add: suffix_def)
  show ?thesis
    using a b c d e n by (simp add: turnFileN_def turn_file_def)
qed

lemma turnFileN_pos: "turnFileN x = Some n \<Longrightarrow> 1 \<le> n"
  by (auto simp: turnFileN_def Let_def split: if_splits option.splits)

lemma turn_file_inj: "1 \<le> n \<Longrightarrow> n < 2 ^ 63 \<Longrightarrow> 1 \<le> m \<Longrightarrow> m < 2 ^ 63 \<Longrightarrow> turn_file n = turn_file m \<longleftrightarrow> n = m"
  by (metis option.inject turnFileN_turn_file)

lemma turnFileN_none [simp]:
  "turnFileN ''approvals.json'' = None"
  "turnFileN ''manifest.json'' = None"
  by code_simp+

lemma turnFileN_tmp [simp]: "turnFileN (x @ ''.tmp'') = None"
proof -
  have "\<not> suffix ''.json'' (x @ ''.tmp'')"
    by (auto simp: suffix_to_prefix)
  then show ?thesis by (simp add: turnFileN_def)
qed

lemma turnFileN_lineage [simp]: "turnFileN (lineage_file n) = None"
proof -
  have "suffix ''.lineage.json'' (lineage_file n)" by (simp add: lineage_file_def suffix_def)
  then show ?thesis by (simp add: turnFileN_def)
qed

definition turn_names :: "path \<Rightarrow> tfile disk \<Rightarrow> string set" where
  "turn_names dir d = {x. fs_read (dir @ [x]) d \<noteq> None \<and> turnFileN x \<noteq> None}"

lemma finite_turn_names [simp]: "finite (turn_names dir d)"
proof (rule finite_subset)
  show "turn_names dir d \<subseteq> last ` fst ` set d"
  proof
    fix x assume "x \<in> turn_names dir d"
    then have "dir @ [x] \<in> fst ` set d"
      using fs_read_None_iff [of "dir @ [x]" d] by (auto simp: turn_names_def)
    then show "x \<in> last ` fst ` set d" by (metis image_eqI last_snoc)
  qed
qed simp

lemma sorted_turnNs: "sorted (sortedTurnNs dir d)"
  by (simp add: sortedTurnNs_def split: option.splits)

lemma mset_map_filter_remdups:
  "mset (List.map_filter f (sort_key k (remdups xs)))
   = image_mset (the \<circ> f) (mset_set {x \<in> set xs. f x \<noteq> None})"
proof -
  have "mset (List.map_filter f (sort_key k (remdups xs)))
      = image_mset (the \<circ> f) (filter_mset (\<lambda>x. f x \<noteq> None) (mset (remdups xs)))"
    by (simp add: List.map_filter_def mset_filter)
  also have "mset (remdups xs) = mset_set (set xs)"
    by (metis distinct_remdups mset_set_set set_remdups)
  finally show ?thesis by (simp add: comp_def)
qed

lemma mset_turnNs: "mset (sortedTurnNs dir d) = image_mset (the \<circ> turnFileN) (mset_set (turn_names dir d))"
proof (cases "fs_readdir dir d")
  case None
  then have "turn_names dir d = {}"
    using fs_readdir_None [OF None] by (simp add: turn_names_def)
  with None show ?thesis by (simp add: sortedTurnNs_def)
next
  case (Some es)
  let ?f = "\<lambda>(n, isDir). if isDir then None else turnFileN n"
  have es: "es = sort_key fst (remdups (fs_children dir d))"
    using Some by (auto simp: fs_readdir_def split: if_splits)
  have set: "{x \<in> set (fs_children dir d). ?f x \<noteq> None} = (\<lambda>n. (n, False)) ` turn_names dir d"
    by (auto simp: turn_names_def fs_children_file split: if_splits)
  have "mset (sortedTurnNs dir d) = image_mset (the \<circ> ?f) (mset_set ((\<lambda>n. (n, False)) ` turn_names dir d))"
    by (simp only: sortedTurnNs_def Some option.case mset_sort es mset_map_filter_remdups set)
  also have "\<dots> = image_mset (the \<circ> ?f) (image_mset (\<lambda>n. (n, False)) (mset_set (turn_names dir d)))"
    by (subst image_mset_mset_set) (auto simp: inj_on_def)
  finally show ?thesis by (simp add: comp_def image_mset.compositionality)
qed

lemma set_turnNs: "n \<in> set (sortedTurnNs dir d) \<longleftrightarrow> (\<exists>x \<in> turn_names dir d. turnFileN x = Some n)"
proof -
  have "set (sortedTurnNs dir d) = (the \<circ> turnFileN) ` turn_names dir d"
    by (metis finite_set_mset_mset_set finite_turn_names mset_turnNs set_image_mset set_mset_mset)
  then show ?thesis by (force simp: turn_names_def)
qed

lemma turnNs_same: "turn_names dir d = turn_names dir d' \<Longrightarrow> sortedTurnNs dir d = sortedTurnNs dir d'"
  by (metis mset_turnNs properties_for_sort sorted_turnNs sorted_sort_id)

lemma turnNs_grow:
  assumes "turn_names dir d' = insert x (turn_names dir d)" "x \<notin> turn_names dir d"
    and "turnFileN x = Some n" "\<And>m. m \<in> set (sortedTurnNs dir d) \<Longrightarrow> m \<le> n"
  shows "sortedTurnNs dir d' = sortedTurnNs dir d @ [n]"
proof -
  have "mset (sortedTurnNs dir d') = mset (sortedTurnNs dir d @ [n])"
    using assms(1-3) by (simp add: mset_turnNs)
  moreover have "sorted (sortedTurnNs dir d @ [n])"
    using assms(4) sorted_turnNs [of dir d] by (simp add: sorted_append)
  ultimately show ?thesis
    by (metis properties_for_sort sorted_sort_id sorted_turnNs)
qed

lemma turn_file_listed:
  "fs_read (dir @ [turn_file n]) d \<noteq> None \<Longrightarrow> 1 \<le> n \<Longrightarrow> n < 2 ^ 63 \<Longrightarrow> n \<in> set (sortedTurnNs dir d)"
  using turnFileN_turn_file [of n] by (auto simp: set_turnNs turn_names_def)

lemma maxTurnN_ge: "m \<in> set (sortedTurnNs dir d) \<Longrightarrow> m \<le> maxTurnN dir d"
  using sorted_turnNs [of dir d]
  by (auto simp: maxTurnN_def Let_def in_set_conv_nth intro!: sorted_nth_mono)

lemma maxTurnN_in: "sortedTurnNs dir d \<noteq> [] \<Longrightarrow> maxTurnN dir d \<in> set (sortedTurnNs dir d)"
  by (simp add: maxTurnN_def Let_def)

lemma turnNs_range: "n \<in> set (sortedTurnNs dir d) \<Longrightarrow> 1 \<le> n"
  by (auto simp: set_turnNs dest: turnFileN_pos)


section \<open>What a write leaves alone\<close>

lemma tmp_path_snoc [simp]: "tmp_path (dir @ [x]) = dir @ [x @ ''.tmp'']"
  by (simp add: tmp_path_def)

lemma write_file_result:
  assumes "write_file out (dir @ [x]) v s = (e, s')"
  shows "ts_dir s' = ts_dir s" and "ts_approvals s' = ts_approvals s"
    and "fs_read (dir @ [x]) (ts_disk s') = (if e = None then Some v else fs_read (dir @ [x]) (ts_disk s))"
    and "q \<noteq> dir @ [x] \<Longrightarrow> q \<noteq> dir @ [x @ ''.tmp''] \<Longrightarrow> fs_read q (ts_disk s') = fs_read q (ts_disk s)"
proof -
  obtain d where w: "write_json_file FTorn out (dir @ [x]) v (ts_disk s) = (e, d)"
    and s': "s' = s\<lparr>ts_disk := d\<rparr>"
    using assms by (auto simp: write_file_def split: prod.splits)
  show "ts_dir s' = ts_dir s" "ts_approvals s' = ts_approvals s" by (simp_all add: s')
  show "fs_read (dir @ [x]) (ts_disk s') = (if e = None then Some v else fs_read (dir @ [x]) (ts_disk s))"
    using write_json_file_read [OF w] by (simp add: s')
  show "q \<noteq> dir @ [x] \<Longrightarrow> q \<noteq> dir @ [x @ ''.tmp''] \<Longrightarrow> fs_read q (ts_disk s') = fs_read q (ts_disk s)"
    using write_json_file_frame [OF w] by (simp add: s')
qed

lemmas write_file_frame = write_file_result(4)

lemma write_file_turn_names:
  assumes "write_file out (dir @ [x]) v s = (e, s')"
  shows "turn_names dir (ts_disk s') =
    (if e = None \<and> turnFileN x \<noteq> None then insert x (turn_names dir (ts_disk s)) else turn_names dir (ts_disk s))"
proof -
  have "y \<in> turn_names dir (ts_disk s') \<longleftrightarrow>
      y \<in> (if e = None \<and> turnFileN x \<noteq> None then insert x (turn_names dir (ts_disk s)) else turn_names dir (ts_disk s))" for y
  proof (cases "y = x")
    case True
    then show ?thesis using write_file_result(3) [OF assms] by (auto simp: turn_names_def)
  next
    case False
    show ?thesis
    proof (cases "y = x @ ''.tmp''")
      case True
      then show ?thesis by (auto simp: turn_names_def)
    next
      case no_tmp: False
      have "fs_read (dir @ [y]) (ts_disk s') = fs_read (dir @ [y]) (ts_disk s)"
        using False no_tmp by (intro write_file_frame [OF assms]) auto
      then show ?thesis using False by (auto simp: turn_names_def)
    qed
  qed
  then show ?thesis by blast
qed

lemma readTurn_frame: "fs_read p d = fs_read p d' \<Longrightarrow> readTurn p d = readTurn p d'"
  by (simp add: readTurn_def)

lemma readManifest_frame:
  "fs_read (dir @ [''manifest.json'']) d = fs_read (dir @ [''manifest.json'']) d' \<Longrightarrow>
   readManifest dir d = readManifest dir d'"
  by (simp add: readManifest_def)

lemma readApprovals_frame:
  "fs_read (dir @ [''approvals.json'']) d = fs_read (dir @ [''approvals.json'']) d' \<Longrightarrow>
   readApprovals dir d = readApprovals dir d'"
  by (simp add: readApprovals_def)

text \<open>The files of a turn are none of the others.\<close>

lemma hd_itoa: "hd (itoa n) = CHR ''-'' \<or> is_digit (hd (itoa n))"
  using nat_digits_Cons [of "nat n"] by (auto simp: itoa_def)

lemma starts_with_letter:
  assumes "c # s = itoa n @ t"
  shows "c = CHR ''-'' \<or> is_digit c"
  using assms hd_itoa [of n] by (metis hd_append2 itoa_nonempty list.sel(1))

lemma turn_file_other:
  assumes "c \<noteq> CHR ''-''" "\<not> is_digit c"
  shows "turn_file n \<noteq> c # s" and "turn_file n @ t \<noteq> c # s"
    and "lineage_file n \<noteq> c # s" and "lineage_file n @ t \<noteq> c # s"
  using starts_with_letter [of c s n] assms
  by (metis turn_file_def lineage_file_def append.assoc)+

lemma last_turn_file: "turn_file n \<noteq> s @ ''.tmp''" "lineage_file n \<noteq> s @ ''.tmp''"
proof -
  have a: "x = s @ ''.tmp'' \<Longrightarrow> last x = CHR ''p''" for x by simp
  show "turn_file n \<noteq> s @ ''.tmp''" using a [of "turn_file n"] by (auto simp: turn_file_def)
  show "lineage_file n \<noteq> s @ ''.tmp''" using a [of "lineage_file n"] by (auto simp: lineage_file_def)
qed

lemma not_digit_letters [simp]: "\<not> is_digit CHR ''m''" "\<not> is_digit CHR ''a''"
  by (simp_all add: is_digit_def)

lemma turn_file_distinct [simp]:
  "turn_file n \<noteq> ''manifest.json''" "turn_file n \<noteq> ''approvals.json''"
  "''manifest.json'' \<noteq> turn_file n @ t" "''approvals.json'' \<noteq> turn_file n @ t"
  "''manifest.json'' \<noteq> turn_file n" "''approvals.json'' \<noteq> turn_file n"
  "''manifest.json'' \<noteq> lineage_file n" "''approvals.json'' \<noteq> lineage_file n"
  by (rule turn_file_other turn_file_other [symmetric]; simp)+

lemma turn_file_not_tmp [simp]:
  "turn_file n \<noteq> s @ ''.tmp''" "lineage_file n \<noteq> s @ ''.tmp''"
  "s @ ''.tmp'' \<noteq> turn_file n" "s @ ''.tmp'' \<noteq> lineage_file n"
  using last_turn_file by metis+

lemma lineage_file_not_turn: "1 \<le> m \<Longrightarrow> m < 2 ^ 63 \<Longrightarrow> lineage_file n \<noteq> turn_file m"
  by (metis option.distinct(1) turnFileN_lineage turnFileN_turn_file)

lemma threadDir_cong: "ts_dir s' = ts_dir s \<Longrightarrow> threadDir scope i s' = threadDir scope i s"
  by (simp add: threadDir_def scopeDir_def Let_def)

text \<open>What \<open>Get\<close> reads, as a function of the files.\<close>

lemma Get_frame:
  assumes "ts_dir s' = ts_dir s" "ts_approvals s' = ts_approvals s"
    and same: "\<And>x. fs_read (threadDir scope i s @ [x]) (ts_disk s') = fs_read (threadDir scope i s @ [x]) (ts_disk s)"
  shows "Get scope i s' = Get scope i s"
proof -
  have dir: "threadDir scope i s' = threadDir scope i s"
    using assms(1) by (rule threadDir_cong)
  have "turn_names (threadDir scope i s) (ts_disk s') = turn_names (threadDir scope i s) (ts_disk s)"
    by (simp add: turn_names_def same)
  then have ns: "sortedTurnNs (threadDir scope i s) (ts_disk s') = sortedTurnNs (threadDir scope i s) (ts_disk s)"
    by (rule turnNs_same)
  have rt: "readTurn (threadDir scope i s @ [turn_file n]) (ts_disk s') = readTurn (threadDir scope i s @ [turn_file n]) (ts_disk s)" for n
    by (rule readTurn_frame) (rule same)
  have rm: "readManifest (threadDir scope i s) (ts_disk s') = readManifest (threadDir scope i s) (ts_disk s)"
    and ra: "readApprovals (threadDir scope i s) (ts_disk s') = readApprovals (threadDir scope i s) (ts_disk s)"
    by (rule readManifest_frame readApprovals_frame, rule same)+
  show ?thesis
    by (simp add: Get_def Let_def not_configured_def assms(1,2) dir ns rt rm ra split: option.split)
qed

section \<open>Properties\<close>

lemma followup_success:
  assumes "ReserveFollowup out now turnID scope threadID prompt sha payload s = (Inr (n, tid), s')"
  shows "tid = turnID" and "trim_space prompt \<noteq> ''''"
    and "sortedTurnNs (threadDir scope threadID s) (ts_disk s) \<noteq> []"
    and "n = wrap64 (maxTurnN (threadDir scope threadID s) (ts_disk s) + 1)"
    and "write_file out (threadDir scope threadID s @ [turn_file n])
          (FTurn (placeholder turnID sha prompt payload now)) s = (None, s')"
  using assms
  by (auto simp: ReserveFollowup_def Let_def maxTurnN_def split: if_splits prod.splits option.splits)

lemma readTurn_placeholder:
  "turnID \<noteq> '''' \<Longrightarrow> trim_space prompt \<noteq> '''' \<Longrightarrow>
   fs_read p d = Some (FTurn (placeholder turnID sha prompt payload now)) \<Longrightarrow>
   readTurn p d = Some (placeholder turnID sha prompt payload now)"
  by (auto simp: readTurn_def placeholder_def)

lemma followup_next:
  assumes run: "ReserveFollowup out now turnID scope threadID prompt sha payload s = (Inr (n, tid), s')"
    and bound: "maxTurnN (threadDir scope threadID s) (ts_disk s) < 2 ^ 63 - 1"
  shows "n = maxTurnN (threadDir scope threadID s) (ts_disk s) + 1" "1 \<le> n" "n < 2 ^ 63"
    and "m \<in> set (sortedTurnNs (threadDir scope threadID s) (ts_disk s)) \<Longrightarrow> m < n"
    and "fs_read (threadDir scope threadID s @ [turn_file n]) (ts_disk s) = None"
proof -
  let ?dir = "threadDir scope threadID s"
  have pos: "1 \<le> maxTurnN ?dir (ts_disk s)"
    using maxTurnN_in [OF followup_success(3) [OF run]] turnNs_range by blast
  then show n: "n = maxTurnN ?dir (ts_disk s) + 1"
    using followup_success(4) [OF run] bound by simp
  show r: "1 \<le> n" "n < 2 ^ 63" using n pos bound by simp_all
  show "m \<in> set (sortedTurnNs ?dir (ts_disk s)) \<Longrightarrow> m < n" for m
    using maxTurnN_ge [of m ?dir "ts_disk s"] n by simp
  then show "fs_read (?dir @ [turn_file n]) (ts_disk s) = None"
    using turn_file_listed [OF _ r] by blast
qed

lemma followup_parts:
  assumes get: "Get scope threadID s = Inr th"
    and run: "ReserveFollowup out now turnID scope threadID prompt sha payload s = (Inr (n, tid), s')"
    and bound: "maxTurnN (threadDir scope threadID s) (ts_disk s) < 2 ^ 63 - 1" and tid: "turnID \<noteq> ''''"
  shows "fs_read (threadDir scope threadID s @ [turn_file n]) (ts_disk s) = None"
    and "list_all (\<lambda>m. m < n) (sortedTurnNs (threadDir scope threadID s) (ts_disk s))"
    and "Get scope threadID s' = Inr (th\<lparr>th_turns := th_turns th @ [placeholder turnID sha prompt payload now],
          th_updatedAt := (if now = 0 then th_createdAt th else now)\<rparr>)"
proof -
  let ?dir = "threadDir scope threadID s" and ?p = "placeholder turnID sha prompt payload now"
  note next_n = followup_next [OF run bound]
  note w = followup_success(5) [OF run]
  show fresh: "fs_read (?dir @ [turn_file n]) (ts_disk s) = None" by (rule next_n(5))
  show "list_all (\<lambda>m. m < n) (sortedTurnNs ?dir (ts_disk s))" using next_n(4) by (simp add: list_all_iff)
  have dir: "threadDir scope threadID s' = ?dir" by (rule threadDir_cong) (rule write_file_result(1) [OF w])
  have tf: "turnFileN (turn_file n) = Some n" using next_n(2,3) by (rule turnFileN_turn_file)
  have ns: "sortedTurnNs ?dir (ts_disk s') = sortedTurnNs ?dir (ts_disk s) @ [n]"
  proof (rule turnNs_grow [OF _ _ tf])
    show "turn_names ?dir (ts_disk s') = insert (turn_file n) (turn_names ?dir (ts_disk s))"
      using write_file_turn_names [OF w] tf by simp
    show "turn_file n \<notin> turn_names ?dir (ts_disk s)" using fresh by (simp add: turn_names_def)
  qed (use next_n(4) in force)
  have old: "readTurn (?dir @ [turn_file m]) (ts_disk s') = readTurn (?dir @ [turn_file m]) (ts_disk s)"
    if "m \<in> set (sortedTurnNs ?dir (ts_disk s))" for m
  proof -
    have "turn_file m \<noteq> turn_file n"
      using next_n(2-4) that turnNs_range [OF that] turn_file_inj [of m n] by fastforce
    then show ?thesis by (intro readTurn_frame write_file_frame [OF w]) auto
  qed
  have new: "readTurn (?dir @ [turn_file n]) (ts_disk s') = Some ?p"
    using write_file_result(3) [OF w] by (intro readTurn_placeholder tid followup_success(2) [OF run]) simp
  have turns: "List.map_filter (\<lambda>m. readTurn (?dir @ [turn_file m]) (ts_disk s')) (sortedTurnNs ?dir (ts_disk s'))
      = List.map_filter (\<lambda>m. readTurn (?dir @ [turn_file m]) (ts_disk s)) (sortedTurnNs ?dir (ts_disk s)) @ [?p]"
    by (simp add: ns map_filter_append new) (simp add: List.map_filter_def old cong: filter_cong map_cong)
  have man: "readManifest ?dir (ts_disk s') = readManifest ?dir (ts_disk s)"
    and app: "readApprovals ?dir (ts_disk s') = readApprovals ?dir (ts_disk s)"
    by (rule readManifest_frame readApprovals_frame; rule write_file_frame [OF w]; simp)+
  show "Get scope threadID s' = Inr (th\<lparr>th_turns := th_turns th @ [?p],
          th_updatedAt := (if now = 0 then th_createdAt th else now)\<rparr>)"
    using get write_file_result(1,2) [OF w]
    by (auto simp: Get_def not_configured_def dir turns man app placeholder_def Let_def
        split: if_splits option.splits)
qed

text \<open>
  C28: a follow-up is appended to its chat. When \<open>ReserveFollowup\<close> succeeds on a chat that \<open>Get\<close>
  shows, its number is above that of every turn, the file it writes did not exist, and \<open>Get\<close> then
  shows the same chat - title, every earlier turn, approvals - with the placeholder at the end.
  (The bound on the largest number keeps \<open>ns[len(ns)-1] + 1\<close> from wrapping.)
\<close>

theorem followup_appends:
  assumes "Get scope threadID s = Inr th"
    and "ReserveFollowup out now turnID scope threadID prompt sha payload s = (Inr (n, tid), s')"
    and "maxTurnN (threadDir scope threadID s) (ts_disk s) < 2 ^ 63 - 1" "turnID \<noteq> ''''"
  shows "fs_read (threadDir scope threadID s @ [turn_file n]) (ts_disk s) = None
    \<and> list_all (\<lambda>m. m < n) (sortedTurnNs (threadDir scope threadID s) (ts_disk s))
    \<and> Get scope threadID s' = Inr (th\<lparr>th_turns := th_turns th @ [placeholder turnID sha prompt payload now],
          th_updatedAt := (if now = 0 then th_createdAt th else now)\<rparr>)"
  by (intro conjI followup_parts [OF assms])

lemma turnFileN_range: "turnFileN x = Some n \<Longrightarrow> n < 2 ^ 63"
  by (auto simp: turnFileN_def atoi_def in_int64_def Let_def split: if_splits option.splits prod.splits)

lemma turnNs_lt: "n \<in> set (sortedTurnNs dir d) \<Longrightarrow> n < 2 ^ 63"
  by (auto simp: set_turnNs dest: turnFileN_range)

lemma turnNs_write:
  assumes w: "write_file out (dir @ [turn_file n]) v s = (e, s')"
    and n: "n \<in> set (sortedTurnNs dir (ts_disk s))"
  shows "set (sortedTurnNs dir (ts_disk s')) = set (sortedTurnNs dir (ts_disk s))"
proof -
  have "turnFileN (turn_file n) = Some n"
    using turnNs_range [OF n] turnNs_lt [OF n] by (rule turnFileN_turn_file)
  then have "m \<in> set (sortedTurnNs dir (ts_disk s')) \<longleftrightarrow> m \<in> set (sortedTurnNs dir (ts_disk s))" for m
    using n by (auto simp: set_turnNs write_file_turn_names [OF w])
  then show ?thesis by blast
qed

lemma turnNs_lineage:
  "sortedTurnNs dir (fs_write (dir @ [lineage_file n]) v d) = sortedTurnNs dir d"
  by (rule turnNs_same) (auto simp: turn_names_def)

lemma completion_parts:
  assumes run: "CompleteTurn out lout now scope threadID n turn lineage s = (e, s')"
    and dir: "dir = threadDir scope threadID s"
  shows "set (sortedTurnNs dir (ts_disk s')) = set (sortedTurnNs dir (ts_disk s))"
    and "readManifest dir (ts_disk s') = readManifest dir (ts_disk s)"
    and "readApprovals dir (ts_disk s') = readApprovals dir (ts_disk s)"
    and "m \<noteq> n \<Longrightarrow> m \<in> set (sortedTurnNs dir (ts_disk s)) \<Longrightarrow>
      readTurn (dir @ [turn_file m]) (ts_disk s') = readTurn (dir @ [turn_file m]) (ts_disk s)"
    and "readTurn (dir @ [turn_file n]) (ts_disk s') =
      (if e = None \<or> e = Some LineageError then Some (if tn_time turn = 0 then turn\<lparr>tn_time := now\<rparr> else turn)
       else readTurn (dir @ [turn_file n]) (ts_disk s))"
proof -
  let ?t = "if tn_time turn = 0 then turn\<lparr>tn_time := now\<rparr> else turn"
  have all: "set (sortedTurnNs dir (ts_disk s')) = set (sortedTurnNs dir (ts_disk s))
    \<and> readManifest dir (ts_disk s') = readManifest dir (ts_disk s)
    \<and> readApprovals dir (ts_disk s') = readApprovals dir (ts_disk s)
    \<and> (\<forall>m. m \<noteq> n \<longrightarrow> m \<in> set (sortedTurnNs dir (ts_disk s)) \<longrightarrow>
        readTurn (dir @ [turn_file m]) (ts_disk s') = readTurn (dir @ [turn_file m]) (ts_disk s))
    \<and> readTurn (dir @ [turn_file n]) (ts_disk s') =
        (if e = None \<or> e = Some LineageError then Some ?t else readTurn (dir @ [turn_file n]) (ts_disk s))"
  proof (cases "s' = s \<and> e \<noteq> None \<and> e \<noteq> Some LineageError")
    case True
    then show ?thesis by auto
  next
    case False
    with run dir have n: "n \<in> set (sortedTurnNs dir (ts_disk s))"
      and p: "persistTurn out lout now dir n turn lineage s = (e, s')"
      and good: "tn_turnID turn \<noteq> ''''" "tn_prompt turn \<noteq> ''''"
      by (auto simp: CompleteTurn_def Let_def split: if_splits)
    obtain e1 s1 where w: "write_file out (dir @ [turn_file n]) (FTurn ?t) s = (e1, s1)"
      by fastforce
    note nr = turnNs_range [OF n] turnNs_lt [OF n]
    have s1: "set (sortedTurnNs dir (ts_disk s1)) = set (sortedTurnNs dir (ts_disk s))"
      "readManifest dir (ts_disk s1) = readManifest dir (ts_disk s)"
      "readApprovals dir (ts_disk s1) = readApprovals dir (ts_disk s)"
      by (rule turnNs_write [OF w n] readManifest_frame readApprovals_frame; (rule write_file_frame [OF w]; simp)?)+
    have other1: "readTurn (dir @ [turn_file m]) (ts_disk s1) = readTurn (dir @ [turn_file m]) (ts_disk s)"
      if m: "m \<noteq> n" "m \<in> set (sortedTurnNs dir (ts_disk s))" for m
      using turn_file_inj [OF turnNs_range [OF m(2)] turnNs_lt [OF m(2)] nr] m(1)
      by (intro readTurn_frame write_file_frame [OF w]) auto
    have this1: "readTurn (dir @ [turn_file n]) (ts_disk s1) =
        (if e1 = None then Some ?t else readTurn (dir @ [turn_file n]) (ts_disk s))"
      using write_file_result(3) [OF w] good by (auto simp: readTurn_def)
    have lin: "readTurn (dir @ [turn_file m]) (fs_write (dir @ [lineage_file n]) v d) = readTurn (dir @ [turn_file m]) d"
      if m: "m \<in> set (sortedTurnNs dir (ts_disk s))" for m v d
      using lineage_file_not_turn [OF turnNs_range [OF m] turnNs_lt [OF m], of n]
      by (auto simp: readTurn_def)
    have lin2: "readManifest dir (fs_write (dir @ [lineage_file n]) v d) = readManifest dir d"
      "readApprovals dir (fs_write (dir @ [lineage_file n]) v d) = readApprovals dir d" for v d
      by (simp_all add: readManifest_def readApprovals_def)
    show ?thesis
      using p w s1 other1 this1
      by (auto simp: persistTurn_def Let_def turnNs_lineage lin [OF n] lin lin2
          split: option.splits plain_write.splits prod.splits)
  qed
  then show "set (sortedTurnNs dir (ts_disk s')) = set (sortedTurnNs dir (ts_disk s))"
    "readManifest dir (ts_disk s') = readManifest dir (ts_disk s)"
    "readApprovals dir (ts_disk s') = readApprovals dir (ts_disk s)"
    "m \<noteq> n \<Longrightarrow> m \<in> set (sortedTurnNs dir (ts_disk s)) \<Longrightarrow>
      readTurn (dir @ [turn_file m]) (ts_disk s') = readTurn (dir @ [turn_file m]) (ts_disk s)"
    "readTurn (dir @ [turn_file n]) (ts_disk s') =
      (if e = None \<or> e = Some LineageError then Some ?t else readTurn (dir @ [turn_file n]) (ts_disk s))"
    by blast+
qed

text \<open>
  Completing a turn changes that turn only. Whatever the writes do, the turn numbers of the
  chat, every other turn, the manifest and the approvals stay; the turn itself reads back as given
  when the call succeeds or only its lineage failed, and as it was on every other error.
\<close>

theorem completion_in_place:
  assumes "CompleteTurn out lout now scope threadID n turn lineage s = (e, s')"
    and "dir = threadDir scope threadID s"
  shows "set (sortedTurnNs dir (ts_disk s')) = set (sortedTurnNs dir (ts_disk s))
    \<and> readManifest dir (ts_disk s') = readManifest dir (ts_disk s)
    \<and> readApprovals dir (ts_disk s') = readApprovals dir (ts_disk s)
    \<and> (\<forall>m \<in> set (sortedTurnNs dir (ts_disk s)) - {n}.
        readTurn (dir @ [turn_file m]) (ts_disk s') = readTurn (dir @ [turn_file m]) (ts_disk s))
    \<and> readTurn (dir @ [turn_file n]) (ts_disk s') =
        (if e = None \<or> e = Some LineageError then Some (if tn_time turn = 0 then turn\<lparr>tn_time := now\<rparr> else turn)
         else readTurn (dir @ [turn_file n]) (ts_disk s))"
  by (intro conjI ballI completion_parts [OF assms]) auto

text \<open>A run of the operations that write, each with its arguments and outcomes.\<close>

datatype thread_op =
    OpNew io io gotime string string string string string "string option"
  | OpFollowup io gotime string string string string string "string option"
  | OpComplete io plain_write gotime string string int turn "string option"
  | OpRetry io bool gotime string string string
  | OpAdd io string approval
  | OpResolve io gotime string string string

definition thread_step :: "thread_op \<Rightarrow> thread_store \<Rightarrow> thread_store" where
  "thread_step p s =
     (case p of
        OpNew o1 o2 now i j scope prompt sha payload \<Rightarrow> snd (ReserveNewThread o1 o2 now i j scope prompt sha payload s)
      | OpFollowup out now j scope i prompt sha payload \<Rightarrow> snd (ReserveFollowup out now j scope i prompt sha payload s)
      | OpComplete out lout now scope i n t l \<Rightarrow> snd (CompleteTurn out lout now scope i n t l s)
      | OpRetry out removed now scope i sha \<Rightarrow> snd (BeginRetry out removed now scope i sha s)
      | OpAdd out i a \<Rightarrow> snd (AddApproval out i a s)
      | OpResolve out now i j status \<Rightarrow> snd (ResolveApproval out now i j status s))"

text \<open>Minted ids are well formed and not taken; no scope is dot-dot.\<close>

fun op_ok :: "string \<Rightarrow> thread_op \<Rightarrow> bool" where
  "op_ok i (OpNew _ _ _ j _ scope _ _ _) \<longleftrightarrow> validID j \<and> j \<noteq> i \<and> scope \<noteq> ''..''"
| "op_ok i _ \<longleftrightarrow> True"

definition thread_run :: "thread_op list \<Rightarrow> thread_store \<Rightarrow> thread_store" where
  "thread_run ops s = foldl (\<lambda>s p. thread_step p s) s ops"

definition approvals_of :: "string \<Rightarrow> thread_store \<Rightarrow> approval list" where
  "approvals_of i s = readApprovals (threadDir '''' i s) (ts_disk s)"

abbreviation approvals_file :: "string \<Rightarrow> thread_store \<Rightarrow> path" where
  "approvals_file i s \<equiv> ts_dir s @ [i, ''approvals.json'']"

lemma approvals_of_frame:
  "ts_dir s' = ts_dir s \<Longrightarrow> fs_read (approvals_file i s) (ts_disk s') = fs_read (approvals_file i s) (ts_disk s)
   \<Longrightarrow> ts_dir s' = ts_dir s \<and> approvals_of i s' = approvals_of i s"
  by (simp add: approvals_of_def readApprovals_def threadDir_def scopeDir_def)

lemma approvals_frame_write:
  assumes w: "write_file out (dir @ [x]) v s = (e, s')" and x: "x \<noteq> ''approvals.json''" "x @ ''.tmp'' \<noteq> ''approvals.json''"
  shows "ts_dir s' = ts_dir s \<and> approvals_of i s' = approvals_of i s"
proof (rule approvals_of_frame)
  show "ts_dir s' = ts_dir s" by (rule write_file_result(1) [OF w])
  have "dir @ [y] \<noteq> approvals_file i s" if "y \<noteq> ''approvals.json''" for y
    using that by (metis last.simps last_appendR last_snoc list.discI)
  then show "fs_read (approvals_file i s) (ts_disk s') = fs_read (approvals_file i s) (ts_disk s)"
    using x by (intro write_file_frame [OF w]) metis+
qed

lemma approvals_frame_disk:
  "fs_read (approvals_file i s) d = fs_read (approvals_file i s) (ts_disk s)
   \<Longrightarrow> approvals_of i (s\<lparr>ts_disk := d\<rparr>) = approvals_of i s"
  using approvals_of_frame [of "s\<lparr>ts_disk := d\<rparr>" s i] by simp

lemma lineage_not_approvals: "approvals_file i s \<noteq> dir @ [lineage_file n]"
proof
  assume "approvals_file i s = dir @ [lineage_file n]"
  then have "last (approvals_file i s) = lineage_file n" by (simp only: last_snoc)
  then show False by simp
qed

lemma validID_not_approvals: "\<not> validID ''approvals.json''"
  by code_simp

text \<open>The escaping of a scope is injective and leaves no separator.\<close>

lemma hexDigit_inj: "a < 16 \<Longrightarrow> b < 16 \<Longrightarrow> hexDigits ! a = hexDigits ! b \<longleftrightarrow> a = b"
proof -
  assume "a < 16" "b < 16"
  moreover have "distinct hexDigits" "length hexDigits = 16" by code_simp+
  ultimately show ?thesis by (simp add: nth_eq_iff_index_eq)
qed

lemma escape_byte_inj: "escape_byte c @ r = escape_byte d @ q \<Longrightarrow> c = d \<and> r = q"
proof -
  assume eq: "escape_byte c @ r = escape_byte d @ q"
  have pct: "\<not> plain_byte CHR ''%''" by code_simp
  have b: "byte_of x div 16 < 16" for x by (rule less_mult_imp_div_less) simp
  show ?thesis
  proof (cases "plain_byte c \<or> plain_byte d")
    case True
    then show ?thesis using eq pct by (auto simp: escape_byte_def split: if_splits)
  next
    case False
    then have "byte_of c div 16 = byte_of d div 16" "byte_of c mod 16 = byte_of d mod 16" "r = q"
      using eq b by (auto simp: escape_byte_def hexDigit_inj)
    then have "byte_of c = byte_of d" by (metis div_mult_mod_eq)
    with \<open>r = q\<close> show ?thesis by simp
  qed
qed

lemma urlPathEscape_simps [simp]:
  "urlPathEscape [] = []" "urlPathEscape (c # s) = escape_byte c @ urlPathEscape s"
  by (simp_all add: urlPathEscape_def)

lemma escape_byte_nonempty [simp]: "escape_byte c \<noteq> []"
  by (simp add: escape_byte_def)

lemma urlPathEscape_inj: "urlPathEscape s = urlPathEscape t \<longleftrightarrow> s = t"
proof
  show "urlPathEscape s = urlPathEscape t \<Longrightarrow> s = t"
  proof (induction s arbitrary: t)
    case Nil
    then show ?case by (cases t) auto
  next
    case (Cons c s)
    then show ?case by (cases t) (auto dest: escape_byte_inj)
  qed
qed simp

lemma urlPathEscape_dots: "urlPathEscape s = ''.'' \<longleftrightarrow> s = ''.''" "urlPathEscape s = ''..'' \<longleftrightarrow> s = ''..''"
proof -
  have "urlPathEscape ''.'' = ''.''" "urlPathEscape ''..'' = ''..''" by code_simp+
  then show "urlPathEscape s = ''.'' \<longleftrightarrow> s = ''.''" "urlPathEscape s = ''..'' \<longleftrightarrow> s = ''..''"
    by (metis urlPathEscape_inj)+
qed

lemma scopeDir_cases:
  "scopeDir scope s = (if scope = '''' \<or> scope = ''.'' then ts_dir s
     else if scope = ''..'' then butlast (ts_dir s) else ts_dir s @ [urlPathEscape scope])"
  by (simp add: scopeDir_def Let_def urlPathEscape_dots del: urlPathEscape_simps)

lemma new_thread_other_tree:
  assumes "validID j" "j \<noteq> i" "scope \<noteq> ''..''"
  shows "\<not> prefix (threadDir scope j s) (approvals_file i s)"
  using assms validID_not_approvals by (auto simp: threadDir_def scopeDir_cases)

lemma threadDir_root: "threadDir '''' i s = ts_dir s @ [i]"
  by (simp add: threadDir_def scopeDir_def)

lemma resolve_first_keeps:
  assumes "resolve_first j status now as = Inr bs" "find (\<lambda>a. ap_id a = i) as = Some a"
    and "approvalStatus a \<noteq> ApprovalPending"
  shows "find (\<lambda>a. ap_id a = i) bs = Some a"
  using assms
proof (induction j status now as arbitrary: bs rule: resolve_first.induct)
  case (2 j status now x as)
  then show ?case by (auto split: if_splits sum.splits)
qed simp

lemma approvals_write:
  assumes w: "write_file out (threadDir '''' j s @ [''approvals.json'']) (FApprovals as) s = (e, s')"
  shows "ts_dir s' = ts_dir s"
    and "approvals_of i s' = (if i = j \<and> e = None then as else approvals_of i s)"
proof -
  show dir: "ts_dir s' = ts_dir s" by (rule write_file_result(1) [OF w])
  note r = write_file_result(3) [OF w]
  have "fs_read (approvals_file i s) (ts_disk s') =
      (if i = j \<and> e = None then Some (FApprovals as) else fs_read (approvals_file i s) (ts_disk s))"
  proof (cases "i = j")
    case True
    then show ?thesis using r by (simp add: threadDir_root)
  next
    case False
    then show ?thesis using write_file_frame [OF w, of "approvals_file i s"] by (simp add: threadDir_root)
  qed
  then show "approvals_of i s' = (if i = j \<and> e = None then as else approvals_of i s)"
    by (simp add: approvals_of_def readApprovals_def threadDir_root dir)
qed

lemma approvals_remove_lineage:
  "approvals_of i (s\<lparr>ts_disk := fs_remove (dir @ [lineage_file n]) (ts_disk s)\<rparr>) = approvals_of i s"
  "approvals_of i (s\<lparr>ts_disk := fs_write (dir @ [lineage_file n]) v (ts_disk s)\<rparr>) = approvals_of i s"
  by (rule approvals_frame_disk; simp add: lineage_not_approvals)+

text \<open>Every step keeps the list of approvals, appends to it, or resolves one of its entries.\<close>

lemma thread_step_approvals:
  assumes ok: "op_ok i p"
  shows "ts_dir (thread_step p s) = ts_dir s \<and>
    (approvals_of i (thread_step p s) = approvals_of i s
     \<or> (\<exists>a. approvals_of i (thread_step p s) = approvals_of i s @ [a])
     \<or> (\<exists>j status now. resolve_first j status now (approvals_of i s) = Inr (approvals_of i (thread_step p s))))"
proof (cases p)
  case (OpNew o1 o2 now j tid scope prompt sha payload)
  let ?dir = "threadDir scope j s"
  obtain e1 s1 where w1: "write_file o1 (?dir @ [''manifest.json''])
      (FManifest \<lparr>mf_id = j, mf_title = TitleFromPrompt prompt, mf_createdAt = now\<rparr>) s = (e1, s1)" by fastforce
  obtain e2 s2 where w2: "write_file o2 (?dir @ [''1.json'']) (FTurn (placeholder tid sha prompt payload now)) s1 = (e2, s2)"
    by fastforce
  have f1: "ts_dir s1 = ts_dir s \<and> approvals_of i s1 = approvals_of i s"
    and f2: "ts_dir s2 = ts_dir s1 \<and> approvals_of i s2 = approvals_of i s1"
    by (rule approvals_frame_write [OF w1] approvals_frame_write [OF w2]; simp)+
  have "\<not> prefix ?dir (approvals_file i s2)"
    using new_thread_other_tree [of j i scope s] ok f1 f2 by (simp add: OpNew)
  then have "approvals_of i (s2\<lparr>ts_disk := fs_remove_all ?dir (ts_disk s2)\<rparr>) = approvals_of i s2"
    by (intro approvals_frame_disk) simp
  then show ?thesis using f1 f2 w1 w2
    by (auto simp: OpNew thread_step_def ReserveNewThread_def Let_def split: option.split)
next
  case (OpFollowup out now j scope k prompt sha payload)
  have "thread_step p s = s \<or> (\<exists>n v e. write_file out (threadDir scope k s @ [turn_file n]) v s = (e, thread_step p s))"
    by (auto simp: OpFollowup thread_step_def ReserveFollowup_def Let_def split: option.split prod.split)
  then show ?thesis using approvals_frame_write by fastforce
next
  case (OpComplete out lout now scope k n t l)
  let ?dir = "threadDir scope k s"
  have "thread_step p s = s \<or> (\<exists>v e s1. write_file out (?dir @ [turn_file n]) v s = (e, s1)
      \<and> (thread_step p s = s1 \<or> (\<exists>u. thread_step p s = s1\<lparr>ts_disk := fs_write (?dir @ [lineage_file n]) u (ts_disk s1)\<rparr>)))"
    by (auto simp: OpComplete thread_step_def CompleteTurn_def persistTurn_def Let_def
        split: option.split prod.split plain_write.split)
  then show ?thesis using approvals_frame_write approvals_remove_lineage by fastforce
next
  case (OpRetry out removed now scope k sha)
  let ?dir = "threadDir scope k s"
  have "thread_step p s = s \<or> (\<exists>n v e s1. write_file out (?dir @ [turn_file n]) v s = (e, s1)
      \<and> (thread_step p s = s1 \<or> thread_step p s = s1\<lparr>ts_disk := fs_remove (?dir @ [lineage_file n]) (ts_disk s1)\<rparr>))"
    by (auto simp: OpRetry thread_step_def BeginRetry_def Let_def split: option.split prod.split)
  then show ?thesis using approvals_frame_write approvals_remove_lineage by fastforce
next
  case (OpAdd out j a)
  have "thread_step p s = s \<or> (\<exists>e b. write_file out (threadDir '''' j s @ [''approvals.json''])
      (FApprovals (approvals_of j s @ [b])) s = (e, thread_step p s))"
    by (auto simp: OpAdd thread_step_def AddApproval_def approvals_of_def Let_def split: prod.split)
  then show ?thesis using approvals_write by (elim disjE exE) auto
next
  case (OpResolve out now j k status)
  have "thread_step p s = s \<or> (\<exists>e bs. resolve_first k status now (approvals_of j s) = Inr bs
      \<and> write_file out (threadDir '''' j s @ [''approvals.json'']) (FApprovals bs) s = (e, thread_step p s))"
    by (auto simp: OpResolve thread_step_def ResolveApproval_def approvals_of_def Let_def split: prod.split sum.split)
  then show ?thesis
  proof (elim disjE exE conjE)
    fix e bs
    assume r: "resolve_first k status now (approvals_of j s) = Inr bs"
      and w: "write_file out (threadDir '''' j s @ [''approvals.json'']) (FApprovals bs) s = (e, thread_step p s)"
    show ?thesis using r approvals_write [OF w] by (cases "i = j \<and> e = None") auto
  qed simp
qed

text \<open>A resolved approval is resolved for good.\<close>

lemma run_keeps_resolved:
  assumes "list_all (op_ok i) ops" "find (\<lambda>a. ap_id a = j) (approvals_of i s) = Some a"
    and "approvalStatus a \<noteq> ApprovalPending"
  shows "find (\<lambda>a. ap_id a = j) (approvals_of i (thread_run ops s)) = Some a"
  using assms(1,2)
proof (induction ops arbitrary: s)
  case (Cons p ops)
  have "find (\<lambda>a. ap_id a = j) (approvals_of i (thread_step p s)) = Some a"
    using thread_step_approvals [of i p s] Cons.prems assms(3)
    by (auto simp: find_append_case dest: resolve_first_keeps)
  then show ?case using Cons by (simp add: thread_run_def)
qed (simp add: thread_run_def)

lemma resolve_first_resolved:
  "find (\<lambda>a. ap_id a = j) as = Some a \<Longrightarrow> approvalStatus a \<noteq> ApprovalPending \<Longrightarrow>
   resolve_first j status now as = Inl AlreadyResolved"
  by (induction as) (auto split: if_splits)

lemma step_flag: "ts_approvals (thread_step p s) = ts_approvals s"
proof -
  have w: "ts_approvals (snd (write_file out q v s)) = ts_approvals s" for out q v s
    by (simp add: write_file_def split: prod.split)
  have w': "write_file out q v s = (e, s') \<Longrightarrow> ts_approvals s' = ts_approvals s" for out q v s e s'
    using w [of out q v s] by simp
  show ?thesis
    by (cases p) (auto simp: thread_step_def ReserveNewThread_def ReserveFollowup_def CompleteTurn_def
        persistTurn_def BeginRetry_def AddApproval_def ResolveApproval_def Let_def
        split: option.splits prod.splits plain_write.splits sum.splits dest!: w')
qed

lemma run_flag: "ts_approvals (thread_run ops s) = ts_approvals s"
  by (induction ops arbitrary: s) (simp_all add: thread_run_def step_flag)

lemma resolved_parts:
  assumes "list_all (op_ok i) ops" "ts_approvals s" "validID i"
    and "find (\<lambda>a. ap_id a = j) (approvals_of i s) = Some a" "approvalStatus a \<noteq> ApprovalPending"
  shows "find (\<lambda>a. ap_id a = j) (approvals_of i (thread_run ops s)) = Some a"
    and "status = ApprovalApproved \<or> status = ApprovalDiscarded \<Longrightarrow>
      ResolveApproval out now i j status (thread_run ops s) = (Some AlreadyResolved, thread_run ops s)"
proof -
  show a: "find (\<lambda>a. ap_id a = j) (approvals_of i (thread_run ops s)) = Some a"
    using assms(1,4,5) by (rule run_keeps_resolved)
  have "resolve_first j status now (readApprovals (threadDir '''' i (thread_run ops s)) (ts_disk (thread_run ops s)))
      = Inl AlreadyResolved"
    using resolve_first_resolved [OF a assms(5)] by (simp add: approvals_of_def)
  then show "status = ApprovalApproved \<or> status = ApprovalDiscarded \<Longrightarrow>
      ResolveApproval out now i j status (thread_run ops s) = (Some AlreadyResolved, thread_run ops s)"
    using assms(2,3) by (auto simp: ResolveApproval_def run_flag Let_def)
qed

text \<open>
  C6: an approval is resolved at most once. Once the approval \<open>j\<close> of a chat is approved or
  discarded, then after any later run of reservations, completions, retries, new approvals and
  resolutions with any write failures it is still there with the same status, and every
  attempt to resolve it again is refused and changes nothing.
\<close>

theorem approval_resolved_once:
  assumes "list_all (op_ok i) ops" "ts_approvals s" "validID i"
    and "find (\<lambda>a. ap_id a = j) (approvals_of i s) = Some a" "approvalStatus a \<noteq> ApprovalPending"
    and "status = ApprovalApproved \<or> status = ApprovalDiscarded"
  shows "find (\<lambda>a. ap_id a = j) (approvals_of i (thread_run ops s)) = Some a
    \<and> ResolveApproval out now i j status (thread_run ops s) = (Some AlreadyResolved, thread_run ops s)"
  by (intro conjI resolved_parts [OF assms(1-5)] assms(6))

text \<open>While an approval is pending no follow-up is reserved and nothing is written.\<close>

lemma pending_blocks:
  assumes "ts_approvals s" "a \<in> set (approvals_of i s)" "approvalStatus a = ApprovalPending"
  shows "\<exists>e. ReserveFollowup out now turnID '''' i prompt sha payload s = (Inl e, s)"
  using assms by (auto simp: ReserveFollowup_def approvals_of_def list_ex_iff Let_def)

lemma DeleteScope_done:
  "DeleteScope a s = (None, s') \<Longrightarrow> ts_dir s' = ts_dir s \<and> ts_approvals s' = ts_approvals s
     \<and> ts_dir s \<noteq> [] \<and> ts_disk s' = fs_remove_all (scopeDir a s) (ts_disk s)"
  by (auto simp: DeleteScope_def remove_tree_def not_configured_def split: if_splits)

lemma Get_gone:
  "prefix dir (threadDir scope i s) \<Longrightarrow> ts_disk s = fs_remove_all dir d \<Longrightarrow> ts_dir s \<noteq> [] \<Longrightarrow>
   Get scope i s = Inl UnknownThread"
  by (auto simp: Get_def Let_def not_configured_def readManifest_def)

lemma delete_scope_parts:
  assumes "DeleteScope a s = (None, s')" "a \<noteq> ''.''" "a \<noteq> ''..''"
  shows "Get a i s' = Inl UnknownThread"
    and "b \<noteq> a \<Longrightarrow> b \<notin> {'''', ''.'', ''..''} \<Longrightarrow> Get b i s' = Get b i s"
proof -
  note d = DeleteScope_done [OF assms(1)]
  have a: "a \<noteq> ''''" using assms(1) by (auto simp: DeleteScope_def split: if_splits)
  show "Get a i s' = Inl UnknownThread"
    using d assms(2,3) a by (intro Get_gone [of "scopeDir a s" a i s' "ts_disk s"]) (auto simp: threadDir_def scopeDir_cases)
  assume b: "b \<noteq> a" "b \<notin> {'''', ''.'', ''..''}"
  then have "\<not> prefix (scopeDir a s) (threadDir b i s @ [x])" for x
    using assms(2,3) a by (auto simp: threadDir_def scopeDir_cases urlPathEscape_inj)
  then show "Get b i s' = Get b i s"
    using d by (intro Get_frame) auto
qed

text \<open>
  Deleting a scope deletes its chats and no others. After \<open>DeleteScope a\<close> every chat of the
  scope is unknown and \<open>Get\<close> shows every chat of another scope unchanged, whatever bytes the two
  names hold: the escaping is injective. (Dot and dot-dot are no project names.)
\<close>

theorem delete_scope_isolated:
  assumes "DeleteScope a s = (None, s')" "a \<noteq> ''.''" "a \<noteq> ''..''"
  shows "Get a i s' = Inl UnknownThread
    \<and> (b \<noteq> a \<and> b \<notin> {'''', ''.'', ''..''} \<longrightarrow> Get b i s' = Get b i s)"
  using delete_scope_parts [OF assms] by blast

text \<open>The scope dot is the store root: the guard against wiping everything does not see it.\<close>

lemma delete_scope_dot:
  "DeleteScope ''.'' s = (None, s') \<Longrightarrow> b \<noteq> ''..'' \<Longrightarrow> Get b i s' = Inl UnknownThread"
  using DeleteScope_done [of "''.''" s s']
  by (intro Get_gone [of "ts_dir s" b i s' "ts_disk s"]) (auto simp: threadDir_def scopeDir_cases)

text \<open>A title is never empty and never above 61 code points.\<close>

lemma runes_of_runes_same: "runes (of_runes (runes s)) = runes s"
  by (rule runes_of_runes) (rule runes_valid)

lemma truncate_bounded: "length (runes (truncate_runes s m)) \<le> Suc m"
  by (simp add: truncate_runes_def Let_def runes_take_prefix runes_of_runes_same)

lemma title_bounded: "length (runes (TitleFromPrompt p)) \<le> 61"
proof -
  have "length (runes ''New chat'') \<le> 61" by code_simp
  then show ?thesis using truncate_bounded [of _ 60] by (simp add: TitleFromPrompt_def Let_def)
qed

text \<open>A second name of the first turn, which the comment on \<open>turnFileN\<close> rules out.\<close>

lemma plus_sign_is_a_turn: "turnFileN ''+1.json'' = Some 1" "turnFileN ''01.json'' = None"
  by code_simp+

definition sample_turn :: turn where
  "sample_turn = placeholder ''f1'' ''c0'' ''Hello'' None 5"

definition sample_approval :: "string \<Rightarrow> string \<Rightarrow> approval" where
  "sample_approval i st = \<lparr>ap_id = i, ap_turnID = ''f1'', ap_status = st, ap_tool = ''delete'', ap_args = '''',
     ap_summary = '''', ap_blastRadius = '''', ap_createdAt = 5, ap_resolvedAt = 0\<rparr>"

definition sample_chats :: thread_store where
  "sample_chats = \<lparr>ts_dir = [''butler''], ts_approvals = True, ts_disk =
     [([''butler'', ''ab'', ''manifest.json''], FManifest \<lparr>mf_id = ''ab'', mf_title = ''Hello'', mf_createdAt = 4\<rparr>),
      ([''butler'', ''ab'', ''1.json''], FTurn sample_turn),
      ([''butler'', ''ab'', ''approvals.json''], FApprovals [sample_approval ''k1'' ''approved''])]\<rparr>"

definition sample_thread :: thread where
  "sample_thread = \<lparr>th_id = ''ab'', th_title = ''Hello'', th_createdAt = 4, th_updatedAt = 5,
     th_turns = [sample_turn], th_approvals = [sample_approval ''k1'' ''approved'']\<rparr>"

lemma sample_Get: "Get '''' ''ab'' sample_chats = Inr sample_thread"
  by code_simp

lemma sample_follow:
  "fst (ReserveFollowup IoDone 9 ''f2'' '''' ''ab'' ''more'' '''' None sample_chats) = Inr (2, ''f2'')"
  by code_simp

lemma sample_max: "maxTurnN (threadDir '''' ''ab'' sample_chats) (ts_disk sample_chats) < 2 ^ 63 - 1"
  by code_simp

theorem followup_appends_witness:
  "Get '''' ''ab'' (snd (ReserveFollowup IoDone 9 ''f2'' '''' ''ab'' ''more'' '''' None sample_chats))
    = Inr (sample_thread\<lparr>th_turns := th_turns sample_thread @ [placeholder ''f2'' '''' ''more'' None 9],
          th_updatedAt := (if 9 = (0::int) then th_createdAt sample_thread else 9)\<rparr>)"
proof (rule followup_appends [THEN conjunct2, THEN conjunct2, OF sample_Get _ sample_max])
  show "ReserveFollowup IoDone 9 ''f2'' '''' ''ab'' ''more'' '''' None sample_chats
    = (Inr (2, ''f2''), snd (ReserveFollowup IoDone 9 ''f2'' '''' ''ab'' ''more'' '''' None sample_chats))"
    by (simp add: prod_eq_iff sample_follow)
qed simp

lemma sample_complete:
  "fst (CompleteTurn IoDone WroteNothing 9 '''' ''ab'' 1 sample_turn (Some ''x'') sample_chats) = Some LineageError"
  by code_simp

theorem completion_in_place_witness:
  "readTurn (threadDir '''' ''ab'' sample_chats @ [turn_file 1])
     (ts_disk (snd (CompleteTurn IoDone WroteNothing 9 '''' ''ab'' 1 sample_turn (Some ''x'') sample_chats)))
   = Some (if tn_time sample_turn = 0 then sample_turn\<lparr>tn_time := 9\<rparr> else sample_turn)"
  using completion_in_place [where out = IoDone and lout = WroteNothing and now = 9 and scope = "''''"
      and threadID = "''ab''" and n = 1 and turn = sample_turn and lineage = "Some ''x''" and s = sample_chats,
      OF prod.collapse [symmetric] refl]
  by (simp add: sample_complete)

definition sample_ops :: "thread_op list" where
  "sample_ops = [OpNew IoDone IoNoRename 11 ''cd'' ''f3'' '''' ''New'' '''' None,
     OpAdd IoDone ''ab'' (sample_approval ''k2'' ''''), OpResolve IoDone 12 ''ab'' ''k2'' ''discarded'',
     OpFollowup IoDone 13 ''f2'' '''' ''ab'' ''more'' '''' None]"

lemma sample_ops_ok: "list_all (op_ok ''ab'') sample_ops" by code_simp

lemma sample_resolved:
  "find (\<lambda>a. ap_id a = ''k1'') (approvals_of ''ab'' sample_chats) = Some (sample_approval ''k1'' ''approved'')"
  "approvalStatus (sample_approval ''k1'' ''approved'') \<noteq> ApprovalPending"
  "ts_approvals sample_chats" "validID ''ab''"
  by code_simp+

theorem approval_resolved_once_witness:
  "ResolveApproval IoDone 20 ''ab'' ''k1'' ApprovalDiscarded (thread_run sample_ops sample_chats)
   = (Some AlreadyResolved, thread_run sample_ops sample_chats)"
  by (rule approval_resolved_once [THEN conjunct2, OF sample_ops_ok sample_resolved(3,4,1,2)]) simp

definition sample_maps :: thread_store where
  "sample_maps = \<lparr>ts_dir = [''codemaps''], ts_approvals = False, ts_disk =
     [([''codemaps'', ''o%2Fa'', ''ab'', ''manifest.json''], FManifest \<lparr>mf_id = ''ab'', mf_title = ''Hello'', mf_createdAt = 4\<rparr>),
      ([''codemaps'', ''o%2Fa'', ''ab'', ''1.json''], FTurn sample_turn)]\<rparr>"

theorem delete_scope_isolated_witness:
  "Get ''o/a'' ''ab'' (snd (DeleteScope ''o%2Fa'' sample_maps)) = Get ''o/a'' ''ab'' sample_maps"
proof (rule delete_scope_isolated [THEN conjunct2, THEN mp])
  show "DeleteScope ''o%2Fa'' sample_maps = (None, snd (DeleteScope ''o%2Fa'' sample_maps))"
    by (simp add: prod_eq_iff) code_simp
qed simp_all


end
