(* ===== verification/Project.thy ===== *)
theory Project
  imports ProjectStore Repo Docker Shell Threads
begin

text \<open>
  server/internal/project/service.go and status.go: the life of a project's container over the project
  records, the Docker client and the key pair. Log lines are left out; every write of the state file
  takes the outcome the system gives it, and \<open>sv_io_error\<close> is the error value of a write that failed.
\<close>

abbreviation ErrProjectNotFound :: string where "ErrProjectNotFound \<equiv> ''project not found''"
abbreviation ErrInvalidScope :: string where "ErrInvalidScope \<equiv> ''invalid delete scope''"
abbreviation ErrConflict :: string where "ErrConflict \<equiv> ''project already exists''"
abbreviation ErrNotExist :: string where "ErrNotExist \<equiv> ''file does not exist''"

definition ProjectImage :: string where "ProjectImage = ''pcoder-project:v4''"
definition repoTarget :: string where "repoTarget = ''/workspace''"
definition stopWait :: int where "stopWait = 10 * second"

datatype scope = ScopeContainer | ScopeRepo | ScopeMetadata | ScopeAll | OtherScope string

fun scope_text :: "scope \<Rightarrow> string" where
  "scope_text ScopeContainer = ''container''"
| "scope_text ScopeRepo = ''repo''"
| "scope_text ScopeMetadata = ''metadata''"
| "scope_text ScopeAll = ''all''"
| "scope_text (OtherScope s) = s"

text \<open>
  What the service is wired to. \<open>sv_sshKeys\<close> says whether the key store is attached (it reads the same
  state document), \<open>sv_installer\<close> is the session service's install.
\<close>

record project_service =
  sv_docker :: client
  sv_lower :: "nat \<Rightarrow> nat"
  sv_url :: "string \<Rightarrow> parsed_url option"
  sv_allowAnyRepo :: bool
  sv_sshKeys :: bool
  sv_installer :: "(string \<Rightarrow> string \<Rightarrow> go_err option docker_op) option"
  sv_io_error :: "io_error \<Rightarrow> go_err"

record world =
  pw_store :: store
  pw_docker :: "docker_call list"
  pw_codemaps :: "thread_store option"

type_synonym 'a project_op = "world \<Rightarrow> 'a \<times> world"

definition on_docker :: "'a docker_op \<Rightarrow> 'a project_op" where
  "on_docker op w = (case op (pw_docker w) of (r, h) \<Rightarrow> (r, w\<lparr>pw_docker := h\<rparr>))"

definition on_store :: "(store \<Rightarrow> 'a \<times> store) \<Rightarrow> 'a project_op" where
  "on_store op w = (case op (pw_store w) of (r, s) \<Rightarrow> (r, w\<lparr>pw_store := s\<rparr>))"

text \<open>The errors of the store as Go values.\<close>

fun not_exist :: "store_error \<Rightarrow> go_err" where
  "not_exist (ProjectNotExist p) = \<lparr>ge_text = ''project '' @ p @ '': '' @ ErrNotExist, ge_is = [ErrNotExist]\<rparr>"

fun store_err :: "project_service \<Rightarrow> store_error mutate_error \<Rightarrow> go_err" where
  "store_err sv (FnFailed e) = not_exist e"
| "store_err sv (SaveFailed e) = sv_io_error sv e"

definition wrap_not_found :: "go_err \<Rightarrow> go_err" where
  "wrap_not_found e = (if is_err e ErrNotExist then \<lparr>ge_text = ErrProjectNotFound, ge_is = [ErrProjectNotFound]\<rparr> else e)"

definition stored_err :: "project_service \<Rightarrow> store_error mutate_error + unit \<Rightarrow> go_err option" where
  "stored_err sv r = (case r of Inl e \<Rightarrow> Some (store_err sv e) | Inr _ \<Rightarrow> None)"

text \<open>The wrappers of the store: the same operation, with a missing record as the service's own error.\<close>

definition wrapped :: "project_service \<Rightarrow> (store \<Rightarrow> unit stored) \<Rightarrow> go_err option project_op" where
  "wrapped sv op w = (case on_store op w of (r, w') \<Rightarrow> (map_option wrap_not_found (stored_err sv r), w'))"

definition sv_RecordInstall :: "project_service \<Rightarrow> io \<Rightarrow> string \<Rightarrow> string \<Rightarrow> go_err option project_op" where
  "sv_RecordInstall sv out p hid = wrapped sv (RecordInstall out p hid)"

definition sv_RecordInstalling :: "project_service \<Rightarrow> io \<Rightarrow> string \<Rightarrow> string \<Rightarrow> go_err option project_op" where
  "sv_RecordInstalling sv out p hid = wrapped sv (RecordInstalling out p hid)"

definition sv_ClearInstalling :: "project_service \<Rightarrow> io \<Rightarrow> string \<Rightarrow> string \<Rightarrow> go_err option project_op" where
  "sv_ClearInstalling sv out p hid = wrapped sv (ClearInstalling out p hid)"

definition sv_RecordSession :: "project_service \<Rightarrow> io \<Rightarrow> string \<Rightarrow> string \<Rightarrow> string \<Rightarrow> go_err option project_op" where
  "sv_RecordSession sv out p name hid = wrapped sv (RecordSession out p name hid)"

definition sv_HarnessStates :: "string \<Rightarrow> world \<Rightarrow> go_err + (string \<times> harness_status) list" where
  "sv_HarnessStates p w =
     (case HarnessStates p (pw_store w) of Inl e \<Rightarrow> Inl (wrap_not_found (not_exist e)) | Inr s \<Rightarrow> Inr s)"


section \<open>Names and status\<close>

definition ContainerName :: "project_service \<Rightarrow> string \<Rightarrow> string" where
  "ContainerName sv p = ''pcoder-'' @ SanitizeName (sv_lower sv) p"

definition repoVolume :: "project_service \<Rightarrow> string \<Rightarrow> string" where
  "repoVolume sv p = ''pcoder-'' @ SanitizeName (sv_lower sv) p @ ''-repo''"

definition homeVolume :: "project_service \<Rightarrow> string \<Rightarrow> string" where
  "homeVolume sv p = ''pcoder-'' @ SanitizeName (sv_lower sv) p @ ''-home''"

abbreviation StateMissing :: string where "StateMissing \<equiv> ''missing''"
abbreviation StateRunning :: string where "StateRunning \<equiv> ''running''"

definition ContainerStatus :: "client \<Rightarrow> string \<Rightarrow> (go_err + string) docker_op" where
  "ContainerStatus d name h =
     (case dk_inspect d name h of
        (Inl e, h') \<Rightarrow> (if is_err e ErrNotFound then Inr StateMissing else Inl e, h')
      | (Inr c, h') \<Rightarrow> (Inr (if ct_Running c then StateRunning else ct_Status c), h'))"

text \<open>\<open>store.Get\<close>, as the handlers of the service use it.\<close>

definition known :: "string \<Rightarrow> world \<Rightarrow> go_err + project" where
  "known p w = (case ps_get p (pw_store w) of Inl e \<Rightarrow> Inl (wrap_not_found (not_exist e)) | Inr q \<Rightarrow> Inr q)"


section \<open>Commands in the container\<close>

definition execOK :: "client \<Rightarrow> string \<Rightarrow> string list \<Rightarrow> go_err option docker_op" where
  "execOK d c args h =
     (case dk_exec d c args False h of
        (Inl e, h') \<Rightarrow> (Some e, h')
      | (Inr r, h') \<Rightarrow> (if er_ExitCode r \<noteq> 0 then Some (errorf (trim_space (er_Output r))) else None, h'))"

definition nl :: string where "nl = [CHR 0x0A]"

definition sshConfigBlock :: string where
  "sshConfigBlock = nl @ ''Host github.com'' @ nl @ ''  StrictHostKeyChecking accept-new'' @ nl @
     ''  IdentityFile /root/.ssh/id_ed25519'' @ nl"

definition config_probe :: "string list" where
  "config_probe = [''sh'', ''-c'',
     ''grep -q '' @ [CHR 0x27] @ ''IdentityFile /root/.ssh/id_ed25519'' @ [CHR 0x27] @ '' /root/.ssh/config 2>/dev/null'']"

definition config_append :: "string list" where
  "config_append = [''sh'', ''-c'',
     ''printf '' @ [CHR 0x27] @ ''%s'' @ [CHR 0x27] @ '' '' @ ShellQuote sshConfigBlock @ '' >> /root/.ssh/config'']"

definition add_config :: "client \<Rightarrow> string \<Rightarrow> go_err option docker_op" where
  "add_config d c h =
     (case dk_exec d c config_probe False h of
        (r, h1) \<Rightarrow>
          if (case r of Inl _ \<Rightarrow> True | Inr x \<Rightarrow> er_ExitCode x \<noteq> 0) then execOK d c config_append h1
          else (None, h1))"

fun try_all :: "(string \<times> go_err option docker_op) list \<Rightarrow> go_err option docker_op" where
  "try_all [] h = (None, h)"
| "try_all ((what, op) # ops) h =
     (case op h of (Some e, h') \<Rightarrow> (Some (wrapf what e), h') | (None, h') \<Rightarrow> try_all ops h')"

definition inject_key :: "client \<Rightarrow> string \<Rightarrow> server_ssh_key \<Rightarrow> go_err option docker_op" where
  "inject_key d c kp = try_all
     [(''mkdir .ssh'', execOK d c [''sh'', ''-c'', ''mkdir -p /root/.ssh && chmod 700 /root/.ssh'']),
      (''write deploy key'', dk_unit d (CWriteFile c ''/root/.ssh/id_ed25519'' (sk_private kp))),
      (''write deploy pubkey'', dk_unit d (CWriteFile c ''/root/.ssh/id_ed25519.pub'' (sk_public kp @ nl))),
      (''write ssh config'', add_config d c),
      (''write ssh marker'', dk_unit d (CWriteFile c ''/root/.ssh-configured-sha'' (sk_fingerprint kp)))]"

definition server_key :: "project_service \<Rightarrow> world \<Rightarrow> server_ssh_key option" where
  "server_key sv w = doc_server_key (view (pw_store w))"

definition injectGitSSH :: "project_service \<Rightarrow> string \<Rightarrow> go_err option project_op" where
  "injectGitSSH sv c w =
     (if \<not> sv_sshKeys sv then (None, w)
      else case server_key sv w of
             None \<Rightarrow> (Some (errorf (''no server ssh key '' @ [CHR 0xE2, CHR 0x80, CHR 0x94] @ '' restart the server to generate one'')), w)
           | Some kp \<Rightarrow> on_docker (inject_key (sv_docker sv) c kp) w)"

definition EnsureGitSSH :: "project_service \<Rightarrow> string \<Rightarrow> go_err option project_op" where
  "EnsureGitSSH sv c w =
     (if \<not> sv_sshKeys sv then (None, w)
      else case server_key sv w of
             None \<Rightarrow> (None, w)
           | Some kp \<Rightarrow>
               (case on_docker (dk_exec (sv_docker sv) c [''cat'', ''/root/.ssh-configured-sha''] False) w of
                  (r, w1) \<Rightarrow>
                    if (case r of Inl _ \<Rightarrow> False | Inr x \<Rightarrow> trim_space (er_Output x) = sk_fingerprint kp) then (None, w1)
                    else injectGitSSH sv c w1))"

section \<open>Bringing a container up\<close>

definition ensureProjectImage :: "client \<Rightarrow> go_err option docker_op" where
  "ensureProjectImage d h =
     (case dk_unit d (CInspectImage ProjectImage) h of
        (None, h1) \<Rightarrow> (None, h1)
      | (Some e, h1) \<Rightarrow> if \<not> is_err e ErrNotFound then (Some e, h1) else dk_unit d (CBuild ProjectImage) h1)"

definition project_container :: "project_service \<Rightarrow> string \<Rightarrow> spec" where
  "project_container sv p =
     \<lparr>sp_Name = ContainerName sv p, sp_Image = ProjectImage, sp_Cmd = [], sp_Env = [], sp_WorkDir = [], sp_Writable = True,
      sp_Memory = 0, sp_Network = [],
      sp_Volumes = [\<lparr>mt_Name = repoVolume sv p, mt_Dest = repoTarget\<rparr>, \<lparr>mt_Name = homeVolume sv p, mt_Dest = ''/root''\<rparr>],
      sp_Binds = [], sp_Entrypoint = [], sp_PublishLoopback = []\<rparr>"

definition runProject :: "project_service \<Rightarrow> string \<Rightarrow> (go_err + string) docker_op" where
  "runProject sv p h =
     (case dk_unit (sv_docker sv) (CEnsureNetwork DefaultNetwork) h of
        (Some e, h1) \<Rightarrow> (Inl e, h1)
      | (None, h1) \<Rightarrow>
          (case ensureProjectImage (sv_docker sv) h1 of
             (Some e, h2) \<Rightarrow> (Inl e, h2)
           | (None, h2) \<Rightarrow> dk_run (sv_docker sv) (project_container sv p) h2))"

definition clone_args :: "project \<Rightarrow> string list" where
  "clone_args q = [''git'', ''clone''] @
     (if pr_branch q \<noteq> [] then [''--branch'', pr_branch q, ''--single-branch''] else []) @ [pr_repo q, repoTarget @ ''/repo'']"

definition cloneRepo :: "client \<Rightarrow> string \<Rightarrow> project \<Rightarrow> go_err option docker_op" where
  "cloneRepo d c q h =
     (if pr_repo q = [] then (None, h)
      else (case dk_exec d c (clone_args q) False h of
              (Inl e, h') \<Rightarrow> (Some (errorf (''clone '' @ pr_repo q @ '': '' @ ge_text e)), h')
            | (Inr r, h') \<Rightarrow>
                (if er_ExitCode r \<noteq> 0 then Some (errorf (''clone '' @ pr_repo q @ '': '' @ Tail (er_Output r))) else None, h')))"

definition repoVolumeEmpty :: "client \<Rightarrow> string \<Rightarrow> (go_err + bool) docker_op" where
  "repoVolumeEmpty d c h =
     (case dk_exec d c [''ls'', ''-A'', repoTarget] False h of
        (Inl e, h') \<Rightarrow> (Inl e, h')
      | (Inr r, h') \<Rightarrow>
          (if er_ExitCode r \<noteq> 0 then Inl (errorf (''ls '' @ repoTarget @ '': '' @ Tail (er_Output r)))
           else Inr (trim_space (er_Output r) = []), h'))"

definition conflict :: "string \<Rightarrow> go_err" where
  "conflict p = \<lparr>ge_text = ErrConflict @ '': project '' @ [CHR 0x22] @ p @ [CHR 0x22], ge_is = [ErrConflict]\<rparr>"

text \<open>The checks of \<open>Create\<close> before anything is written: the id and the record to be.\<close>

definition create_request :: "project_service \<Rightarrow> string \<Rightarrow> string \<Rightarrow> go_err + string \<times> project" where
  "create_request sv repoURL branch =
     (let repoURL = trim_space repoURL; branch = trim_space branch
      in if prefix ''-'' branch then Inl (invalid_input ''repo url and branch must not start with \"-\"'')
         else (case parseRepoID (sv_lower sv) (sv_url sv) repoURL (sv_allowAnyRepo sv) of
                 Inl e \<Rightarrow> Inl e
               | Inr p \<Rightarrow>
                   (case toSSHURL (sv_lower sv) (sv_url sv) repoURL (sv_allowAnyRepo sv) of
                      Inl e \<Rightarrow> Inl e
                    | Inr ssh \<Rightarrow> Inr (p, \<lparr>pr_repo = ssh, pr_branch = branch, pr_harnesses = [], pr_sessions = [], pr_shortcuts = []\<rparr>))))"

text \<open>
  \<open>Create\<close> in three pieces, between which other requests can run: the check, the write of the record,
  and everything after it. \<open>undo\<close> is the outcome of the write that takes the record back.
\<close>

definition create_check :: "string \<Rightarrow> world \<Rightarrow> go_err option" where
  "create_check p w = (case ps_get p (pw_store w) of Inr _ \<Rightarrow> Some (conflict p) | Inl _ \<Rightarrow> None)"

definition create_record :: "project_service \<Rightarrow> io \<Rightarrow> string \<Rightarrow> project \<Rightarrow> go_err option project_op" where
  "create_record sv out p q w = (case on_store (ps_create out p q) w of (r, w') \<Rightarrow> (stored_err sv r, w'))"

definition create_container :: "project_service \<Rightarrow> io \<Rightarrow> string \<Rightarrow> project \<Rightarrow> (go_err + string \<times> project) project_op" where
  "create_container sv undo p q w =
     (case on_docker (runProject sv p) w of
        (Inl e, w1) \<Rightarrow> (Inl e, snd (on_store (ps_delete undo p) w1))
      | (Inr cid, w1) \<Rightarrow>
          (case injectGitSSH sv cid w1 of
             (_, w2) \<Rightarrow>
               (case on_docker (cloneRepo (sv_docker sv) cid q) w2 of
                  (Some e, w3) \<Rightarrow> (Inl e, w3)
                | (None, w3) \<Rightarrow> (Inr (p, q), w3))))"

definition sv_Create :: "project_service \<Rightarrow> io \<Rightarrow> io \<Rightarrow> string \<Rightarrow> string \<Rightarrow> (go_err + string \<times> project) project_op" where
  "sv_Create sv out undo repoURL branch w =
     (case create_request sv repoURL branch of
        Inl e \<Rightarrow> (Inl e, w)
      | Inr (p, q) \<Rightarrow>
          (case create_check p w of
             Some e \<Rightarrow> (Inl e, w)
           | None \<Rightarrow>
               (case create_record sv out p q w of
                  (Some e, w1) \<Rightarrow> (Inl e, w1)
                | (None, w1) \<Rightarrow> create_container sv undo p q w1)))"

definition sv_Get :: "project_service \<Rightarrow> string \<Rightarrow> (go_err + project \<times> string) project_op" where
  "sv_Get sv p w =
     (case known p w of
        Inl e \<Rightarrow> (Inl e, w)
      | Inr q \<Rightarrow>
          (case on_docker (ContainerStatus (sv_docker sv) (ContainerName sv p)) w of
             (Inl e, w1) \<Rightarrow> (Inl e, w1)
           | (Inr st, w1) \<Rightarrow> (Inr (q, st), w1)))"

definition EnsureContainer :: "project_service \<Rightarrow> string \<Rightarrow> (go_err + string) project_op" where
  "EnsureContainer sv p w =
     (case known p w of
        Inl e \<Rightarrow> (Inl e, w)
      | Inr _ \<Rightarrow>
          (case on_docker (ContainerStatus (sv_docker sv) (ContainerName sv p)) w of
             (Inl e, w1) \<Rightarrow> (Inl e, w1)
           | (Inr st, w1) \<Rightarrow>
               if st \<noteq> StateMissing then (Inr st, w1)
               else (case on_docker (runProject sv p) w1 of
                       (Inl e, w2) \<Rightarrow> (Inl (wrapf (''reconcile container '' @ p) e), w2)
                     | (Inr cid, w2) \<Rightarrow>
                         (case injectGitSSH sv cid w2 of
                            (_, w3) \<Rightarrow> on_docker (ContainerStatus (sv_docker sv) (ContainerName sv p)) w3))))"

definition sv_Start :: "project_service \<Rightarrow> string \<Rightarrow> go_err option project_op" where
  "sv_Start sv p w =
     (case known p w of
        Inl e \<Rightarrow> (Some e, w)
      | Inr _ \<Rightarrow> on_docker (dk_unit (sv_docker sv) (CStart (ContainerName sv p))) w)"

definition sv_Stop :: "project_service \<Rightarrow> string \<Rightarrow> go_err option project_op" where
  "sv_Stop sv p w =
     (case known p w of
        Inl e \<Rightarrow> (Some e, w)
      | Inr _ \<Rightarrow>
          (case on_docker (dk_unit (sv_docker sv) (CStop (ContainerName sv p) stopWait)) w of
             (Some e, w1) \<Rightarrow> (if is_err e ErrNotFound then None else Some e, w1)
           | (None, w1) \<Rightarrow> (None, w1)))"

definition sv_Restart :: "project_service \<Rightarrow> string \<Rightarrow> go_err option project_op" where
  "sv_Restart sv p w =
     (case sv_Stop sv p w of (Some e, w1) \<Rightarrow> (Some e, w1) | (None, w1) \<Rightarrow> sv_Start sv p w1)"

fun install_loop :: "(string \<Rightarrow> string \<Rightarrow> go_err option docker_op) \<Rightarrow> string \<Rightarrow> string list \<Rightarrow> go_err option
    \<Rightarrow> go_err option docker_op" where
  "install_loop ins cid [] firstErr h = (firstErr, h)"
| "install_loop ins cid (hid # hids) firstErr h =
     (case ins cid hid h of
        (None, h') \<Rightarrow> install_loop ins cid hids firstErr h'
      | (Some e, h') \<Rightarrow>
          if contains (ge_text e) ''no such harness'' then install_loop ins cid hids firstErr h'
          else install_loop ins cid hids (case firstErr of None \<Rightarrow> Some e | Some f \<Rightarrow> Some f) h')"

definition installRecordedHarnesses :: "project_service \<Rightarrow> string \<Rightarrow> string list \<Rightarrow> go_err option docker_op" where
  "installRecordedHarnesses sv cid hids h =
     (case sv_installer sv of
        None \<Rightarrow> (None, h)
      | Some ins \<Rightarrow> if hids = [] then (None, h) else install_loop ins cid hids None h)"

text \<open>Only a container that does not run and does not start is an error; a failed clone is not.\<close>

definition reclone :: "project_service \<Rightarrow> string \<Rightarrow> project \<Rightarrow> docker_call list \<Rightarrow> docker_call list" where
  "reclone sv p q h =
     (if pr_repo q = [] then h
      else (case repoVolumeEmpty (sv_docker sv) (ContainerName sv p) h of
              (Inr True, h') \<Rightarrow> snd (cloneRepo (sv_docker sv) (ContainerName sv p) q h')
            | (_, h') \<Rightarrow> h'))"

definition Reconcile :: "project_service \<Rightarrow> string \<Rightarrow> go_err option project_op" where
  "Reconcile sv p w =
     (case EnsureContainer sv p w of
        (Inl e, w1) \<Rightarrow> (Some e, w1)
      | (Inr st, w1) \<Rightarrow>
          (case (if st \<noteq> StateRunning then sv_Start sv p w1 else (None, w1)) of
             (Some e, w2) \<Rightarrow> (Some (wrapf ''start container'' e), w2)
           | (None, w2) \<Rightarrow>
               (case ps_get p (pw_store w2) of
                  Inl e \<Rightarrow> (Some (not_exist e), w2)
                | Inr q \<Rightarrow> (None, w2\<lparr>pw_docker := reclone sv p q (pw_docker w2)\<rparr>))))"

definition provisionProject :: "project_service \<Rightarrow> string \<Rightarrow> go_err option project_op" where
  "provisionProject sv p w =
     (case Reconcile sv p w of
        (Some e, w1) \<Rightarrow> (Some e, w1)
      | (None, w1) \<Rightarrow>
          (case ps_get p (pw_store w1) of
             Inl e \<Rightarrow> (Some (not_exist e), w1)
           | Inr q \<Rightarrow> on_docker (installRecordedHarnesses sv (ContainerName sv p) (InstalledIDs q)) w1))"

fun bring_up :: "project_service \<Rightarrow> string list \<Rightarrow> go_err option \<Rightarrow> go_err option project_op" where
  "bring_up sv [] firstErr w = (firstErr, w)"
| "bring_up sv (p # ps) firstErr w =
     (case provisionProject sv p w of
        (None, w') \<Rightarrow> bring_up sv ps firstErr w'
      | (Some e, w') \<Rightarrow> bring_up sv ps (case firstErr of None \<Rightarrow> Some e | Some f \<Rightarrow> Some f) w')"

definition BringAllUp :: "project_service \<Rightarrow> go_err option project_op" where
  "BringAllUp sv w = bring_up sv (map en_id (ps_list (pw_store w))) None w"


section \<open>Deleting\<close>

definition keep_first :: "go_err option \<Rightarrow> go_err option \<Rightarrow> go_err option" where
  "keep_first first e = (case first of None \<Rightarrow> e | Some f \<Rightarrow> Some f)"

definition step_if :: "bool \<Rightarrow> client \<Rightarrow> docker_call \<Rightarrow> go_err option \<Rightarrow> go_err option docker_op" where
  "step_if b d c first h = (if b then (case dk_unit d c h of (e, h') \<Rightarrow> (keep_first first e, h')) else (first, h))"

definition delete_docker :: "project_service \<Rightarrow> string \<Rightarrow> scope \<Rightarrow> go_err option docker_op" where
  "delete_docker sv p sc h =
     (let d = sv_docker sv;
          h1 = (if sc \<noteq> ScopeMetadata then snd (dk_unit d (CStop (ContainerName sv p) stopWait) h) else h)
      in case step_if (sc \<in> {ScopeContainer, ScopeRepo, ScopeAll}) d (CRemove (ContainerName sv p) True) None h1 of
           (e1, h2) \<Rightarrow>
             (case step_if (sc \<in> {ScopeContainer, ScopeAll}) d (CRemoveVolume (homeVolume sv p)) e1 h2 of
                (e2, h3) \<Rightarrow> step_if (sc \<in> {ScopeRepo, ScopeAll}) d (CRemoveVolume (repoVolume sv p)) e2 h3))"

definition delete_chats :: "string \<Rightarrow> world \<Rightarrow> world" where
  "delete_chats p w = w\<lparr>pw_codemaps := map_option (\<lambda>cs. snd (DeleteScope p cs)) (pw_codemaps w)\<rparr>"

definition invalid_scope :: "scope \<Rightarrow> go_err" where
  "invalid_scope sc = \<lparr>ge_text = ErrInvalidScope @ '': '' @ [CHR 0x22] @ scope_text sc @ [CHR 0x22], ge_is = [ErrInvalidScope]\<rparr>"

definition sv_Delete :: "project_service \<Rightarrow> io \<Rightarrow> string \<Rightarrow> scope \<Rightarrow> go_err option project_op" where
  "sv_Delete sv out p sc w =
     (if sc \<notin> {ScopeContainer, ScopeRepo, ScopeMetadata, ScopeAll} then (Some (invalid_scope sc), w)
      else (case known p w of
              Inl e \<Rightarrow> (Some e, w)
            | Inr _ \<Rightarrow>
                (case on_docker (delete_docker sv p sc) w of
                   (first, w1) \<Rightarrow>
                     if sc = ScopeAll \<and> first \<noteq> None then (first, w1)
                     else if sc \<in> {ScopeMetadata, ScopeAll} then
                       (case on_store (ps_delete out p) w1 of
                          (r, w2) \<Rightarrow> (keep_first first (stored_err sv r), delete_chats p w2))
                     else (first, w1))))"

section \<open>Records\<close>

definition record_of :: "world \<Rightarrow> string \<Rightarrow> project option" where
  "record_of w p = map_of (projects_of (pw_store w)) p"

lemma known_record: "known p w = (case record_of w p of None \<Rightarrow> Inl (wrap_not_found (not_exist (ProjectNotExist p))) | Some q \<Rightarrow> Inr q)"
  by (simp add: known_def ps_get_def record_of_def split: option.split)

lemma ps_get_record: "ps_get p (pw_store w) = (case record_of w p of None \<Rightarrow> Inl (ProjectNotExist p) | Some q \<Rightarrow> Inr q)"
  by (simp add: ps_get_def record_of_def)

lemma record_of_store: "pw_store w' = pw_store w \<Longrightarrow> record_of w' p = record_of w p"
  by (simp add: record_of_def)

lemma on_docker_store: "on_docker op w = (r, w') \<Longrightarrow> pw_store w' = pw_store w \<and> pw_codemaps w' = pw_codemaps w"
  by (auto simp: on_docker_def split: prod.splits)

lemma on_docker_calls: "on_docker op w = (r, w') \<Longrightarrow> op (pw_docker w) = (r, pw_docker w')"
  by (auto simp: on_docker_def split: prod.splits)

lemma create_record_effect:
  assumes "on_store (ps_create out p q) w = (r, w')"
  shows "record_of w' x = (case r of Inr _ \<Rightarrow> if x = p then Some q else record_of w x | Inl _ \<Rightarrow> record_of w x)"
    and "pw_docker w' = pw_docker w"
proof -
  obtain s where s: "ps_create out p q (pw_store w) = (r, s)" "w' = w\<lparr>pw_store := s\<rparr>"
    using assms by (auto simp: on_store_def split: prod.splits)
  show "record_of w' x = (case r of Inr _ \<Rightarrow> if x = p then Some q else record_of w x | Inl _ \<Rightarrow> record_of w x)"
  proof (cases r)
    case (Inl e)
    then have "view s = view (pw_store w)" using s(1) unfolding ps_create_def by (auto dest: st.abort)
    then show ?thesis using s Inl by (simp add: record_of_def)
  next
    case (Inr u)
    then have "view s = put_project p q (view (pw_store w))"
      using s(1) unfolding ps_create_def by (auto dest!: st.commit)
    then show ?thesis using s Inr by (simp add: record_of_def)
  qed
  show "pw_docker w' = pw_docker w" using s by simp
qed

lemma delete_record_effect:
  assumes "on_store (ps_delete out p) w = (r, w')"
  shows "record_of w' x = (case r of Inr _ \<Rightarrow> if x = p then None else record_of w x | Inl _ \<Rightarrow> record_of w x)"
    and "pw_docker w' = pw_docker w"
proof -
  obtain s where s: "ps_delete out p (pw_store w) = (r, s)" "w' = w\<lparr>pw_store := s\<rparr>"
    using assms by (auto simp: on_store_def split: prod.splits)
  show "record_of w' x = (case r of Inr _ \<Rightarrow> if x = p then None else record_of w x | Inl _ \<Rightarrow> record_of w x)"
  proof (cases r)
    case (Inl e)
    then have "view s = view (pw_store w)" using s(1) unfolding ps_delete_def by (auto dest: st.abort)
    then show ?thesis using s Inl by (simp add: record_of_def)
  next
    case (Inr u)
    then have "view s = (view (pw_store w))\<lparr>doc_projects := AList.delete p (doc_projects (view (pw_store w)))\<rparr>"
      using s(1) unfolding ps_delete_def by (auto dest!: st.commit)
    then show ?thesis using s Inr by (simp add: record_of_def delete_conv')
  qed
  show "pw_docker w' = pw_docker w" using s by simp
qed

lemma delete_succeeds: "fst (ps_delete IoDone p s) = Inr ()"
  by (simp add: ps_delete_def mutate_def saveDoc_def write_json_file_def)

section \<open>Deleting\<close>

definition delete_calls :: "project_service \<Rightarrow> string \<Rightarrow> scope \<Rightarrow> docker_call list" where
  "delete_calls sv p sc =
     (if sc \<noteq> ScopeMetadata then [CStop (ContainerName sv p) stopWait, CRemove (ContainerName sv p) True] else []) @
     (if sc \<in> {ScopeContainer, ScopeAll} then [CRemoveVolume (homeVolume sv p)] else []) @
     (if sc \<in> {ScopeRepo, ScopeAll} then [CRemoveVolume (repoVolume sv p)] else [])"

text \<open>Every call but a stop was answered without an error.\<close>

fun all_ok :: "client \<Rightarrow> docker_call list \<Rightarrow> docker_call list \<Rightarrow> bool" where
  "all_ok d h [] \<longleftrightarrow> True"
| "all_ok d h (c # cs) \<longleftrightarrow> ((\<exists>i t. c = CStop i t) \<or> cl_unit d (h @ [c]) = None) \<and> all_ok d (h @ [c]) cs"

lemma delete_docker_exact:
  assumes "sc \<in> {ScopeContainer, ScopeRepo, ScopeMetadata, ScopeAll}"
  shows "\<exists>e. delete_docker sv p sc h = (e, h @ delete_calls sv p sc) \<and>
    (e = None \<longleftrightarrow> all_ok (sv_docker sv) h (delete_calls sv p sc))"
  using assms
  by (cases sc) (auto simp: delete_docker_def delete_calls_def step_if_def keep_first_def dk_unit_def Let_def split: option.split)

text \<open>
  C3: a delete removes what its scope says and a project never becomes an invisible orphan. The calls
  are fixed by the scope; the record goes only with the scopes that take it, and for \<open>all\<close> only when
  the container and both volumes were removed without an error; success means that all of it was
  done; no other project's record changes.
\<close>

theorem delete_exact:
  assumes "sv_Delete sv out p sc w = (r, w')" "record_of w p = Some q"
    "sc \<in> {ScopeContainer, ScopeRepo, ScopeMetadata, ScopeAll}"
  shows "(let cs = delete_calls sv p sc; ok = all_ok (sv_docker sv) (pw_docker w) cs
     in (pw_docker w' = pw_docker w @ cs) \<and>
        (\<forall>x. x \<noteq> p \<longrightarrow> record_of w' x = record_of w x) \<and>
        (record_of w' p = None \<longrightarrow> sc = ScopeMetadata \<or> sc = ScopeAll \<and> ok) \<and>
        (record_of w' p = None \<or> record_of w' p = Some q) \<and>
        (r = None \<longrightarrow> ok \<and> (record_of w' p = None \<longleftrightarrow> sc \<in> {ScopeMetadata, ScopeAll})))"
proof -
  obtain e w1 where 1: "on_docker (delete_docker sv p sc) w = (e, w1)" by (cases "on_docker (delete_docker sv p sc) w")
  let ?cs = "delete_calls sv p sc"
  have calls: "pw_docker w1 = pw_docker w @ ?cs" and ok: "e = None \<longleftrightarrow> all_ok (sv_docker sv) (pw_docker w) ?cs"
    using delete_docker_exact [OF assms(3), of sv p "pw_docker w"] on_docker_calls [OF 1] by auto
  have rec: "record_of w1 x = record_of w x" for x using on_docker_store [OF 1] by (simp add: record_of_def)
  obtain d w2 where 2: "on_store (ps_delete out p) w1 = (d, w2)" by (cases "on_store (ps_delete out p) w1")
  note del = delete_record_effect [OF 2]
  have chats: "record_of (delete_chats p w2) x = record_of w2 x" "pw_docker (delete_chats p w2) = pw_docker w2" for x
    by (simp_all add: delete_chats_def record_of_def)
  show ?thesis
  proof (cases "sc = ScopeAll \<and> e \<noteq> None \<or> sc \<notin> {ScopeMetadata, ScopeAll}")
    case True
    then have "r = e \<and> w' = w1" using assms 1 by (auto simp: sv_Delete_def known_record)
    then show ?thesis using True calls ok rec assms(2) by (auto simp: Let_def)
  next
    case False
    then have r: "r = keep_first e (stored_err sv d)" "w' = delete_chats p w2"
      using assms 1 2 by (auto simp: sv_Delete_def known_record)
    have noted: "sc = ScopeMetadata \<Longrightarrow> e = None" using ok by (simp add: delete_calls_def)
    show ?thesis using False r noted calls ok rec assms(2) del chats
      by (cases d) (auto simp: Let_def keep_first_def stored_err_def split: option.splits)
  qed
qed


section \<open>Creating\<close>

lemma inject_store: "injectGitSSH sv c w = (r, w') \<Longrightarrow> pw_store w' = pw_store w \<and> pw_codemaps w' = pw_codemaps w"
  by (auto simp: injectGitSSH_def dest!: on_docker_store split: if_splits option.splits)


section \<open>Keeping up\<close>

lemma status_store: "on_docker (ContainerStatus d n) w = (r, w') \<Longrightarrow> pw_docker w' = pw_docker w @ [CInspect n]"
  by (auto dest!: on_docker_calls simp: ContainerStatus_def dk_inspect_def split: sum.splits)

lemma ensure_store: "EnsureContainer sv p w = (r, w') \<Longrightarrow> pw_store w' = pw_store w \<and> pw_codemaps w' = pw_codemaps w"
  by (auto simp: EnsureContainer_def dest!: on_docker_store inject_store split: sum.splits prod.splits if_splits)

text \<open>Operations only add to the history, and run only the containers in \<open>A\<close>.\<close>

definition adds :: "spec set \<Rightarrow> docker_call list \<Rightarrow> docker_call list \<Rightarrow> bool" where
  "adds A h h' \<longleftrightarrow> (\<exists>cs. h' = h @ cs \<and> (\<forall>sp. CRun sp \<in> set cs \<longrightarrow> sp \<in> A))"

lemma adds_refl [simp]: "adds A h h"
  by (simp add: adds_def)

lemma adds_trans: "adds A h h1 \<Longrightarrow> adds A h1 h2 \<Longrightarrow> adds A h h2"
  by (force simp: adds_def)

lemma adds_one: "(\<And>sp. c = CRun sp \<Longrightarrow> sp \<in> A) \<Longrightarrow> adds A h (h @ [c])"
  by (auto simp: adds_def)

named_theorems grows

lemma grow_unit [grows]: "dk_unit d c h = (r, h') \<Longrightarrow> (\<And>sp. c \<noteq> CRun sp) \<Longrightarrow> adds A h h'"
  by (auto simp: dk_unit_def intro: adds_one)

lemma grow_run [grows]: "dk_run d sp h = (r, h') \<Longrightarrow> sp \<in> A \<Longrightarrow> adds A h h'"
  by (auto simp: dk_run_def intro: adds_one)

lemma grow_exec [grows]: "dk_exec d c args t h = (r, h') \<Longrightarrow> adds A h h'"
  by (auto simp: dk_exec_def intro: adds_one)

lemma grow_execOK [grows]: "execOK d c args h = (r, h') \<Longrightarrow> adds A h h'"
  by (auto simp: execOK_def dest!: grows split: prod.splits sum.splits)

lemma grow_config [grows]: "add_config d c h = (r, h') \<Longrightarrow> adds A h h'"
  by (auto simp: add_config_def dest!: grows split: prod.splits if_splits elim: adds_trans)

lemma grow_try: "try_all ops h = (r, h') \<Longrightarrow> (\<And>what op h r h'. (what, op) \<in> set ops \<Longrightarrow> op h = (r, h') \<Longrightarrow> adds A h h') \<Longrightarrow> adds A h h'"
proof (induction ops arbitrary: h)
  case (Cons wo ops)
  obtain what op where wo: "wo = (what, op)" by (cases wo)
  obtain e h1 where 1: "op h = (e, h1)" by (cases "op h")
  have "adds A h h1" by (rule Cons.prems(2) [of what op]) (use 1 wo in simp_all)
  moreover have "adds A h1 h'" if "e = None"
  proof (rule Cons.IH)
    show "try_all ops h1 = (r, h')" using Cons.prems(1) wo 1 that by simp
    show "adds A h h'" if "(what', op') \<in> set ops" "op' h = (r, h')" for what' op' h r h'
      by (rule Cons.prems(2) [of what' op']) (use that in simp_all)
  qed
  ultimately show ?case using Cons.prems(1) wo 1 by (cases e) (auto elim: adds_trans)
qed simp

lemma grow_inject [grows]: "inject_key d c kp h = (r, h') \<Longrightarrow> adds A h h'"
  unfolding inject_key_def by (erule grow_try) (auto dest: grows)

lemma grow_image [grows]: "ensureProjectImage d h = (r, h') \<Longrightarrow> adds A h h'"
  by (auto simp: ensureProjectImage_def dest!: grows split: prod.splits option.splits if_splits elim: adds_trans)

lemma grow_runProject [grows]: "runProject sv p h = (r, h') \<Longrightarrow> project_container sv p \<in> A \<Longrightarrow> adds A h h'"
  by (auto simp: runProject_def dest!: grows split: prod.splits option.splits elim: adds_trans)


lemma grow_on_docker: "on_docker op w = (r, w') \<Longrightarrow> (\<And>h r h'. op h = (r, h') \<Longrightarrow> adds A h h') \<Longrightarrow> adds A (pw_docker w) (pw_docker w')"
  by (auto dest: on_docker_calls)

lemma grow_injectGit: "injectGitSSH sv c w = (r, w') \<Longrightarrow> adds A (pw_docker w) (pw_docker w')"
  by (auto simp: injectGitSSH_def elim!: grow_on_docker dest: grow_inject split: if_splits option.splits)

lemma known_store: "pw_store w' = pw_store w \<Longrightarrow> known p w' = known p w"
  by (simp add: known_def)

lemma ensure_calls:
  assumes "EnsureContainer sv p w = (r, w')" "record_of w p = Some q"
  shows "adds {project_container sv p} (pw_docker w @ [CInspect (ContainerName sv p)]) (pw_docker w')"
proof -
  let ?st = "on_docker (ContainerStatus (sv_docker sv) (ContainerName sv p))" and ?A = "{project_container sv p}"
  obtain r1 w1 where 1: "?st w = (r1, w1)" by (cases "?st w")
  note h1 = status_store [OF 1]
  have "adds ?A (pw_docker w1) (pw_docker w')"
  proof (cases "r1 = Inr StateMissing")
    case False
    then show ?thesis using assms 1 by (auto simp: EnsureContainer_def known_record split: sum.splits)
  next
    case True
    obtain r2 w2 where 2: "on_docker (runProject sv p) w1 = (r2, w2)" by (cases "on_docker (runProject sv p) w1")
    have g2: "adds ?A (pw_docker w1) (pw_docker w2)" by (rule grow_on_docker [OF 2]) (erule grow_runProject, simp)
    show ?thesis
    proof (cases r2)
      case (Inl e)
      then show ?thesis using assms 1 True 2 g2 by (simp add: EnsureContainer_def known_record)
    next
      case (Inr cid)
      obtain r3 w3 where 3: "injectGitSSH sv cid w2 = (r3, w3)" by (cases "injectGitSSH sv cid w2")
      have "?st w3 = (r, w')" using assms 1 True 2 Inr 3 by (simp add: EnsureContainer_def known_record)
      then have "adds ?A (pw_docker w3) (pw_docker w')" by (simp add: status_store adds_def)
      then show ?thesis using g2 grow_injectGit [OF 3] by (blast intro: adds_trans)
    qed
  qed
  then show ?thesis using h1 by simp
qed

text \<open>
  Asking for a container never recreates one that is there. The first call looks at it; when it
  exists the answer is its state and nothing else happens; when it is missing, whatever is run is
  this project's container over the same two volumes; the records are never touched.
\<close>

theorem ensure_container:
  assumes "EnsureContainer sv p w = (r, w')" "record_of w p = Some q"
  shows "(pw_store w' = pw_store w) \<and>
    (\<forall>st. fst (ContainerStatus (sv_docker sv) (ContainerName sv p) (pw_docker w)) = Inr st \<and> st \<noteq> StateMissing \<longrightarrow>
       r = Inr st \<and> pw_docker w' = pw_docker w @ [CInspect (ContainerName sv p)]) \<and>
    (\<exists>cs. pw_docker w' = pw_docker w @ CInspect (ContainerName sv p) # cs \<and>
       (\<forall>sp. CRun sp \<in> set cs \<longrightarrow> sp = project_container sv p))"
proof (intro conjI allI impI)
  show "pw_store w' = pw_store w" using ensure_store [OF assms(1)] by simp
  show "\<exists>cs. pw_docker w' = pw_docker w @ CInspect (ContainerName sv p) # cs \<and>
      (\<forall>sp. CRun sp \<in> set cs \<longrightarrow> sp = project_container sv p)"
    using ensure_calls [OF assms] by (auto simp: adds_def)
next
  fix st
  let ?st = "ContainerStatus (sv_docker sv) (ContainerName sv p)"
  assume st: "fst (?st (pw_docker w)) = Inr st \<and> st \<noteq> StateMissing"
  obtain r1 w1 where 1: "on_docker ?st w = (r1, w1)" by (cases "on_docker ?st w")
  have "r1 = Inr st" using on_docker_calls [OF 1] st by simp
  then have "r = Inr st \<and> w' = w1" using assms 1 st by (simp add: EnsureContainer_def known_record)
  then show "r = Inr st" "pw_docker w' = pw_docker w @ [CInspect (ContainerName sv p)]"
    using status_store [OF 1] by simp_all
qed


lemma grow_clone [grows]: "cloneRepo d c q h = (r, h') \<Longrightarrow> adds A h h'"
  by (auto simp: cloneRepo_def dest!: grow_exec [where A = A] split: prod.splits sum.splits if_splits)

lemma grow_empty [grows]: "repoVolumeEmpty d c h = (r, h') \<Longrightarrow> adds A h h'"
  by (auto simp: repoVolumeEmpty_def dest!: grow_exec [where A = A] split: prod.splits sum.splits)

lemma grow_reclone: "adds A h (reclone sv p q h)"
proof -
  obtain r h1 where 1: "repoVolumeEmpty (sv_docker sv) (ContainerName sv p) h = (r, h1)"
    by (cases "repoVolumeEmpty (sv_docker sv) (ContainerName sv p) h")
  obtain e h2 where 2: "cloneRepo (sv_docker sv) (ContainerName sv p) q h1 = (e, h2)"
    by (cases "cloneRepo (sv_docker sv) (ContainerName sv p) q h1")
  show ?thesis using grow_empty [OF 1, of A] adds_trans [OF grow_empty [OF 1] grow_clone [OF 2]] 1 2
    by (auto simp: reclone_def split: sum.split bool.split)
qed

lemma grow_install:
  assumes "\<And>c hid h. adds A h (snd (ins c hid h))"
  shows "install_loop ins cid hids first h = (r, h') \<Longrightarrow> adds A h h'"
proof (induction hids arbitrary: first h)
  case (Cons hid hids)
  obtain e h1 where 1: "ins cid hid h = (e, h1)" by (cases "ins cid hid h")
  then have "adds A h h1" using assms [of h cid hid] by simp
  then show ?case using Cons 1 by (auto split: option.splits if_splits elim: adds_trans)
qed simp

text \<open>Bringing a project up looks at its container first, keeps the records and only adds calls.\<close>

definition installs_grow :: "project_service \<Rightarrow> bool" where
  "installs_grow sv \<longleftrightarrow> (\<forall>ins c hid h. sv_installer sv = Some ins \<longrightarrow> adds UNIV h (snd (ins c hid h)))"

lemma reconcile_calls:
  assumes "Reconcile sv p w = (r, w')" "record_of w p = Some q"
  shows "pw_store w' = pw_store w \<and> adds UNIV (pw_docker w @ [CInspect (ContainerName sv p)]) (pw_docker w')"
proof -
  obtain r1 w1 where 1: "EnsureContainer sv p w = (r1, w1)" by (cases "EnsureContainer sv p w")
  have s1: "pw_store w1 = pw_store w" using ensure_store [OF 1] by simp
  have a1: "adds UNIV (pw_docker w @ [CInspect (ContainerName sv p)]) (pw_docker w1)"
    using ensure_calls [OF 1 assms(2)] by (auto simp: adds_def)
  show ?thesis
  proof (cases r1)
    case (Inl e)
    then show ?thesis using assms 1 s1 a1 by (simp add: Reconcile_def)
  next
    case (Inr st)
    define start where "start = (if st \<noteq> StateRunning then sv_Start sv p w1 else (None, w1))"
    obtain r2 w2 where 2: "start = (r2, w2)" by (cases start)
    have rec: "record_of w1 p = Some q" using assms(2) s1 by (simp add: record_of_def)
    have s2: "pw_store w2 = pw_store w1" "adds UNIV (pw_docker w1) (pw_docker w2)"
    proof -
      show "pw_store w2 = pw_store w1"
        using 2 rec by (auto simp: start_def sv_Start_def known_record dest!: on_docker_store split: if_splits)
      show "adds UNIV (pw_docker w1) (pw_docker w2)"
        using 2 rec by (auto simp: start_def sv_Start_def known_record intro: grow_on_docker grow_unit split: if_splits)
    qed
    have "Reconcile sv p w = (case (r2, w2) of
             (Some e, w2) \<Rightarrow> (Some (wrapf ''start container'' e), w2)
           | (None, w2) \<Rightarrow>
               (case ps_get p (pw_store w2) of
                  Inl e \<Rightarrow> (Some (not_exist e), w2)
                | Inr q \<Rightarrow> (None, w2\<lparr>pw_docker := reclone sv p q (pw_docker w2)\<rparr>)))"
      using 1 Inr 2 unfolding start_def by (simp add: Reconcile_def)
    then show ?thesis using assms(1) s1 s2 adds_trans [OF a1 s2(2)] grow_reclone [of UNIV "pw_docker w2" sv p]
      by (auto split: option.splits sum.splits elim: adds_trans)
  qed
qed

lemma provision_calls:
  assumes "provisionProject sv p w = (r, w')" "record_of w p = Some q" "installs_grow sv"
  shows "pw_store w' = pw_store w \<and> adds UNIV (pw_docker w @ [CInspect (ContainerName sv p)]) (pw_docker w')"
proof -
  obtain r1 w1 where 1: "Reconcile sv p w = (r1, w1)" by (cases "Reconcile sv p w")
  note c1 = reconcile_calls [OF 1 assms(2)]
  have rec: "ps_get p (pw_store w1) = Inr q" using c1 assms(2) by (simp add: ps_get_def record_of_def)
  show ?thesis
  proof (cases r1)
    case None
    let ?op = "installRecordedHarnesses sv (ContainerName sv p) (InstalledIDs q)"
    have "on_docker ?op w1 = (r, w')" using assms(1) 1 None rec by (simp add: provisionProject_def)
    moreover have "adds UNIV h h'" if "?op h = (x, h')" for h x h'
      using that assms(3)
      by (auto simp: installRecordedHarnesses_def installs_grow_def intro: grow_install [of UNIV] split: option.splits if_splits)
    ultimately show ?thesis using c1 grow_on_docker [of ?op w1 r w' UNIV] on_docker_store [of ?op w1 r w']
      by (auto elim: adds_trans)
  qed (use assms(1) 1 c1 in \<open>simp add: provisionProject_def\<close>)
qed

lemma bring_up_calls:
  assumes "installs_grow sv"
  shows "bring_up sv ps first w = (r, w') \<Longrightarrow> (\<And>p. p \<in> set ps \<Longrightarrow> record_of w p \<noteq> None) \<Longrightarrow>
    pw_store w' = pw_store w \<and> adds UNIV (pw_docker w) (pw_docker w') \<and>
    (\<forall>p \<in> set ps. CInspect (ContainerName sv p) \<in> set (drop (length (pw_docker w)) (pw_docker w')))"
proof (induction ps arbitrary: first w)
  case (Cons p ps)
  obtain e w1 where 1: "provisionProject sv p w = (e, w1)" by (cases "provisionProject sv p w")
  obtain q where q: "record_of w p = Some q" using Cons.prems(2) [of p] by auto
  note c1 = provision_calls [OF 1 q assms]
  obtain first' where 2: "bring_up sv ps first' w1 = (r, w')"
    using Cons.prems(1) 1 by (auto split: option.splits)
  have "pw_store w' = pw_store w1 \<and> adds UNIV (pw_docker w1) (pw_docker w') \<and>
    (\<forall>p \<in> set ps. CInspect (ContainerName sv p) \<in> set (drop (length (pw_docker w1)) (pw_docker w')))"
    by (rule Cons.IH [OF 2]) (use Cons.prems(2) c1 in \<open>auto simp: record_of_def\<close>)
  then show ?case using c1 by (auto simp: adds_def)
qed simp

text \<open>
  C31: at boot no project holds up another. Whatever fails for one project, every recorded project is
  looked at and the records stay as they are; success means that no project failed.
\<close>

theorem boot_visits_all:
  assumes "BringAllUp sv w = (r, w')" "installs_grow sv" "record_of w p \<noteq> None"
  shows "pw_store w' = pw_store w \<and>
    CInspect (ContainerName sv p) \<in> set (drop (length (pw_docker w)) (pw_docker w'))"
proof -
  have ids: "set (map en_id (ps_list (pw_store w))) = fst ` set (projects_of (pw_store w))"
    by (force simp: ps_list_def)
  then have "\<And>p. p \<in> set (map en_id (ps_list (pw_store w))) \<Longrightarrow> record_of w p \<noteq> None"
    by (auto simp: record_of_def map_of_eq_None_iff)
  moreover have "p \<in> set (map en_id (ps_list (pw_store w)))"
    using assms(3) ids by (auto simp: record_of_def map_of_eq_None_iff)
  ultimately show ?thesis using bring_up_calls [OF assms(2), of "map en_id (ps_list (pw_store w))" None w r w'] assms(1)
    by (auto simp: BringAllUp_def)
qed


section \<open>Two requests for the same repository\<close>

text \<open>
  An engine that knows names: the first container of a name runs, the second run is refused. The
  state file starts empty.
\<close>

definition named_client :: client where
  "named_client = \<lparr>cl_unit = \<lambda>_. None,
     cl_run = \<lambda>h. if 1 < length (filter (\<lambda>c. case c of CRun _ \<Rightarrow> True | _ \<Rightarrow> False) h)
                  then Inl (errorf ''container already exists'') else Inr ''c1'',
     cl_inspect = \<lambda>_. Inl \<lparr>ge_text = ErrNotFound, ge_is = [ErrNotFound]\<rparr>,
     cl_exec = \<lambda>_. Inr \<lparr>er_ExitCode = 0, er_Output = []\<rparr>, cl_list = \<lambda>_. Inr []\<rparr>"

definition sample_service :: project_service where
  "sample_service = \<lparr>sv_docker = named_client, sv_lower = id, sv_url = no_url, sv_allowAnyRepo = False,
     sv_sshKeys = False, sv_installer = None, sv_io_error = \<lambda>_. errorf ''disk full''\<rparr>"

definition empty_world :: world where
  "empty_world = \<lparr>pw_store = first_store, pw_docker = [], pw_codemaps = None\<rparr>"

abbreviation sample_record :: project where
  "sample_record \<equiv> \<lparr>pr_repo = ''git@github.com:Me/App.git'', pr_branch = [], pr_harnesses = [], pr_sessions = [], pr_shortcuts = []\<rparr>"

lemma sample_request: "create_request sample_service ''https://github.com/Me/App'' '''' = Inr (''me/app'', sample_record)"
proof -
  have "trim_space ''https://github.com/Me/App'' = ''https://github.com/Me/App''"
    by (rule trim_space_printable; code_simp)
  then show ?thesis using sample_url by (simp add: create_request_def sample_service_def)
qed


definition first_written :: world where
  "first_written = snd (create_record sample_service IoDone ''me/app'' sample_record empty_world)"

definition first_created :: world where
  "first_created = snd (create_container sample_service IoDone ''me/app'' sample_record first_written)"

definition second_written :: world where
  "second_written = snd (create_record sample_service IoDone ''me/app'' sample_record first_created)"

definition second_refused :: world where
  "second_refused = snd (create_container sample_service IoDone ''me/app'' sample_record second_written)"

text \<open>
  The check of \<open>Create\<close> and its write are not one transaction. Of two requests for the same new
  repository that both pass the check, the first succeeds; the second overwrites the record, is
  refused by the engine because of the name, and takes the record of the first away: its container
  keeps running without a record.
\<close>

theorem concurrent_create_loses_record:
  "create_check ''me/app'' empty_world = None \<and>
   fst (create_record sample_service IoDone ''me/app'' sample_record empty_world) = None \<and>
   fst (create_container sample_service IoDone ''me/app'' sample_record first_written) = Inr (''me/app'', sample_record) \<and>
   fst (create_record sample_service IoDone ''me/app'' sample_record first_created) = None \<and>
   fst (create_container sample_service IoDone ''me/app'' sample_record second_written) = Inl (errorf ''container already exists'') \<and>
   record_of first_created ''me/app'' = Some sample_record \<and> record_of second_refused ''me/app'' = None \<and>
   list_all (\<lambda>c. case c of CRemove _ _ \<Rightarrow> False | CStop _ _ \<Rightarrow> False | _ \<Rightarrow> True) (pw_docker second_refused)"
  by code_simp

lemma first_created_record: "record_of first_created ''me/app'' = Some sample_record"
  by code_simp


theorem delete_exact_witness:
  "record_of (snd (sv_Delete sample_service IoDone ''me/app'' ScopeRepo first_created)) ''me/app'' = Some sample_record \<and>
   pw_docker (snd (sv_Delete sample_service IoDone ''me/app'' ScopeRepo first_created)) =
     pw_docker first_created @ delete_calls sample_service ''me/app'' ScopeRepo"
  using delete_exact [OF prod.collapse [symmetric] first_created_record, of ScopeRepo sample_service IoDone]
  by (auto simp: Let_def)

theorem ensure_container_witness:
  "pw_store (snd (EnsureContainer sample_service ''me/app'' first_created)) = pw_store first_created"
  by (rule ensure_container [OF prod.collapse [symmetric] first_created_record, THEN conjunct1])

theorem boot_visits_all_witness:
  "CInspect (ContainerName sample_service ''me/app'') \<in>
     set (drop (length (pw_docker first_created)) (pw_docker (snd (BringAllUp sample_service first_created))))"
  by (rule boot_visits_all [OF prod.collapse [symmetric], THEN conjunct2])
     (simp_all add: installs_grow_def first_created_record, simp add: sample_service_def)

end
