(* ===== verification/Push.thy ===== *)
theory Push
  imports Auth Files Http
begin

text \<open>
  Web push (push/push.go and httpapi/push.go): the key pair and the subscriptions in two files that are
  replaced through temporary ones, sending to every device with one retry, pruning dead devices,
  and the checks on what a browser may register. URL parsing, the key generator and the relays are
  parameters; every file operation takes the outcome the system gives it.
\<close>

section \<open>Data\<close>

abbreviation ErrVAPID :: string where "ErrVAPID \<equiv> ''push relay rejected VAPID credentials''"

record push_keys =
  pk_P256dh :: string
  pk_Auth :: string

record subscription =
  sub_Endpoint :: string
  sub_Keys :: push_keys
  sub_CreatedAt :: string

record message =
  ms_Title :: string
  ms_Body :: string
  ms_Navigate :: string
  ms_Tag :: string

record send_result =
  rt_Sent :: nat
  rt_Failed :: nat
  rt_Pruned :: nat

record vapid =
  va_PublicKey :: string
  va_PrivateKey :: string

text \<open>What a file decodes as; \<open>SubsJson None\<close> has no subscriptions field.\<close>

datatype push_file =
    VapidJson vapid
  | SubsJson "(string \<times> subscription) list option"
  | Garbage

record push_store =
  pst_disk :: "push_file disk"
  pst_key :: vapid
  pst_subs :: "(string \<times> subscription) list"

definition vapidFile :: path where "vapidFile = [''vapid.json'']"
definition pushFile :: path where "pushFile = [''push.json'']"
definition corruptFile :: path where "corruptFile = [''push.json.corrupt'']"

section \<open>The store\<close>

text \<open>\<open>oe\<close> is the text the system gives a failed write.\<close>

definition push_write :: "(io_error \<Rightarrow> go_err) \<Rightarrow> io \<Rightarrow> path \<Rightarrow> push_file \<Rightarrow> push_store \<Rightarrow> go_err option \<times> push_store" where
  "push_write oe out p v s =
     (case write_json_file Garbage out p v (pst_disk s) of
        (e, d) \<Rightarrow> (map_option oe e, s\<lparr>pst_disk := d\<rparr>))"

definition saveSubscriptions :: "(io_error \<Rightarrow> go_err) \<Rightarrow> io \<Rightarrow> push_store \<Rightarrow> go_err option \<times> push_store" where
  "saveSubscriptions oe out s = push_write oe out pushFile (SubsJson (Some (pst_subs s))) s"

definition regenerate :: "(io_error \<Rightarrow> go_err) \<Rightarrow> go_err + vapid \<Rightarrow> io \<Rightarrow> io \<Rightarrow> push_store \<Rightarrow> go_err option \<times> push_store" where
  "regenerate oe gen o1 o2 s =
     (case gen of
        Inl e \<Rightarrow> (Some (wrapf ''generate VAPID keys'' e), s)
      | Inr k \<Rightarrow>
          (case push_write oe o1 vapidFile (VapidJson k) (s\<lparr>pst_key := k\<rparr>) of
             (Some e, s1) \<Rightarrow> (Some e, s1)
           | (None, s1) \<Rightarrow> saveSubscriptions oe o2 (s1\<lparr>pst_subs := []\<rparr>)))"

text \<open>
  What the system does while the store is opened: failing reads (other than a missing file), the key
  generator, the outcome of each write, and whether the corrupt file could be moved away.
\<close>

record push_env =
  pe_mkdir :: "go_err option"
  pe_read :: "path \<Rightarrow> go_err option"
  pe_gen :: "go_err + vapid"
  pe_save :: io
  pe_key_write :: io
  pe_subs_write :: io
  pe_moved :: bool

definition loadSubscriptions :: "(io_error \<Rightarrow> go_err) \<Rightarrow> push_env \<Rightarrow> push_store \<Rightarrow> go_err option \<times> push_store" where
  "loadSubscriptions oe ev s =
     (case pe_read ev pushFile of
        Some e \<Rightarrow> (Some (wrapf ''read push.json'' e), s)
      | None \<Rightarrow>
          (case fs_read pushFile (pst_disk s) of
             None \<Rightarrow> saveSubscriptions oe (pe_save ev) s
           | Some (SubsJson (Some m)) \<Rightarrow> (None, s\<lparr>pst_subs := m\<rparr>)
           | Some Garbage \<Rightarrow>
               saveSubscriptions oe (pe_save ev)
                 (s\<lparr>pst_disk := (if pe_moved ev then fs_rename pushFile corruptFile (pst_disk s) else pst_disk s),
                    pst_subs := []\<rparr>)
           | Some _ \<Rightarrow> (None, s)))"

definition invalid_vapid :: go_err where
  "invalid_vapid = errorf ''invalid vapid.json: delete it to rotate''"

definition push_open :: "(io_error \<Rightarrow> go_err) \<Rightarrow> push_env \<Rightarrow> push_file disk \<Rightarrow> go_err + push_store" where
  "push_open oe ev d =
     (case (pe_mkdir ev, pe_read ev vapidFile) of
        (Some e, _) \<Rightarrow> Inl (wrapf ''create push data dir'' e)
      | (None, Some e) \<Rightarrow> Inl (wrapf ''read vapid.json'' e)
      | (None, None) \<Rightarrow>
          (let s0 = (\<lambda>k. \<lparr>pst_disk = d, pst_key = k, pst_subs = []\<rparr>)
           in case fs_read vapidFile d of
                None \<Rightarrow>
                  (case loadSubscriptions oe ev (s0 \<lparr>va_PublicKey = [], va_PrivateKey = []\<rparr>) of
                     (Some e, _) \<Rightarrow> Inl e
                   | (None, s1) \<Rightarrow>
                       (case regenerate oe (pe_gen ev) (pe_key_write ev) (pe_subs_write ev) s1 of
                          (Some e, _) \<Rightarrow> Inl e
                        | (None, s2) \<Rightarrow> Inr s2))
              | Some (VapidJson k) \<Rightarrow>
                  (if va_PublicKey k = [] \<or> va_PrivateKey k = [] then Inl invalid_vapid
                   else (case loadSubscriptions oe ev (s0 k) of (Some e, _) \<Rightarrow> Inl e | (None, s1) \<Rightarrow> Inr s1))
              | Some _ \<Rightarrow> Inl invalid_vapid))"

definition PublicKey :: "push_store \<Rightarrow> string" where
  "PublicKey s = va_PublicKey (pst_key s)"

definition Wipe :: "(io_error \<Rightarrow> go_err) \<Rightarrow> go_err + vapid \<Rightarrow> io \<Rightarrow> io \<Rightarrow> push_store \<Rightarrow> go_err option \<times> push_store" where
  "Wipe oe gen o1 o2 s = regenerate oe gen o1 o2 s"

definition Subscribe :: "(io_error \<Rightarrow> go_err) \<Rightarrow> io \<Rightarrow> string \<Rightarrow> subscription \<Rightarrow> push_store \<Rightarrow> go_err option \<times> push_store" where
  "Subscribe oe out now sub s =
     (let ep = trim_space (sub_Endpoint sub);
          sub = sub\<lparr>sub_Endpoint := ep, sub_CreatedAt := (if sub_CreatedAt sub = [] then now else sub_CreatedAt sub)\<rparr>
      in saveSubscriptions oe out (s\<lparr>pst_subs := AList.update ep sub (pst_subs s)\<rparr>))"

definition push_list :: "push_store \<Rightarrow> subscription list" where
  "push_list s = sort_key sub_Endpoint (map snd (pst_subs s))"

section \<open>Sending\<close>

text \<open>
  The answer of a relay: a status with its \<open>Retry-After\<close> header, and the error of the context if it
  ends during a wait of so many nanoseconds before the retry.
\<close>

record relay_answer =
  ra_status :: int
  ra_retry_after :: string
  ra_over :: "int \<Rightarrow> go_err option"

type_synonym relay = "string \<Rightarrow> bool \<Rightarrow> go_err + relay_answer"

text \<open>The seconds are multiplied as 64-bit nanoseconds; the wait is cut to two seconds.\<close>

definition retry_delay :: "int \<Rightarrow> int" where
  "retry_delay secs = (let d = wrap64 (secs * second) in if 2 * second < d then 2 * second else d)"

definition send_once :: "relay \<Rightarrow> subscription \<Rightarrow> bool \<Rightarrow> go_err + int" where
  "send_once rl sub retry =
     (case rl (sub_Endpoint sub) retry of
        Inl e \<Rightarrow> Inl e
      | Inr a \<Rightarrow>
          if ra_status a = 429 then
            (if retry then Inl (errorf ''still rate limited'')
             else (case atoi (ra_retry_after a) of
                     Some secs \<Rightarrow> if 0 < secs
                                  then (case ra_over a (retry_delay secs) of Some e \<Rightarrow> Inl e | None \<Rightarrow> Inr 429) else Inr 429
                   | None \<Rightarrow> Inr 429))
          else Inr (ra_status a))"

definition deliver :: "relay \<Rightarrow> subscription \<Rightarrow> go_err + int" where
  "deliver rl sub = (let r = send_once rl sub False in if r = Inr 429 then send_once rl sub True else r)"

datatype verdict = Delivered | Undelivered | EndpointGone | KeyRejected int

definition judge :: "go_err + int \<Rightarrow> verdict" where
  "judge r =
     (case r of
        Inl _ \<Rightarrow> Undelivered
      | Inr st \<Rightarrow>
          if 200 \<le> st \<and> st < 300 then Delivered
          else if st = 404 \<or> st = 410 then EndpointGone
          else if st = 401 \<or> st = 403 then KeyRejected st
          else Undelivered)"

definition auth_err :: "int \<Rightarrow> go_err" where
  "auth_err st = \<lparr>ge_text = ErrVAPID @ '': relay returned '' @ itoa st, ge_is = [ErrVAPID]\<rparr>"

fun fan_out :: "relay \<Rightarrow> subscription list \<Rightarrow> send_result \<times> string list \<times> go_err option \<Rightarrow> send_result \<times> string list \<times> go_err option" where
  "fan_out rl [] acc = acc"
| "fan_out rl (sub # subs) (res, dead, err) =
     fan_out rl subs
       (case judge (deliver rl sub) of
          Delivered \<Rightarrow> (res\<lparr>rt_Sent := rt_Sent res + 1\<rparr>, dead, err)
        | Undelivered \<Rightarrow> (res\<lparr>rt_Failed := rt_Failed res + 1\<rparr>, dead, err)
        | EndpointGone \<Rightarrow> (res\<lparr>rt_Pruned := rt_Pruned res + 1\<rparr>, dead @ [sub_Endpoint sub], err)
        | KeyRejected st \<Rightarrow> (res\<lparr>rt_Failed := rt_Failed res + 1\<rparr>, dead, Some (auth_err st)))"

definition prune :: "(io_error \<Rightarrow> go_err) \<Rightarrow> io \<Rightarrow> string list \<Rightarrow> push_store \<Rightarrow> push_store" where
  "prune oe out eps s = snd (saveSubscriptions oe out (s\<lparr>pst_subs := fold AList.delete eps (pst_subs s)\<rparr>))"

definition Send_push :: "(io_error \<Rightarrow> go_err) \<Rightarrow> relay \<Rightarrow> io \<Rightarrow> push_store \<Rightarrow> (send_result \<times> go_err option) \<times> push_store" where
  "Send_push oe rl out s =
     (case fan_out rl (map snd (pst_subs s)) (\<lparr>rt_Sent = 0, rt_Failed = 0, rt_Pruned = 0\<rparr>, [], None) of
        (res, dead, err) \<Rightarrow> ((res, err), if dead \<noteq> [] then prune oe out dead s else s))"


text \<open>The order of the subscriptions is that of the list; Go's map gives any order, and only the text of the error depends on it.\<close>

section \<open>What a fan-out does\<close>

definition keyed :: "push_store \<Rightarrow> bool" where
  "keyed s \<longleftrightarrow> distinct (map fst (pst_subs s)) \<and> list_all (\<lambda>(k, sub). sub_Endpoint sub = k) (pst_subs s)"

definition having :: "relay \<Rightarrow> (verdict \<Rightarrow> bool) \<Rightarrow> subscription list \<Rightarrow> subscription list" where
  "having rl P subs = filter (\<lambda>sub. P (judge (deliver rl sub))) subs"

fun rejects :: "verdict \<Rightarrow> bool" where
  "rejects (KeyRejected _) = True"
| "rejects _ = False"

lemma having_simps [simp]:
  "having rl P [] = []"
  "having rl P (sub # subs) = (if P (judge (deliver rl sub)) then sub # having rl P subs else having rl P subs)"
  by (simp_all add: having_def)

lemma fan_out_counts:
  "fan_out rl subs (res, dead, err) = (res', dead', err') \<Longrightarrow>
     rt_Sent res' = rt_Sent res + length (having rl ((=) Delivered) subs) \<and>
     rt_Pruned res' = rt_Pruned res + length (having rl ((=) EndpointGone) subs) \<and>
     rt_Sent res' + rt_Failed res' + rt_Pruned res' = rt_Sent res + rt_Failed res + rt_Pruned res + length subs \<and>
     dead' = dead @ map sub_Endpoint (having rl ((=) EndpointGone) subs) \<and>
     (err' \<noteq> None \<longleftrightarrow> err \<noteq> None \<or> having rl rejects subs \<noteq> [])"
proof (induction subs arbitrary: res dead err)
  case (Cons sub subs)
  show ?case
  proof (cases "judge (deliver rl sub)")
    case Delivered
    with Cons.prems Cons.IH [OF Cons.prems [unfolded fan_out.simps this verdict.case]] show ?thesis by simp
  next
    case Undelivered
    with Cons.prems Cons.IH [OF Cons.prems [unfolded fan_out.simps this verdict.case]] show ?thesis by simp
  next
    case EndpointGone
    with Cons.prems Cons.IH [OF Cons.prems [unfolded fan_out.simps this verdict.case]] show ?thesis by simp
  next
    case (KeyRejected st)
    with Cons.prems Cons.IH [OF Cons.prems [unfolded fan_out.simps this verdict.case]] show ?thesis by simp
  qed
qed simp

lemma saveSubscriptions_frame:
  "pst_subs (snd (saveSubscriptions oe out s)) = pst_subs s \<and> pst_key (snd (saveSubscriptions oe out s)) = pst_key s"
  by (simp add: saveSubscriptions_def push_write_def split: prod.splits)

lemma map_of_fold_prune:
  "map_of (fold AList.delete ks al) k = (if k \<in> set ks then None else map_of al k)"
  by (induction ks arbitrary: al) (auto simp: AList.delete_conv')

lemma gone_endpoint:
  assumes "keyed s" "map_of (pst_subs s) ep = Some sub"
  shows "ep \<in> set (map sub_Endpoint (having rl P (map snd (pst_subs s)))) \<longleftrightarrow> P (judge (deliver rl sub))"
proof -
  have in_subs: "(ep, sub) \<in> set (pst_subs s)" using assms(2) by (rule map_of_SomeD)
  have key: "sub_Endpoint v = k" if "(k, v) \<in> set (pst_subs s)" for k v
    using assms(1) that by (auto simp: keyed_def list_all_iff)
  have uniq: "v = sub" if "(k, v) \<in> set (pst_subs s)" "sub_Endpoint v = ep" for k v
    using assms(1) in_subs that key [OF that(1)] by (auto simp: keyed_def dest: eq_key_imp_eq_value)
  show ?thesis
  proof
    assume "ep \<in> set (map sub_Endpoint (having rl P (map snd (pst_subs s))))"
    then obtain k v where "(k, v) \<in> set (pst_subs s)" "P (judge (deliver rl v))" "sub_Endpoint v = ep"
      by (auto simp: having_def)
    then show "P (judge (deliver rl sub))" using uniq by blast
  next
    assume "P (judge (deliver rl sub))"
    then have "sub \<in> set (having rl P (map snd (pst_subs s)))" using in_subs by (force simp: having_def)
    then show "ep \<in> set (map sub_Endpoint (having rl P (map snd (pst_subs s))))"
      using key [OF in_subs] by (metis imageI list.set_map)
  qed
qed

text \<open>
  C26: a fan-out accounts for every device. Each subscription is counted once, as sent, failed or
  pruned; sent counts those whose last answer was a success; the devices that are forgotten are
  exactly those whose relay said that they are gone; an error is reported exactly when some relay
  rejected the server's key.
\<close>

theorem send_accounts:
  assumes "keyed s" "Send_push oe rl out s = ((res, err), s')"
  shows "rt_Sent res = length (having rl ((=) Delivered) (map snd (pst_subs s))) \<and>
    rt_Sent res + rt_Failed res + rt_Pruned res = length (pst_subs s) \<and>
    (err \<noteq> None \<longleftrightarrow> having rl rejects (map snd (pst_subs s)) \<noteq> []) \<and>
    (\<forall>ep. map_of (pst_subs s') ep =
       (case map_of (pst_subs s) ep of
          None \<Rightarrow> None
        | Some sub \<Rightarrow> if judge (deliver rl sub) = EndpointGone then None else Some sub))"
proof -
  let ?subs = "map snd (pst_subs s)"
  obtain dead where f: "fan_out rl ?subs (\<lparr>rt_Sent = 0, rt_Failed = 0, rt_Pruned = 0\<rparr>, [], None) = (res, dead, err)"
      and s': "s' = (if dead \<noteq> [] then prune oe out dead s else s)"
    using assms(2) by (auto simp: Send_push_def split: prod.splits)
  note counts = fan_out_counts [OF f]
  then have dead: "dead = map sub_Endpoint (having rl ((=) EndpointGone) ?subs)" by simp
  have subs': "pst_subs s' = fold AList.delete dead (pst_subs s)"
    by (simp add: s' prune_def saveSubscriptions_frame)
  have "map_of (pst_subs s') ep = (case map_of (pst_subs s) ep of None \<Rightarrow> None
      | Some sub \<Rightarrow> if judge (deliver rl sub) = EndpointGone then None else Some sub)" for ep
    using gone_endpoint [OF assms(1), of ep _ rl "(=) EndpointGone"]
    by (auto simp: subs' map_of_fold_prune dead split: option.splits)
  then show ?thesis using counts by simp
qed

section \<open>What a restart finds\<close>

definition good_gen :: "go_err + vapid \<Rightarrow> bool" where
  "good_gen gen \<longleftrightarrow> (case gen of Inl _ \<Rightarrow> True | Inr k \<Rightarrow> va_PublicKey k \<noteq> [] \<and> va_PrivateKey k \<noteq> [])"

text \<open>The stores a server can hold: opened, then any operations with any outcomes, but no failed rotation.\<close>

inductive push_reach :: "(io_error \<Rightarrow> go_err) \<Rightarrow> push_store \<Rightarrow> bool" for oe where
  opened: "good_gen (pe_gen ev) \<Longrightarrow> push_open oe ev d = Inr s \<Longrightarrow> push_reach oe s"
| subscribed: "push_reach oe s \<Longrightarrow> push_reach oe (snd (Subscribe oe out now sub s))"
| sent: "push_reach oe s \<Longrightarrow> push_reach oe (snd (Send_push oe rl out s))"
| wiped: "push_reach oe s \<Longrightarrow> good_gen gen \<Longrightarrow> Wipe oe gen o1 o2 s = (None, s') \<Longrightarrow> push_reach oe s'"

definition key_on_disk :: "push_store \<Rightarrow> bool" where
  "key_on_disk s \<longleftrightarrow> fs_read vapidFile (pst_disk s) = Some (VapidJson (pst_key s)) \<and>
     va_PublicKey (pst_key s) \<noteq> [] \<and> va_PrivateKey (pst_key s) \<noteq> []"

lemma push_paths: "vapidFile \<noteq> pushFile" "vapidFile \<noteq> tmp_path pushFile" "vapidFile \<noteq> corruptFile"
    "pushFile \<noteq> []" "vapidFile \<noteq> []"
  by (simp_all add: vapidFile_def pushFile_def tmp_path_def corruptFile_def)

lemma saveSubscriptions_disk:
  assumes "saveSubscriptions oe out s = (e, s')"
  shows "fs_read vapidFile (pst_disk s') = fs_read vapidFile (pst_disk s)"
    and "e = None \<Longrightarrow> fs_read pushFile (pst_disk s') = Some (SubsJson (Some (pst_subs s)))"
proof -
  obtain e1 d where w: "write_json_file Garbage out pushFile (SubsJson (Some (pst_subs s))) (pst_disk s) = (e1, d)"
    by fastforce
  then have s': "s' = s\<lparr>pst_disk := d\<rparr>" "e = map_option oe e1"
    using assms by (auto simp: saveSubscriptions_def push_write_def)
  show "fs_read vapidFile (pst_disk s') = fs_read vapidFile (pst_disk s)"
    using write_json_file_frame [OF w push_paths(4) push_paths(1,2)] s' by simp
  show "fs_read pushFile (pst_disk s') = Some (SubsJson (Some (pst_subs s)))" if "e = None"
    using write_json_file_read [OF w push_paths(4)] s' that by simp
qed

lemma save_keeps_key: "key_on_disk s \<Longrightarrow> key_on_disk (snd (saveSubscriptions oe out s))"
  using saveSubscriptions_disk(1) [of oe out s] saveSubscriptions_frame [of oe out s]
  by (cases "saveSubscriptions oe out s") (simp add: key_on_disk_def)

lemma regenerate_key:
  assumes "regenerate oe gen o1 o2 s = (None, s')" "good_gen gen"
  shows "key_on_disk s'"
proof -
  obtain k where gen: "gen = Inr k" using assms(1) by (auto simp: regenerate_def split: sum.splits)
  obtain e1 d where w: "write_json_file Garbage o1 vapidFile (VapidJson k) (pst_disk s) = (e1, d)" by fastforce
  have e1: "e1 = None" and s': "s' = snd (saveSubscriptions oe o2 (s\<lparr>pst_key := k, pst_disk := d, pst_subs := []\<rparr>))"
    using assms(1) w gen by (auto simp: regenerate_def push_write_def split: prod.splits option.splits)
  have "fs_read vapidFile d = Some (VapidJson k)" using write_json_file_read [OF w push_paths(5)] e1 by simp
  then have "key_on_disk (s\<lparr>pst_key := k, pst_disk := d, pst_subs := []\<rparr>)"
    using assms(2) gen by (simp add: key_on_disk_def good_gen_def)
  then show ?thesis unfolding s' by (rule save_keeps_key)
qed

lemma load_keeps_key: "key_on_disk s \<Longrightarrow> key_on_disk (snd (loadSubscriptions oe ev s))"
proof -
  assume key: "key_on_disk s"
  then have "key_on_disk (s\<lparr>pst_disk := fs_rename pushFile corruptFile (pst_disk s), pst_subs := []\<rparr>)"
    "key_on_disk (s\<lparr>pst_subs := m\<rparr>)" for m
    using push_paths by (auto simp: key_on_disk_def fs_read_rename split: option.splits)
  then show "key_on_disk (snd (loadSubscriptions oe ev s))" using key
    by (auto simp: loadSubscriptions_def save_keeps_key split: option.splits push_file.splits)
qed

lemma open_key: "push_open oe ev d = Inr s \<Longrightarrow> good_gen (pe_gen ev) \<Longrightarrow> key_on_disk s"
proof -
  assume opened: "push_open oe ev d = Inr s" and gen: "good_gen (pe_gen ev)"
  show "key_on_disk s"
  proof (cases "fs_read vapidFile d")
    case None
    then show ?thesis using opened regenerate_key gen
      by (auto simp: push_open_def Let_def split: option.splits prod.splits)
  next
    case (Some f)
    then obtain k where k: "f = VapidJson k" "va_PublicKey k \<noteq> []" "va_PrivateKey k \<noteq> []"
        and s: "loadSubscriptions oe ev \<lparr>pst_disk = d, pst_key = k, pst_subs = []\<rparr> = (None, s)"
      using opened by (auto simp: push_open_def Let_def split: option.splits prod.splits push_file.splits if_splits)
    have "key_on_disk \<lparr>pst_disk = d, pst_key = k, pst_subs = []\<rparr>" using Some k by (simp add: key_on_disk_def)
    from load_keeps_key [OF this, of oe ev] s show ?thesis by simp
  qed
qed

lemma push_reach_key: "push_reach oe s \<Longrightarrow> key_on_disk s"
proof (induction rule: push_reach.induct)
  case (opened ev d s)
  then show ?case by (simp add: open_key)
next
  case (subscribed s out now sub)
  then have "key_on_disk (s\<lparr>pst_subs := m\<rparr>)" for m by (simp add: key_on_disk_def)
  then show ?case by (simp add: Subscribe_def Let_def save_keeps_key)
next
  case (sent s rl out)
  then have "key_on_disk (s\<lparr>pst_subs := m\<rparr>)" for m by (simp add: key_on_disk_def)
  then show ?case using sent by (simp add: Send_push_def prune_def save_keeps_key split: prod.splits)
next
  case (wiped s gen o1 o2 s')
  then show ?case by (simp add: Wipe_def regenerate_key)
qed

text \<open>
  C25: a stored subscription survives a restart, with everything stored before it. After any run of
  the server in which no rotation of the keys failed half-way, whatever writes failed, once a
  subscription is stored without an error a server started on that disk holds exactly the same
  keys and subscriptions, and starting it does not change the disk.
\<close>

theorem subscription_survives:
  assumes "push_reach oe s" "Subscribe oe out now sub s = (None, s')"
    "pe_mkdir ev = None" "pe_read ev vapidFile = None" "pe_read ev pushFile = None"
  shows "push_open oe' ev (pst_disk s') = Inr s'"
proof -
  let ?s = "s\<lparr>pst_subs := AList.update (trim_space (sub_Endpoint sub))
    (sub\<lparr>sub_Endpoint := trim_space (sub_Endpoint sub),
         sub_CreatedAt := (if sub_CreatedAt sub = [] then now else sub_CreatedAt sub)\<rparr>) (pst_subs s)\<rparr>"
  have save: "saveSubscriptions oe out ?s = (None, s')" using assms(2) by (simp add: Subscribe_def Let_def)
  have key: "key_on_disk s'" using push_reach_key [OF push_reach.subscribed [OF assms(1)], of out now sub] assms(2) by simp
  have "pst_subs s' = pst_subs ?s" using saveSubscriptions_frame [of oe out ?s] save by simp
  then have "fs_read pushFile (pst_disk s') = Some (SubsJson (Some (pst_subs s')))"
    using saveSubscriptions_disk(2) [OF save] by simp
  then show ?thesis using key assms(3-5)
    by (simp add: push_open_def loadSubscriptions_def key_on_disk_def)
qed


section \<open>What a browser may register\<close>

text \<open>A parsed URL: its scheme, its host with the port, and the host name alone.\<close>

record push_url =
  pl_Scheme :: string
  pl_Host :: string
  pl_Hostname :: string

definition isLocalHost :: "string \<Rightarrow> bool" where
  "isLocalHost h \<longleftrightarrow> List.member [''localhost'', ''127.0.0.1'', ''::1'', ''host.docker.internal''] h"

definition relays :: "string list" where
  "relays = [''googleapis.com'', ''push.apple.com'', ''mozilla.com'', ''mozaws.net'', ''notify.windows.com'']"

definition knownRelay :: "string \<Rightarrow> bool" where
  "knownRelay h \<longleftrightarrow> list_ex (\<lambda>r. h = r \<or> suffix (''.'' @ r) h) relays"

text \<open>\<open>base64.RawURLEncoding\<close> and \<open>base64.URLEncoding\<close>: the other two digits, and padding to whole groups.\<close>

definition from_url_char :: "char \<Rightarrow> char" where
  "from_url_char c =
     (if c = CHR ''-'' then CHR ''+'' else if c = CHR ''_'' then CHR ''/''
      else if c = CHR ''+'' \<or> c = CHR ''/'' then CHR ''='' else c)"

definition raw_url_decode :: "string \<Rightarrow> string option" where
  "raw_url_decode s = b64_decode (map from_url_char s)"

definition url_decode :: "string \<Rightarrow> string option" where
  "url_decode s =
     (let t = filter (\<lambda>c. c \<noteq> CHR 0x0D \<and> c \<noteq> CHR 0x0A) s; n = length t
      in if n mod 4 \<noteq> 0 then None
         else raw_url_decode (if suffix ''=='' t then take (n - 2) t else if suffix ''='' t then take (n - 1) t else t))"

definition decodeBase64 :: "string \<Rightarrow> string option" where
  "decodeBase64 s = (case raw_url_decode s of Some b \<Rightarrow> Some b | None \<Rightarrow> url_decode s)"

text \<open>An uncompressed point of the curve P-256.\<close>

definition p256 :: int where
  "p256 = 115792089210356248762697446949407573530086143415290314195533631308867097853951"

definition p256_b :: int where
  "p256_b = 41058363725152142129326129780047268409114441015993725554835256314039467401291"

fun big_endian :: "string \<Rightarrow> int \<Rightarrow> int" where
  "big_endian [] n = n"
| "big_endian (c # s) n = big_endian s (256 * n + int (byte_of c))"

definition p256_point :: "string \<Rightarrow> bool" where
  "p256_point s \<longleftrightarrow>
     length s = 65 \<and> byte_of (hd s) = 4 \<and>
     (let x = big_endian (take 32 (tl s)) 0; y = big_endian (drop 33 s) 0
      in x < p256 \<and> y < p256 \<and> (y * y - (x * x * x - 3 * x + p256_b)) mod p256 = 0)"

definition ValidateSubscription :: "(string \<Rightarrow> push_url option) \<Rightarrow> (nat \<Rightarrow> nat) \<Rightarrow> subscription \<Rightarrow> go_err option" where
  "ValidateSubscription parse lo sub =
     (case parse (sub_Endpoint sub) of
        None \<Rightarrow> Some (errorf ''invalid endpoint'')
      | Some u \<Rightarrow>
          if pl_Hostname u = [] then Some (errorf ''invalid endpoint'')
          else
            (let host = to_lower lo (pl_Hostname u); loc = isLocalHost host
             in if pl_Scheme u \<noteq> ''https'' \<and> \<not> (loc \<and> pl_Scheme u = ''http'') then Some (errorf ''endpoint must be https'')
                else if \<not> loc \<and> \<not> knownRelay host then Some (errorf ''unknown push service'')
                else (case decodeBase64 (pk_P256dh (sub_Keys sub)) of
                        None \<Rightarrow> Some (errorf ''invalid p256dh key'')
                      | Some k \<Rightarrow>
                          if \<not> p256_point k then Some (errorf ''invalid p256dh key'')
                          else (case decodeBase64 (pk_Auth (sub_Keys sub)) of
                                  None \<Rightarrow> Some (errorf ''invalid auth secret'')
                                | Some a \<Rightarrow> if length a \<noteq> 16 then Some (errorf ''invalid auth secret'') else None))))"

text \<open>A suffix with its dot is a suffix of whole labels.\<close>

lemma known_relay_labels:
  assumes "knownRelay h"
  shows "\<exists>r \<in> set relays. \<exists>ls. split_on CHR ''.'' h = ls @ split_on CHR ''.'' r"
proof -
  obtain r where r: "r \<in> set relays" "h = r \<or> suffix (''.'' @ r) h"
    using assms by (auto simp: knownRelay_def list_ex_iff)
  show ?thesis
  proof (cases "h = r")
    case True
    then show ?thesis using r by (intro bexI [of _ r] exI [of _ "[]"]) simp_all
  next
    case False
    then obtain p where "h = p @ CHR ''.'' # r" using r by (auto simp: suffix_def)
    then have "split_on CHR ''.'' h = split_on CHR ''.'' p @ split_on CHR ''.'' r"
      by (simp add: split_on_join_two)
    then show ?thesis using r by blast
  qed
qed

text \<open>
  The server posts only to push services and to itself. A subscription that is accepted has a host
  that is local, or, over https only, whose last labels are those of a known push service; its key is
  a point of the curve and its secret has sixteen bytes.
\<close>

theorem accepted_endpoints:
  assumes "ValidateSubscription parse lo sub = None"
  shows "\<exists>u k a. parse (sub_Endpoint sub) = Some u \<and> decodeBase64 (pk_P256dh (sub_Keys sub)) = Some k \<and> p256_point k \<and>
    decodeBase64 (pk_Auth (sub_Keys sub)) = Some a \<and> length a = 16 \<and>
    (let host = to_lower lo (pl_Hostname u)
     in isLocalHost host \<and> pl_Scheme u \<in> {''http'', ''https''} \<or>
        pl_Scheme u = ''https'' \<and> (\<exists>r \<in> set relays. \<exists>ls. split_on CHR ''.'' host = ls @ split_on CHR ''.'' r))"
proof -
  obtain u where u: "parse (sub_Endpoint sub) = Some u"
    using assms by (auto simp: ValidateSubscription_def split: option.splits)
  let ?host = "to_lower lo (pl_Hostname u)"
  have guards: "pl_Scheme u = ''https'' \<or> isLocalHost ?host \<and> pl_Scheme u = ''http''"
      "isLocalHost ?host \<or> knownRelay ?host"
    using assms u by (auto simp: ValidateSubscription_def Let_def split: option.splits if_splits)
  obtain k a where "decodeBase64 (pk_P256dh (sub_Keys sub)) = Some k" "p256_point k"
      "decodeBase64 (pk_Auth (sub_Keys sub)) = Some a" "length a = 16"
    using assms u by (auto simp: ValidateSubscription_def Let_def split: option.splits if_splits)
  then show ?thesis using u guards known_relay_labels [of ?host] unfolding Let_def by blast
qed


section \<open>The handlers\<close>

definition maxTitle :: nat where "maxTitle = 100"
definition maxBody :: nat where "maxBody = 500"
definition maxTag :: nat where "maxTag = 64"
definition maxNavigate :: nat where "maxNavigate = 2048"
definition maxPayload :: nat where "maxPayload = 3500"

definition zero_subscription :: subscription where
  "zero_subscription = \<lparr>sub_Endpoint = [], sub_Keys = \<lparr>pk_P256dh = [], pk_Auth = []\<rparr>, sub_CreatedAt = []\<rparr>"

definition zero_message :: message where
  "zero_message = \<lparr>ms_Title = [], ms_Body = [], ms_Navigate = [], ms_Tag = []\<rparr>"

definition handlePushKey :: "push_store \<Rightarrow> response" where
  "handlePushKey s = writeJSON 200 (JObj [(''publicKey'', JStr (PublicKey s))])"

definition handlePushSubscribe :: "(string \<Rightarrow> push_url option) \<Rightarrow> (nat \<Rightarrow> nat) \<Rightarrow> (io_error \<Rightarrow> go_err) \<Rightarrow> io \<Rightarrow> string
    \<Rightarrow> subscription body \<Rightarrow> push_store \<Rightarrow> response \<times> push_store" where
  "handlePushSubscribe parse lo oe out now b s =
     (case decodeBody zero_subscription b False of
        Inl r \<Rightarrow> (r, s)
      | Inr sub \<Rightarrow>
          (case ValidateSubscription parse lo sub of
             Some e \<Rightarrow> (writeErr 400 (ge_text e), s)
           | None \<Rightarrow>
               (case Subscribe oe out now sub s of
                  (Some e, s') \<Rightarrow> (writeInternalErr e, s')
                | (None, s') \<Rightarrow> (writeJSON 200 ok_true, s'))))"

definition handlePushList :: "push_store \<Rightarrow> response" where
  "handlePushList s = writeJSON 200 (JObj [(''subscriptions'',
     JArr (map (\<lambda>sub. JObj [(''endpoint'', JStr (sub_Endpoint sub)), (''createdAt'', JStr (sub_CreatedAt sub))]) (push_list s)))])"

text \<open>\<open>encoding/json\<close> prints a string with its escapes, those for HTML included.\<close>

definition hex4 :: "nat \<Rightarrow> string" where
  "hex4 r = map (\<lambda>k. ''0123456789abcdef'' ! (r div 16 ^ k mod 16)) [3, 2, 1, 0]"

definition escape_rune :: "nat \<Rightarrow> nat \<Rightarrow> string \<Rightarrow> string" where
  "escape_rune r n raw =
     (if r = 34 then [CHR 0x5C, CHR 0x22] else if r = 92 then [CHR 0x5C, CHR 0x5C]
      else if r = 8 then CHR 0x5C # ''b'' else if r = 12 then CHR 0x5C # ''f'' else if r = 10 then CHR 0x5C # ''n''
      else if r = 13 then CHR 0x5C # ''r'' else if r = 9 then CHR 0x5C # ''t''
      else if r < 32 \<or> r = 60 \<or> r = 62 \<or> r = 38 \<or> r = 8232 \<or> r = 8233 \<or> (r = 65533 \<and> n = 1)
        then CHR 0x5C # CHR ''u'' # hex4 r
      else raw)"

function json_escape :: "string \<Rightarrow> string" where
  "json_escape s = (if s = [] then []
     else (let (r, n) = dec_rune s in escape_rune r n (take n s) @ json_escape (drop n s)))"
  by pat_completeness auto
termination
  by (relation "measure length") (auto dest: dec_rune_width')

declare json_escape.simps [simp del]

definition json_field :: "string \<Rightarrow> string \<Rightarrow> string" where
  "json_field name v = CHR 0x22 # name @ [CHR 0x22, CHR '':'', CHR 0x22] @ json_escape v @ [CHR 0x22]"

definition message_json :: "message \<Rightarrow> string" where
  "message_json m = ''{'' @ join '','' ([json_field ''title'' (ms_Title m), json_field ''body'' (ms_Body m)]
     @ (if ms_Navigate m = [] then [] else [json_field ''navigate'' (ms_Navigate m)])
     @ (if ms_Tag m = [] then [] else [json_field ''tag'' (ms_Tag m)])) @ ''}''"

text \<open>The scheme the client used: TLS, or what the proxy says first.\<close>

definition request_scheme :: "(nat \<Rightarrow> nat) \<Rightarrow> bool \<Rightarrow> request \<Rightarrow> string" where
  "request_scheme lo tls r =
     (let proto = rq_header r ''X-Forwarded-Proto'';
          p = to_lower lo (trim_space (hd (split_on (CHR '','') proto)))
      in if proto \<noteq> [] \<and> (p = ''http'' \<or> p = ''https'') then p else if tls then ''https'' else ''http'')"

definition normalizeNavigate :: "(string \<Rightarrow> push_url option) \<Rightarrow> (nat \<Rightarrow> nat) \<Rightarrow> (nat \<Rightarrow> nat) \<Rightarrow> bool \<Rightarrow> request \<Rightarrow> string \<Rightarrow> go_err + string" where
  "normalizeNavigate parse lo fo tls r raw =
     (let scheme = request_scheme lo tls r
      in if raw = [] then Inr (scheme @ ''://'' @ rq_host r @ ''/app'')
         else (case parse raw of
                 None \<Rightarrow> Inl (errorf ''invalid navigate URL'')
               | Some u \<Rightarrow>
                   if pl_Host u = [] then Inl (errorf ''invalid navigate URL'')
                   else if \<not> equal_fold fo (pl_Scheme u) scheme \<or> \<not> equal_fold fo (pl_Host u) (rq_host r)
                     then Inl (errorf ''navigate must be same-origin'')
                   else Inr raw))"

definition send_body :: "send_result \<Rightarrow> (string \<times> json) list" where
  "send_body res = [(''failed'', JInt (int (rt_Failed res))), (''pruned'', JInt (int (rt_Pruned res))), (''sent'', JInt (int (rt_Sent res)))]"

definition handlePushSend :: "(string \<Rightarrow> push_url option) \<Rightarrow> (nat \<Rightarrow> nat) \<Rightarrow> (nat \<Rightarrow> nat) \<Rightarrow> (io_error \<Rightarrow> go_err) \<Rightarrow> relay \<Rightarrow> io
    \<Rightarrow> bool \<Rightarrow> request \<Rightarrow> message body \<Rightarrow> push_store \<Rightarrow> response \<times> push_store" where
  "handlePushSend parse lo fo oe rl out tls r b s =
     (case decodeBody zero_message b False of
        Inl resp \<Rightarrow> (resp, s)
      | Inr m \<Rightarrow>
          (let m = m\<lparr>ms_Title := trim_space (ms_Title m), ms_Body := trim_space (ms_Body m)\<rparr>
           in if ms_Title m = [] \<or> ms_Body m = [] then (writeErr 400 ''title and body are required'', s)
              else if maxTitle < length (ms_Title m) \<or> maxBody < length (ms_Body m) \<or> maxTag < length (ms_Tag m)
                  \<or> maxNavigate < length (ms_Navigate m) then (writeErr 400 ''payload too large'', s)
              else (case normalizeNavigate parse lo fo tls r (ms_Navigate m) of
                      Inl e \<Rightarrow> (writeErr 400 (ge_text e), s)
                    | Inr nav \<Rightarrow>
                        if maxPayload < length (message_json (m\<lparr>ms_Navigate := nav\<rparr>)) then (writeErr 400 ''payload too large'', s)
                        else (case Send_push oe rl out s of
                                ((res, None), s') \<Rightarrow> (writeJSON 200 (JObj (send_body res)), s')
                              | ((res, Some e), s') \<Rightarrow>
                                  (if is_err e ErrVAPID
                                   then writeJSON 502 (JObj ((''error'', JStr ErrVAPID) # send_body res))
                                   else writeInternalErr e, s')))))"

text \<open>A refused request leaves the store as it is and calls no relay; a rejected key is never an internal error.\<close>

lemma send_refused_keeps:
  assumes "rs_status (fst (handlePushSend parse lo fo oe rl out tls r b s)) = 400"
  shows "snd (handlePushSend parse lo fo oe rl out tls r b s) = s"
proof (cases "decodeBody zero_message b False")
  case (Inl resp)
  then show ?thesis by (simp add: handlePushSend_def)
next
  case (Inr m)
  obtain res err s' where sent: "Send_push oe rl out s = ((res, err), s')" by (metis prod.collapse)
  show ?thesis using assms Inr
    by (cases "normalizeNavigate parse lo fo tls r (ms_Navigate m)"; cases err)
      (auto simp: handlePushSend_def Let_def sent writeJSON_def writeErr_def writeInternalErr_def split: if_splits)
qed

lemma fan_out_auth: "fan_out rl subs (res, dead, err) = (res', dead', Some e) \<Longrightarrow>
    (\<And>x. err = Some x \<Longrightarrow> is_err x ErrVAPID) \<Longrightarrow> is_err e ErrVAPID"
  by (induction rl subs "(res, dead, err)" arbitrary: res dead err rule: fan_out.induct)
    (auto simp: auth_err_def is_err_def split: verdict.splits)

lemma navigate_same_origin:
  assumes "normalizeNavigate parse lo fo tls r raw = Inr nav" "raw \<noteq> []"
  shows "nav = raw \<and> (\<exists>u. parse raw = Some u \<and> equal_fold fo (pl_Host u) (rq_host r) \<and>
    equal_fold fo (pl_Scheme u) (request_scheme lo tls r))"
  using assms by (auto simp: normalizeNavigate_def Let_def split: option.splits if_splits)

section \<open>Concrete runs\<close>

definition sample_write_error :: "io_error \<Rightarrow> go_err" where
  "sample_write_error e = errorf ''write''"

definition fresh_env :: push_env where
  "fresh_env = \<lparr>pe_mkdir = None, pe_read = (\<lambda>_. None), pe_gen = Inr \<lparr>va_PublicKey = ''pub'', va_PrivateKey = ''key''\<rparr>,
     pe_save = IoDone, pe_key_write = IoDone, pe_subs_write = IoDone, pe_moved = True\<rparr>"

definition phone :: subscription where
  "phone = \<lparr>sub_Endpoint = ''https://fcm.googleapis.com/a'', sub_Keys = \<lparr>pk_P256dh =
     ''BGsX0fLhLEJH-Lzm5WOkQPJ3A32BLeszoPShOUXYmMKWT-NC4v4af5uO5-tKfA-eFivOM1drMV7Oy7ZAaDe_UfU'',
     pk_Auth = ''AAECAwQFBgcICQoLDA0ODw''\<rparr>, sub_CreatedAt = ''t''\<rparr>"

definition tablet :: subscription where
  "tablet = phone\<lparr>sub_Endpoint := ''https://web.push.apple.com/b''\<rparr>"

definition two_devices :: push_store where
  "two_devices = \<lparr>pst_disk = [], pst_key = \<lparr>va_PublicKey = ''pub'', va_PrivateKey = ''key''\<rparr>,
     pst_subs = [(sub_Endpoint phone, phone), (sub_Endpoint tablet, tablet)]\<rparr>"

definition tablet_gone :: relay where
  "tablet_gone ep retry = Inr \<lparr>ra_status = (if ep = sub_Endpoint tablet then 410 else if retry then 201 else 429),
     ra_retry_after = ''1'', ra_over = (\<lambda>_. None)\<rparr>"

theorem send_accounts_witness:
  "rt_Sent (fst (fst (Send_push sample_write_error tablet_gone IoTornTmp two_devices))) =
     length (having tablet_gone ((=) Delivered) (map snd (pst_subs two_devices))) \<and>
   map_of (pst_subs (snd (Send_push sample_write_error tablet_gone IoTornTmp two_devices))) (sub_Endpoint phone) = Some phone"
proof -
  have "keyed two_devices" by (simp add: keyed_def two_devices_def phone_def tablet_def)
  moreover have "map_of (pst_subs two_devices) (sub_Endpoint phone) = Some phone" by (simp add: two_devices_def)
  moreover have "judge (deliver tablet_gone phone) \<noteq> EndpointGone" by code_simp
  moreover obtain res err s' where sent: "Send_push sample_write_error tablet_gone IoTornTmp two_devices = ((res, err), s')"
    by (metis prod.collapse)
  ultimately show ?thesis using send_accounts [OF _ sent] by (simp add: sent)
qed

definition push_start :: push_store where
  "push_start = (case push_open sample_write_error fresh_env [] of Inr s \<Rightarrow> s | Inl _ \<Rightarrow> two_devices)"

lemma push_start_opened: "push_open sample_write_error fresh_env [] = Inr push_start"
  by code_simp

theorem subscription_survives_witness:
  "push_open sample_write_error fresh_env (pst_disk (snd (Subscribe sample_write_error IoDone ''now'' phone push_start))) =
     Inr (snd (Subscribe sample_write_error IoDone ''now'' phone push_start))"
proof -
  have "push_reach sample_write_error push_start"
    by (rule push_reach.opened [OF _ push_start_opened]) (simp add: fresh_env_def good_gen_def)
  moreover have "fst (Subscribe sample_write_error IoDone ''now'' phone push_start) = None"
    by (simp add: Subscribe_def Let_def saveSubscriptions_def push_write_def write_json_file_def)
  ultimately show ?thesis
    by (intro subscription_survives [where out = IoDone and now = "''now''" and sub = phone])
      (simp_all add: prod_eq_iff fresh_env_def)
qed

definition demo_parse :: "string \<Rightarrow> push_url option" where
  "demo_parse s = Some \<lparr>pl_Scheme = ''https'', pl_Host = ''fcm.googleapis.com'', pl_Hostname = ''fcm.googleapis.com''\<rparr>"

lemma phone_key: "p256_point (the (decodeBase64 (pk_P256dh (sub_Keys phone))))"
  by code_simp

lemma phone_accepted: "ValidateSubscription demo_parse (\<lambda>r. r) phone = None"
  by code_simp

theorem accepted_endpoints_witness:
  "\<exists>u k a. demo_parse (sub_Endpoint phone) = Some u \<and> decodeBase64 (pk_P256dh (sub_Keys phone)) = Some k \<and> p256_point k \<and>
    decodeBase64 (pk_Auth (sub_Keys phone)) = Some a \<and> length a = 16 \<and>
    (let host = to_lower (\<lambda>r. r) (pl_Hostname u)
     in isLocalHost host \<and> pl_Scheme u \<in> {''http'', ''https''} \<or>
        pl_Scheme u = ''https'' \<and> (\<exists>r \<in> set relays. \<exists>ls. split_on CHR ''.'' host = ls @ split_on CHR ''.'' r))"
  by (rule accepted_endpoints [OF phone_accepted])

text \<open>A rotation that cannot write the new key keeps the devices and signs with a key that is not on the disk.\<close>

lemma failed_rotation:
  "let s = snd (Wipe sample_write_error (Inr \<lparr>va_PublicKey = ''new'', va_PrivateKey = ''key2''\<rparr>) IoNoRename IoDone
       (snd (Subscribe sample_write_error IoDone ''now'' phone push_start)))
   in PublicKey s = ''new'' \<and> fs_read vapidFile (pst_disk s) = Some (VapidJson \<lparr>va_PublicKey = ''pub'', va_PrivateKey = ''key''\<rparr>) \<and>
      map fst (pst_subs s) = [sub_Endpoint phone]"
  by code_simp

end
