(* ===== verification/Session.thy ===== *)
theory Session
  imports Docker Shell Harness
begin

text \<open>
  server/internal/session/session.go: tmux sessions in a project container, by commands through the
  Docker client, and the installation of harnesses. Deadlines of contexts enter as the context's
  error after a command; \<open>lo\<close> is Unicode's lower-case table beyond ASCII.
\<close>

abbreviation ErrInvalidName :: string where "ErrInvalidName \<equiv> ''invalid session name''"
abbreviation ErrDuplicate :: string where "ErrDuplicate \<equiv> ''duplicate session''"
abbreviation ErrEmptyCommand :: string where "ErrEmptyCommand \<equiv> ''empty command''"
abbreviation ErrNotInstalled :: string where "ErrNotInstalled \<equiv> ''not installed''"
abbreviation ErrNotCLI :: string where "ErrNotCLI \<equiv> ''not a CLI''"

definition dash :: string where
  "dash = [CHR 0xE2, CHR 0x80, CHR 0x94]"

definition not_installed_text :: string where
  "not_installed_text = ''not installed in this project '' @ dash @ '' install it from the home page first''"

definition not_cli_text :: string where
  "not_cli_text = ''not a CLI '' @ dash @ '' it looks like it wants a display (an IDE/GUI), and the platform only runs terminal programs''"

text \<open>\<open>%q\<close> of text without special characters (the escapes of others are not modelled), and an error with its sentinel in front.\<close>

definition quoted :: "string \<Rightarrow> string" where
  "quoted s = [CHR 0x22] @ s @ [CHR 0x22]"

definition flagged :: "string \<Rightarrow> string \<Rightarrow> string \<Rightarrow> go_err" where
  "flagged sentinel text rest = \<lparr>ge_text = text @ rest, ge_is = [sentinel]\<rparr>"

definition invalid_name :: "string \<Rightarrow> go_err" where
  "invalid_name n = flagged ErrInvalidName ErrInvalidName ('': '' @ quoted n)"

definition duplicate :: "string \<Rightarrow> go_err" where
  "duplicate n = flagged ErrDuplicate ErrDuplicate ('': '' @ n)"

definition no_session :: "string \<Rightarrow> go_err" where
  "no_session n = errorf (''no such session '' @ quoted n)"

definition failed_with :: "string \<Rightarrow> exec_result \<Rightarrow> go_err" where
  "failed_with what r = errorf (what @ '': '' @ trim_space (er_Output r))"

definition harnessPath :: string where
  "harnessPath = ''export PATH='' @ quoted ''$HOME/.local/bin:$HOME/bin:$PATH'' @ ''; ''"

abbreviation repoDir :: string where "repoDir \<equiv> ''/workspace/repo''"
abbreviation fallbackRepoDir :: string where "fallbackRepoDir \<equiv> ''/workspace''"


section \<open>Names\<close>

text \<open>\<open>^[a-zA-Z0-9][a-zA-Z0-9_-]{0,63}$\<close>\<close>

definition alnum :: "char \<Rightarrow> bool" where
  "alnum c \<longleftrightarrow> is_lower c \<or> is_upper c \<or> is_digit c"

definition ValidName :: "string \<Rightarrow> bool" where
  "ValidName n \<longleftrightarrow>
     (case n of
        [] \<Rightarrow> False
      | c # cs \<Rightarrow> alnum c \<and> length cs \<le> 63 \<and> list_all (\<lambda>x. alnum x \<or> x = CHR ''_'' \<or> x = CHR ''-'') cs)"

text \<open>
  The scan runs from the end; \<open>i\<close> counts down to 1. Of an admissible split it takes the first that
  parses.
\<close>

fun split_from :: "string \<Rightarrow> nat \<Rightarrow> (string \<times> int) option" where
  "split_from n 0 = None"
| "split_from n (Suc i) =
     (if n ! Suc i = CHR ''-'' then
        (case atoi (drop (Suc (Suc i)) n) of Some v \<Rightarrow> Some (take (Suc i) n, v) | None \<Rightarrow> split_from n i)
      else split_from n i)"

definition splitSuffix :: "string \<Rightarrow> (string \<times> int) option" where
  "splitSuffix n = split_from n (length n - 1)"

definition ParseBase :: "string \<Rightarrow> string" where
  "ParseBase n = (case splitSuffix n of None \<Rightarrow> n | Some (b, _) \<Rightarrow> b)"


section \<open>Commands\<close>

definition ThemeArgs :: "string list" where
  "ThemeArgs =
     ['';'', ''set-option'', ''-sa'', ''terminal-features'', '',*:RGB'',
      '';'', ''set-environment'', ''-g'', ''COLORTERM'', ''truecolor'',
      '';'', ''set-option'', ''-g'', ''mouse'', ''on'',
      '';'', ''set-option'', ''-g'', ''status-style'', ''bg=#1a1b26,fg=#a9b1d6'',
      '';'', ''set-option'', ''-g'', ''status-left'', ''#[fg=#7aa2f7,bold]#S #[fg=#565f89]'',
      '';'', ''set-option'', ''-g'', ''status-right'', ''#[fg=#565f89]#h #[fg=#a9b1d6]%H:%M'',
      '';'', ''set-option'', ''-g'', ''window-status-style'', ''fg=#565f89,bg=#1a1b26'',
      '';'', ''set-option'', ''-g'', ''window-status-current-style'', ''fg=#7aa2f7,bg=#1a1b26'']"

definition newSessionArgs :: "string \<Rightarrow> string \<Rightarrow> string list \<Rightarrow> string list" where
  "newSessionArgs name dir cmd =
     [''tmux'', ''new-session'', ''-d'', ''-s'', name, ''-c'', dir] @ cmd @
     ['';'', ''set-option'', ''-s'', ''escape-time'', ''0''] @ ThemeArgs"

definition attach_args :: "string \<Rightarrow> string list" where
  "attach_args name =
     [''env'', ''TERM=xterm-256color'', ''COLORTERM=truecolor'', ''tmux''] @ ThemeArgs @ ['';'', ''attach'', ''-t'', name]"

abbreviation run_in :: "client \<Rightarrow> string \<Rightarrow> string list \<Rightarrow> (go_err + exec_result) docker_op" where
  "run_in d c args \<equiv> dk_exec d c args False"

text \<open>The non-empty lines of a listing, trimmed.\<close>

definition listed :: "string \<Rightarrow> string list" where
  "listed out = filter (\<lambda>l. l \<noteq> []) (map trim_space (split_on CHR 0x0A (trim_space out)))"

definition se_List :: "client \<Rightarrow> string \<Rightarrow> (go_err + string list) docker_op" where
  "se_List d c h =
     (case run_in d c [''tmux'', ''list-sessions'', ''-F'', ''#{session_name}''] h of
        (Inl e, h') \<Rightarrow> (Inl e, h')
      | (Inr r, h') \<Rightarrow>
          (if er_ExitCode r \<noteq> 0 \<and> (contains (er_Output r) ''no server running'' \<or> contains (er_Output r) ''error connecting'')
           then Inr []
           else if er_ExitCode r \<noteq> 0 then Inl (failed_with ''list sessions'' r)
           else Inr (listed (er_Output r)), h'))"

definition alive_command :: "string \<Rightarrow> string" where
  "alive_command name =
     ''tmux has-session -t '' @ ShellQuote name @ '' 2>/dev/null && pid=$(tmux list-panes -t '' @ ShellQuote name @
     '' -F '' @ [CHR 0x27] @ ''#{pane_pid}'' @ [CHR 0x27] @ '' 2>/dev/null | head -1) && kill -0 '' @ quoted ''$pid'' @ '' 2>/dev/null''"

definition IsAlive :: "client \<Rightarrow> string \<Rightarrow> string \<Rightarrow> (go_err + bool) docker_op" where
  "IsAlive d c name h =
     (if \<not> ValidName name then (Inr False, h)
      else (case run_in d c [''bash'', ''-lc'', alive_command name] h of
              (Inl e, h') \<Rightarrow> (Inl e, h')
            | (Inr r, h') \<Rightarrow> (Inr (er_ExitCode r = 0), h')))"

definition Exists :: "client \<Rightarrow> string \<Rightarrow> string \<Rightarrow> (go_err + bool) docker_op" where
  "Exists d c name h =
     (case run_in d c [''tmux'', ''has-session'', ''-t'', name] h of
        (Inl e, h') \<Rightarrow> (Inl e, h')
      | (Inr r, h') \<Rightarrow>
          (if er_ExitCode r = 0 then Inr True
           else if er_ExitCode r = 1 then Inr False
           else Inl (failed_with (''has-session '' @ name) r), h'))"

record selection =
  sl_Text :: string
  sl_Fresh :: bool

definition selectionFreshWindow :: int where "selectionFreshWindow = 2 * second"

text \<open>\<open>created\<close> is in seconds of the Unix epoch, \<open>now\<close> (in nanoseconds) since the same epoch.\<close>

definition fresh_buffer :: "gotime \<Rightarrow> string list \<Rightarrow> bool" where
  "fresh_buffer now cols =
     (if 1 < length cols then
        (case atoi (cols ! 1) of
           None \<Rightarrow> False
         | Some created \<Rightarrow>
             (let age = now - created * second in - (2 * second) \<le> age \<and> age \<le> selectionFreshWindow))
      else False)"

definition Selection :: "(nat \<Rightarrow> nat) \<Rightarrow> gotime \<Rightarrow> client \<Rightarrow> string \<Rightarrow> string \<Rightarrow> (go_err + selection) docker_op" where
  "Selection lo now d c name h =
     (let none = \<lparr>sl_Text = [], sl_Fresh = False\<rparr>
      in if \<not> ValidName name then (Inl (invalid_name name), h)
         else (case Exists d c name h of
           (Inl e, h1) \<Rightarrow> (Inl e, h1)
         | (Inr False, h1) \<Rightarrow> (Inl (no_session name), h1)
         | (Inr True, h1) \<Rightarrow>
             (case run_in d c [''tmux'', ''list-buffers'', ''-F'', ''#{buffer_name} #{buffer_created}''] h1 of
                (Inl e, h2) \<Rightarrow> (Inl e, h2)
              | (Inr r, h2) \<Rightarrow>
                  if er_ExitCode r \<noteq> 0 then
                    (if contains (to_lower lo (er_Output r)) ''no buffers'' then (Inr none, h2)
                     else (Inl (failed_with ''list tmux buffers'' r), h2))
                  else
                    (case go_fields (hd (split_on CHR 0x0A (er_Output r))) of
                       [] \<Rightarrow> (Inr none, h2)
                     | buffer # rest \<Rightarrow>
                         (case run_in d c [''tmux'', ''show-buffer'', ''-b'', buffer] h2 of
                            (Inl e, h3) \<Rightarrow> (Inl e, h3)
                          | (Inr s, h3) \<Rightarrow>
                              (if er_ExitCode s \<noteq> 0 then Inl (failed_with ''show tmux buffer'' s)
                               else Inr \<lparr>sl_Text = er_Output s, sl_Fresh = fresh_buffer now (buffer # rest)\<rparr>, h3))))))"

definition RepoTarget :: "client \<Rightarrow> string \<Rightarrow> (go_err + string) docker_op" where
  "RepoTarget d c h =
     (case run_in d c [''test'', ''-d'', repoDir @ ''/.git''] h of
        (Inl e, h') \<Rightarrow> (Inl e, h')
      | (Inr r, h') \<Rightarrow> (Inr (if er_ExitCode r = 0 then repoDir else fallbackRepoDir), h'))"

definition created_result :: "string \<Rightarrow> string \<Rightarrow> exec_result \<Rightarrow> go_err option" where
  "created_result what name r =
     (if er_ExitCode r = 0 then None
      else if contains (er_Output r) ''duplicate session'' then Some (duplicate name)
      else Some (failed_with (what @ name) r))"

definition se_Create :: "client \<Rightarrow> string \<Rightarrow> string \<Rightarrow> go_err option docker_op" where
  "se_Create d c name h =
     (if \<not> ValidName name then (Some (invalid_name name), h)
      else (case RepoTarget d c h of
              (Inl e, h1) \<Rightarrow> (Some e, h1)
            | (Inr dir, h1) \<Rightarrow>
                (case run_in d c (newSessionArgs name dir []) h1 of
                   (Inl e, h2) \<Rightarrow> (Some e, h2)
                 | (Inr r, h2) \<Rightarrow> (created_result ''create session '' name r, h2))))"

definition attach_call :: "string \<Rightarrow> string \<Rightarrow> docker_call" where
  "attach_call c name = CExec c (attach_args name) True"

text \<open>
  The lowest free number of a prefix. A number is taken when a listed name splits into the prefix and
  that number; the loop ends at the latest one above the count of the sessions.
\<close>

definition taken_numbers :: "string \<Rightarrow> string list \<Rightarrow> int list" where
  "taken_numbers base names = List.map_filter (\<lambda>n.
     case splitSuffix n of Some (b, v) \<Rightarrow> if b = base then Some v else None | None \<Rightarrow> None) names"

definition numbered :: "string \<Rightarrow> nat \<Rightarrow> string" where
  "numbered base n = base @ ''-'' @ itoa (int n)"

definition nextName :: "client \<Rightarrow> string \<Rightarrow> string \<Rightarrow> (go_err + string) docker_op" where
  "nextName d c base h =
     (case se_List d c h of
        (Inl e, h') \<Rightarrow> (Inl e, h')
      | (Inr names, h') \<Rightarrow>
          (let taken = taken_numbers base names
           in (Inr (numbered base (the (find (\<lambda>n. int n \<notin> set taken) [1..<1 + Suc (length taken)]))), h')))"

definition Installed :: "client \<Rightarrow> string \<Rightarrow> string list \<Rightarrow> (go_err + (string \<times> bool) list) docker_op" where
  "Installed d c cmds h =
     (if cmds = [] then (Inr [], h)
      else (case run_in d c [''bash'', ''-lc'', harnessPath @ ''for c in '' @ join '' '' cmds @
                 ''; do command -v '' @ quoted ''$c'' @ '' >/dev/null && echo '' @ quoted ''$c'' @ ''; done''] h of
              (Inl e, h') \<Rightarrow> (Inl e, h')
            | (Inr r, h') \<Rightarrow>
                (Inr (fold (\<lambda>l. AList.update l True) (listed (er_Output r)) (fold (\<lambda>x. AList.update x False) cmds [])), h')))"

definition commandPath :: "client \<Rightarrow> string \<Rightarrow> string \<Rightarrow> (go_err + bool) docker_op" where
  "commandPath d c cmd h =
     (case run_in d c [''bash'', ''-lc'', harnessPath @ ''command -v '' @ cmd] h of
        (Inl e, h') \<Rightarrow> (Inl e, h')
      | (Inr r, h') \<Rightarrow> (Inr (er_ExitCode r = 0), h'))"

text \<open>
  The contexts of the probe: \<open>dl_outer\<close> is the error of the request's context after the calls so far,
  \<open>dl_probe\<close> whether the probe's own deadline has passed.
\<close>

record deadlines =
  dl_outer :: "docker_call list \<Rightarrow> go_err option"
  dl_probe :: "docker_call list \<Rightarrow> bool"

definition not_cli :: "string \<Rightarrow> go_err" where
  "not_cli t = flagged ErrNotCLI not_cli_text ('' ('' @ t @ '')'')"

definition probe_call :: "string \<Rightarrow> string list" where
  "probe_call cmd = [''bash'', ''-lc'', harnessPath @ cmd @ '' --version || '' @ cmd @ '' --help'']"

definition validateCLI :: "client \<Rightarrow> deadlines \<Rightarrow> string \<Rightarrow> string \<Rightarrow> go_err option docker_op" where
  "validateCLI d dl c cmd h =
     (case dk_exec d c (probe_call cmd) True h of
        (r, h') \<Rightarrow>
          (case dl_outer dl h' of
             Some e \<Rightarrow> (Some e, h')
           | None \<Rightarrow>
               if dl_probe dl h' then (Some (not_cli (quoted cmd @ '' did not exit within 15s'')), h')
               else (case r of
                       Inl e \<Rightarrow> (Some e, h')
                     | Inr x \<Rightarrow>
                         (if er_ExitCode x \<noteq> 0 \<or> trim_space (er_Output x) = []
                          then Some (not_cli (quoted cmd @ '' printed nothing and exited '' @ itoa (er_ExitCode x)))
                          else None, h'))))"

definition runInstall :: "client \<Rightarrow> string \<Rightarrow> harness \<Rightarrow> go_err option docker_op" where
  "runInstall d c hs h =
     (case run_in d c [''bash'', ''-lc'', harnessPath @ hs_install hs] h of
        (Inl e, h1) \<Rightarrow> (Some (errorf (''install '' @ quoted (hs_id hs) @ '': '' @ ge_text e)), h1)
      | (Inr r, h1) \<Rightarrow>
          if er_ExitCode r \<noteq> 0 then (Some (errorf (''install '' @ quoted (hs_id hs) @ '' failed: '' @ Tail (er_Output r))), h1)
          else (case commandPath d c (Binary hs) h1 of
                  (Inr True, h2) \<Rightarrow> (None, h2)
                | (_, h2) \<Rightarrow> (Some (errorf (''install '' @ quoted (hs_id hs) @ '' ran but '' @ quoted (hs_command hs) @ '' is still missing'')), h2)))"

definition InstallHarness :: "client \<Rightarrow> deadlines \<Rightarrow> string \<Rightarrow> harness \<Rightarrow> go_err option docker_op" where
  "InstallHarness d dl c hs h =
     (case commandPath d c (Binary hs) h of
        (Inl e, h1) \<Rightarrow> (Some e, h1)
      | (Inr found, h1) \<Rightarrow>
          (case (if found then (None, h1)
                 else if hs_install hs = [] then
                   (Some (errorf (quoted (hs_command hs) @ '' is not installed and the plugin has no install command'')), h1)
                 else runInstall d c hs h1) of
             (Some e, h2) \<Rightarrow> (Some e, h2)
           | (None, h2) \<Rightarrow> validateCLI d dl c (Binary hs) h2))"

definition rename_error :: "string \<Rightarrow> string \<Rightarrow> exec_result \<Rightarrow> go_err option" where
  "rename_error old new r =
     (if er_ExitCode r = 0 then None
      else if contains (er_Output r) ''duplicate session'' \<or> contains (er_Output r) ''already exists'' \<or> contains (er_Output r) ''duplicate''
        then Some (duplicate new)
      else if contains (er_Output r) (''can'' @ [CHR 0x27] @ ''t find session'') then Some (no_session old)
      else Some (failed_with (''rename session '' @ old) r))"

definition Rename :: "client \<Rightarrow> string \<Rightarrow> string \<Rightarrow> string \<Rightarrow> go_err option docker_op" where
  "Rename d c old new h =
     (if \<not> ValidName old then (Some (invalid_name old), h)
      else if \<not> ValidName new then (Some (invalid_name new), h)
      else if old = new then (Some (duplicate new), h)
      else (case Exists d c new h of
              (Inl e, h1) \<Rightarrow> (Some e, h1)
            | (Inr True, h1) \<Rightarrow> (Some (duplicate new), h1)
            | (Inr False, h1) \<Rightarrow>
                (case run_in d c [''tmux'', ''rename-session'', ''-t'', old, new] h1 of
                   (Inl e, h2) \<Rightarrow> (Some e, h2)
                 | (Inr r, h2) \<Rightarrow> (rename_error old new r, h2))))"

definition Inject :: "client \<Rightarrow> string \<Rightarrow> string \<Rightarrow> string \<Rightarrow> go_err option docker_op" where
  "Inject d c name command h =
     (if \<not> ValidName name then (Some (invalid_name name), h)
      else if trim_space command = [] then (Some \<lparr>ge_text = ErrEmptyCommand, ge_is = [ErrEmptyCommand]\<rparr>, h)
      else (case Exists d c name h of
              (Inl e, h1) \<Rightarrow> (Some e, h1)
            | (Inr False, h1) \<Rightarrow> (Some (no_session name), h1)
            | (Inr True, h1) \<Rightarrow>
                (case run_in d c [''tmux'', ''send-keys'', ''-t'', name, ''C-c''] h1 of
                   (_, h2) \<Rightarrow>
                     (case run_in d c [''tmux'', ''send-keys'', ''-t'', name, command, ''Enter''] h2 of
                        (Inl e, h3) \<Rightarrow> (Some e, h3)
                      | (Inr r, h3) \<Rightarrow>
                          (if er_ExitCode r \<noteq> 0 then Some (failed_with (''inject into '' @ name) r) else None, h3)))))"

definition Kill :: "client \<Rightarrow> string \<Rightarrow> string \<Rightarrow> go_err option docker_op" where
  "Kill d c name h =
     (if \<not> ValidName name then (Some (invalid_name name), h)
      else (case run_in d c [''tmux'', ''kill-session'', ''-t'', name] h of
              (Inl e, h1) \<Rightarrow> (Some e, h1)
            | (Inr r, h1) \<Rightarrow>
                (if er_ExitCode r \<noteq> 0 \<and> \<not> contains (er_Output r) (''can'' @ [CHR 0x27] @ ''t find session'')
                 then Some (failed_with (''kill session '' @ name) r) else None, h1)))"

text \<open>\<open>filepath.Dir\<close>: up to the last slash, cleaned.\<close>

definition path_dir :: "string \<Rightarrow> string" where
  "path_dir p = (case cut_last CHR ''/'' p of None \<Rightarrow> ''.'' | Some (a, _) \<Rightarrow> path_clean (a @ ''/''))"

definition write_config :: "client \<Rightarrow> string \<Rightarrow> harness \<Rightarrow> go_err option docker_op" where
  "write_config d c hs h =
     (let what = ''write config for '' @ quoted (hs_id hs)
      in if hs_config_path hs = [] \<or> hs_config hs = [] then (None, h)
         else (case run_in d c [''mkdir'', ''-p'', path_dir (hs_config_path hs)] h of
                 (Inl e, h1) \<Rightarrow> (Some (wrapf what e), h1)
               | (Inr r, h1) \<Rightarrow>
                   if er_ExitCode r \<noteq> 0 then
                     (Some (failed_with (what @ '': mkdir '' @ path_dir (hs_config_path hs)) r), h1)
                   else (case dk_unit d (CWriteFile c (hs_config_path hs) (hs_config hs)) h1 of
                           (e, h2) \<Rightarrow> (map_option (wrapf what) e, h2))))"

definition launch_line :: "harness \<Rightarrow> string" where
  "launch_line hs = harnessPath @ hs_command hs @ '' || echo '' @ quoted (''['' @ hs_command hs @ '' exited: $?]'') @
     ''; while :; do bash -l; done''"

definition LaunchNamed :: "client \<Rightarrow> deadlines \<Rightarrow> string \<Rightarrow> string \<Rightarrow> harness \<Rightarrow> (go_err + string) docker_op" where
  "LaunchNamed d dl c name hs h =
     (if \<not> ValidName name then (Inl (invalid_name name), h)
      else (case RepoTarget d c h of
        (Inl e, h1) \<Rightarrow> (Inl e, h1)
      | (Inr dir, h1) \<Rightarrow>
          (case commandPath d c (Binary hs) h1 of
             (Inl e, h2) \<Rightarrow> (Inl e, h2)
           | (Inr False, h2) \<Rightarrow> (Inl (flagged ErrNotInstalled not_installed_text ('' ('' @ quoted (hs_command hs) @ '')'')), h2)
           | (Inr True, h2) \<Rightarrow>
               (case write_config d c hs h2 of
                  (Some e, h3) \<Rightarrow> (Inl e, h3)
                | (None, h3) \<Rightarrow>
                    (case validateCLI d dl c (Binary hs) h3 of
                       (Some e, h4) \<Rightarrow> (Inl e, h4)
                     | (None, h4) \<Rightarrow>
                         (case run_in d c (newSessionArgs name dir
                              [''bash'', ''-lc'', launch_line hs, '';'', ''set-option'', ''remain-on-exit'', ''on'']) h4 of
                            (Inl e, h5) \<Rightarrow> (Inl e, h5)
                          | (Inr r, h5) \<Rightarrow>
                              (case created_result ''launch '' name r of Some e \<Rightarrow> (Inl e, h5) | None \<Rightarrow> (Inr name, h5))))))))"

definition Launch :: "client \<Rightarrow> deadlines \<Rightarrow> string \<Rightarrow> harness \<Rightarrow> (go_err + string) docker_op" where
  "Launch d dl c hs h =
     (case nextName d c (hs_id hs) h of
        (Inl e, h1) \<Rightarrow> (Inl e, h1)
      | (Inr name, h1) \<Rightarrow> LaunchNamed d dl c name hs h1)"

section \<open>Names and numbers\<close>

lemma atoi_digits_dash: "atoi (s @ CHR ''-'' # t) = None" if "s \<noteq> []"
proof -
  have "\<not> is_digit CHR ''-''" by code_simp
  with that show ?thesis
    by (cases s) (auto simp: atoi_def Let_def split: if_splits)
qed

lemma split_from_skips:
  assumes "\<And>j. i < j \<Longrightarrow> j \<le> k \<Longrightarrow> n ! j \<noteq> CHR ''-''" "i \<le> k"
  shows "split_from n k = split_from n i"
  using assms
proof (induction k)
  case (Suc k)
  then show ?case by (cases "i = Suc k") auto
qed simp

lemma numbered_parts:
  assumes "b \<noteq> []" "int n < 2 ^ 63"
  shows "splitSuffix (numbered b n) = Some (b, int n) \<and> ParseBase (numbered b n) = b"
proof -
  let ?d = "itoa (int n)" and ?l = "length b"
  have d: "?d = nat_digits n" by (simp add: itoa_nonneg)
  have len: "length (numbered b n) - 1 = ?l + length ?d" by (simp add: numbered_def)
  have digit: "\<not> is_digit CHR ''-''" by code_simp
  have no_dash: "numbered b n ! j \<noteq> CHR ''-''" if "?l < j" "j \<le> ?l + length ?d" for j
  proof -
    have "numbered b n ! j = ?d ! (j - Suc ?l)" using that by (simp add: numbered_def nth_append)
    moreover have "?d ! (j - Suc ?l) \<in> set ?d" using that by (intro nth_mem) simp
    ultimately show ?thesis using nat_digits_all [of n] digit by (auto simp: d list_all_iff)
  qed
  obtain k where k: "?l = Suc k" using assms(1) by (cases ?l) auto
  have "splitSuffix (numbered b n) = split_from (numbered b n) ?l"
    unfolding splitSuffix_def len by (rule split_from_skips) (use no_dash in auto)
  also have "\<dots> = Some (b, int n)"
    using k atoi_itoa [of "int n"] assms(2) by (simp add: numbered_def nth_append in_int64_def)
  finally show ?thesis by (simp add: ParseBase_def)
qed

text \<open>
  A numbered name splits back into the prefix and the number, whatever dashes and digits the prefix
  itself has; its base is the prefix.
\<close>

theorem numbered_splits:
  assumes "b \<noteq> []" "int n < 2 ^ 63"
  shows "splitSuffix (numbered b n) = Some (b, int n) \<and> ParseBase (numbered b n) = b"
  by (rule numbered_parts [OF assms])

theorem numbered_splits_witness: "splitSuffix (numbered ''a-2'' 3) = Some (''a-2'', int 3) \<and> ParseBase (numbered ''a-2'' 3) = ''a-2''"
  by (rule numbered_splits) simp_all

lemma nextName_shape:
  assumes "nextName d c b h = (Inr name, h')"
  obtains names n where "se_List d c h = (Inr names, h')" "name = numbered b n" "1 \<le> n"
    "int n \<notin> set (taken_numbers b names)" "\<And>k. 1 \<le> k \<Longrightarrow> k < n \<Longrightarrow> int k \<in> set (taken_numbers b names)" "n \<le> 1 + length names"
proof -
  obtain names where 1: "se_List d c h = (Inr names, h')"
    and name: "name = numbered b (the (find (\<lambda>n. int n \<notin> set (taken_numbers b names)) [1..<1 + Suc (length (taken_numbers b names))]))"
    using assms by (auto simp: nextName_def Let_def split: prod.splits sum.splits)
  have "inj_on int {1..<1 + Suc (length (taken_numbers b names))}" by (simp add: inj_on_def)
  from first_free [OF this] obtain n where
    n: "find (\<lambda>n. int n \<notin> set (taken_numbers b names)) [1..<1 + Suc (length (taken_numbers b names))] = Some n"
      "1 \<le> n" "int n \<notin> set (taken_numbers b names)" "\<forall>j. 1 \<le> j \<and> j < n \<longrightarrow> int j \<in> set (taken_numbers b names)"
    by blast
  have "n \<in> set [1..<1 + Suc (length (taken_numbers b names))]"
    using n(1) by (auto simp: find_Some_iff in_set_conv_nth simp del: upt_Suc)
  then have "n \<le> 1 + length (taken_numbers b names)" by auto
  moreover have "length (taken_numbers b names) \<le> length names"
    by (simp add: taken_numbers_def List.map_filter_def)
  ultimately show ?thesis using that [OF 1, of n] name n by simp
qed

text \<open>
  C40: a launched session gets a fresh name, and the lowest. The name is not among the listed sessions,
  all lower numbers of the prefix are taken by listed sessions, and the search ends at the latest
  one above their count.
\<close>

theorem next_name_free:
  assumes "nextName d c b h = (Inr name, h')" "b \<noteq> []" "fst (se_List d c h) = Inr names" "int (length names) + 1 < 2 ^ 63"
  shows "name \<notin> set names \<and>
    (\<exists>n. name = numbered b n \<and> 1 \<le> n \<and> n \<le> 1 + length names \<and>
       list_all (\<lambda>k. list_ex (\<lambda>s. splitSuffix s = Some (b, int k)) names) [1..<n])"
proof -
  obtain n where n: "name = numbered b n" "1 \<le> n" "int n \<notin> set (taken_numbers b names)"
      "\<And>k. 1 \<le> k \<Longrightarrow> k < n \<Longrightarrow> int k \<in> set (taken_numbers b names)" "n \<le> 1 + length names"
    using nextName_shape [OF assms(1)] assms(3) by (metis fst_conv sum.inject(2))
  have tk: "int k \<in> set (taken_numbers b names) \<longleftrightarrow> (\<exists>s \<in> set names. splitSuffix s = Some (b, int k))" for k
    by (force simp: taken_numbers_def map_filter_mem split: option.splits if_splits prod.splits)
  have "int n < 2 ^ 63" using n(5) assms(4) by linarith
  then have "name \<notin> set names" using n(1,3) tk numbered_parts [OF assms(2), of n] by blast
  then show ?thesis using n tk by (auto simp: list_all_iff list_ex_iff)
qed


definition tmux_client :: "string \<Rightarrow> client" where
  "tmux_client out = \<lparr>cl_unit = \<lambda>_. None, cl_run = \<lambda>_. Inr ''c'', cl_inspect = \<lambda>_. Inl (errorf ''none''),
     cl_exec = \<lambda>_. Inr \<lparr>er_ExitCode = 0, er_Output = out\<rparr>, cl_list = \<lambda>_. Inr []\<rparr>"

lemma sample_listing:
  "fst (se_List (tmux_client (''aider-1'' @ [CHR 0x0A] @ ''aider-3'')) ''c'' []) = Inr [''aider-1'', ''aider-3'']"
proof -
  have "trim_space (''aider-1'' @ [CHR 0x0A] @ ''aider-3'') = ''aider-1'' @ [CHR 0x0A] @ ''aider-3''"
    "trim_space ''aider-1'' = ''aider-1''" "trim_space ''aider-3'' = ''aider-3''"
    by (rule trim_space_printable; code_simp)+
  then show ?thesis by (simp add: se_List_def dk_exec_def tmux_client_def listed_def)
qed

theorem next_name_free_witness:
  "fst (nextName (tmux_client (''aider-1'' @ [CHR 0x0A] @ ''aider-3'')) ''c'' ''aider'' []) = Inr (numbered ''aider'' 2) \<and>
   numbered ''aider'' 2 \<notin> set [''aider-1'', ''aider-3'']"
proof -
  let ?d = "tmux_client (''aider-1'' @ [CHR 0x0A] @ ''aider-3'')"
  have t: "taken_numbers ''aider'' [''aider-1'', ''aider-3''] = [1, 3]" by code_simp
  obtain h' where l: "se_List ?d ''c'' [] = (Inr [''aider-1'', ''aider-3''], h')"
    using sample_listing by (metis prod.collapse)
  then have n: "nextName ?d ''c'' ''aider'' [] = (Inr (numbered ''aider'' 2), h')"
    by (simp add: nextName_def t upt_rec numeral_2_eq_2)
  have "numbered ''aider'' 2 \<notin> set [''aider-1'', ''aider-3'']"
    by (rule next_name_free [OF n, THEN conjunct1]) (use sample_listing in simp_all)
  then show ?thesis using n by simp
qed

section \<open>Launching and installing\<close>

definition config_calls :: "string \<Rightarrow> harness \<Rightarrow> docker_call list" where
  "config_calls c hs =
     (if hs_config_path hs = [] \<or> hs_config hs = [] then []
      else [CExec c [''mkdir'', ''-p'', path_dir (hs_config_path hs)] False,
            CWriteFile c (hs_config_path hs) (hs_config hs)])"

definition session_call :: "string \<Rightarrow> string \<Rightarrow> string \<Rightarrow> harness \<Rightarrow> docker_call" where
  "session_call c name dir hs = CExec c (newSessionArgs name dir
     [''bash'', ''-lc'', launch_line hs, '';'', ''set-option'', ''remain-on-exit'', ''on'']) False"

definition before_launch :: "string \<Rightarrow> harness \<Rightarrow> docker_call list" where
  "before_launch c hs =
     [CExec c [''test'', ''-d'', repoDir @ ''/.git''] False, CExec c [''bash'', ''-lc'', harnessPath @ ''command -v '' @ Binary hs] False]
     @ config_calls c hs @ [CExec c (probe_call (Binary hs)) True]"

lemma take_prefix [simp]: "take (length xs) (xs @ ys) = xs"
  by simp

lemma write_config_steps:
  assumes "write_config d c hs h = (e, h')"
  shows "\<exists>k. h' = h @ take k (config_calls c hs) \<and> (e = None \<longrightarrow> h' = h @ config_calls c hs)"
proof (cases "hs_config_path hs = [] \<or> hs_config hs = []")
  case True
  then show ?thesis using assms by (simp add: write_config_def config_calls_def)
next
  case False
  let ?m = "CExec c [''mkdir'', ''-p'', path_dir (hs_config_path hs)] False"
  consider "h' = h @ [?m]" "e \<noteq> None" | "h' = h @ config_calls c hs"
    using assms False by (auto simp: write_config_def config_calls_def Let_def dk_exec_def dk_unit_def split: sum.splits if_splits)
  then show ?thesis
  proof cases
    case 1
    then show ?thesis using False by (intro exI [of _ 1]) (simp add: config_calls_def)
  next
    case 2
    then show ?thesis by (intro exI [of _ "length (config_calls c hs)"]) simp
  qed
qed

text \<open>What the launch does in order, as a list of which some first part is carried out.\<close>

definition launch_calls :: "string \<Rightarrow> string \<Rightarrow> string \<Rightarrow> harness \<Rightarrow> docker_call list" where
  "launch_calls c name dir hs = before_launch c hs @ [session_call c name dir hs]"


abbreviation repo_probe :: "string \<Rightarrow> docker_call" where
  "repo_probe c \<equiv> CExec c [''test'', ''-d'', repoDir @ ''/.git''] False"

lemma launch_cases:
  assumes "LaunchNamed d dl c name hs h = (r, h')"
  obtains (early) k e where "h' = h @ take k (before_launch c hs)" "r = Inl e"
    | (full) dir where "h' = h @ launch_calls c name dir hs" "ValidName name" "\<And>x. r = Inr x \<Longrightarrow> x = name"
        "fst (commandPath d c (Binary hs) (h @ [repo_probe c])) = Inr True"
        "fst (validateCLI d dl c (Binary hs) (h @ butlast (before_launch c hs))) = None"
proof (cases "ValidName name")
  case False
  then show ?thesis using assms early [of 0 "invalid_name name"] by (simp add: LaunchNamed_def)
next
  case valid: True
  let ?C = "CExec c [''bash'', ''-lc'', harnessPath @ ''command -v '' @ Binary hs] False"
  obtain r1 h1 where 1: "RepoTarget d c h = (r1, h1)" by (cases "RepoTarget d c h")
  have h1: "h1 = h @ [repo_probe c]" using 1 by (auto simp: RepoTarget_def dk_exec_def split: sum.splits)
  obtain r2 h2 where 2: "commandPath d c (Binary hs) h1 = (r2, h2)" by (cases "commandPath d c (Binary hs) h1")
  have h2: "h2 = h1 @ [?C]" using 2 by (auto simp: commandPath_def dk_exec_def split: sum.splits)
  obtain r3 h3 where 3: "write_config d c hs h2 = (r3, h3)" by (cases "write_config d c hs h2")
  obtain k where k: "h3 = h2 @ take k (config_calls c hs)" "r3 = None \<longrightarrow> h3 = h2 @ config_calls c hs"
    using write_config_steps [OF 3] by blast
  obtain r4 h4 where 4: "validateCLI d dl c (Binary hs) h3 = (r4, h4)" by (cases "validateCLI d dl c (Binary hs) h3")
  have h4: "h4 = h3 @ [CExec c (probe_call (Binary hs)) True]"
    using 4 by (auto simp: validateCLI_def dk_exec_def split: sum.splits option.splits if_splits)
  show ?thesis
  proof (cases "\<exists>dir. r1 = Inr dir \<and> r2 = Inr True \<and> r3 = None \<and> r4 = None")
    case True
    then obtain dir where ok: "r1 = Inr dir" "r2 = Inr True" "r3 = None" "r4 = None" by blast
    have b: "h4 = h @ before_launch c hs" "h3 = h @ butlast (before_launch c hs)"
      using h1 h2 k(2) ok(3) h4 by (simp_all add: before_launch_def)
    have run: "LaunchNamed d dl c name hs h =
        (case dk_exec d c (newSessionArgs name dir [''bash'', ''-lc'', launch_line hs, '';'', ''set-option'', ''remain-on-exit'', ''on'']) False h4 of
           (Inl e, h5) \<Rightarrow> (Inl e, h5)
         | (Inr r, h5) \<Rightarrow> (case created_result ''launch '' name r of Some e \<Rightarrow> (Inl e, h5) | None \<Rightarrow> (Inr name, h5)))"
      using valid 1 2 3 4 ok by (simp add: LaunchNamed_def)
    have "h' = h4 @ [session_call c name dir hs]" "\<And>x. r = Inr x \<Longrightarrow> x = name"
      using assms unfolding run by (auto simp: dk_exec_def session_call_def split: sum.splits option.splits)
    then show ?thesis using valid b 2 4 h1 ok by (intro full [of dir]) (simp_all add: launch_calls_def)
  next
    case False
    have "\<exists>e k. r = Inl e \<and> h' = h @ take k (before_launch c hs)"
    proof (cases r1)
      case (Inl e)
      then have "r = Inl e \<and> h' = h @ take 1 (before_launch c hs)"
        using assms valid 1 h1 by (simp add: LaunchNamed_def before_launch_def)
      then show ?thesis by blast
    next
      case (Inr dir)
      show ?thesis
      proof (cases "r2 = Inr True")
        case False
        then have "\<exists>e. r = Inl e" "h' = h @ take 2 (before_launch c hs)"
          using assms valid 1 2 h1 h2 Inr by (auto simp: LaunchNamed_def before_launch_def split: sum.splits bool.splits)
        then show ?thesis by blast
      next
        case True
        show ?thesis
        proof (cases r3)
          case (Some e)
          then have "r = Inl e" "h' = h3" using assms valid 1 2 3 Inr True by (simp_all add: LaunchNamed_def)
          moreover have "h3 = h @ take (2 + min k (length (config_calls c hs))) (before_launch c hs)"
            using h1 h2 k(1) by (simp add: before_launch_def min_def)
          ultimately show ?thesis by blast
        next
          case None
          then obtain e where "r4 = Some e" using \<open>\<not> (\<exists>dir. _)\<close> Inr True by auto
          then have "r = Inl e" "h' = h4" using assms valid 1 2 3 4 Inr True None by (simp_all add: LaunchNamed_def)
          moreover have "h4 = h @ take (length (before_launch c hs)) (before_launch c hs)"
            using h1 h2 k(2) None h4 by (simp add: before_launch_def)
          ultimately show ?thesis by blast
        qed
      qed
    qed
    then show ?thesis using early by blast
  qed
qed

lemma session_not_before: "session_call c name dir hs \<notin> set (before_launch c hs)"
  by (simp add: session_call_def before_launch_def config_calls_def newSessionArgs_def probe_call_def)

text \<open>
  C12: a launch never installs and never starts a session for a program that does not answer. Its calls
  are a first part of the fixed list (repository probe, command probe, configuration, validation,
  new session); the session is created only for a valid name, after the command was found and the
  validation accepted it; success means that all of it was done.
\<close>

theorem launch_steps:
  assumes "LaunchNamed d dl c name hs h = (r, h')"
  shows "(\<exists>dir k. h' = h @ take k (launch_calls c name dir hs)) \<and>
    (session_call c name dir hs \<in> set (drop (length h) h') \<longrightarrow>
       ValidName name \<and> fst (commandPath d c (Binary hs) (h @ [repo_probe c])) = Inr True \<and>
       fst (validateCLI d dl c (Binary hs) (h @ butlast (before_launch c hs))) = None) \<and>
    (r = Inr x \<longrightarrow> x = name \<and> (\<exists>dir. h' = h @ launch_calls c name dir hs))"
  using assms
proof (cases rule: launch_cases)
  case (early k e)
  have "h' = h @ take (min k (length (before_launch c hs))) (launch_calls c name dir hs)"
    using early(1) by (simp add: launch_calls_def min_def)
  moreover have "session_call c name dir hs \<notin> set (drop (length h) h')"
    using early(1) session_not_before [of c name dir hs] by (auto dest: in_set_takeD)
  ultimately show ?thesis using early(2) by blast
next
  case (full dir')
  then have "h' = h @ take (length (launch_calls c name dir' hs)) (launch_calls c name dir' hs)" by simp
  then show ?thesis using full by blast
qed

text \<open>
  Installed means usable. When \<open>InstallHarness\<close> succeeds, its last command was the probe of the
  binary in a terminal, which exited with 0 and printed something before the deadline.
\<close>

theorem install_usable:
  assumes "InstallHarness d dl c hs h = (None, h')"
  shows "last h' = CExec c (probe_call (Binary hs)) True \<and> \<not> dl_probe dl h' \<and>
    (\<exists>x. cl_exec d h' = Inr x \<and> er_ExitCode x = 0 \<and> trim_space (er_Output x) \<noteq> [])"
proof -
  have "fst (validateCLI d dl c (Binary hs) g) = None \<Longrightarrow> snd (validateCLI d dl c (Binary hs) g) = g' \<Longrightarrow>
      last g' = CExec c (probe_call (Binary hs)) True \<and> \<not> dl_probe dl g' \<and>
      (\<exists>x. cl_exec d g' = Inr x \<and> er_ExitCode x = 0 \<and> trim_space (er_Output x) \<noteq> [])" for g g'
    by (auto simp: validateCLI_def dk_exec_def split: option.splits if_splits sum.splits)
  moreover have "\<exists>g. validateCLI d dl c (Binary hs) g = (None, h')"
    using assms by (auto simp: InstallHarness_def split: prod.splits sum.splits option.splits if_splits)
  ultimately show ?thesis by (metis fst_conv snd_conv)
qed


definition sample_harness :: harness where
  "sample_harness = \<lparr>hs_id = ''aider'', hs_name = ''Aider'', hs_command = ''aider --dark'', hs_install = ''pip install aider'',
     hs_config_path = '''', hs_config = ''''\<rparr>"

definition in_time :: deadlines where
  "in_time = \<lparr>dl_outer = \<lambda>_. None, dl_probe = \<lambda>_. False\<rparr>"

lemma trim_ok: "trim_space ''v1'' = ''v1''"
  by (rule trim_space_printable; code_simp)

theorem launch_steps_witness:
  "\<exists>dir k. snd (LaunchNamed (tmux_client ''v1'') in_time ''c'' ''aider-1'' sample_harness []) =
     take k (launch_calls ''c'' ''aider-1'' dir sample_harness)"
  using launch_steps [OF prod.collapse [symmetric], of "tmux_client ''v1''" in_time "''c''" "''aider-1''" sample_harness "[]"] by simp

theorem install_usable_witness:
  "last (snd (InstallHarness (tmux_client ''v1'') in_time ''c'' sample_harness [])) = CExec ''c'' (probe_call (Binary sample_harness)) True"
proof -
  have "InstallHarness (tmux_client ''v1'') in_time ''c'' sample_harness [] =
      (None, snd (InstallHarness (tmux_client ''v1'') in_time ''c'' sample_harness []))"
    by (simp add: InstallHarness_def commandPath_def validateCLI_def dk_exec_def tmux_client_def in_time_def trim_ok)
  from install_usable [OF this] show ?thesis by blast
qed

section \<open>Targets\<close>

text \<open>
  How tmux resolves the target of \<open>-t\<close> (its manual, COMMANDS): a session of exactly that name,
  otherwise the only one whose name starts with it; a leading equals sign asks for the exact name.
\<close>

definition tmux_target :: "string list \<Rightarrow> string \<Rightarrow> string option" where
  "tmux_target sessions t =
     (if prefix ''='' t then find (\<lambda>s. s = tl t) sessions
      else if List.member sessions t then Some t
      else (case filter (prefix t) sessions of [s] \<Rightarrow> Some s | _ \<Rightarrow> None))"

text \<open>
  \<open>Kill\<close> hands the bare name to tmux. Killing \<open>dev\<close> a second time, when only \<open>dev-2\<close> is left, is therefore
  not the no-op it is meant to be: the target is the other session.
\<close>

lemma kill_target:
  "snd (Kill d c ''dev'' h) = h @ [CExec c [''tmux'', ''kill-session'', ''-t'', ''dev''] False] \<and>
   tmux_target [''dev-2''] ''dev'' = Some ''dev-2''"
proof
  have "ValidName ''dev''" by code_simp
  then show "snd (Kill d c ''dev'' h) = h @ [CExec c [''tmux'', ''kill-session'', ''-t'', ''dev''] False]"
    by (simp add: Kill_def dk_exec_def split: sum.split)
  show "tmux_target [''dev-2''] ''dev'' = Some ''dev-2''" by code_simp
qed

text \<open>A valid name never looks like an option and needs no quoting.\<close>

lemma valid_name_safe: "ValidName n \<Longrightarrow> n \<noteq> [] \<and> hd n \<noteq> CHR ''-'' \<and> length n \<le> 64 \<and>
    list_all (\<lambda>c. alnum c \<or> c = CHR ''_'' \<or> c = CHR ''-'') n"
proof -
  have "\<not> alnum CHR ''-''" by code_simp
  then show "ValidName n \<Longrightarrow> ?thesis" by (cases n) (auto simp: ValidName_def)
qed

end
