(* ===== verification/Preview.thy ===== *)
theory Preview
  imports Docker Repo
begin

text \<open>
  server/internal/preview: the manager of browser workers, one per project, with its tokens and its
  sweeper (worker.go), the start of a sidecar in a project's network (docker_runtime.go, image.go,
  framebuffer.go) and the sweep of left-over containers (janitor.go).

  The mutex is held in pieces, so the steps of the machine are the critical sections: \<open>Ensure\<close> is
  \<open>Ensure_begin\<close>, then the start outside the lock, then \<open>Ensure_finish\<close>; the sweeper's pass is
  \<open>Sweep\<close> and then one \<open>Stop\<close> for each project it swept, and anything can happen in between.
  A worker is an opaque value; what a step closes is part of its result.
\<close>

abbreviation ErrWorkerNotFound :: string where "ErrWorkerNotFound \<equiv> ''preview worker not found''"
abbreviation ErrClosed :: string where "ErrClosed \<equiv> ''preview manager is closed''"

definition sentinel :: "string \<Rightarrow> go_err" where
  "sentinel s = \<lparr>ge_text = s, ge_is = [s]\<rparr>"

record config =
  cf_ProjectID :: string
  cf_ContainerID :: string
  cf_Port :: int
  cf_ViewWidth :: int
  cf_ViewHeight :: int

definition validateConfig :: "config \<Rightarrow> go_err option" where
  "validateConfig cfg =
     (if cf_ProjectID cfg = [] then Some (errorf ''project id is required'')
      else if cf_ContainerID cfg = [] then Some (errorf ''project container is required'')
      else None)"


section \<open>The manager\<close>

text \<open>
  A \<open>startCall\<close> lives on the heap: the starter and those who wait share it. \<open>sc_project\<close> is the
  starter's own copy of the project id. \<open>mg_swept\<close> is what the sweeper's pass has still to stop.
\<close>

record 'w start_call =
  sc_project :: string
  sc_done :: bool
  sc_worker :: "'w option"
  sc_err :: "go_err option"

record 'w manager =
  mg_workers :: "(string \<times> 'w) list"
  mg_inflight :: "(string \<times> nat) list"
  mg_closed :: bool
  mg_tokens :: "(string \<times> string) list"
  mg_lastSeen :: "(string \<times> gotime) list"
  mg_calls :: "'w start_call list"
  mg_sweeper :: bool
  mg_swept :: "string list"

definition NewManager :: "'w manager" where
  "NewManager = \<lparr>mg_workers = [], mg_inflight = [], mg_closed = False, mg_tokens = [], mg_lastSeen = [],
     mg_calls = [], mg_sweeper = False, mg_swept = []\<rparr>"

datatype 'w begun = Refused go_err | Running 'w | Waiting nat | Starting nat

definition Ensure_begin :: "config \<Rightarrow> 'w manager \<Rightarrow> 'w begun \<times> 'w manager" where
  "Ensure_begin cfg m =
     (case validateConfig cfg of
        Some e \<Rightarrow> (Refused e, m)
      | None \<Rightarrow>
          if mg_closed m then (Refused (sentinel ErrClosed), m)
          else (case map_of (mg_workers m) (cf_ProjectID cfg) of
                  Some w \<Rightarrow> (Running w, m)
                | None \<Rightarrow>
                    (case map_of (mg_inflight m) (cf_ProjectID cfg) of
                       Some c \<Rightarrow> (Waiting c, m)
                     | None \<Rightarrow>
                         (let c = length (mg_calls m)
                          in (Starting c,
                              m\<lparr>mg_inflight := AList.update (cf_ProjectID cfg) c (mg_inflight m),
                                mg_calls := mg_calls m @ [\<lparr>sc_project = cf_ProjectID cfg, sc_done = False, sc_worker = None, sc_err = None\<rparr>]\<rparr>)))))"

text \<open>What the factory gave back, as \<open>Ensure\<close> reads it.\<close>

definition start_error :: "string \<Rightarrow> 'w option \<times> go_err option \<Rightarrow> go_err option" where
  "start_error p res =
     (case snd res of
        Some e \<Rightarrow> Some (wrapf (''start preview worker for '' @ p) e)
      | None \<Rightarrow>
          (case fst res of
             None \<Rightarrow> Some (errorf (''start preview worker for '' @ p @ '': factory returned nil worker''))
           | Some _ \<Rightarrow> None))"

definition complete :: "nat \<Rightarrow> 'w option \<times> go_err option \<Rightarrow> 'w manager \<Rightarrow> 'w manager" where
  "complete c r m = m\<lparr>mg_calls := (mg_calls m)[c := (mg_calls m ! c)\<lparr>sc_done := True, sc_worker := fst r, sc_err := snd r\<rparr>]\<rparr>"

definition set_token :: "string \<Rightarrow> string \<Rightarrow> gotime \<Rightarrow> 'w manager \<Rightarrow> 'w manager" where
  "set_token p tok now m =
     m\<lparr>mg_tokens := AList.update p tok (mg_tokens m), mg_lastSeen := AList.update p now (mg_lastSeen m)\<rparr>"

text \<open>The result for the starter (and, through the call, for those who wait), and the workers closed.\<close>

definition Ensure_finish :: "nat \<Rightarrow> 'w option \<times> go_err option \<Rightarrow> string \<Rightarrow> gotime \<Rightarrow> 'w manager
    \<Rightarrow> ('w option \<times> go_err option) \<times> 'w list \<times> 'w manager" where
  "Ensure_finish c res tok now m =
     (let p = sc_project (mg_calls m ! c);
          m1 = m\<lparr>mg_inflight := AList.delete p (mg_inflight m)\<rparr>
      in case (start_error p res, fst res) of
           (None, Some w) \<Rightarrow>
             if mg_closed m then
               (let r = (None, Some (sentinel ErrClosed)) in (r, [w], complete c r m1))
             else (case map_of (mg_workers m) p of
                     Some dup \<Rightarrow> (let r = (Some dup, None) in (r, [w], complete c r m1))
                   | None \<Rightarrow>
                       (let m2 = m1\<lparr>mg_workers := AList.update p w (mg_workers m1)\<rparr>;
                            m3 = (if map_of (mg_tokens m2) p = None then set_token p tok now m2 else m2);
                            r = (Some w, None)
                        in (r, [], complete c r m3)))
         | (e, w) \<Rightarrow> (let r = (w, e) in (r, [], complete c r m1)))"

text \<open>\<open><-c.done\<close>: a waiter gets what the starter left, once the call is done.\<close>

definition Ensure_wait :: "nat \<Rightarrow> 'w manager \<Rightarrow> ('w option \<times> go_err option) option" where
  "Ensure_wait c m =
     (let k = mg_calls m ! c in if sc_done k then Some (sc_worker k, sc_err k) else None)"

definition Get :: "string \<Rightarrow> 'w manager \<Rightarrow> go_err + 'w" where
  "Get p m =
     (if p = [] then Inl (sentinel ErrWorkerNotFound)
      else case map_of (mg_workers m) p of None \<Rightarrow> Inl (sentinel ErrWorkerNotFound) | Some w \<Rightarrow> Inr w)"

definition forget :: "string \<Rightarrow> 'w manager \<Rightarrow> 'w manager" where
  "forget p m = m\<lparr>mg_workers := AList.delete p (mg_workers m), mg_tokens := AList.delete p (mg_tokens m),
     mg_lastSeen := AList.delete p (mg_lastSeen m)\<rparr>"

text \<open>\<open>close_err\<close> is what the worker's \<open>Close\<close> returns.\<close>

definition Stop_worker :: "('w \<Rightarrow> go_err option) \<Rightarrow> string \<Rightarrow> 'w manager \<Rightarrow> go_err option \<times> 'w list \<times> 'w manager" where
  "Stop_worker close_err p m =
     (case map_of (mg_workers m) p of
        None \<Rightarrow> (Some (sentinel ErrWorkerNotFound), [], m)
      | Some w \<Rightarrow> (close_err w, [w], forget p m))"

fun first_some :: "'e option list \<Rightarrow> 'e option" where
  "first_some [] = None"
| "first_some (None # es) = first_some es"
| "first_some (Some e # es) = Some e"

definition Close :: "('w \<Rightarrow> go_err option) \<Rightarrow> 'w manager \<Rightarrow> go_err option \<times> 'w list \<times> 'w manager" where
  "Close close_err m =
     (if mg_closed m then (None, [], m)
      else (let ws = map snd (mg_workers m); ids = map fst (mg_workers m)
            in (first_some (map close_err ws), ws,
                m\<lparr>mg_closed := True, mg_sweeper := False, mg_workers := [],
                  mg_tokens := fold AList.delete ids (mg_tokens m),
                  mg_lastSeen := fold AList.delete ids (mg_lastSeen m)\<rparr>)))"

definition TokenOrMint :: "string \<Rightarrow> string \<Rightarrow> gotime \<Rightarrow> 'w manager \<Rightarrow> (string \<times> bool \<times> bool) \<times> 'w manager" where
  "TokenOrMint p fresh now m =
     (if map_of (mg_workers m) p = None then (('''', False, False), m)
      else case map_of (mg_tokens m) p of
             Some tok \<Rightarrow> ((tok, False, True), m)
           | None \<Rightarrow> ((fresh, True, True), set_token p fresh now m))"

definition CheckToken :: "string \<Rightarrow> string \<Rightarrow> 'w manager \<Rightarrow> bool" where
  "CheckToken p given m =
     (case map_of (mg_tokens m) p of None \<Rightarrow> False | Some tok \<Rightarrow> given \<noteq> [] \<and> tok = given)"

definition Touch :: "string \<Rightarrow> gotime \<Rightarrow> 'w manager \<Rightarrow> 'w manager" where
  "Touch p now m =
     (if map_of (mg_tokens m) p = None then m else m\<lparr>mg_lastSeen := AList.update p now (mg_lastSeen m)\<rparr>)"

text \<open>\<open>now.Sub(seen)\<close>, a duration that saturates.\<close>

definition time_sub :: "gotime \<Rightarrow> gotime \<Rightarrow> int" where
  "time_sub t u = max (- (2 ^ 63)) (min (2 ^ 63 - 1) (t - u))"

definition Sweep :: "gotime \<Rightarrow> int \<Rightarrow> 'w manager \<Rightarrow> string list \<times> 'w manager" where
  "Sweep now silence m =
     (let swept = map fst (filter (\<lambda>(p, seen). silence < time_sub now seen) (mg_lastSeen m))
      in (swept, m\<lparr>mg_tokens := fold AList.delete swept (mg_tokens m),
                   mg_lastSeen := fold AList.delete swept (mg_lastSeen m)\<rparr>))"

definition StartSweeper :: "'w manager \<Rightarrow> 'w manager" where
  "StartSweeper m = (if mg_closed m then m else m\<lparr>mg_sweeper := True\<rparr>)"

text \<open>A tick of the sweeper, and the next stop of its pass.\<close>

definition sweep_tick :: "gotime \<Rightarrow> int \<Rightarrow> 'w manager \<Rightarrow> 'w manager" where
  "sweep_tick now silence m = (case Sweep now silence m of (swept, m') \<Rightarrow> m'\<lparr>mg_swept := swept\<rparr>)"

definition sweep_stop :: "('w \<Rightarrow> go_err option) \<Rightarrow> 'w manager \<Rightarrow> 'w list \<times> 'w manager" where
  "sweep_stop close_err m =
     (case mg_swept m of
        [] \<Rightarrow> ([], m)
      | p # ps \<Rightarrow> (case Stop_worker close_err p (m\<lparr>mg_swept := ps\<rparr>) of (_, ws, m') \<Rightarrow> (ws, m')))"

definition newToken :: "nat list \<Rightarrow> string" where
  "newToken bytes = concat (map (\<lambda>b. [''0123456789abcdef'' ! (b div 16), ''0123456789abcdef'' ! (b mod 16)]) bytes)"

section \<open>Runs of the manager\<close>

text \<open>
  An event is one critical section with what the environment contributes to it. \<open>mstep\<close> gives the new
  state, the workers started and the workers closed by the event.
\<close>

datatype 'w event =
    Begin config
  | Finish nat "'w option \<times> go_err option" string gotime
  | StopOf string
  | CloseAll
  | Mint string string gotime
  | Touched string gotime
  | SweeperOn
  | Tick gotime int
  | SweepStop

text \<open>When an event can happen: a start finishes once, and the sweeper does one pass at a time.\<close>

fun enabled :: "'w event \<Rightarrow> 'w manager \<Rightarrow> bool" where
  "enabled (Finish c _ _ _) m \<longleftrightarrow> c < length (mg_calls m) \<and> \<not> sc_done (mg_calls m ! c)"
| "enabled (Tick _ _) m \<longleftrightarrow> mg_sweeper m \<and> mg_swept m = []"
| "enabled SweepStop m \<longleftrightarrow> mg_swept m \<noteq> []"
| "enabled _ m \<longleftrightarrow> True"

definition no_err :: "'w \<Rightarrow> go_err option" where
  "no_err w = None"

fun started_by :: "'w event \<Rightarrow> 'w list" where
  "started_by (Finish _ (Some w, None) _ _) = [w]"
| "started_by _ = []"

fun mstep :: "'w event \<Rightarrow> 'w manager \<Rightarrow> 'w list \<times> 'w manager" where
  "mstep (Begin cfg) m = ([], snd (Ensure_begin cfg m))"
| "mstep (Finish c res tok now) m = snd (Ensure_finish c res tok now m)"
| "mstep (StopOf p) m = snd (Stop_worker no_err p m)"
| "mstep CloseAll m = snd (Close no_err m)"
| "mstep (Mint p tok now) m = ([], snd (TokenOrMint p tok now m))"
| "mstep (Touched p now) m = ([], Touch p now m)"
| "mstep SweeperOn m = ([], StartSweeper m)"
| "mstep (Tick now silence) m = ([], sweep_tick now silence m)"
| "mstep SweepStop m = sweep_stop no_err m"

text \<open>\<open>reach m st cl\<close>: a run from a new manager ends in \<open>m\<close>, having started \<open>st\<close> and closed \<open>cl\<close>.\<close>

inductive reach :: "'w manager \<Rightarrow> 'w list \<Rightarrow> 'w list \<Rightarrow> bool" where
  start: "reach NewManager [] []"
| step: "reach m st cl \<Longrightarrow> enabled ev m \<Longrightarrow> mstep ev m = (ws, m') \<Longrightarrow> reach m' (st @ started_by ev) (cl @ ws)"

subsection \<open>The invariant\<close>

definition pending :: "'w manager \<Rightarrow> nat \<Rightarrow> bool" where
  "pending m c \<longleftrightarrow> c < length (mg_calls m) \<and> \<not> sc_done (mg_calls m ! c)"

definition keys :: "('k \<times> 'v) list \<Rightarrow> 'k set" where
  "keys al = set (map fst al)"

lemma keys_none: "map_of al k = None \<longleftrightarrow> k \<notin> keys al"
  by (simp add: keys_def map_of_eq_None_iff)

lemma keys_some: "map_of al k = Some v \<Longrightarrow> k \<in> keys al"
  by (metis keys_none option.distinct(1))

lemma keys_nil [simp]: "keys [] = {}"
  by (simp add: keys_def)

lemma keys_update: "keys (AList.update k v al) = insert k (keys al)"
  by (simp add: keys_def dom_update)

definition tables_ok :: "'w manager \<Rightarrow> bool" where
  "tables_ok m \<longleftrightarrow> distinct (map fst (mg_workers m)) \<and> distinct (map fst (mg_lastSeen m)) \<and> keys (mg_tokens m) = keys (mg_lastSeen m) \<and>
     keys (mg_tokens m) \<subseteq> keys (mg_workers m) \<and> keys (mg_workers m) - keys (mg_tokens m) \<subseteq> set (mg_swept m) \<and>
     (mg_closed m \<longrightarrow> mg_workers m = [])"

definition starts_ok :: "'w manager \<Rightarrow> bool" where
  "starts_ok m \<longleftrightarrow> (\<forall>p c. map_of (mg_inflight m) p = Some c \<longleftrightarrow> pending m c \<and> sc_project (mg_calls m ! c) = p) \<and>
     keys (mg_inflight m) \<inter> keys (mg_workers m) = {}"

lemma keys_delete: "keys (AList.delete k al) = keys al - {k}"
  unfolding keys_def by (simp only: AList.delete_keys) simp

lemma keys_fold_delete [simp]: "keys (fold AList.delete ks al) = keys al - set ks"
  by (induction ks arbitrary: al) (auto simp: keys_delete)

lemma map_of_fold_delete: "map_of (fold AList.delete ks al) k = (if k \<in> set ks then None else map_of al k)"
  by (induction ks arbitrary: al) (auto simp: delete_conv')

lemma distinct_fold_delete: "distinct (map fst al) \<Longrightarrow> distinct (map fst (fold AList.delete ks al))"
  by (induction ks arbitrary: al) (simp_all add: distinct_delete)

lemmas alist_simps = update_conv' delete_conv' map_of_fold_delete

lemmas key_simps = keys_none keys_update keys_delete distinct_update distinct_delete distinct_fold_delete

lemma tables_ok_finish:
  "tables_ok m \<Longrightarrow> Ensure_finish c res tok now m = (r, ws, m') \<Longrightarrow> tables_ok m'"
  by (auto simp: Ensure_finish_def tables_ok_def Let_def complete_def set_token_def key_simps
      split: option.splits if_splits)

lemma tables_ok_stop: "tables_ok m \<Longrightarrow> tables_ok (forget p m)"
  by (auto simp: tables_ok_def forget_def key_simps)

lemma tables_ok_pass:
  assumes "tables_ok m" "mg_swept m = p # ps"
  shows "tables_ok (forget p (m\<lparr>mg_swept := ps\<rparr>))"
  using assms by (auto simp: tables_ok_def forget_def key_simps)

lemma tables_ok_step:
  assumes "tables_ok m" "enabled ev m" "mstep ev m = (ws, m')"
  shows "tables_ok m'"
proof (cases ev)
  case (Begin cfg)
  then show ?thesis using assms
    by (auto simp: Ensure_begin_def tables_ok_def Let_def split: option.splits if_splits)
next
  case (Finish c res tok now)
  then show ?thesis using assms tables_ok_finish [of m c res tok now] by (cases "Ensure_finish c res tok now m") auto
next
  case (StopOf p)
  then show ?thesis using assms tables_ok_stop by (auto simp: Stop_worker_def split: option.splits)
next
  case CloseAll
  then show ?thesis using assms by (auto simp: Close_def tables_ok_def Let_def keys_def [of "mg_workers m"] distinct_fold_delete split: if_splits)
next
  case (Mint p tok now)
  then show ?thesis using assms
    by (auto simp: TokenOrMint_def tables_ok_def set_token_def key_simps split: option.splits if_splits)
next
  case (Touched p now)
  then show ?thesis using assms by (auto simp: Touch_def tables_ok_def key_simps split: if_splits)
next
  case SweeperOn
  then show ?thesis using assms by (auto simp: StartSweeper_def tables_ok_def split: if_splits)
next
  case (Tick now silence)
  then show ?thesis using assms by (auto simp: sweep_tick_def Sweep_def Let_def tables_ok_def distinct_fold_delete)
next
  case SweepStop
  then obtain p ps where ps: "mg_swept m = p # ps" using assms(2) by (cases "mg_swept m") auto
  show ?thesis
  proof (cases "map_of (mg_workers m) p")
    case None
    then have "m' = m\<lparr>mg_swept := ps\<rparr>" using assms(3) SweepStop ps by (simp add: sweep_stop_def Stop_worker_def)
    then show ?thesis using assms(1) ps None by (auto simp: tables_ok_def key_simps)
  next
    case (Some w)
    then have "m' = forget p (m\<lparr>mg_swept := ps\<rparr>)" using assms(3) SweepStop ps by (simp add: sweep_stop_def Stop_worker_def)
    then show ?thesis using tables_ok_pass [OF assms(1) ps] by simp
  qed
qed


lemma starts_okI:
  assumes "\<And>p c. map_of (mg_inflight m) p = Some c \<longleftrightarrow> pending m c \<and> sc_project (mg_calls m ! c) = p"
    "keys (mg_inflight m) \<inter> keys (mg_workers m) = {}"
  shows "starts_ok m"
  using assms by (auto simp: starts_ok_def)

lemma starts_ok_begin:
  assumes "starts_ok m" "Ensure_begin cfg m = (r, m')"
  shows "starts_ok m'"
proof (cases "m' = m")
  case False
  let ?p = "cf_ProjectID cfg"
  let ?new = "\<lparr>sc_project = ?p, sc_done = False, sc_worker = None, sc_err = None\<rparr>"
  have free: "map_of (mg_workers m) ?p = None" "map_of (mg_inflight m) ?p = None"
    and m': "m' = m\<lparr>mg_inflight := AList.update ?p (length (mg_calls m)) (mg_inflight m), mg_calls := mg_calls m @ [?new]\<rparr>"
    using assms(2) False by (auto simp: Ensure_begin_def Let_def split: option.splits if_splits)
  have old: "\<not> (pending m c \<and> sc_project (mg_calls m ! c) = ?p)" for c
    using assms(1) free(2) unfolding starts_ok_def by (metis option.distinct(1))
  show ?thesis
  proof (rule starts_okI)
    fix p c
    have "map_of (mg_inflight m) p = Some c \<longleftrightarrow> pending m c \<and> sc_project (mg_calls m ! c) = p"
      using assms(1) by (auto simp: starts_ok_def)
    then show "map_of (mg_inflight m') p = Some c \<longleftrightarrow> pending m' c \<and> sc_project (mg_calls m' ! c) = p"
      using old [of c] by (auto simp: m' update_conv' pending_def nth_append less_Suc_eq)
  next
    show "keys (mg_inflight m') \<inter> keys (mg_workers m') = {}"
      using assms(1) free(1) by (auto simp: m' starts_ok_def key_simps)
  qed
qed (use assms in simp)

lemma starts_ok_finish:
  assumes "starts_ok m" "pending m c" "Ensure_finish c res tok now m = (r, ws, m')"
  shows "starts_ok m'"
proof -
  let ?p = "sc_project (mg_calls m ! c)"
  have infl: "map_of (mg_inflight m) p = Some k \<longleftrightarrow> pending m k \<and> sc_project (mg_calls m ! k) = p" for p k
    using assms(1) by (auto simp: starts_ok_def)
  have m': "mg_inflight m' = AList.delete ?p (mg_inflight m)"
    "keys (mg_workers m') \<subseteq> insert ?p (keys (mg_workers m))"
    "\<exists>k. mg_calls m' = (mg_calls m)[c := k] \<and> sc_done k"
    using assms(3) by (auto simp: Ensure_finish_def Let_def complete_def set_token_def key_simps split: option.splits if_splits)
  obtain k where k: "mg_calls m' = (mg_calls m)[c := k]" "sc_done k" using m'(3) by blast
  have pend: "pending m' d \<longleftrightarrow> pending m d \<and> d \<noteq> c" for d
    using k assms(2) by (auto simp: pending_def nth_list_update)
  have same: "mg_calls m' ! d = mg_calls m ! d" if "d \<noteq> c" for d
    using k(1) that by simp
  show ?thesis
  proof (rule starts_okI)
    fix p d
    show "map_of (mg_inflight m') p = Some d \<longleftrightarrow> pending m' d \<and> sc_project (mg_calls m' ! d) = p"
    proof (cases "p = ?p")
      case True
      have "map_of (mg_inflight m) ?p = Some c" using infl assms(2) by blast
      then have "\<not> (pending m d \<and> sc_project (mg_calls m ! d) = ?p)" if "d \<noteq> c"
        using infl that by (metis option.inject)
      then show ?thesis using True pend [of d] same [of d] by (auto simp: m'(1) delete_conv')
    next
      case False
      then show ?thesis using infl [of p d] pend [of d] same [of d]
        by (cases "d = c") (auto simp: m'(1) delete_conv')
    qed
  next
    show "keys (mg_inflight m') \<inter> keys (mg_workers m') = {}"
      using assms(1) m'(1,2) by (auto simp: starts_ok_def key_simps)
  qed
qed

lemma starts_ok_frame:
  assumes "starts_ok m" "mg_inflight m' = mg_inflight m" "mg_calls m' = mg_calls m" "keys (mg_workers m') \<subseteq> keys (mg_workers m)"
  shows "starts_ok m'"
  using assms by (auto simp: starts_ok_def pending_def)

lemma other_frame:
  assumes "mstep ev m = (ws, m')" "case ev of Begin _ \<Rightarrow> False | Finish _ _ _ _ \<Rightarrow> False | _ \<Rightarrow> True"
  shows "mg_inflight m' = mg_inflight m \<and> mg_calls m' = mg_calls m \<and> keys (mg_workers m') \<subseteq> keys (mg_workers m)"
  using assms
  by (cases ev)
     (auto simp: Stop_worker_def forget_def Close_def TokenOrMint_def set_token_def Touch_def StartSweeper_def
       sweep_tick_def Sweep_def sweep_stop_def Let_def key_simps split: option.splits if_splits list.splits)

lemma starts_ok_step:
  assumes "starts_ok m" "enabled ev m" "mstep ev m = (ws, m')"
  shows "starts_ok m'"
proof (cases ev)
  case (Begin cfg)
  then show ?thesis using assms starts_ok_begin [OF assms(1)] by (cases "Ensure_begin cfg m") auto
next
  case (Finish c res tok now)
  then obtain r where "Ensure_finish c res tok now m = (r, ws, m')"
    using assms(3) by (cases "Ensure_finish c res tok now m") auto
  moreover have "pending m c" using assms(2) Finish by (simp add: pending_def)
  ultimately show ?thesis using starts_ok_finish [OF assms(1)] by blast
qed (use assms starts_ok_frame [OF assms(1)] other_frame [OF assms(3)] in simp_all)

text \<open>Every worker that was started is in the table or was closed, as often as it was started.\<close>

definition accounted :: "'w manager \<Rightarrow> 'w list \<Rightarrow> 'w list \<Rightarrow> bool" where
  "accounted m st cl \<longleftrightarrow> mset st = mset (map snd (mg_workers m)) + mset cl"

lemma mset_update_new: "k \<notin> keys al \<Longrightarrow> mset (map snd (AList.update k v al)) = add_mset v (mset (map snd al))"
  by (induction al) (auto simp: keys_def)

lemma mset_delete:
  "distinct (map fst al) \<Longrightarrow> map_of al k = Some v \<Longrightarrow> add_mset v (mset (map snd (AList.delete k al))) = mset (map snd al)"
proof (induction al)
  case (Cons kv al)
  show ?case
  proof (cases "fst kv = k")
    case True
    then have "k \<notin> fst ` set al" using Cons.prems(1) by auto
    then show ?thesis using True Cons.prems(2) by (cases kv) auto
  next
    case False
    then show ?thesis using Cons by (cases kv) (auto simp: add_mset_commute)
  qed
qed simp


lemma accounted_step:
  assumes "accounted m st cl" "tables_ok m" "starts_ok m" "enabled ev m" "mstep ev m = (ws, m')"
  shows "accounted m' (st @ started_by ev) (cl @ ws)"
proof -
  have d: "distinct (map fst (mg_workers m))" using assms(2) by (simp add: tables_ok_def)
  have gone: "add_mset w (mset (map snd (mg_workers (forget p m)))) = mset (map snd (mg_workers m))"
    if "map_of (mg_workers m) p = Some w" for p w
    using mset_delete [OF d that] by (simp add: forget_def)
  show ?thesis
  proof (cases ev)
    case (Finish c res tok now)
    let ?p = "sc_project (mg_calls m ! c)"
    have "map_of (mg_inflight m) ?p = Some c" using assms(3,4) Finish by (simp add: starts_ok_def pending_def)
    then have "?p \<in> keys (mg_inflight m)" by (rule keys_some)
    then have new: "?p \<notin> keys (mg_workers m)" using assms(3) unfolding starts_ok_def by blast
    then have none: "map_of (mg_workers m) ?p = None" by (simp add: keys_none)
    obtain a b where res: "res = (a, b)" by (cases res)
    have "mset (map snd (mg_workers m')) + mset ws = mset (map snd (mg_workers m)) + mset (started_by ev)"
      using assms(5) mset_update_new [OF new] none unfolding Finish res
      by (cases a; cases b; cases "mg_closed m")
         (auto simp: Ensure_finish_def start_error_def complete_def set_token_def Let_def split: if_splits)
    then have "mset (map snd (mg_workers m')) + mset (cl @ ws) = mset (map snd (mg_workers m)) + mset cl + mset (started_by ev)"
      by (simp only: mset_append ac_simps)
    then show ?thesis using assms(1) unfolding accounted_def mset_append by (simp only:)
  next
    case (StopOf p)
    then show ?thesis using assms(1,5) gone [of p]
      by (auto simp: accounted_def Stop_worker_def no_err_def split: option.splits)
  next
    case SweepStop
    then show ?thesis using assms(1,5) mset_delete [OF d]
      by (auto simp: accounted_def sweep_stop_def Stop_worker_def forget_def no_err_def split: option.splits list.splits)
  qed (use assms(1,5) in \<open>auto simp: accounted_def Ensure_begin_def Close_def TokenOrMint_def set_token_def Touch_def
      StartSweeper_def sweep_tick_def Sweep_def Let_def split: option.splits if_splits\<close>)
qed

lemma reach_ok: "reach m st cl \<Longrightarrow> tables_ok m \<and> starts_ok m \<and> accounted m st cl"
proof (induction rule: reach.induct)
  case start
  show ?case by (auto simp: NewManager_def tables_ok_def starts_ok_def pending_def accounted_def)
next
  case (step m st cl ev ws m')
  then show ?case using tables_ok_step starts_ok_step accounted_step by blast
qed


section \<open>What the manager promises\<close>

text \<open>
  The abstract manager gives every project a phase of its own: nothing, a launch under way, or a
  browser with at most one access key and the time it was last used.
\<close>

datatype 'w phase = Idle | Launching nat | Up 'w "(string \<times> gotime) option"

record 'w contract =
  as_closed :: bool
  as_phase :: "string \<Rightarrow> 'w phase"

datatype 'w promise =
    ABegin string nat
  | AFinish nat "'w option" string gotime
  | AStop string
  | AClose
  | AMint string string gotime
  | ATouch string gotime
  | AExpire gotime int
  | ANothing

fun expire :: "gotime \<Rightarrow> int \<Rightarrow> 'w phase \<Rightarrow> 'w phase" where
  "expire now silence (Up w (Some (t, seen))) = (if silence < time_sub now seen then Up w None else Up w (Some (t, seen)))"
| "expire now silence ph = ph"

fun stopped :: "'w phase \<Rightarrow> 'w phase" where
  "stopped (Up w k) = Idle"
| "stopped ph = ph"

fun keyed :: "string \<Rightarrow> gotime \<Rightarrow> 'w phase \<Rightarrow> 'w phase" where
  "keyed tok now (Up w None) = Up w (Some (tok, now))"
| "keyed tok now ph = ph"

fun touched :: "gotime \<Rightarrow> 'w phase \<Rightarrow> 'w phase" where
  "touched now (Up w (Some (t, seen))) = Up w (Some (t, now))"
| "touched now ph = ph"

abbreviation at_project :: "string \<Rightarrow> ('w phase \<Rightarrow> 'w phase) \<Rightarrow> 'w contract \<Rightarrow> 'w contract" where
  "at_project p f a \<equiv> a\<lparr>as_phase := (as_phase a)(p := f (as_phase a p))\<rparr>"

fun astep :: "'w promise \<Rightarrow> 'w contract \<Rightarrow> 'w contract" where
  "astep (ABegin p c) a = (if as_closed a then a else at_project p (\<lambda>ph. if ph = Idle then Launching c else ph) a)"
| "astep (AFinish c w tok now) a = a\<lparr>as_phase := (\<lambda>p. if as_phase a p = Launching c
     then (case w of None \<Rightarrow> Idle | Some w \<Rightarrow> if as_closed a then Idle else Up w (Some (tok, now))) else as_phase a p)\<rparr>"
| "astep (AStop p) a = at_project p stopped a"
| "astep AClose a = a\<lparr>as_closed := True, as_phase := (\<lambda>p. stopped (as_phase a p))\<rparr>"
| "astep (AMint p tok now) a = at_project p (keyed tok now) a"
| "astep (ATouch p now) a = at_project p (touched now) a"
| "astep (AExpire now silence) a = a\<lparr>as_phase := (\<lambda>p. expire now silence (as_phase a p))\<rparr>"
| "astep ANothing a = a"

text \<open>How an event of the code is read: a stop of the sweeper's pass is a stop of its next project.\<close>

fun shown :: "'w manager \<Rightarrow> 'w event \<Rightarrow> 'w promise" where
  "shown m (Begin cfg) = (if validateConfig cfg = None then ABegin (cf_ProjectID cfg) (length (mg_calls m)) else ANothing)"
| "shown m (Finish c res tok now) = AFinish c (if snd res = None then fst res else None) tok now"
| "shown m (StopOf p) = AStop p"
| "shown m CloseAll = AClose"
| "shown m (Mint p tok now) = AMint p tok now"
| "shown m (Touched p now) = ATouch p now"
| "shown m SweeperOn = ANothing"
| "shown m (Tick now silence) = AExpire now silence"
| "shown m SweepStop = AStop (hd (mg_swept m))"

definition phase_of :: "'w manager \<Rightarrow> string \<Rightarrow> 'w phase" where
  "phase_of m p =
     (case map_of (mg_workers m) p of
        Some w \<Rightarrow>
          Up w (case map_of (mg_tokens m) p of
                  None \<Rightarrow> None
                | Some t \<Rightarrow> (case map_of (mg_lastSeen m) p of None \<Rightarrow> None | Some s \<Rightarrow> Some (t, s)))
      | None \<Rightarrow> (case map_of (mg_inflight m) p of Some c \<Rightarrow> Launching c | None \<Rightarrow> Idle))"

definition promised :: "'w manager \<Rightarrow> 'w contract" where
  "promised m = \<lparr>as_closed = mg_closed m, as_phase = phase_of m\<rparr>"

lemma promisedI: "mg_closed m' = as_closed a \<Longrightarrow> (\<And>p. phase_of m' p = as_phase a p) \<Longrightarrow> promised m' = a"
  by (cases a) (auto simp: promised_def)

lemma promised_simps [simp]: "as_closed (promised m) = mg_closed m" "as_phase (promised m) = phase_of m"
  by (simp_all add: promised_def)

lemma phase_frame:
  "map_of (mg_workers m') p = map_of (mg_workers m) p \<Longrightarrow> map_of (mg_inflight m') p = map_of (mg_inflight m) p \<Longrightarrow>
   map_of (mg_tokens m') p = map_of (mg_tokens m) p \<Longrightarrow> map_of (mg_lastSeen m') p = map_of (mg_lastSeen m) p \<Longrightarrow>
   phase_of m' p = phase_of m p"
  by (simp add: phase_of_def split: option.split)

lemma refine_begin:
  assumes "Ensure_begin cfg m = (r, m')"
  shows "promised m' = astep (shown m (Begin cfg)) (promised m)"
proof (cases "validateConfig cfg = None \<and> \<not> mg_closed m \<and> phase_of m (cf_ProjectID cfg) = Idle")
  case True
  then have "map_of (mg_workers m) (cf_ProjectID cfg) = None" "map_of (mg_inflight m) (cf_ProjectID cfg) = None"
    by (auto simp: phase_of_def split: option.splits)
  with True assms have m': "mg_workers m' = mg_workers m" "mg_tokens m' = mg_tokens m" "mg_lastSeen m' = mg_lastSeen m"
    "mg_closed m' = mg_closed m" "mg_inflight m' = AList.update (cf_ProjectID cfg) (length (mg_calls m)) (mg_inflight m)"
    by (auto simp: Ensure_begin_def Let_def)
  have "phase_of m' p = (if p = cf_ProjectID cfg then Launching (length (mg_calls m)) else phase_of m p)" for p
    using \<open>map_of (mg_workers m) (cf_ProjectID cfg) = None\<close>
    by (auto simp: phase_of_def [of m' "cf_ProjectID cfg"] m' update_conv' intro: phase_frame)
  then show ?thesis using True m'(4) by (intro promisedI) auto
next
  case False
  then have "m' = m"
    using assms by (auto simp: Ensure_begin_def Let_def phase_of_def split: option.splits if_splits)
  with False show ?thesis by (cases "validateConfig cfg = None") (auto intro!: promisedI)
qed

lemma launching_iff:
  assumes "tables_ok m" "starts_ok m" "pending m c"
  shows "phase_of m p = Launching c \<longleftrightarrow> p = sc_project (mg_calls m ! c)"
proof -
  have "map_of (mg_inflight m) p = Some c \<longleftrightarrow> p = sc_project (mg_calls m ! c)"
    using assms(2,3) by (auto simp: starts_ok_def)
  moreover have "map_of (mg_inflight m) p = Some c \<Longrightarrow> map_of (mg_workers m) p = None"
    using assms(2) keys_some [of "mg_inflight m" p c] by (auto simp: starts_ok_def keys_none)
  ultimately show ?thesis by (auto simp: phase_of_def split: option.splits)
qed

lemma refine_finish:
  assumes "tables_ok m" "starts_ok m" "pending m c" "Ensure_finish c res tok now m = (r, ws, m')"
  shows "promised m' = astep (shown m (Finish c res tok now)) (promised m)"
proof (rule promisedI)
  let ?p = "sc_project (mg_calls m ! c)"
  obtain a b where res: "res = (a, b)" by (cases res)
  show "mg_closed m' = as_closed (astep (shown m (Finish c res tok now)) (promised m))"
    using assms(4) by (auto simp: Ensure_finish_def Let_def complete_def set_token_def split: option.splits if_splits)
  have "map_of (mg_inflight m) ?p = Some c" using assms(2,3) by (auto simp: starts_ok_def)
  then have "?p \<in> keys (mg_inflight m)" by (rule keys_some)
  then have new: "?p \<notin> keys (mg_workers m)" using assms(2) unfolding starts_ok_def by blast
  then have none: "map_of (mg_workers m) ?p = None" "map_of (mg_tokens m) ?p = None" "map_of (mg_lastSeen m) ?p = None"
    using assms(1) by (auto simp: tables_ok_def keys_none)
  show "phase_of m' p = as_phase (astep (shown m (Finish c res tok now)) (promised m)) p" for p
  proof (cases "p = ?p")
    case True
    then show ?thesis
      using assms(4) none launching_iff [OF assms(1-3), of p] unfolding res
      by (cases a; cases b)
         (auto simp: Ensure_finish_def start_error_def complete_def set_token_def phase_of_def Let_def alist_simps split: if_splits)
  next
    case False
    have "phase_of m' p = phase_of m p"
      using assms(4) False
      by (intro phase_frame)
         (auto simp: Ensure_finish_def complete_def set_token_def Let_def alist_simps split: option.splits if_splits)
    then show ?thesis using False launching_iff [OF assms(1-3), of p] by simp
  qed
qed


lemma refine_forget:
  assumes "tables_ok m" "starts_ok m" "map_of (mg_workers m) p = Some w"
  shows "promised (forget p m) = astep (AStop p) (promised m)"
proof (rule promisedI)
  have "p \<notin> keys (mg_inflight m)"
    using assms(2) keys_some [OF assms(3)] unfolding starts_ok_def by blast
  then have "map_of (mg_inflight m) p = None" by (simp add: keys_none)
  then show "phase_of (forget p m) q = as_phase (astep (AStop p) (promised m)) q" for q
    using assms(3) by (cases "q = p") (auto simp: phase_of_def forget_def delete_conv' split: option.splits)
qed (simp add: forget_def)

lemma refine_no_worker: "map_of (mg_workers m) p = None \<Longrightarrow> promised m = astep (AStop p) (promised m)"
  by (intro promisedI) (auto simp: phase_of_def split: option.splits)

lemma refine_close:
  assumes "tables_ok m" "starts_ok m" "Close f m = (e, ws, m')"
  shows "promised m' = astep AClose (promised m)"
proof (rule promisedI)
  show "mg_closed m' = as_closed (astep AClose (promised m))"
    using assms(3) by (auto simp: Close_def Let_def split: if_splits)
  have "mg_workers m' = []" "mg_inflight m' = mg_inflight m"
    using assms(1,3) by (auto simp: Close_def Let_def tables_ok_def split: if_splits)
  moreover have "map_of (mg_inflight m) p = None" if "map_of (mg_workers m) p = Some w" for p w
  proof -
    have "p \<notin> keys (mg_inflight m)" using assms(2) keys_some [OF that] unfolding starts_ok_def by blast
    then show ?thesis by (simp add: keys_none)
  qed
  ultimately show "phase_of m' p = as_phase (astep AClose (promised m)) p" for p
    by (auto simp: phase_of_def split: option.split)
qed

lemma refine_token:
  assumes "tables_ok m" "TokenOrMint p tok now m = (r, m')"
  shows "promised m' = astep (AMint p tok now) (promised m)"
proof (rule promisedI)
  have dom: "map_of (mg_tokens m) p = None \<longleftrightarrow> map_of (mg_lastSeen m) p = None"
    using assms(1) by (simp add: keys_none tables_ok_def)
  show "mg_closed m' = as_closed (astep (AMint p tok now) (promised m))"
    using assms(2) by (auto simp: TokenOrMint_def set_token_def split: option.splits if_splits)
  show "phase_of m' q = as_phase (astep (AMint p tok now) (promised m)) q" for q
    using assms(2) dom
    by (cases "q = p") (auto simp: TokenOrMint_def set_token_def phase_of_def update_conv' split: option.splits if_splits)
qed

lemma refine_touch:
  assumes "tables_ok m"
  shows "promised (Touch p now m) = astep (ATouch p now) (promised m)"
proof (rule promisedI)
  have dom: "map_of (mg_tokens m) p = None \<longleftrightarrow> map_of (mg_lastSeen m) p = None"
    using assms(1) by (simp add: keys_none tables_ok_def)
  show "phase_of (Touch p now m) q = as_phase (astep (ATouch p now) (promised m)) q" for q
    using dom
    by (cases "q = p") (auto simp: Touch_def phase_of_def update_conv' split: option.splits if_splits)
qed (simp add: Touch_def)

lemma map_of_swept:
  assumes "distinct (map fst al)"
  shows "map_of (fold AList.delete (map fst (filter (\<lambda>(p, seen). P seen) al)) bl) p
    = (case map_of al p of Some seen \<Rightarrow> if P seen then None else map_of bl p | None \<Rightarrow> map_of bl p)"
proof -
  have "p \<in> set (map fst (filter (\<lambda>(p, seen). P seen) al)) \<longleftrightarrow> (\<exists>seen. map_of al p = Some seen \<and> P seen)"
    using assms by (force simp: map_of_eq_Some_iff)
  then show ?thesis unfolding map_of_fold_delete by (auto split: option.split)
qed

lemma refine_tick:
  assumes "tables_ok m"
  shows "promised (sweep_tick now silence m) = astep (AExpire now silence) (promised m)"
proof (rule promisedI)
  have dom: "map_of (mg_tokens m) p = None \<longleftrightarrow> map_of (mg_lastSeen m) p = None" for p
    using assms(1) by (simp add: keys_none tables_ok_def)
  have d: "distinct (map fst (mg_lastSeen m))" using assms(1) by (simp add: tables_ok_def)
  show "phase_of (sweep_tick now silence m) p = as_phase (astep (AExpire now silence) (promised m)) p" for p
    using dom [of p]
    by (auto simp: sweep_tick_def Sweep_def Let_def phase_of_def map_of_swept [OF d] split: option.splits)
qed (simp add: sweep_tick_def Sweep_def Let_def)

lemma promised_swept [simp]: "promised (m\<lparr>mg_swept := ps\<rparr>) = promised m"
  by (intro promisedI) (auto intro: phase_frame)

text \<open>
  C2: the manager keeps its contract. In every reachable state and for every event, what the
  critical sections do to the shared tables is what the event is to do to the phases of the
  projects, and the phases are what \<open>Get\<close> and \<open>CheckToken\<close> answer from.
\<close>

theorem manager_refines:
  assumes "reach m st cl" "enabled ev m"
  shows "promised (snd (mstep ev m)) = astep (shown m ev) (promised m) \<and>
    (case Get p m of Inr w \<Rightarrow> p \<noteq> [] \<and> (\<exists>k. phase_of m p = Up w k) | Inl _ \<Rightarrow> p = [] \<or> (\<forall>w k. phase_of m p \<noteq> Up w k)) \<and>
    (CheckToken p tok m \<longleftrightarrow> tok \<noteq> [] \<and> (\<exists>w seen. phase_of m p = Up w (Some (tok, seen))))"
proof (intro conjI)
  have ok: "tables_ok m" "starts_ok m" using reach_ok [OF assms(1)] by auto
  show "promised (snd (mstep ev m)) = astep (shown m ev) (promised m)"
  proof (cases ev)
    case (Begin cfg)
    then show ?thesis using refine_begin [of cfg m] by (cases "Ensure_begin cfg m") auto
  next
    case (Finish c res tok now)
    have "pending m c" using assms(2) Finish by (simp add: pending_def)
    then show ?thesis using refine_finish [OF ok] Finish by (cases "Ensure_finish c res tok now m") auto
  next
    case (StopOf q)
    then show ?thesis using refine_no_worker [of m q] refine_forget [OF ok, of q]
      by (auto simp: Stop_worker_def split: option.split)
  next
    case CloseAll
    then show ?thesis using refine_close [OF ok] by (cases "Close no_err m :: go_err option \<times> _") auto
  next
    case (Mint q t now)
    then show ?thesis using refine_token [OF ok(1)] by (cases "TokenOrMint q t now m") auto
  next
    case (Touched q now)
    then show ?thesis using refine_touch [OF ok(1)] by simp
  next
    case SweeperOn
    then show ?thesis by (auto simp: StartSweeper_def intro!: promisedI phase_frame)
  next
    case (Tick now silence)
    then show ?thesis using refine_tick [OF ok(1)] by simp
  next
    case SweepStop
    then obtain q qs where q: "mg_swept m = q # qs" using assms(2) by (cases "mg_swept m") auto
    show ?thesis
    proof (cases "map_of (mg_workers m) q")
      case None
      then show ?thesis using SweepStop q refine_no_worker [OF None]
        by (simp add: sweep_stop_def Stop_worker_def)
    next
      case (Some w)
      have "forget q (m\<lparr>mg_swept := qs\<rparr>) = (forget q m)\<lparr>mg_swept := qs\<rparr>" by (simp add: forget_def)
      then show ?thesis using SweepStop q Some refine_forget [OF ok Some]
        by (simp add: sweep_stop_def Stop_worker_def)
    qed
  qed
  show "case Get p m of Inr w \<Rightarrow> p \<noteq> [] \<and> (\<exists>k. phase_of m p = Up w k) | Inl _ \<Rightarrow> p = [] \<or> (\<forall>w k. phase_of m p \<noteq> Up w k)"
    by (auto simp: Get_def phase_of_def split: option.split)
  have "map_of (mg_tokens m) p = None \<longleftrightarrow> map_of (mg_lastSeen m) p = None"
      "map_of (mg_workers m) p = None \<Longrightarrow> map_of (mg_tokens m) p = None"
    using ok(1) by (auto simp: keys_none tables_ok_def)
  then show "CheckToken p tok m \<longleftrightarrow> tok \<noteq> [] \<and> (\<exists>w seen. phase_of m p = Up w (Some (tok, seen)))"
    by (auto simp: CheckToken_def phase_of_def split: option.splits)
qed

section \<open>Properties of runs\<close>

text \<open>
  C7: no browser is lost. In every reachable state the workers that were ever started are exactly
  those in the table and those that were closed; a project has at most one worker and never one
  beside a start under way; after \<open>Close\<close> nothing runs, and the duplicate branch at the end of
  \<open>Ensure\<close> is never taken.
\<close>

theorem browsers_accounted:
  assumes "reach m st cl"
  shows "mset st = mset (map snd (mg_workers m)) + mset cl \<and> distinct (map fst (mg_workers m)) \<and>
    keys (mg_inflight m) \<inter> keys (mg_workers m) = {} \<and> (mg_closed m \<longrightarrow> mset st = mset cl) \<and>
    (pending m c \<longrightarrow> map_of (mg_workers m) (sc_project (mg_calls m ! c)) = None)"
proof -
  have ok: "tables_ok m" "starts_ok m" "accounted m st cl" using reach_ok [OF assms] by auto
  have "map_of (mg_workers m) (sc_project (mg_calls m ! c)) = None" if "pending m c"
  proof -
    have "map_of (mg_inflight m) (sc_project (mg_calls m ! c)) = Some c" using ok(2) that by (simp add: starts_ok_def)
    from keys_some [OF this] show ?thesis using ok(2) by (auto simp: starts_ok_def keys_none)
  qed
  then show ?thesis using ok by (auto simp: tables_ok_def starts_ok_def accounted_def)
qed

text \<open>A run of enabled events from a state, with the workers it starts and closes.\<close>

fun all_enabled :: "'w event list \<Rightarrow> 'w manager \<Rightarrow> bool" where
  "all_enabled [] m \<longleftrightarrow> True"
| "all_enabled (ev # evs) m \<longleftrightarrow> enabled ev m \<and> all_enabled evs (snd (mstep ev m))"

fun run_events :: "'w event list \<Rightarrow> 'w manager \<Rightarrow> 'w list \<times> 'w manager" where
  "run_events [] m = ([], m)"
| "run_events (ev # evs) m =
     (case mstep ev m of (ws, m1) \<Rightarrow> (case run_events evs m1 of (ws', m') \<Rightarrow> (ws @ ws', m')))"

definition started_in :: "'w event list \<Rightarrow> 'w list" where
  "started_in evs = concat (map started_by evs)"

lemma reach_run:
  "reach m st cl \<Longrightarrow> all_enabled evs m \<Longrightarrow> run_events evs m = (ws, m') \<Longrightarrow> reach m' (st @ started_in evs) (cl @ ws)"
proof (induction evs arbitrary: m st cl ws)
  case (Cons ev evs)
  obtain ws1 m1 where 1: "mstep ev m = (ws1, m1)" by (cases "mstep ev m")
  obtain ws2 where 2: "run_events evs m1 = (ws2, m')" "ws = ws1 @ ws2"
    using Cons.prems(3) 1 by (auto split: prod.splits)
  have "reach m1 (st @ started_by ev) (cl @ ws1)" using reach.step [OF Cons.prems(1) _ 1] Cons.prems(2) by simp
  from Cons.IH [OF this _ 2(1)] show ?case using Cons.prems(2) 1 2(2) by (simp add: started_in_def)
qed (simp add: started_in_def)

fun sweep_stops :: "'w event list \<Rightarrow> nat" where
  "sweep_stops [] = 0"
| "sweep_stops (SweepStop # evs) = Suc (sweep_stops evs)"
| "sweep_stops (ev # evs) = sweep_stops evs"

definition lives :: "'w manager \<Rightarrow> string \<Rightarrow> 'w \<Rightarrow> bool" where
  "lives m p w \<longleftrightarrow> map_of (mg_workers m) p = Some w"

lemma lives_back:
  assumes "mstep ev m = (ws, m')" "lives m' p w" "w \<notin> set (started_by ev)" "starts_ok m" "enabled ev m"
  shows "lives m p w"
proof (cases ev)
  case (Finish c res tok now)
  obtain a b where "res = (a, b)" by (cases res)
  then show ?thesis using assms Finish
    by (cases a; cases b)
       (auto simp: lives_def Ensure_finish_def start_error_def complete_def set_token_def Let_def update_conv'
         split: option.splits if_splits)
next
  case (Begin cfg)
  then show ?thesis using assms by (auto simp: lives_def Ensure_begin_def Let_def split: option.splits if_splits)
next
  case (Mint q t now)
  then show ?thesis using assms by (auto simp: lives_def TokenOrMint_def set_token_def split: option.splits if_splits)
qed (use assms in \<open>auto simp: lives_def Stop_worker_def forget_def Close_def Touch_def StartSweeper_def delete_conv'
      sweep_tick_def Sweep_def sweep_stop_def Let_def split: option.splits if_splits list.splits\<close>)

text \<open>The queue of the sweeper changes only by a tick or a stop of its pass.\<close>

lemma queue_step:
  assumes "mstep ev m = (ws, m')" "enabled ev m" "mg_swept m \<noteq> []"
  shows "mg_swept m' = (if ev = SweepStop then tl (mg_swept m) else mg_swept m)"
  using assms
  by (cases ev)
     (auto simp: Ensure_begin_def Ensure_finish_def complete_def Stop_worker_def forget_def Close_def TokenOrMint_def set_token_def
       Touch_def StartSweeper_def sweep_stop_def Let_def split: option.splits if_splits list.splits)

lemma stop_hits:
  assumes "mstep SweepStop m = (ws, m')" "mg_swept m = p # ps" "lives m p w"
  shows "\<not> lives m' p w'"
  using assms by (auto simp: lives_def sweep_stop_def Stop_worker_def forget_def delete_conv')


lemma leaves_closed:
  assumes "mstep ev m = (ws, m')" "lives m p w" "\<not> lives m' p w" "starts_ok m" "enabled ev m"
  shows "w \<in> set ws"
proof (cases ev)
  case (Finish c res tok now)
  obtain a b where res: "res = (a, b)" by (cases res)
  have "p \<noteq> sc_project (mg_calls m ! c)"
  proof
    assume "p = sc_project (mg_calls m ! c)"
    then have "map_of (mg_inflight m) p = Some c" using assms(4,5) Finish by (simp add: starts_ok_def pending_def)
    then show False using assms(2,4) keys_some [of "mg_inflight m" p c] keys_some [of "mg_workers m" p w]
      unfolding starts_ok_def lives_def by blast
  qed
  then show ?thesis using assms Finish res
    by (cases a; cases b)
       (auto simp: lives_def Ensure_finish_def start_error_def complete_def set_token_def Let_def update_conv'
         split: option.splits if_splits)
next
  case CloseAll
  then show ?thesis using assms by (force simp: lives_def Close_def Let_def split: if_splits dest!: map_of_SomeD)
qed (use assms in \<open>auto simp: lives_def Ensure_begin_def Stop_worker_def forget_def TokenOrMint_def set_token_def Touch_def
      StartSweeper_def delete_conv' sweep_tick_def Sweep_def sweep_stop_def Let_def split: option.splits if_splits list.splits\<close>)

lemma drained:
  "reach m st cl \<Longrightarrow> all_enabled evs m \<Longrightarrow> run_events evs m = (ws, m') \<Longrightarrow> w \<notin> set (started_in evs) \<Longrightarrow>
   lives m p w \<Longrightarrow> p \<in> set (mg_swept m) \<Longrightarrow> length (mg_swept m) \<le> sweep_stops evs \<Longrightarrow> w \<in> set ws"
proof (induction evs arbitrary: m st cl ws)
  case Nil
  then show ?case by simp
next
  case (Cons ev evs)
  obtain ws1 m1 where 1: "mstep ev m = (ws1, m1)" by (cases "mstep ev m")
  obtain ws2 where 2: "run_events evs m1 = (ws2, m')" "ws = ws1 @ ws2"
    using Cons.prems(3) 1 by (auto split: prod.splits)
  have en: "enabled ev m" "all_enabled evs m1" using Cons.prems(2) 1 by simp_all
  have ok: "starts_ok m" using reach_ok [OF Cons.prems(1)] by simp
  show ?case
  proof (cases "lives m1 p w")
    case False
    then show ?thesis using leaves_closed [OF 1 Cons.prems(5) _ ok en(1)] 2 by simp
  next
    case True
    have ne: "mg_swept m \<noteq> []" using Cons.prems(6) by auto
    note q = queue_step [OF 1 en(1) ne]
    have "p \<in> set (mg_swept m1) \<and> length (mg_swept m1) \<le> sweep_stops evs"
    proof (cases "ev = SweepStop")
      case True': True
      obtain r rs where r: "mg_swept m = r # rs" using ne by (cases "mg_swept m") auto
      have "r \<noteq> p" using stop_hits [of m ws1 m1 p rs w w] 1 True' r Cons.prems(5) True by auto
      then show ?thesis using q r True' Cons.prems(6,7) by auto
    next
      case False
      then have "sweep_stops (ev # evs) = sweep_stops evs" by (cases ev) simp_all
      then show ?thesis using q False Cons.prems(6,7) by simp
    qed
    then have "w \<in> set ws2"
      using Cons.IH [OF reach.step [OF Cons.prems(1) en(1) 1] en(2) 2(1)] Cons.prems(4) True by (simp add: started_in_def)
    then show ?thesis using 2 by simp
  qed
qed

text \<open>
  C30: an idle browser is stopped. If a tick of the sweeper finds the project silent for longer than the
  limit, then whatever requests come in between, the browser has been closed by the time the
  sweeper has made as many stops as it swept projects.
\<close>

theorem idle_browser_stopped:
  assumes "reach m st cl" "lives m p w" "map_of (mg_lastSeen m) p = Some seen" "silence < time_sub now seen"
    and "all_enabled (Tick now silence # evs) m" "run_events (Tick now silence # evs) m = (ws, m')"
    and "w \<notin> set (started_in evs)" "length (fst (Sweep now silence m)) \<le> sweep_stops evs"
  shows "w \<in> set ws"
proof -
  let ?m = "sweep_tick now silence m"
  have tick: "mstep (Tick now silence) m = ([], ?m)" by simp
  have swept: "mg_swept ?m = fst (Sweep now silence m)" by (simp add: sweep_tick_def split: prod.split)
  have "p \<in> set (mg_swept ?m)"
    using assms(3,4) by (force simp: swept Sweep_def Let_def dest!: map_of_SomeD)
  moreover have "lives ?m p w" using assms(2) by (simp add: lives_def sweep_tick_def Sweep_def Let_def)
  moreover have "run_events evs ?m = (ws, m')" using assms(6) by (auto split: prod.splits)
  ultimately show ?thesis
    using drained [OF reach.step [OF assms(1) _ tick], of evs ws m' w p] assms(5,7,8) swept by simp
qed

text \<open>A browser started at second 1 and not used; minutes later the sweeper comes by.\<close>

abbreviation sample_config :: config where
  "sample_config \<equiv> \<lparr>cf_ProjectID = ''p'', cf_ContainerID = ''c'', cf_Port = 0, cf_ViewWidth = 0, cf_ViewHeight = 0\<rparr>"

abbreviation sample_start :: "nat event list" where
  "sample_start \<equiv> [SweeperOn, Begin sample_config, Finish 0 (Some 7, None) ''t1'' second]"

definition sample_up :: "nat manager" where
  "sample_up = snd (run_events sample_start NewManager)"

lemma sample_reach: "reach sample_up [7] []"
proof -
  have "all_enabled sample_start NewManager" "run_events sample_start NewManager = ([], sample_up)"
    "[] @ started_in sample_start = [7]"
    by code_simp+
  then show ?thesis using reach_run [OF reach.start] by fastforce
qed

theorem idle_browser_stopped_witness:
  "(7::nat) \<in> set (fst (run_events [Tick (30 * minute) (10 * minute), Mint ''p'' ''t2'' (30 * minute), SweepStop] sample_up))"
  by (rule idle_browser_stopped [OF sample_reach _ _ _ _ prod.collapse [symmetric], of "''p''" 7 second]) code_simp+

text \<open>
  The stops of a pass can hit a browser that is in use again. The key minted after the sweep is
  handed out, and the stop that follows ends the browser and the key although nobody was silent.
\<close>

theorem sweep_kills_reopened:
  "let (ws, m) = run_events [Tick (30 * minute) (10 * minute), Mint ''p'' ''t2'' (30 * minute), Touched ''p'' (30 * minute), SweepStop] sample_up
   in reach m [7] [7] \<and> ws = [7] \<and> \<not> CheckToken ''p'' ''t2'' m \<and> Get ''p'' m = Inl (sentinel ErrWorkerNotFound) \<and>
      CheckToken ''p'' ''t2'' (snd (run_events [Tick (30 * minute) (10 * minute), Mint ''p'' ''t2'' (30 * minute), Touched ''p'' (30 * minute)] sample_up))"
proof -
  let ?evs = "[Tick (30 * minute) (10 * minute), Mint ''p'' ''t2'' (30 * minute), Touched ''p'' (30 * minute), SweepStop] :: nat event list"
  obtain ws m where r: "run_events ?evs sample_up = (ws, m)" by (cases "run_events ?evs sample_up")
  have "all_enabled ?evs sample_up" "[7] @ started_in ?evs = [7]" "fst (run_events ?evs sample_up) = [7]" by code_simp+
  then have "reach m [7] [7]" using reach_run [OF sample_reach _ r] r by auto
  moreover have "\<not> CheckToken ''p'' ''t2'' (snd (run_events ?evs sample_up))"
    "Get ''p'' (snd (run_events ?evs sample_up)) = Inl (sentinel ErrWorkerNotFound)"
    "CheckToken ''p'' ''t2'' (snd (run_events (butlast ?evs) sample_up))" "fst (run_events ?evs sample_up) = [7]"
    by code_simp+
  ultimately show ?thesis using r by (simp del: run_events.simps mstep.simps)
qed

theorem browsers_accounted_witness:
  "mset [7::nat] = mset (map snd (mg_workers sample_up)) + mset [] \<and> distinct (map fst (mg_workers sample_up)) \<and>
    keys (mg_inflight sample_up) \<inter> keys (mg_workers sample_up) = {}"
  using browsers_accounted [OF sample_reach, of 0] by blast

theorem manager_refines_witness:
  "promised (snd (mstep (StopOf ''p'') sample_up)) = astep (AStop ''p'') (promised sample_up)"
  using manager_refines [OF sample_reach, of "StopOf ''p''" "''p''" "''t1''"] by simp

end
