(* ===== verification/Sidecar.thy ===== *)
theory Sidecar
  imports Preview
begin

text \<open>
  server/internal/preview: how a browser sidecar is started and closed (docker_runtime.go, image.go),
  the size of its desktop (framebuffer.go) and the sweep of left-over containers (janitor.go). The
  Docker client answers through the record \<open>client\<close>; what the HTTP probes of the browser see is a
  parameter; log lines are left out.
\<close>

definition DefaultBrowserImage :: string where "DefaultBrowserImage = ''pcoder-browser:v14''"
definition SidecarChromiumPort :: int where "SidecarChromiumPort = 9222"
definition SidecarCDPProxyPort :: int where "SidecarCDPProxyPort = 9223"
definition SidecarNoVNCPort :: int where "SidecarNoVNCPort = 6080"
definition sidecarNamePrefix :: string where "sidecarNamePrefix = ''pcoder-preview-''"
definition relayNamePrefix :: string where "relayNamePrefix = ''pcoder-preview-relay-''"

abbreviation cdpPort :: int where "cdpPort \<equiv> SidecarCDPProxyPort"
abbreviation novncPort :: int where "novncPort \<equiv> SidecarNoVNCPort"


section \<open>The desktop\<close>

definition MaxFramebufferPixels :: int where "MaxFramebufferPixels = 4000000"
definition MinViewport :: int where "MinViewport = 100"
definition DisplayWidth :: int where "DisplayWidth = 1920"
definition DisplayHeight :: int where "DisplayHeight = 1080"

text \<open>
  \<open>shrink px side\<close> is the floating-point expression \<open>int(float64(side) * math.Sqrt(MaxFramebufferPixels / px))\<close>;
  the product of the sides is taken in 64 bits.
\<close>

definition FramebufferSize :: "(int \<Rightarrow> int \<Rightarrow> int) \<Rightarrow> int \<Rightarrow> int \<Rightarrow> int \<times> int" where
  "FramebufferSize shrink viewWidth viewHeight =
     (if viewWidth < MinViewport \<or> viewHeight < MinViewport then (DisplayWidth, DisplayHeight)
      else (let px = wrap64 (viewWidth * viewHeight)
            in if MaxFramebufferPixels < px then (shrink px viewWidth, shrink px viewHeight)
               else (viewWidth, viewHeight)))"


section \<open>Starting a sidecar\<close>

record endpoint =
  ep_CDP :: string
  ep_Display :: string

record docker_worker =
  dw_id :: string
  dw_relayID :: string
  dw_endpoint :: endpoint

text \<open>
  The probes. \<open>pb_version e k\<close> is the status of the \<open>k\<close>-th request for the version of endpoint \<open>e\<close> and whether
  its body names a debugger URL (\<open>None\<close>: no answer); \<open>pb_over e k\<close> is the error of the context when it is
  over after that request.
\<close>

record probes =
  pb_version :: "string \<Rightarrow> nat \<Rightarrow> (int \<times> bool) option"
  pb_over :: "string \<Rightarrow> nat \<Rightarrow> string option"

fun direct_loop :: "probes \<Rightarrow> string \<Rightarrow> nat \<Rightarrow> nat \<Rightarrow> bool" where
  "direct_loop pb e k 0 = False"
| "direct_loop pb e k (Suc n) =
     (if 0 < k \<and> pb_over pb e (k - 1) \<noteq> None then False
      else case pb_version pb e k of
             Some (status, _) \<Rightarrow> if status = 200 then True else direct_loop pb e (Suc k) n
           | None \<Rightarrow> direct_loop pb e (Suc k) n)"

definition directCDPReady :: "probes \<Rightarrow> string \<Rightarrow> bool" where
  "directCDPReady pb e = direct_loop pb e 0 5"

partial_function (option) wait_loop :: "probes \<Rightarrow> string \<Rightarrow> nat \<Rightarrow> go_err option option" where
  [code]: "wait_loop pb e k =
     (if pb_version pb e k = Some (200, True) then Some None
      else case pb_over pb e k of
             Some c \<Rightarrow> Some (Some (wrapf (''wait for CDP at '' @ e) (errorf c)))
           | None \<Rightarrow> wait_loop pb e (Suc k))"

definition WaitForCDP :: "probes \<Rightarrow> string \<Rightarrow> go_err option option" where
  "WaitForCDP pb e = wait_loop pb e 0"

text \<open>\<open>net.JoinHostPort\<close> brackets a host with a colon.\<close>

definition join_host_port :: "string \<Rightarrow> int \<Rightarrow> string" where
  "join_host_port host port = (if CHR '':'' \<in> set host then ''['' @ host @ '']:'' else host @ '':'') @ itoa port"

definition endpoint_at :: "string \<Rightarrow> endpoint" where
  "endpoint_at ip = \<lparr>ep_CDP = ''http://'' @ join_host_port ip cdpPort, ep_Display = ''http://'' @ join_host_port ip novncPort\<rparr>"

definition ensureBrowserImage :: "client \<Rightarrow> string \<Rightarrow> go_err option docker_op" where
  "ensureBrowserImage d img h =
     (case dk_unit d (CInspectImage img) h of
        (None, h1) \<Rightarrow> (None, h1)
      | (Some e, h1) \<Rightarrow> if is_err e ErrNotFound then dk_unit d (CBuild img) h1 else (Some e, h1))"

text \<open>A same-name container left by a crash is removed and the run repeated once.\<close>

definition run_healing :: "client \<Rightarrow> spec \<Rightarrow> (go_err + string) docker_op" where
  "run_healing d sp h =
     (case dk_run d sp h of
        (Inl e, h1) \<Rightarrow>
          if contains (ge_text e) ''already exists'' then dk_run d sp (snd (dk_unit d (CRemove (sp_Name sp) True) h1))
          else (Inl e, h1)
      | (Inr i, h1) \<Rightarrow> (Inr i, h1))"

abbreviation remove_it :: "client \<Rightarrow> string \<Rightarrow> docker_call list \<Rightarrow> docker_call list" where
  "remove_it d i h \<equiv> snd (dk_unit d (CRemove i True) h)"

definition browser_image :: "string \<Rightarrow> string" where
  "browser_image img = (if img = [] then DefaultBrowserImage else img)"

definition relay_command :: "string \<Rightarrow> string" where
  "relay_command ip =
     ''socat TCP-LISTEN:'' @ itoa cdpPort @ '',fork,bind=0.0.0.0,reuseaddr TCP:'' @ ip @ '':'' @ itoa cdpPort @
     '' & socat TCP-LISTEN:'' @ itoa novncPort @ '',fork,bind=0.0.0.0,reuseaddr TCP:'' @ ip @ '':'' @ itoa novncPort @ ''; wait''"

definition relay_container :: "(nat \<Rightarrow> nat) \<Rightarrow> string \<Rightarrow> string \<Rightarrow> string \<Rightarrow> spec" where
  "relay_container lo img p ip =
     \<lparr>sp_Name = relayNamePrefix @ SanitizeName lo p, sp_Image = browser_image img, sp_Cmd = [relay_command ip],
      sp_Env = [], sp_WorkDir = [], sp_Writable = False, sp_Memory = 0, sp_Network = DefaultNetwork, sp_Volumes = [],
      sp_Binds = [], sp_Entrypoint = [''sh'', ''-c''], sp_PublishLoopback = [cdpPort, novncPort]\<rparr>"

text \<open>Reading the map of published ports gives 0 for a port that is not there.\<close>

definition port_at :: "container \<Rightarrow> int \<Rightarrow> int" where
  "port_at c p = (case map_of (ct_Published c) p of None \<Rightarrow> 0 | Some hp \<Rightarrow> hp)"

definition startRelay :: "(nat \<Rightarrow> nat) \<Rightarrow> client \<Rightarrow> string \<Rightarrow> string \<Rightarrow> string \<Rightarrow> (go_err + string \<times> endpoint) docker_op" where
  "startRelay lo d img p ip h =
     (case run_healing d (relay_container lo img p ip) h of
        (Inl e, h1) \<Rightarrow> (Inl (wrapf ''run preview relay'' e), h1)
      | (Inr i, h1) \<Rightarrow>
          (case dk_inspect d i h1 of
             (Inl e, h2) \<Rightarrow> (Inl (wrapf ''inspect preview relay'' e), remove_it d i h2)
           | (Inr c, h2) \<Rightarrow>
               if \<not> ct_Running c \<or> port_at c cdpPort \<le> 0 \<or> port_at c novncPort \<le> 0 then
                 (Inl (errorf (''preview relay has no loopback publications (cdp '' @ itoa (port_at c cdpPort) @
                    '', display '' @ itoa (port_at c novncPort) @ '')'')), remove_it d i h2)
               else if ct_NetworkIP c = [] then (Inl (errorf ''preview relay has no bridge IP''), remove_it d i h2)
               else (Inr (i, endpoint_at (ct_NetworkIP c)), h2)))"

definition sidecar_container :: "(nat \<Rightarrow> nat) \<Rightarrow> (int \<Rightarrow> int \<Rightarrow> int) \<Rightarrow> string \<Rightarrow> config \<Rightarrow> spec" where
  "sidecar_container lo shrink img cfg =
     (let target = (if 0 < cf_Port cfg then ''http://127.0.0.1:'' @ itoa (cf_Port cfg) else ''http://127.0.0.1:3000'');
          (w, hgt) = FramebufferSize shrink (cf_ViewWidth cfg) (cf_ViewHeight cfg)
      in \<lparr>sp_Name = sidecarNamePrefix @ SanitizeName lo (cf_ProjectID cfg), sp_Image = browser_image img, sp_Cmd = [],
          sp_Env = [''BROWSER_TARGET='' @ target, ''BROWSER_PROFILE=/tmp/pcoder-browser-profile'',
                    ''WIDTH='' @ itoa w, ''HEIGHT='' @ itoa hgt,
                    ''CDP_PORT='' @ itoa SidecarChromiumPort, ''CDP_PROXY_PORT='' @ itoa SidecarCDPProxyPort,
                    ''VNC_WEB_PORT='' @ itoa SidecarNoVNCPort],
          sp_WorkDir = [], sp_Writable = True, sp_Memory = 0, sp_Network = NetworkNamespace (cf_ContainerID cfg),
          sp_Volumes = [], sp_Binds = [], sp_Entrypoint = [], sp_PublishLoopback = []\<rparr>)"

definition cleanup :: "client \<Rightarrow> string \<Rightarrow> string \<Rightarrow> docker_call list \<Rightarrow> docker_call list" where
  "cleanup d cid relay h =
     (let h1 = remove_it d cid (snd (dk_unit d (CStop cid (5 * second)) h))
      in if relay \<noteq> [] then remove_it d relay (snd (dk_unit d (CStop relay (2 * second)) h1)) else h1)"

definition reach_endpoint :: "(nat \<Rightarrow> nat) \<Rightarrow> client \<Rightarrow> probes \<Rightarrow> string \<Rightarrow> config \<Rightarrow> string \<Rightarrow> (go_err + string \<times> endpoint) docker_op" where
  "reach_endpoint lo d pb img cfg ip h =
     (if directCDPReady pb (ep_CDP (endpoint_at ip)) then (Inr ([], endpoint_at ip), h)
      else startRelay lo d img (cf_ProjectID cfg) ip h)"

text \<open>After the sidecar runs: find its endpoints, start a relay where they cannot be reached, wait for the browser.\<close>

definition connect :: "(nat \<Rightarrow> nat) \<Rightarrow> client \<Rightarrow> probes \<Rightarrow> string \<Rightarrow> config \<Rightarrow> string \<Rightarrow> docker_call list
    \<Rightarrow> ((go_err + docker_worker) \<times> docker_call list) option" where
  "connect lo d pb img cfg cid h =
     (case dk_inspect d cid h of
        (Inl e, h1) \<Rightarrow> Some (Inl (wrapf ''inspect browser sidecar'' e), cleanup d cid [] h1)
      | (Inr c, h1) \<Rightarrow>
          if \<not> ct_Running c then
            Some (Inl (errorf (''browser sidecar exited before CDP became ready (status: '' @ ct_Status c @ '')'')), cleanup d cid [] h1)
          else
            (case dk_inspect d (cf_ContainerID cfg) h1 of
               (Inl e, h2) \<Rightarrow> Some (Inl (wrapf ''inspect project container'' e), cleanup d cid [] h2)
             | (Inr p, h2) \<Rightarrow>
                 if ct_NetworkIP p = [] then
                   Some (Inl (errorf ''project container has no network IP; cannot derive sidecar endpoints''), cleanup d cid [] h2)
                 else
                   (case reach_endpoint lo d pb img cfg (ct_NetworkIP p) h2 of
                      (Inl e, h3) \<Rightarrow> Some (Inl e, cleanup d cid [] h3)
                    | (Inr (relay, ep'), h3) \<Rightarrow>
                        (case WaitForCDP pb (ep_CDP ep') of
                           None \<Rightarrow> None
                         | Some (Some e) \<Rightarrow> Some (Inl e, cleanup d cid relay h3)
                         | Some None \<Rightarrow> Some (Inr \<lparr>dw_id = cid, dw_relayID = relay, dw_endpoint = ep'\<rparr>, h3)))))"

text \<open>\<open>None\<close>: the wait for the browser never ends.\<close>

definition factory_start :: "(nat \<Rightarrow> nat) \<Rightarrow> (int \<Rightarrow> int \<Rightarrow> int) \<Rightarrow> client \<Rightarrow> probes \<Rightarrow> string \<Rightarrow> config \<Rightarrow> docker_call list
    \<Rightarrow> ((go_err + docker_worker) \<times> docker_call list) option" where
  "factory_start lo shrink d pb img cfg h =
     (case validateConfig cfg of
        Some e \<Rightarrow> Some (Inl e, h)
      | None \<Rightarrow>
          (case ensureBrowserImage d (browser_image img) h of
             (Some e, h1) \<Rightarrow> Some (Inl (wrapf ''ensure browser image'' e), h1)
           | (None, h1) \<Rightarrow>
               (case run_healing d (sidecar_container lo shrink img cfg) h1 of
                  (Inl e, h2) \<Rightarrow> Some (Inl (wrapf ''run browser sidecar'' e), h2)
                | (Inr cid, h2) \<Rightarrow> connect lo d pb img cfg cid h2)))"

text \<open>\<open>dockerWorker.Close\<close>: the relay goes first, and only the sidecar's errors stop it early.\<close>

definition worker_close :: "client \<Rightarrow> docker_worker \<Rightarrow> go_err option docker_op" where
  "worker_close d w h =
     (let (first, h2) =
            (if dw_relayID w \<noteq> [] then
               (case dk_unit d (CStop (dw_relayID w) (2 * second)) h of
                  (e1, h1) \<Rightarrow>
                    (case dk_unit d (CRemove (dw_relayID w) True) h1 of
                       (e2, h2) \<Rightarrow>
                         (let keep = (\<lambda>e. case e of None \<Rightarrow> None | Some x \<Rightarrow> if is_err x ErrNotFound then None else Some x)
                          in (case keep e1 of None \<Rightarrow> keep e2 | Some x \<Rightarrow> Some x, h2))))
             else (None, h))
      in case dk_unit d (CStop (dw_id w) (5 * second)) h2 of
           (e3, h3) \<Rightarrow>
             if e3 \<noteq> None \<and> first = None then (e3, h3)
             else (case dk_unit d (CRemove (dw_id w) True) h3 of
                     (e4, h4) \<Rightarrow> if e4 \<noteq> None \<and> first = None then (e4, h4) else (first, h4)))"


section \<open>The janitor\<close>

definition previewSlug :: "string \<Rightarrow> string" where
  "previewSlug name = trim_prefix (trim_prefix name sidecarNamePrefix) ''relay-''"

definition liveSlugs :: "(nat \<Rightarrow> nat) \<Rightarrow> 'w manager \<Rightarrow> string list" where
  "liveSlugs lo m = map (SanitizeName lo) (map fst (mg_workers m) @ map fst (mg_inflight m))"

fun sweep_loop :: "client \<Rightarrow> string list \<Rightarrow> container_info list \<Rightarrow> string list \<Rightarrow> go_err option
    \<Rightarrow> (string list \<times> go_err option) docker_op" where
  "sweep_loop d live [] removed firstErr h = ((removed, firstErr), h)"
| "sweep_loop d live (c # cs) removed firstErr h =
     (if List.member live (previewSlug (ci_Name c)) then sweep_loop d live cs removed firstErr h
      else (case dk_unit d (CStop (ci_ID c) (5 * second)) h of
              (serr, h1) \<Rightarrow>
                (let first1 = (case (serr, firstErr) of
                                 (Some e, None) \<Rightarrow> Some (wrapf (''stop orphaned '' @ ci_Name c) e) | _ \<Rightarrow> firstErr)
                 in case dk_unit d (CRemove (ci_ID c) True) h1 of
                      (rerr, h2) \<Rightarrow>
                        (let first2 = (case (rerr, first1) of
                                         (Some e, None) \<Rightarrow> Some (wrapf (''remove orphaned '' @ ci_Name c) e) | _ \<Rightarrow> first1)
                         in sweep_loop d live cs (removed @ [ci_Name c]) first2 h2))))"

definition SweepContainers :: "(nat \<Rightarrow> nat) \<Rightarrow> client \<Rightarrow> 'w manager \<Rightarrow> (string list \<times> go_err option) docker_op" where
  "SweepContainers lo d m h =
     (case dk_list d sidecarNamePrefix h of
        (Inl e, h1) \<Rightarrow> (([], Some e), h1)
      | (Inr cs, h1) \<Rightarrow> sweep_loop d (liveSlugs lo m) cs [] None h1)"

section \<open>Containers left behind\<close>

text \<open>
  The containers that the calls of a history started and did not remove again, as the answers tell.
\<close>

fun own_step :: "client \<Rightarrow> docker_call list \<Rightarrow> docker_call \<Rightarrow> string set \<Rightarrow> string set" where
  "own_step d h (CRun sp) A = (case cl_run d h of Inr i \<Rightarrow> insert i A | Inl _ \<Rightarrow> A)"
| "own_step d h (CRemove i force) A = A - {i}"
| "own_step d h _ A = A"

fun own_rev :: "client \<Rightarrow> docker_call list \<Rightarrow> string set" where
  "own_rev d [] = {}"
| "own_rev d (c # r) = own_step d (rev (c # r)) c (own_rev d r)"

definition owned :: "client \<Rightarrow> docker_call list \<Rightarrow> string set" where
  "owned d h = own_rev d (rev h)"

lemma owned_snoc: "owned d (h @ [c]) = own_step d (h @ [c]) c (owned d h)"
  by (simp add: owned_def)

named_theorems own_dests

lemma own_run_ok [own_dests]: "dk_run d sp h = (Inr i, h') \<Longrightarrow> owned d h' = insert i (owned d h)"
  by (auto simp: dk_run_def owned_snoc)

lemma own_run_failed [own_dests]: "dk_run d sp h = (Inl e, h') \<Longrightarrow> owned d h' = owned d h"
  by (auto simp: dk_run_def owned_snoc)

lemma own_inspect [own_dests]: "dk_inspect d i h = (r, h') \<Longrightarrow> owned d h' = owned d h"
  by (auto simp: dk_inspect_def owned_snoc)

lemma own_unit: "owned d (snd (dk_unit d c h)) = own_step d (h @ [c]) c (owned d h)"
  by (simp add: dk_unit_def owned_snoc)

lemma own_unitD: "dk_unit d c h = (e, h') \<Longrightarrow> owned d h' = own_step d (h @ [c]) c (owned d h)"
  by (metis own_unit snd_conv)

lemma own_image [own_dests]:
  assumes "ensureBrowserImage d img h = (e, h')"
  shows "owned d h' = owned d h"
proof -
  obtain r h1 where 1: "dk_unit d (CInspectImage img) h = (r, h1)" by (cases "dk_unit d (CInspectImage img) h")
  have "owned d h1 = owned d h" using own_unitD [OF 1] by simp
  moreover have "owned d h' = owned d h1" if "dk_unit d (CBuild img) h1 = (e, h')" using own_unitD [OF that] by simp
  ultimately show ?thesis using assms 1 by (auto simp: ensureBrowserImage_def split: option.splits if_splits)
qed

lemma own_heal_ok [own_dests]: "run_healing d sp h = (Inr i, h') \<Longrightarrow> owned d h' \<subseteq> insert i (owned d h)"
  by (auto simp: run_healing_def own_unit dest!: own_dests split: prod.splits sum.splits if_splits)

lemma own_heal_failed [own_dests]: "run_healing d sp h = (Inl e, h') \<Longrightarrow> owned d h' \<subseteq> owned d h"
  by (auto simp: run_healing_def own_unit dest!: own_dests split: prod.splits sum.splits if_splits)

lemma own_relay_failed [own_dests]: "startRelay lo d img p ip h = (Inl e, h') \<Longrightarrow> owned d h' \<subseteq> owned d h"
  by (auto simp: startRelay_def own_unit dest!: own_dests split: prod.splits sum.splits if_splits)

lemma own_relay_ok [own_dests]: "startRelay lo d img p ip h = (Inr (i, ep), h') \<Longrightarrow> owned d h' \<subseteq> insert i (owned d h)"
  by (auto simp: startRelay_def dest!: own_dests split: prod.splits sum.splits if_splits)

lemma own_cleanup: "owned d (cleanup d cid relay h) = owned d h - {cid} - (if relay = [] then {} else {relay})"
  by (auto simp: cleanup_def Let_def own_unit)


lemma relay_named:
  assumes "startRelay lo d img p ip h = (Inr (i, ep), h')" "\<And>h. cl_run d h \<noteq> Inr []"
  shows "i \<noteq> []"
proof -
  have "i \<noteq> []" if "run_healing d sp h = (Inr i, h1)" for sp h1
    using that assms(2) by (auto simp: run_healing_def dk_run_def split: prod.splits sum.splits if_splits)
  then show ?thesis using assms(1) by (auto simp: startRelay_def split: prod.splits sum.splits if_splits)
qed

lemma own_endpoint:
  assumes "reach_endpoint lo d pb img cfg ip h = (r, h')" "\<And>h. cl_run d h \<noteq> Inr []"
  shows "case r of Inl e \<Rightarrow> owned d h' \<subseteq> owned d h
    | Inr (i, ep) \<Rightarrow> owned d h' \<subseteq> (if i = [] then owned d h else insert i (owned d h))"
  using assms own_relay_failed own_relay_ok relay_named [OF _ assms(2)]
  by (fastforce simp: reach_endpoint_def split: if_splits sum.split prod.split)

text \<open>What a start may leave behind: nothing when it fails, the sidecar and its relay when it succeeds.\<close>

fun leaves :: "client \<Rightarrow> string set \<Rightarrow> (go_err + docker_worker) \<times> docker_call list \<Rightarrow> bool" where
  "leaves d A (Inl e, h) \<longleftrightarrow> owned d h \<subseteq> A"
| "leaves d A (Inr w, h) \<longleftrightarrow> owned d h \<subseteq> A \<union> {dw_id w} \<union> (if dw_relayID w = [] then {} else {dw_relayID w})"

lemma leaves_connect:
  assumes "connect lo d pb img cfg cid h = Some rh" "owned d h \<subseteq> insert cid A" "\<And>h. cl_run d h \<noteq> Inr []"
  shows "leaves d A rh"
proof -
  obtain r1 h1 where 1: "dk_inspect d cid h = (r1, h1)" by (cases "dk_inspect d cid h")
  obtain r2 h2 where 2: "dk_inspect d (cf_ContainerID cfg) h1 = (r2, h2)" by (cases "dk_inspect d (cf_ContainerID cfg) h1")
  have o1: "owned d h1 = owned d h" and o2: "owned d h2 = owned d h"
    using own_inspect [OF 1] own_inspect [OF 2] by simp_all
  have failed: "leaves d A (Inl e, cleanup d cid [] h')" if "owned d h' \<subseteq> owned d h" for e h'
    using that assms(2) by (auto simp: own_cleanup)
  show ?thesis
  proof (cases "\<exists>c p. r1 = Inr c \<and> ct_Running c \<and> r2 = Inr p \<and> ct_NetworkIP p \<noteq> []")
    case False
    then show ?thesis using assms(1) 1 2 o1 o2
      by (auto simp: connect_def split: sum.splits if_splits intro!: failed simp del: leaves.simps)
  next
    case True
    then obtain c p where cp: "r1 = Inr c" "ct_Running c" "r2 = Inr p" "ct_NetworkIP p \<noteq> []" by blast
    obtain r3 h3 where 3: "reach_endpoint lo d pb img cfg (ct_NetworkIP p) h2 = (r3, h3)"
      by (cases "reach_endpoint lo d pb img cfg (ct_NetworkIP p) h2")
    have rh: "connect lo d pb img cfg cid h = (case (r3, h3) of
                         (Inl e, h3) \<Rightarrow> Some (Inl e, cleanup d cid [] h3)
                       | (Inr (relay, ep'), h3) \<Rightarrow>
                           (case WaitForCDP pb (ep_CDP ep') of
                              None \<Rightarrow> None
                            | Some (Some e) \<Rightarrow> Some (Inl e, cleanup d cid relay h3)
                            | Some None \<Rightarrow> Some (Inr \<lparr>dw_id = cid, dw_relayID = relay, dw_endpoint = ep'\<rparr>, h3)))"
      using 1 2 3 cp by (simp add: connect_def)
    show ?thesis
    proof (cases r3)
      case (Inl e)
      then show ?thesis using rh assms(1) failed [of h3] own_endpoint [OF 3 assms(3)] o2 by auto
    next
      case (Inr x)
      obtain relay ep' where x: "x = (relay, ep')" by (cases x)
      have "owned d h3 \<subseteq> (if relay = [] then owned d h else insert relay (owned d h))"
        using own_endpoint [OF 3 assms(3)] o2 Inr x by (cases "relay = []") simp_all
      then show ?thesis using rh assms(1,2) Inr x
        by (auto simp: own_cleanup split: option.splits if_splits)
    qed
  qed
qed

text \<open>A context with a deadline is over after some request.\<close>

lemma wait_returns:
  assumes "pb_over pb e (k + n) \<noteq> None"
  shows "wait_loop pb e k \<noteq> None"
  using assms
proof (induction n arbitrary: k)
  case 0
  then show ?case by (subst wait_loop.simps) auto
next
  case (Suc n)
  then have "wait_loop pb e (Suc k) \<noteq> None" by simp
  then show ?case by (subst wait_loop.simps) (auto split: option.split)
qed

lemma WaitForCDP_returns: "pb_over pb e n \<noteq> None \<Longrightarrow> WaitForCDP pb e \<noteq> None"
  using wait_returns [of pb e 0 n] by (simp add: WaitForCDP_def)

lemma connect_returns:
  assumes "\<And>e. \<exists>n. pb_over pb e n \<noteq> None"
  shows "connect lo d pb img cfg cid h \<noteq> None"
proof -
  define f where "f e = the (WaitForCDP pb e)" for e
  have f: "WaitForCDP pb e = Some (f e)" for e
  proof -
    obtain n where "pb_over pb e n \<noteq> None" using assms by blast
    from WaitForCDP_returns [of pb e n, OF this] show ?thesis by (simp add: f_def)
  qed
  obtain r1 h1 where 1: "dk_inspect d cid h = (r1, h1)" by (cases "dk_inspect d cid h")
  obtain r2 h2 where 2: "dk_inspect d (cf_ContainerID cfg) h1 = (r2, h2)" by (cases "dk_inspect d (cf_ContainerID cfg) h1")
  show ?thesis
    by (cases r1; cases r2) (simp_all add: connect_def 1 2 f case_prod_beta split: sum.split option.split)
qed


text \<open>Closing a worker without an error removes both of its containers.\<close>

lemma close_removes:
  assumes "worker_close d w h = (None, h')"
  shows "owned d h' \<subseteq> owned d h - {dw_id w} - (if dw_relayID w = [] then {} else {dw_relayID w})"
  using assms
  by (auto simp: worker_close_def Let_def dest!: own_unitD split: prod.splits option.splits if_splits)


text \<open>An engine on which everything works, and a browser that never answers within its three seconds.\<close>

definition sample_client :: client where
  "sample_client = \<lparr>cl_unit = \<lambda>_. None, cl_run = \<lambda>h. Inr (CHR ''c'' # nat_digits (length h)),
     cl_inspect = \<lambda>_. Inr \<lparr>ct_ID = ''x'', ct_Running = True, ct_Status = ''running'', ct_Image = ''i'',
       ct_NetworkIP = ''10.0.0.2'', ct_Published = [(9223, 40001), (6080, 40002)]\<rparr>,
     cl_exec = \<lambda>_. Inr \<lparr>er_ExitCode = 0, er_Output = []\<rparr>, cl_list = \<lambda>_. Inr []\<rparr>"

definition silent_browser :: probes where
  "silent_browser = \<lparr>pb_version = \<lambda>e k. None, pb_over = \<lambda>e k. if k < 60 then None else Some ''context deadline exceeded''\<rparr>"


section \<open>The janitor\<close>

lemma sweep_loop_exact:
  "\<exists>e. sweep_loop d live cs removed first h =
     ((removed @ map ci_Name (filter (\<lambda>c. \<not> List.member live (previewSlug (ci_Name c))) cs), e),
      h @ concat (map (\<lambda>c. [CStop (ci_ID c) (5 * second), CRemove (ci_ID c) True])
        (filter (\<lambda>c. \<not> List.member live (previewSlug (ci_Name c))) cs)))"
proof (induction cs arbitrary: removed first h)
  case (Cons c cs)
  show ?case
  proof (cases "List.member live (previewSlug (ci_Name c))")
    case False
    let ?gone = "filter (\<lambda>c. \<not> List.member live (previewSlug (ci_Name c))) cs"
    have "\<exists>e. sweep_loop d live cs (removed @ [ci_Name c]) f (h @ [CStop (ci_ID c) (5 * second), CRemove (ci_ID c) True]) =
       ((removed @ ci_Name c # map ci_Name ?gone, e), h @ CStop (ci_ID c) (5 * second) # CRemove (ci_ID c) True #
         concat (map (\<lambda>c. [CStop (ci_ID c) (5 * second), CRemove (ci_ID c) True]) ?gone))" for f
      using Cons.IH [of "removed @ [ci_Name c]" f "h @ [CStop (ci_ID c) (5 * second), CRemove (ci_ID c) True]"] by simp
    then show ?thesis using False by (simp add: dk_unit_def Let_def)
  qed (use Cons.IH in simp)
qed simp

lemma previewSlug_relay: "previewSlug (relayNamePrefix @ s) = s"
proof -
  have "relayNamePrefix @ s = sidecarNamePrefix @ ''relay-'' @ s" by (simp add: relayNamePrefix_def sidecarNamePrefix_def)
  then show ?thesis unfolding previewSlug_def by (simp only: trim_prefix_append)
qed

lemma previewSlug_sidecar: "previewSlug (sidecarNamePrefix @ s) = trim_prefix s ''relay-''"
  unfolding previewSlug_def by (simp only: trim_prefix_append)

lemma live_member: "p \<in> set (map fst (mg_workers m)) \<union> set (map fst (mg_inflight m)) \<Longrightarrow>
    List.member (liveSlugs lo m) (SanitizeName lo p)"
  by (auto simp: liveSlugs_def)

text \<open>
  The janitor removes exactly the left-overs. Every listed container whose slug belongs to no live
  worker and no start under way is stopped and removed, in order and whatever errors occur; the
  sidecar and the relay of a live project are kept, unless its slug begins with \<open>relay-\<close>.
\<close>

theorem janitor_spares_live:
  assumes "cl_list d (h @ [CListContainers sidecarNamePrefix]) = Inr cs"
    and "p \<in> set (map fst (mg_workers m)) \<union> set (map fst (mg_inflight m))"
  shows "(\<exists>e. SweepContainers lo d m h =
      (let gone = filter (\<lambda>c. \<not> List.member (liveSlugs lo m) (previewSlug (ci_Name c))) cs
       in ((map ci_Name gone, e), h @ CListContainers sidecarNamePrefix #
            concat (map (\<lambda>c. [CStop (ci_ID c) (5 * second), CRemove (ci_ID c) True]) gone)))) \<and>
    relayNamePrefix @ SanitizeName lo p \<notin> set (fst (fst (SweepContainers lo d m h))) \<and>
    (\<not> prefix ''relay-'' (SanitizeName lo p) \<longrightarrow>
     sidecarNamePrefix @ SanitizeName lo p \<notin> set (fst (fst (SweepContainers lo d m h))))"
proof -
  let ?gone = "filter (\<lambda>c. \<not> List.member (liveSlugs lo m) (previewSlug (ci_Name c))) cs"
  obtain e where e: "SweepContainers lo d m h = ((map ci_Name ?gone, e), h @ CListContainers sidecarNamePrefix #
      concat (map (\<lambda>c. [CStop (ci_ID c) (5 * second), CRemove (ci_ID c) True]) ?gone))"
    using sweep_loop_exact [of d "liveSlugs lo m" cs "[]" None "h @ [CListContainers sidecarNamePrefix]"] assms(1)
    by (auto simp: SweepContainers_def dk_list_def)
  have spared: "n \<notin> set (fst (fst (SweepContainers lo d m h)))" if "previewSlug n = SanitizeName lo p" for n
    using live_member [OF assms(2), of lo] that by (auto simp: e)
  have "relayNamePrefix @ SanitizeName lo p \<notin> set (fst (fst (SweepContainers lo d m h)))"
    by (rule spared) (rule previewSlug_relay)
  moreover have "sidecarNamePrefix @ SanitizeName lo p \<notin> set (fst (fst (SweepContainers lo d m h)))"
    if "\<not> prefix ''relay-'' (SanitizeName lo p)"
    by (rule spared) (use that in \<open>simp add: previewSlug_sidecar trim_prefix_def\<close>)
  ultimately show ?thesis using e by (auto simp: Let_def)
qed

text \<open>
  The exception is real: the browser of a live project whose owner is called \<open>relay-x\<close> counts as
  a left-over of the project \<open>x/app\<close>.
\<close>

lemma relay_owner_not_spared:
  "previewSlug (sidecarNamePrefix @ ''relay-x-app'') = ''x-app''"
  unfolding previewSlug_sidecar by code_simp

definition listing_client :: client where
  "listing_client = sample_client\<lparr>cl_list := \<lambda>_. Inr [\<lparr>ci_ID = ''1'', ci_Name = ''pcoder-preview-old'', ci_Running = False\<rparr>,
     \<lparr>ci_ID = ''2'', ci_Name = ''pcoder-preview-p'', ci_Running = True\<rparr>]\<rparr>"

theorem janitor_spares_live_witness:
  "relayNamePrefix @ SanitizeName id ''p'' \<notin> set (fst (fst (SweepContainers id listing_client sample_up [])))"
  by (rule janitor_spares_live [THEN conjunct2, THEN conjunct1]) (simp add: listing_client_def, code_simp)

text \<open>
  The product of the viewport's sides is taken in 64 bits: two sides of 2^32 multiply to zero, and
  the desktop is started at that size instead of being scaled to four million pixels.
\<close>

lemma seed_overflow: "FramebufferSize shrink (2 ^ 32) (2 ^ 32) = (2 ^ 32, 2 ^ 32)"
  by (simp add: FramebufferSize_def MinViewport_def MaxFramebufferPixels_def wrap64_def)

lemma seed_small: "MinViewport \<le> w \<Longrightarrow> MinViewport \<le> h \<Longrightarrow> w * h \<le> MaxFramebufferPixels \<Longrightarrow>
    FramebufferSize shrink w h = (w, h)"
proof -
  assume a: "MinViewport \<le> w" "MinViewport \<le> h" "w * h \<le> MaxFramebufferPixels"
  then have "0 \<le> w * h" by (simp add: MinViewport_def)
  then have "wrap64 (w * h) = w * h" using a by (simp add: MaxFramebufferPixels_def)
  then show ?thesis using a by (simp add: FramebufferSize_def)
qed

end
