(* ===== verification/SyncManifest.thy ===== *)
theory SyncManifest
  imports Prelude "HOL-Library.AList"
begin

text \<open>
  server/internal/sync/manifest.go, errors.go and the manifest parser of container.go: the covered
  working tree of one side as a list of entries, the validation that keeps every path inside the
  project, the plan (\<open>Diff\<close>) that turns one side into the other, and what is counted and moved.
\<close>

section \<open>Entries and plans\<close>

definition TypeFile :: string where "TypeFile = ''file''"
definition TypeSymlink :: string where "TypeSymlink = ''symlink''"
definition ActionAdded :: string where "ActionAdded = ''added''"
definition ActionOverwritten :: string where "ActionOverwritten = ''overwritten''"
definition ActionDeleted :: string where "ActionDeleted = ''deleted''"

lemmas action_defs = ActionAdded_def ActionOverwritten_def ActionDeleted_def
lemmas type_defs = TypeFile_def TypeSymlink_def

record sync_entry =
  se_path :: string
  se_size :: int
  se_mode :: nat
  se_type :: string
  se_hash :: string

type_synonym manifest = "sync_entry list"

record sync_op =
  so_path :: string
  so_action :: string

datatype manifest_error =
    InvalidPath string
  | InvalidType string string
  | InvalidHash string
  | DuplicatePath string
  | FieldCount nat
  | BadSize string
  | BadMode string

text \<open>A later entry of the same path replaces an earlier one, as it does in the map.\<close>

definition Index :: "manifest \<Rightarrow> (string \<times> sync_entry) list" where
  "Index m = fold (\<lambda>e. AList.update (se_path e) e) m []"

definition ValidPath :: "string \<Rightarrow> bool" where
  "ValidPath p \<longleftrightarrow>
     \<not> (p = '''' \<or> 1024 < length p \<or> prefix ''/'' p \<or> CHR 0x00 \<in> set p)
     \<and> \<not> (p = ''.git'' \<or> prefix ''.git/'' p)
     \<and> list_all (\<lambda>seg. seg \<noteq> '''' \<and> seg \<noteq> ''.'' \<and> seg \<noteq> ''..'') (split_on CHR ''/'' p)"

fun normalize_loop :: "string list \<Rightarrow> manifest \<Rightarrow> manifest_error option" where
  "normalize_loop seen [] = None"
| "normalize_loop seen (e # es) =
     (if \<not> ValidPath (se_path e) then Some (InvalidPath (se_path e))
      else if se_type e \<noteq> TypeFile \<and> se_type e \<noteq> TypeSymlink
        then Some (InvalidType (se_type e) (se_path e))
      else if length (se_hash e) \<noteq> 32 * 2 then Some (InvalidHash (se_path e))
      else if se_path e \<in> set seen then Some (DuplicatePath (se_path e))
      else normalize_loop (se_path e # seen) es)"

definition Normalize :: "manifest \<Rightarrow> manifest_error + manifest" where
  "Normalize m =
     (case normalize_loop [] m of
        Some err \<Rightarrow> Inl err
      | None \<Rightarrow> Inr (sort_key se_path m))"

definition differs :: "sync_entry \<Rightarrow> sync_entry \<Rightarrow> bool" where
  "differs se te \<longleftrightarrow> se_hash se \<noteq> se_hash te \<or> se_mode se \<noteq> se_mode te \<or> se_type se \<noteq> se_type te"

text \<open>
  The two range loops of \<open>Diff\<close> run over maps, in an order Go leaves open; the final sort by path,
  unique here, makes the result independent of it.
\<close>

definition diff_source :: "(string \<times> sync_entry) list \<Rightarrow> string \<times> sync_entry \<Rightarrow> sync_op list" where
  "diff_source dst = (\<lambda>(p, se).
     case map_of dst p of
       None \<Rightarrow> [\<lparr>so_path = p, so_action = ActionAdded\<rparr>]
     | Some te \<Rightarrow> if differs se te then [\<lparr>so_path = p, so_action = ActionOverwritten\<rparr>] else [])"

definition diff_target :: "(string \<times> sync_entry) list \<Rightarrow> string \<times> sync_entry \<Rightarrow> sync_op list" where
  "diff_target src = (\<lambda>(p, _).
     case map_of src p of None \<Rightarrow> [\<lparr>so_path = p, so_action = ActionDeleted\<rparr>] | Some _ \<Rightarrow> [])"

definition Diff :: "manifest \<Rightarrow> manifest \<Rightarrow> sync_op list" where
  "Diff source target =
     (let src = Index source; dst = Index target
      in sort_key so_path
           (concat (map (diff_source dst) src) @ concat (map (diff_target src) dst)))"

fun Counts :: "sync_op list \<Rightarrow> nat \<times> nat \<times> nat" where
  "Counts [] = (0, 0, 0)"
| "Counts (op # ops) =
     (let (a, ov, d) = Counts ops
      in if so_action op = ActionAdded then (a + 1, ov, d)
         else if so_action op = ActionOverwritten then (a, ov + 1, d)
         else if so_action op = ActionDeleted then (a, ov, d + 1)
         else (a, ov, d))"

definition TransferSet :: "manifest \<Rightarrow> sync_op list \<Rightarrow> sync_entry list" where
  "TransferSet source ops =
     (let byPath = Index source
      in List.map_filter
           (\<lambda>op. if so_action op = ActionDeleted then None else map_of byPath (so_path op)) ops)"

definition existingEntries :: "manifest \<Rightarrow> sync_op list \<Rightarrow> sync_entry list" where
  "existingEntries target ops =
     (let byPath = Index target
      in List.map_filter
           (\<lambda>op. if so_action op = ActionAdded then None else map_of byPath (so_path op)) ops)"

text \<open>Which mismatching path \<open>Compare\<close> names depends on Go's map order; that it fails does not.\<close>

datatype compare_error = FileCount nat nat | DidNotMatch string

definition Compare :: "manifest \<Rightarrow> manifest \<Rightarrow> compare_error option" where
  "Compare want got =
     (let wantIdx = Index want; gotIdx = Index got
      in if length wantIdx \<noteq> length gotIdx then Some (FileCount (length wantIdx) (length gotIdx))
         else map_option (\<lambda>(p, _). DidNotMatch p)
           (find (\<lambda>(p, e). case map_of gotIdx p of None \<Rightarrow> True | Some g \<Rightarrow> differs e g) wantIdx))"

datatype direction = Upload | Download

definition PlanOps :: "direction \<Rightarrow> manifest \<Rightarrow> manifest \<Rightarrow> sync_op list" where
  "PlanOps d client server = (if d = Download then Diff server client else Diff client server)"


section \<open>Indexes\<close>

lemma distinct_Index: "distinct (map fst (Index m))"
proof -
  have "distinct (map fst al) \<Longrightarrow> distinct (map fst (fold (\<lambda>e. AList.update (se_path e) e) m al))" for al
    by (induction m arbitrary: al) (simp_all add: distinct_update)
  then show ?thesis by (simp add: Index_def)
qed

lemma map_of_fold_update:
  "map_of (fold (\<lambda>e. AList.update (se_path e) e) m al) p =
     (case find (\<lambda>e. se_path e = p) (rev m) of Some e \<Rightarrow> Some e | None \<Rightarrow> map_of al p)"
proof (induction m arbitrary: al)
  case (Cons e m)
  then show ?case
    by (auto simp: update_conv find_append_case split: option.splits)
qed simp

lemma Index_lookup: "map_of (Index m) p = find (\<lambda>e. se_path e = p) (rev m)"
  by (simp add: Index_def map_of_fold_update split: option.splits)

lemma Index_path: "map_of (Index m) p = Some e \<Longrightarrow> e \<in> set m \<and> se_path e = p"
  by (auto simp: Index_lookup find_Some_iff in_set_conv_nth) (metis length_rev nth_mem set_rev in_set_conv_nth)

lemma Index_mem: "(p, e) \<in> set (Index m) \<longleftrightarrow> map_of (Index m) p = Some e"
  by (simp add: map_of_eq_Some_iff distinct_Index)

lemma Index_None: "map_of (Index m) p = None \<longleftrightarrow> p \<notin> se_path ` set m"
  by (auto simp: Index_lookup find_None_iff)

lemma Index_distinct: "distinct (map se_path m) \<Longrightarrow> e \<in> set m \<Longrightarrow> map_of (Index m) (se_path e) = Some e"
proof -
  assume d: "distinct (map se_path m)" and e: "e \<in> set m"
  obtain e' where e': "map_of (Index m) (se_path e) = Some e'"
    using e Index_None [of m "se_path e"] by (cases "map_of (Index m) (se_path e)") auto
  with Index_path [OF e'] d e have "e' = e" by (auto simp: distinct_map inj_on_def)
  with e' show ?thesis by simp
qed

section \<open>Plans\<close>

text \<open>What a plan must do about a path, read off the two sides.\<close>

definition needed :: "manifest \<Rightarrow> manifest \<Rightarrow> string \<Rightarrow> string option" where
  "needed source target p =
     (case (map_of (Index source) p, map_of (Index target) p) of
        (Some _, None) \<Rightarrow> Some ActionAdded
      | (Some se, Some te) \<Rightarrow> if differs se te then Some ActionOverwritten else None
      | (None, Some _) \<Rightarrow> Some ActionDeleted
      | (None, None) \<Rightarrow> None)"

lemma action_distinct [simp]:
  "ActionAdded \<noteq> ActionOverwritten" "ActionAdded \<noteq> ActionDeleted" "ActionOverwritten \<noteq> ActionDeleted"
  "ActionOverwritten \<noteq> ActionAdded" "ActionDeleted \<noteq> ActionAdded" "ActionDeleted \<noteq> ActionOverwritten"
  by (simp_all add: action_defs)

lemma needed_added: "needed s t p = Some ActionAdded \<Longrightarrow> map_of (Index t) p = None"
  by (cases "map_of (Index s) p"; cases "map_of (Index t) p") (auto simp: needed_def split: if_splits)

lemma needed_existing: "needed s t p = Some a \<Longrightarrow> a \<noteq> ActionAdded \<Longrightarrow> \<exists>e. map_of (Index t) p = Some e"
  by (cases "map_of (Index s) p"; cases "map_of (Index t) p") (auto simp: needed_def split: if_splits)

lemma diff_source_paths:
  "map so_path (concat (map (diff_source dst) src)) = map fst (filter (\<lambda>x. diff_source dst x \<noteq> []) src)"
  by (induction src) (auto simp: diff_source_def split: option.splits)

lemma diff_target_paths:
  "map so_path (concat (map (diff_target src) dst)) = map fst (filter (\<lambda>x. map_of src (fst x) = None) dst)"
  by (induction dst) (auto simp: diff_target_def split: option.splits)

lemma diff_source_mem:
  "op \<in> set (diff_source dst (p, se)) \<longleftrightarrow> so_path op = p
     \<and> (case map_of dst p of None \<Rightarrow> so_action op = ActionAdded
        | Some te \<Rightarrow> differs se te \<and> so_action op = ActionOverwritten)"
  by (cases op) (auto simp: diff_source_def split: option.splits)

lemma diff_target_mem:
  "op \<in> set (diff_target src (p, te)) \<longleftrightarrow> so_path op = p \<and> map_of src p = None \<and> so_action op = ActionDeleted"
  by (cases op) (auto simp: diff_target_def split: option.splits)

lemma diff_mem:
  "op \<in> set (Diff source target) \<longleftrightarrow> needed source target (so_path op) = Some (so_action op)"
proof -
  have "op \<in> set (Diff source target) \<longleftrightarrow>
      (\<exists>p se. map_of (Index source) p = Some se \<and> op \<in> set (diff_source (Index target) (p, se)))
      \<or> (\<exists>p te. map_of (Index target) p = Some te \<and> op \<in> set (diff_target (Index source) (p, te)))"
    by (auto simp: Diff_def Let_def Index_mem [symmetric])
  also have "\<dots> \<longleftrightarrow> needed source target (so_path op) = Some (so_action op)"
    unfolding diff_source_mem diff_target_mem needed_def
    by (cases "map_of (Index source) (so_path op)"; cases "map_of (Index target) (so_path op)") auto
  finally show ?thesis .
qed

lemma diff_sorted: "sorted_wrt (<) (map so_path (Diff source target))"
proof -
  let ?a = "concat (map (diff_source (Index target)) (Index source))"
  let ?b = "concat (map (diff_target (Index source)) (Index target))"
  have a: "distinct (map so_path ?a)"
    unfolding diff_source_paths by (rule distinct_map_filter [OF distinct_Index])
  have b: "distinct (map so_path ?b)"
    unfolding diff_target_paths by (rule distinct_map_filter [OF distinct_Index])
  have "set (map so_path ?a) \<subseteq> {p. map_of (Index source) p \<noteq> None}"
    unfolding diff_source_paths by (auto simp: Index_mem)
  moreover have "set (map so_path ?b) \<subseteq> {p. map_of (Index source) p = None}"
    unfolding diff_target_paths by auto
  ultimately have disj: "set (map so_path ?a) \<inter> set (map so_path ?b) = {}" by blast
  have "distinct (map so_path (?a @ ?b))"
    unfolding map_append distinct_append by (intro conjI a b disj)
  then show ?thesis unfolding Diff_def Let_def by (rule sort_key_strict)
qed

lemma diff_distinct: "distinct (map so_path (Diff source target))"
  using diff_sorted [of source target] by (simp add: strict_sorted_iff)

lemma diff_lookup:
  "map_of (map (\<lambda>op. (so_path op, so_action op)) (Diff source target)) p = needed source target p"
proof (cases "needed source target p")
  case None
  then have "p \<notin> so_path ` set (Diff source target)" by (auto simp: diff_mem)
  then have "p \<notin> fst ` set (map (\<lambda>op. (so_path op, so_action op)) (Diff source target))" by force
  with None show ?thesis by (simp only: map_of_eq_None_iff not_False_eq_True)
next
  case (Some a)
  then have "\<lparr>so_path = p, so_action = a\<rparr> \<in> set (Diff source target)" by (simp add: diff_mem)
  then have "(p, a) \<in> set (map (\<lambda>op. (so_path op, so_action op)) (Diff source target))" by force
  moreover have "distinct (map fst (map (\<lambda>op. (so_path op, so_action op)) (Diff source target)))"
    using diff_distinct [of source target] by (simp add: comp_def)
  ultimately show ?thesis using Some by (simp only: map_of_eq_Some_iff)
qed

lemma diff_action: "op \<in> set (Diff source target) \<Longrightarrow>
    so_action op = ActionAdded \<or> so_action op = ActionOverwritten \<or> so_action op = ActionDeleted"
  by (auto simp: diff_mem needed_def split: option.splits if_splits)

lemma Compare_None:
  "Compare want got = None \<longleftrightarrow> (\<forall>p. needed want got p = None)"
proof -
  let ?w = "Index want" and ?g = "Index got"
  let ?bad = "\<lambda>(p, e). case map_of ?g p of None \<Rightarrow> True | Some g \<Rightarrow> differs e g"
  have keys: "length al = card (dom (map_of al))" if "distinct (map fst al)" for al :: "(string \<times> sync_entry) list"
    using distinct_card [OF that] by (simp add: dom_map_of_conv_image_fst)
  have len: "length ?w = length ?g \<longleftrightarrow> card (dom (map_of ?w)) = card (dom (map_of ?g))"
    by (simp add: keys distinct_Index)
  have good: "find ?bad ?w = None \<longleftrightarrow>
      (\<forall>p e. map_of ?w p = Some e \<longrightarrow> (\<exists>g. map_of ?g p = Some g \<and> \<not> differs e g))"
  proof -
    have "(case map_of ?g p of None \<Rightarrow> True | Some g \<Rightarrow> differs e g)
        \<longleftrightarrow> \<not> (\<exists>g. map_of ?g p = Some g \<and> \<not> differs e g)" for p e
      by (cases "map_of ?g p") simp_all
    then show ?thesis by (simp add: find_None_iff Index_mem [symmetric] split_beta Ball_def)
  qed
  show ?thesis
  proof
    assume "Compare want got = None"
    then have c: "card (dom (map_of ?w)) = card (dom (map_of ?g))"
      and f: "find ?bad ?w = None"
      by (auto simp: Compare_def Let_def len split: if_splits)
    have sub: "dom (map_of ?w) \<subseteq> dom (map_of ?g)" using f good by auto
    have doms: "dom (map_of ?w) = dom (map_of ?g)"
      using card_subset_eq [OF finite_dom_map_of sub c] .
    show "\<forall>p. needed want got p = None"
    proof
      fix p
      have "map_of ?w p = None \<longleftrightarrow> map_of ?g p = None" using doms by (metis domIff)
      moreover have "map_of ?w p = Some e \<Longrightarrow> \<exists>g. map_of ?g p = Some g \<and> \<not> differs e g" for e
        using f good by blast
      ultimately show "needed want got p = None"
        by (cases "map_of ?w p"; cases "map_of ?g p") (auto simp: needed_def)
    qed
  next
    assume n: "\<forall>p. needed want got p = None"
    have same: "map_of ?w p = None \<longleftrightarrow> map_of ?g p = None" for p
      using n [rule_format, of p] by (cases "map_of ?w p"; cases "map_of ?g p") (auto simp: needed_def)
    then have "dom (map_of ?w) = dom (map_of ?g)" by (auto simp: dom_def)
    then have "length ?w = length ?g" using len by simp
    moreover have "\<exists>g. map_of ?g p = Some g \<and> \<not> differs e g" if "map_of ?w p = Some e" for p e
      using n [rule_format, of p] that
      by (cases "map_of ?g p") (auto simp: needed_def split: if_splits)
    then have "find ?bad ?w = None" unfolding good by blast
    ultimately show "Compare want got = None" by (simp add: Compare_def Let_def)
  qed
qed

section \<open>Normalising\<close>

definition entry_ok :: "sync_entry \<Rightarrow> bool" where
  "entry_ok e \<longleftrightarrow> ValidPath (se_path e) \<and> (se_type e = TypeFile \<or> se_type e = TypeSymlink)
     \<and> length (se_hash e) = 64"

lemma normalize_loop_None:
  "normalize_loop seen m = None \<longleftrightarrow>
     (\<forall>e \<in> set m. entry_ok e) \<and> distinct (map se_path m) \<and> set seen \<inter> se_path ` set m = {}"
  by (induction seen m rule: normalize_loop.induct) (auto simp: entry_ok_def)

lemma Normalize_cases:
  "Normalize m = (if (\<forall>e \<in> set m. entry_ok e) \<and> distinct (map se_path m)
     then Inr (sort_key se_path m) else Inl (the (normalize_loop [] m)))"
  using normalize_loop_None [of "[]" m] by (auto simp: Normalize_def split: option.splits)

lemma ValidPath_plain: "ValidPath p \<Longrightarrow> list_all plain_seg (split_on CHR ''/'' p)"
  by (simp add: ValidPath_def plain_seg_def [abs_def])

lemma Normalize_fixed:
  assumes "Normalize m = Inr m'" shows "Normalize m' = Inr m'"
proof -
  have ok: "\<forall>e \<in> set m. entry_ok e" "distinct (map se_path m)" and m': "m' = sort_key se_path m"
    using assms by (auto simp: Normalize_cases split: if_splits)
  have "distinct (map se_path m')" using sort_key_strict [OF ok(2)] m' by (simp add: strict_sorted_iff)
  moreover have "sort_key se_path m' = m'" unfolding m' by (rule sort_key_id_if_sorted) simp
  ultimately show ?thesis using ok m' by (simp add: Normalize_cases)
qed


section \<open>The manifest a container prints\<close>

text \<open>
  One record of \<open>manifestScript\<close>, and its parser. ParseInt and ParseUint bound the size to int64
  and the mode to 32 bits.
\<close>

definition NUL :: char where "NUL = CHR 0x00"

definition entry_fields :: "sync_entry \<Rightarrow> string list" where
  "entry_fields e = [se_path e, itoa (se_size e), oct_digits (se_mode e),
     (if se_type e = TypeSymlink then ''l'' else ''f''), se_hash e]"

definition render_manifest :: "manifest \<Rightarrow> string" where
  "render_manifest m = concat (map (\<lambda>e. concat (map (\<lambda>f. f @ [NUL]) (entry_fields e))) m)"

fun parse_fields :: "string list \<Rightarrow> manifest_error + manifest" where
  "parse_fields (p # sz # mo # ty # h # rest) =
     (case atoi sz of
        None \<Rightarrow> Inl (BadSize p)
      | Some sz_v \<Rightarrow>
          (case parse_oct mo of
             None \<Rightarrow> Inl (BadMode p)
           | Some mode \<Rightarrow>
               (case parse_fields rest of
                  Inl err \<Rightarrow> Inl err
                | Inr es \<Rightarrow>
                    Inr (\<lparr>se_path = p, se_size = sz_v, se_mode = mode,
                          se_type = (if ty = ''l'' then TypeSymlink else TypeFile), se_hash = h\<rparr> # es))))"
| "parse_fields _ = Inr []"

definition parseManifest :: "string \<Rightarrow> manifest_error + manifest" where
  "parseManifest out =
     (let fs = split_on NUL out;
          fs = (if last fs = [] then butlast fs else fs)
      in if length fs mod 5 \<noteq> 0 then Inl (FieldCount (length fs))
         else case parse_fields fs of Inl err \<Rightarrow> Inl err | Inr m \<Rightarrow> Normalize m)"

definition printable_entry :: "sync_entry \<Rightarrow> bool" where
  "printable_entry e \<longleftrightarrow> NUL \<notin> set (se_path e) \<and> NUL \<notin> set (se_hash e) \<and> in_int64 (se_size e)
     \<and> int (se_mode e) < 2 ^ 32 \<and> (se_type e = TypeFile \<or> se_type e = TypeSymlink)"

lemma split_on_fields:
  "(\<And>f. f \<in> set fs \<Longrightarrow> NUL \<notin> set f) \<Longrightarrow> split_on NUL (concat (map (\<lambda>f. f @ [NUL]) fs)) = fs @ [[]]"
  by (induction fs) (simp_all add: split_on_append)

lemma digit_not_NUL: "is_digit c \<Longrightarrow> c \<noteq> NUL"
  by (auto simp: is_digit_alt NUL_def byte_of_def)

lemma itoa_no_NUL: "NUL \<notin> set (itoa i)"
  using nat_digits_all digit_not_NUL
  by (auto simp: itoa_def list_all_iff NUL_def)

lemma oct_no_NUL: "NUL \<notin> set (oct_digits n)"
  using oct_digits_ok [of n] digit_not_NUL by (auto simp: list_all_iff)

lemma parse_fields_entry:
  "printable_entry e \<Longrightarrow> parse_fields (entry_fields e @ rest) =
     (case parse_fields rest of Inl err \<Rightarrow> Inl err | Inr es \<Rightarrow> Inr (e # es))"
  by (cases e)
     (auto simp: printable_entry_def entry_fields_def atoi_itoa parse_oct_digits type_defs split: sum.splits)

lemma parse_fields_render:
  "(\<And>e. e \<in> set m \<Longrightarrow> printable_entry e) \<Longrightarrow> parse_fields (concat (map entry_fields m)) = Inr m"
  by (induction m) (simp_all add: parse_fields_entry)

lemma render_fields:
  "render_manifest m = concat (map (\<lambda>f. f @ [NUL]) (concat (map entry_fields m)))"
  by (induction m) (simp_all add: render_manifest_def)

lemma length_entry_fields: "length (concat (map entry_fields m)) mod 5 = 0"
  by (induction m) (simp_all add: entry_fields_def)

lemma entry_fields_no_NUL: "printable_entry e \<Longrightarrow> f \<in> set (entry_fields e) \<Longrightarrow> NUL \<notin> set f"
  using itoa_no_NUL [of "se_size e"] oct_no_NUL [of "se_mode e"]
  by (auto simp: entry_fields_def printable_entry_def NUL_def split: if_splits)


lemma parse_render:
  assumes "\<And>e. e \<in> set m \<Longrightarrow> printable_entry e"
  shows "parseManifest (render_manifest m) = Normalize m"
proof -
  let ?fs = "concat (map entry_fields m)"
  have "NUL \<notin> set f" if "f \<in> set ?fs" for f
    using entry_fields_no_NUL assms that by fastforce
  then have "split_on NUL (render_manifest m) = ?fs @ [[]]"
    unfolding render_fields by (rule split_on_fields)
  then show ?thesis
    using length_entry_fields [of m] parse_fields_render [of m] assms
    by (simp add: parseManifest_def Let_def)
qed


section \<open>Projects of remotes, and names derived from ids\<close>

definition ProjectFromRemote :: "string \<Rightarrow> string" where
  "ProjectFromRemote remote =
     (let s = trim_suffix (trim_suffix (trim_space remote) ''/'') ''.git'';
          tail = (\<lambda>s. let parts = split_on CHR ''/'' (trim_byte CHR ''/'' s)
                      in if length parts < 2 then ''''
                         else parts ! (length parts - 2) @ ''/'' @ parts ! (length parts - 1))
      in case index_of ''://'' s of
           Some i \<Rightarrow> (let s1 = drop (i + 3) s
                      in case index_of ''/'' s1 of
                           Some j \<Rightarrow> tail (drop (j + 1) s1)
                         | None \<Rightarrow> '''')
         | None \<Rightarrow> (case index_of '':'' s of
                      Some i \<Rightarrow> tail (drop (i + 1) s)
                    | None \<Rightarrow> tail s))"

definition ShortSHA :: "string \<Rightarrow> string" where
  "ShortSHA sha = (if 7 < length sha then take 7 sha else sha)"

definition ProjectSlug :: "string \<Rightarrow> string" where
  "ProjectSlug project =
     map (\<lambda>c. if c = CHR ''/'' \<or> c = CHR 0x5C \<or> c = CHR '':'' \<or> c = CHR '' '' then CHR ''-'' else c) project"

lemma ProjectSlug_one_segment: "CHR ''/'' \<notin> set (ProjectSlug project)"
  by (auto simp: ProjectSlug_def)

lemma ProjectSlug_collides: "ProjectSlug ''a/b-c'' = ProjectSlug ''a-b/c''"
  by code_simp


section \<open>Counting and moving\<close>

lemma Counts_sum: "(\<And>op. op \<in> set ops \<Longrightarrow> so_action op = ActionAdded \<or> so_action op = ActionOverwritten
    \<or> so_action op = ActionDeleted) \<Longrightarrow> Counts ops = (a, ov, d) \<Longrightarrow> a + ov + d = length ops"
  by (induction ops arbitrary: a ov d) (auto simp: Let_def split: prod.splits if_splits)

lemma Counts_filter:
  "Counts ops = (length (filter (\<lambda>op. so_action op = ActionAdded) ops),
     length (filter (\<lambda>op. so_action op = ActionOverwritten) ops),
     length (filter (\<lambda>op. so_action op = ActionDeleted) ops))"
  by (induction ops) auto

lemma TransferSet_mem:
  "e \<in> set (TransferSet source (Diff source target)) \<longleftrightarrow>
     map_of (Index source) (se_path e) = Some e
     \<and> (case map_of (Index target) (se_path e) of None \<Rightarrow> True | Some te \<Rightarrow> differs e te)"
proof -
  have "e \<in> set (TransferSet source (Diff source target)) \<longleftrightarrow>
      (\<exists>op \<in> set (Diff source target). so_action op \<noteq> ActionDeleted \<and> map_of (Index source) (so_path op) = Some e)"
    by (auto simp: TransferSet_def Let_def map_filter_mem)
  also have "\<dots> \<longleftrightarrow> (\<exists>p a. needed source target p = Some a \<and> a \<noteq> ActionDeleted \<and> map_of (Index source) p = Some e)"
  proof
    assume "\<exists>p a. needed source target p = Some a \<and> a \<noteq> ActionDeleted \<and> map_of (Index source) p = Some e"
    then obtain p a where "needed source target p = Some a" "a \<noteq> ActionDeleted" "map_of (Index source) p = Some e"
      by blast
    then show "\<exists>op \<in> set (Diff source target). so_action op \<noteq> ActionDeleted
        \<and> map_of (Index source) (so_path op) = Some e"
      by (intro bexI [of _ "\<lparr>so_path = p, so_action = a\<rparr>"]) (simp_all add: diff_mem)
  qed (use diff_mem in blast)
  also have "\<dots> \<longleftrightarrow> map_of (Index source) (se_path e) = Some e
     \<and> (\<exists>a. needed source target (se_path e) = Some a \<and> a \<noteq> ActionDeleted)"
    using Index_path [of source _ e] by metis
  also have "\<dots> \<longleftrightarrow> map_of (Index source) (se_path e) = Some e
     \<and> (case map_of (Index target) (se_path e) of None \<Rightarrow> True | Some te \<Rightarrow> differs e te)"
    by (cases "map_of (Index source) (se_path e)"; cases "map_of (Index target) (se_path e)")
       (auto simp: needed_def)
  finally show ?thesis .
qed


section \<open>Properties\<close>

text \<open>
  C13: a plan is exact. It is sorted strictly by path, and what it says about any path, named or
  not, is what the two sides require: added when only the source has it, deleted when only the
  target has it, overwritten when the hashes, modes or types differ, and nothing otherwise.
\<close>

theorem diff_exact:
  "sorted_wrt (<) (map so_path (Diff source target))
   \<and> map_of (map (\<lambda>op. (so_path op, so_action op)) (Diff source target)) p = needed source target p"
  using diff_sorted diff_lookup by blast

text \<open>
  C32: the check after an apply accepts exactly the trees for which no further sync is needed:
  \<open>Compare\<close> succeeds when and only when the plan between the two manifests is empty.
\<close>

theorem compare_iff_nothing_planned:
  "Compare want got = None \<longleftrightarrow> Diff want got = []"
proof -
  have "Diff want got = [] \<longleftrightarrow> (\<forall>p. needed want got p = None)"
  proof
    assume "Diff want got = []"
    then show "\<forall>p. needed want got p = None" using diff_lookup [of want got] by simp
  next
    assume "\<forall>p. needed want got p = None"
    then have "\<And>op. op \<notin> set (Diff want got)" by (simp add: diff_mem)
    then show "Diff want got = []" by (metis list.set_intros(1) neq_Nil_conv)
  qed
  then show ?thesis by (simp add: Compare_None)
qed

text \<open>
  C14: what normalising accepts. A manifest that passes has only the given entries, in strictly
  increasing path order, every one of a known type with a full hash; and every path, joined to a
  cleaned absolute project root, is that root followed by the path itself, so that no accepted
  entry leads outside the project.
\<close>

theorem normalize_accepts:
  assumes "Normalize m = Inr m'"
    and "prefix ''/'' root" "path_clean root = root" "root \<noteq> ''/''"
  shows "mset m' = mset m \<and> sorted_wrt (<) (map se_path m')
     \<and> (\<forall>e \<in> set m'. (se_type e = TypeFile \<or> se_type e = TypeSymlink) \<and> length (se_hash e) = 64
          \<and> path_join [root, se_path e] = root @ ''/'' @ se_path e
          \<and> se_path e \<noteq> ''.git'' \<and> \<not> prefix ''.git/'' (se_path e))"
proof -
  have ok: "\<forall>e \<in> set m. entry_ok e" "distinct (map se_path m)" and m': "m' = sort_key se_path m"
    using assms(1) by (auto simp: Normalize_cases split: if_splits)
  have "path_join [root, se_path e] = root @ ''/'' @ se_path e" if "e \<in> set m" for e
    using path_join_inside [OF assms(2-4) ValidPath_plain] ok(1) that by (auto simp: entry_ok_def)
  then show ?thesis
    using ok sort_key_strict [OF ok(2)] m' by (auto simp: entry_ok_def ValidPath_def)
qed

definition sample_hash :: string where
  "sample_hash = replicate 64 (CHR ''a'')"

definition two_entries :: manifest where
  "two_entries = [\<lparr>se_path = ''b/c.go'', se_size = 3, se_mode = 420, se_type = TypeFile, se_hash = sample_hash\<rparr>,
     \<lparr>se_path = ''a'', se_size = 0, se_mode = 511, se_type = TypeSymlink, se_hash = sample_hash\<rparr>]"

theorem normalize_accepts_witness:
  "mset (rev two_entries) = mset two_entries \<and> sorted_wrt (<) (map se_path (rev two_entries))
     \<and> list_all (\<lambda>e. path_join [''/root/app'', se_path e] = ''/root/app'' @ ''/'' @ se_path e) (rev two_entries)"
proof -
  have "Normalize two_entries = Inr (rev two_entries)" by code_simp
  from normalize_accepts [OF this, of "''/root/app''"] show ?thesis
    by (simp only: list_all_iff) (auto simp: path_clean_def)
qed

text \<open>
  C29: the parser reads back what the container's script prints: for every manifest of entries
  without NUL bytes, with int64 sizes and 32-bit modes, parsing the printed records gives what
  normalising the manifest itself gives, errors included.
\<close>

theorem manifest_round_trip:
  assumes "\<And>e. e \<in> set m \<Longrightarrow> printable_entry e"
  shows "parseManifest (render_manifest m) = Normalize m"
  by (rule parse_render [OF assms])

theorem manifest_round_trip_witness:
  "parseManifest (render_manifest
      [\<lparr>se_path = ''b'', se_size = 12, se_mode = 493, se_type = TypeFile, se_hash = sample_hash\<rparr>,
       \<lparr>se_path = ''a'', se_size = 0, se_mode = 511, se_type = TypeSymlink, se_hash = sample_hash\<rparr>])
   = Inr [\<lparr>se_path = ''a'', se_size = 0, se_mode = 511, se_type = TypeSymlink, se_hash = sample_hash\<rparr>,
       \<lparr>se_path = ''b'', se_size = 12, se_mode = 493, se_type = TypeFile, se_hash = sample_hash\<rparr>]"
proof -
  let ?m = "[\<lparr>se_path = ''b'', se_size = 12, se_mode = 493, se_type = TypeFile, se_hash = sample_hash\<rparr>,
       \<lparr>se_path = ''a'', se_size = 0, se_mode = 511, se_type = TypeSymlink, se_hash = sample_hash\<rparr>]"
  have "parseManifest (render_manifest ?m) = Normalize ?m"
    by (rule manifest_round_trip) (auto simp: printable_entry_def NUL_def in_int64_def sample_hash_def)
  also have "\<dots> = Inr (rev ?m)" by code_simp
  finally show ?thesis by simp
qed

end
