(* ===== verification/SyncCodes.thy ===== *)
theory SyncCodes
  imports SyncManifest "HOL-Library.Word"
begin

text \<open>
  server/internal/sync/code.go with the error codes of errors.go: the one-time codes that open a
  Work Sync session, their guess budget and lifetime, and the live sessions. The hash of a code
  (SHA-256 in hex) and Unicode's upper-case table are parameters; random draws are arguments, and a
  failed draw is \<open>None\<close>. A session is a pointer in the code: \<open>cs_heap\<close> holds the
  objects by id, \<open>cs_live\<close> the ids in the store's map.
\<close>

section \<open>Errors\<close>

datatype sync_error =
    ProjectNotFound string
  | CodeInvalid
  | CodeWrongProject string string
  | CodeExpired
  | CodeUsed
  | SyncRunning
  | HTTPSRequired
  | BranchMismatch string string
  | CommitMismatch string string
  | DetachedHead
  | NotGitRepo
  | RemoteMismatch string string
  | SessionUnknown
  | SessionExpired
  | BadPlan string
  | BadPayload string
  | OtherError string

fun error_code :: "sync_error \<Rightarrow> string" where
  "error_code (ProjectNotFound _) = ''project_not_found''"
| "error_code CodeInvalid = ''code_invalid''"
| "error_code (CodeWrongProject _ _) = ''code_wrong_project''"
| "error_code CodeExpired = ''code_expired''"
| "error_code CodeUsed = ''code_used''"
| "error_code SyncRunning = ''sync_running''"
| "error_code HTTPSRequired = ''https_required''"
| "error_code (BranchMismatch _ _) = ''branch_mismatch''"
| "error_code (CommitMismatch _ _) = ''commit_mismatch''"
| "error_code DetachedHead = ''detached_head''"
| "error_code NotGitRepo = ''not_git_repo''"
| "error_code (RemoteMismatch _ _) = ''remote_mismatch''"
| "error_code SessionUnknown = ''session_unknown''"
| "error_code SessionExpired = ''session_expired''"
| "error_code (BadPlan _) = ''bad_plan''"
| "error_code (BadPayload _) = ''bad_payload''"
| "error_code (OtherError _) = ''internal''"

definition syncErrStatus :: "string \<Rightarrow> nat" where
  "syncErrStatus code =
     (if code = ''project_not_found'' \<or> code = ''session_unknown'' then 404
      else if code = ''code_invalid'' \<or> code = ''code_wrong_project'' \<or> code = ''bad_payload'' then 401
      else if code = ''code_expired'' \<or> code = ''code_used'' \<or> code = ''session_expired'' then 410
      else if code = ''sync_running'' then 409
      else if code = ''https_required'' then 403
      else if code = ''branch_mismatch'' \<or> code = ''commit_mismatch'' \<or> code = ''detached_head''
           \<or> code = ''not_git_repo'' \<or> code = ''remote_mismatch'' \<or> code = ''bad_plan'' then 400
      else 500)"


section \<open>Codes\<close>

definition CodeTTL :: gotime where "CodeTTL = 10 * minute"
definition MaxAttempts :: nat where "MaxAttempts = 10"

definition crockford :: string where
  "crockford = ''0123456789ABCDEFGHJKMNPQRSTVWXYZ''"

definition upper_rune :: "(nat \<Rightarrow> nat) \<Rightarrow> nat \<Rightarrow> nat" where
  "upper_rune up r = (if r < 128 then (if 97 \<le> r \<and> r \<le> 122 then r - 32 else r) else up r)"

definition to_upper :: "(nat \<Rightarrow> nat) \<Rightarrow> string \<Rightarrow> string" where
  "to_upper up s = of_runes (map (upper_rune up) (runes s))"

text \<open>Separators go; I and L read as 1, O as 0.\<close>

definition code_rune :: "nat \<Rightarrow> nat option" where
  "code_rune r =
     (if r = 45 \<or> r = 32 \<or> r = 9 \<or> r = 10 then None
      else if r = 73 \<or> r = 76 then Some 49
      else if r = 79 then Some 48
      else Some r)"

definition normalizeCode :: "(nat \<Rightarrow> nat) \<Rightarrow> string \<Rightarrow> string" where
  "normalizeCode up code = of_runes (List.map_filter code_rune (runes (to_upper up code)))"

fun draw_code :: "nat \<Rightarrow> 8 word list \<Rightarrow> string option" where
  "draw_code 0 bs = Some []"
| "draw_code (Suc n) [] = None"
| "draw_code (Suc n) (b # bs) =
     (if 256 - 256 mod length crockford \<le> unat b then draw_code (Suc n) bs
      else map_option ((#) (crockford ! (unat b mod length crockford))) (draw_code n bs))"

text \<open>The bytes are what the random source gives, \<open>None\<close> a source that fails first.\<close>

definition newCode :: "8 word list \<Rightarrow> string option" where
  "newCode bytes =
     map_option (\<lambda>out. join ''-'' [take 4 out, take 4 (drop 4 out), take 4 (drop 8 out), take 4 (drop 12 out)])
       (draw_code 16 bytes)"


section \<open>The store of codes and sessions\<close>

record sync_session =
  ss_ID :: string
  ss_Project :: string
  ss_Nonce :: string
  ss_Branch :: string
  ss_Commit :: string
  ss_ExpiresAt :: gotime
  ss_phase :: "string option"
  ss_codeHash :: string
  ss_code :: string
  ss_container :: string
  ss_dir :: string
  ss_direction :: "direction option"
  ss_client :: manifest
  ss_server :: manifest
  ss_ops :: "sync_op list"
  ss_accepted :: bool
  ss_finished :: bool
  ss_backup :: string

record code_entry =
  ce_hash :: string
  ce_plain :: string
  ce_project :: string
  ce_expires :: gotime
  ce_attempts :: nat
  ce_used :: bool
  ce_sessionID :: string
  ce_unknown :: bool

record code_store =
  cs_entries :: "(string \<times> code_entry) list"
  cs_byProject :: "(string \<times> string) list"
  cs_live :: "string list"
  cs_heap :: "(string \<times> sync_session) list"

definition NewCodeStore :: code_store where
  "NewCodeStore = \<lparr>cs_entries = [], cs_byProject = [], cs_live = [], cs_heap = []\<rparr>"

definition session_at :: "code_store \<Rightarrow> string \<Rightarrow> sync_session option" where
  "session_at s i = (if i \<in> set (cs_live s) then map_of (cs_heap s) i else None)"

definition drop_session :: "string \<Rightarrow> code_store \<Rightarrow> code_store" where
  "drop_session i s = s\<lparr>cs_live := removeAll i (cs_live s)\<rparr>"

definition put_session :: "sync_session \<Rightarrow> code_store \<Rightarrow> code_store" where
  "put_session x s = s\<lparr>cs_heap := AList.update (ss_ID x) x (cs_heap s)\<rparr>"

definition put_entry :: "string \<Rightarrow> code_entry \<Rightarrow> code_store \<Rightarrow> code_store" where
  "put_entry h e s = s\<lparr>cs_entries := AList.update h e (cs_entries s)\<rparr>"

definition drop_entry :: "string \<Rightarrow> code_store \<Rightarrow> code_store" where
  "drop_entry h s = s\<lparr>cs_entries := AList.delete h (cs_entries s)\<rparr>"

definition ProjectStatus :: "gotime \<Rightarrow> string \<Rightarrow> code_store \<Rightarrow> string" where
  "ProjectStatus now project s =
     (case List.map_filter (\<lambda>i. case session_at s i of
              None \<Rightarrow> None
            | Some x \<Rightarrow> if ss_Project x \<noteq> project \<or> ss_finished x \<or> ss_ExpiresAt x < now then None
                        else ss_phase x) (cs_live s) of
        [] \<Rightarrow> ''idle''
      | p # _ \<Rightarrow> p)"

definition hashCode :: "(string \<Rightarrow> string) \<Rightarrow> (nat \<Rightarrow> nat) \<Rightarrow> string \<Rightarrow> string" where
  "hashCode sha up code = sha (normalizeCode up code)"

text \<open>The previous code of the project: refused while its session runs, otherwise both go.\<close>

definition retire :: "gotime \<Rightarrow> string \<Rightarrow> code_store \<Rightarrow> (sync_error + code_store)" where
  "retire now project s =
     (case map_of (cs_byProject s) project of
        None \<Rightarrow> Inr s
      | Some h \<Rightarrow>
          if h = '''' then Inr s
          else
            (case map_of (cs_entries s) h of
               None \<Rightarrow> Inr (drop_entry h s)
             | Some old \<Rightarrow>
                 if ce_sessionID old = '''' then Inr (drop_entry h s)
                 else
                   (case session_at s (ce_sessionID old) of
                      None \<Rightarrow> Inr (drop_entry h (drop_session (ce_sessionID old) s))
                    | Some x \<Rightarrow>
                        if \<not> ss_finished x \<and> now < ss_ExpiresAt x then Inl SyncRunning
                        else Inr (drop_entry h (drop_session (ce_sessionID old) s)))))"

definition Generate ::
  "(string \<Rightarrow> string) \<Rightarrow> (nat \<Rightarrow> nat) \<Rightarrow> gotime \<Rightarrow> string option \<Rightarrow> string \<Rightarrow> code_store
   \<Rightarrow> (sync_error + string \<times> gotime) \<times> code_store" where
  "Generate sha up now drawn project s =
     (case drawn of
        None \<Rightarrow> (Inl (OtherError ''random''), s)
      | Some plain \<Rightarrow>
          (case retire now project s of
             Inl err \<Rightarrow> (Inl err, s)
           | Inr s1 \<Rightarrow>
               let h = hashCode sha up plain;
                   e = \<lparr>ce_hash = h, ce_plain = plain, ce_project = project, ce_expires = now + CodeTTL,
                        ce_attempts = 0, ce_used = False, ce_sessionID = '''', ce_unknown = False\<rparr>;
                   s2 = put_entry h e s1
               in (Inr (plain, now + CodeTTL),
                   s2\<lparr>cs_byProject := AList.update project h (cs_byProject s2)\<rparr>)))"

definition failAttempt ::
  "code_entry \<Rightarrow> string \<Rightarrow> sync_error \<Rightarrow> code_store \<Rightarrow> (sync_error + sync_session) \<times> code_store" where
  "failAttempt e h err s =
     (let e1 = e\<lparr>ce_attempts := ce_attempts e + 1\<rparr>
      in (Inl err, if MaxAttempts \<le> ce_attempts e1 then drop_entry h s else put_entry h e1 s))"

definition unknown_entry :: "string \<Rightarrow> code_entry" where
  "unknown_entry h =
     \<lparr>ce_hash = h, ce_plain = '''', ce_project = '''', ce_expires = 0, ce_attempts = 0,
      ce_used = False, ce_sessionID = '''', ce_unknown = True\<rparr>"

definition new_session ::
  "code_entry \<Rightarrow> string \<Rightarrow> string \<Rightarrow> string \<Rightarrow> string \<Rightarrow> string \<Rightarrow> string \<Rightarrow> string \<Rightarrow> sync_session" where
  "new_session e i nonce project container dir branch commit =
     \<lparr>ss_ID = i, ss_Project = project, ss_Nonce = nonce, ss_Branch = branch, ss_Commit = commit,
      ss_ExpiresAt = ce_expires e, ss_phase = None, ss_codeHash = ce_hash e, ss_code = ce_plain e,
      ss_container = container, ss_dir = dir, ss_direction = None, ss_client = [], ss_server = [],
      ss_ops = [], ss_accepted = False, ss_finished = False, ss_backup = ''''\<rparr>"

definition open_session ::
  "code_entry \<Rightarrow> string \<Rightarrow> string option \<Rightarrow> string option
   \<Rightarrow> string \<Rightarrow> string \<Rightarrow> string \<Rightarrow> string \<Rightarrow> string \<Rightarrow> code_store
   \<Rightarrow> (sync_error + sync_session) \<times> code_store" where
  "open_session e h rnd_nonce rnd_id project container dir branch commit s =
     (if ce_used e \<or> ce_plain e = '''' then (Inl CodeUsed, s)
      else
        (case (rnd_nonce, rnd_id) of
           (Some nonce, Some i) \<Rightarrow>
             let x = new_session e i nonce project container dir branch commit;
                 s1 = put_session x s
             in (Inr x, put_entry h (e\<lparr>ce_sessionID := i\<rparr>)
                          (s1\<lparr>cs_live := i # removeAll i (cs_live s1)\<rparr>))
         | _ \<Rightarrow> (Inl (OtherError ''random''), s)))"

definition Lookup ::
  "(string \<Rightarrow> string) \<Rightarrow> (nat \<Rightarrow> nat) \<Rightarrow> gotime \<Rightarrow> string option \<Rightarrow> string option
   \<Rightarrow> string \<Rightarrow> string \<Rightarrow> string \<Rightarrow> string \<Rightarrow> string \<Rightarrow> string \<Rightarrow> code_store
   \<Rightarrow> (sync_error + sync_session) \<times> code_store" where
  "Lookup sha up now rnd_nonce rnd_id code project container dir branch commit s =
     (let h = hashCode sha up code;
          (e, s) = (case map_of (cs_entries s) h of
             Some e \<Rightarrow> (e, s)
           | None \<Rightarrow> (unknown_entry h, put_entry h (unknown_entry h) s))
      in if ce_unknown e then failAttempt e h CodeInvalid s
         else if ce_expires e < now then failAttempt e h CodeExpired s
         else if ce_project e \<noteq> project then failAttempt e h (CodeWrongProject (ce_project e) project) s
         else
           (case (if ce_sessionID e = '''' then None else session_at s (ce_sessionID e)) of
              Some x \<Rightarrow>
                if ss_finished x then open_session e h rnd_nonce rnd_id project container dir branch commit s
                else (Inr x, s)
            | None \<Rightarrow> open_session e h rnd_nonce rnd_id project container dir branch commit s))"

definition Session :: "gotime \<Rightarrow> string \<Rightarrow> code_store \<Rightarrow> (sync_error + sync_session) \<times> code_store" where
  "Session now i s =
     (case session_at s i of
        None \<Rightarrow> (Inl SessionUnknown, s)
      | Some x \<Rightarrow>
          if ss_ExpiresAt x < now then (Inl SessionExpired, put_session (x\<lparr>ss_finished := True\<rparr>) s)
          else (Inr x, s))"

definition Finish :: "string \<Rightarrow> code_store \<Rightarrow> code_store" where
  "Finish i s =
     (case session_at s i of
        None \<Rightarrow> s
      | Some x \<Rightarrow>
          let h = ss_codeHash x;
              s1 = (case map_of (cs_entries s) h of
                      Some e \<Rightarrow> put_entry h (e\<lparr>ce_plain := ''''\<rparr>) s
                    | None \<Rightarrow> s);
              s2 = (if map_of (cs_byProject s1) (ss_Project x) = Some h
                    then s1\<lparr>cs_byProject := AList.delete (ss_Project x) (cs_byProject s1)\<rparr> else s1)
          in drop_session i s2)"

definition markUsed :: "sync_session \<Rightarrow> code_store \<Rightarrow> code_store" where
  "markUsed x s =
     (case map_of (cs_entries s) (ss_codeHash x) of
        Some e \<Rightarrow> put_entry (ss_codeHash x) (e\<lparr>ce_used := True\<rparr>) s
      | None \<Rightarrow> s)"


section \<open>Shape of codes\<close>

lemma crockford_length [simp]: "length crockford = 32"
  by code_simp

lemma byte_not_rejected [simp]: "unat (b :: 8 word) < 256"
  using unsigned_less [of b] by simp

definition code_letter :: "8 word \<Rightarrow> char" where
  "code_letter b = crockford ! (unat b mod 32)"

lemma draw_code_spec:
  "draw_code n bs = (if n \<le> length bs then Some (map code_letter (take n bs)) else None)"
proof (induction n bs rule: draw_code.induct)
  case (3 n b bs)
  have "\<not> 256 - 256 mod length crockford \<le> unat b" by (simp add: not_le)
  with 3 show ?case by (simp add: code_letter_def)
qed simp_all

lemma crockford_stable:
  "c \<in> set crockford \<Longrightarrow> byte_of c < 97 \<and> code_rune (byte_of c) = Some (byte_of c)"
proof -
  have "list_all (\<lambda>c. byte_of c < 97 \<and> code_rune (byte_of c) = Some (byte_of c)) crockford" by code_simp
  then show "c \<in> set crockford \<Longrightarrow> byte_of c < 97 \<and> code_rune (byte_of c) = Some (byte_of c)"
    by (simp add: list_all_iff)
qed

lemma crockford_distinct: "distinct crockford"
  by code_simp

text \<open>On ASCII text normalising works character by character.\<close>

definition code_char :: "char \<Rightarrow> char option" where
  "code_char c = map_option char_of (code_rune (upper_rune id (byte_of c)))"

lemma upper_rune_ascii: "r < 128 \<Longrightarrow> upper_rune up r = upper_rune id r \<and> upper_rune id r < 128"
  by (auto simp: upper_rune_def)

lemma code_rune_ascii: "r < 128 \<Longrightarrow> code_rune r = Some r' \<Longrightarrow> r' < 128"
  by (auto simp: code_rune_def split: if_splits)

lemma normalizeCode_ascii:
  assumes "\<And>c. c \<in> set s \<Longrightarrow> byte_of c < 128"
  shows "normalizeCode up s = List.map_filter code_char s"
proof -
  let ?us = "map (upper_rune id) (map byte_of s)"
  have "runes s = map byte_of s" by (rule runes_ascii) (rule assms)
  moreover have "map (upper_rune up) (map byte_of s) = ?us"
  proof (rule map_cong [OF refl])
    fix r assume "r \<in> set (map byte_of s)"
    then have "r < 128" using assms by auto
    then show "upper_rune up r = upper_rune id r" using upper_rune_ascii by blast
  qed
  ultimately have upper: "to_upper up s = of_runes ?us" by (simp only: to_upper_def)
  have low: "r < 128" if r: "r \<in> set ?us" for r
  proof -
    obtain c where "c \<in> set s" "r = upper_rune id (byte_of c)" using r by auto
    then show ?thesis using assms [of c] upper_rune_ascii [of "byte_of c" id] by simp
  qed
  have "runes (of_runes ?us) = ?us"
  proof (rule runes_of_runes)
    fix r assume "r \<in> set ?us"
    then show "valid_rune r" using low [of r] by (simp add: valid_rune_def)
  qed
  with upper have "normalizeCode up s = of_runes (List.map_filter code_rune ?us)"
    by (simp add: normalizeCode_def)
  also have "\<dots> = map char_of (List.map_filter code_rune ?us)"
  proof (rule of_runes_ascii)
    fix r assume "r \<in> set (List.map_filter code_rune ?us)"
    then obtain q where "q \<in> set ?us" "code_rune q = Some r" unfolding map_filter_mem by blast
    then show "r < 128" using low code_rune_ascii by blast
  qed
  also have "\<dots> = List.map_filter code_char s"
    by (induction s) (simp_all add: code_char_def id_def split: option.splits)
  finally show ?thesis .
qed

lemma code_char_crockford: "c \<in> set crockford \<Longrightarrow> code_char c = Some c"
  using crockford_stable [of c] by (simp add: code_char_def upper_rune_def)

lemma code_letter_mem: "code_letter b \<in> set crockford"
  by (simp add: code_letter_def nth_mem)

text \<open>What a person may make of a code: lower case, other separators, look-alike letters.\<close>

fun types_as :: "string \<Rightarrow> string \<Rightarrow> bool" where
  "types_as [] typed = list_all (\<lambda>c. byte_of c < 128 \<and> code_char c = None) typed"
| "types_as (c # cs) [] = False"
| "types_as (c # cs) (t # ts) =
     (byte_of t < 128 \<and>
      (if code_char t = None then types_as (c # cs) ts else code_char t = Some c \<and> types_as cs ts))"

lemma types_as_normal: "types_as cs typed \<Longrightarrow> normalizeCode up typed = cs"
proof -
  assume "types_as cs typed"
  then have "(\<forall>c \<in> set typed. byte_of c < 128) \<and> List.map_filter code_char typed = cs"
  proof (induction cs typed rule: types_as.induct)
    case (1 typed)
    then show ?case by (induction typed) auto
  qed (auto split: if_splits)
  then show ?thesis using normalizeCode_ascii [of typed up] by simp
qed

lemma newCode_spec:
  assumes "newCode bytes = Some plain"
  shows "16 \<le> length bytes" "normalizeCode up plain = map code_letter (take 16 bytes)"
proof -
  let ?out = "map code_letter (take 16 bytes)"
  show len: "16 \<le> length bytes"
    using assms by (auto simp: newCode_def draw_code_spec split: if_splits)
  then have plain: "plain = join ''-'' [take 4 ?out, take 4 (drop 4 ?out), take 4 (drop 8 ?out), take 4 (drop 12 ?out)]"
    using assms by (auto simp: newCode_def draw_code_spec split: if_splits)
  have parts: "take 4 ?out @ take 4 (drop 4 ?out) @ take 4 (drop 8 ?out) @ take 4 (drop 12 ?out) = take 16 ?out"
    by (simp only: take_add [symmetric] append_assoc [symmetric] flip: numeral_eq_iff) (simp add: take_add [symmetric])
  have keep: "List.map_filter code_char xs = xs" if "set xs \<subseteq> set crockford" for xs
    using that by (induction xs) (simp_all add: code_char_crockford)
  have out: "set ?out \<subseteq> set crockford" using code_letter_mem by auto
  have sub: "set (take n (drop k ?out)) \<subseteq> set crockford" for n k
    using out set_take_subset set_drop_subset by fast
  have "set plain \<subseteq> set crockford \<union> {CHR ''-''}"
    unfolding plain using sub [of 4 0] sub [of 4 4] sub [of 4 8] sub [of 4 12] by auto
  then have "byte_of c < 128" if "c \<in> set plain" for c
    using that crockford_stable [of c] by (cases "c = CHR ''-''") (auto simp: byte_of_def)
  then have "normalizeCode up plain = List.map_filter code_char plain" by (rule normalizeCode_ascii)
  moreover have "code_char CHR ''-'' = None" by code_simp
  ultimately show "normalizeCode up plain = ?out"
    using keep [OF sub [of 4 0]] keep [OF sub [of 4 4]] keep [OF sub [of 4 8]] keep [OF sub [of 4 12]] parts
    by (simp add: plain map_filter_append)
qed

section \<open>Runs of the store\<close>

datatype code_op =
    OGenerate gotime "string option" string
  | OLookup gotime "string option" "string option" string string string string string string
  | OSession gotime string
  | OFinish string
  | OMarkUsed string
  | OFinished string

fun code_step :: "(string \<Rightarrow> string) \<Rightarrow> (nat \<Rightarrow> nat) \<Rightarrow> code_op \<Rightarrow> code_store \<Rightarrow> code_store" where
  "code_step sha up (OGenerate now drawn project) s = snd (Generate sha up now drawn project s)"
| "code_step sha up (OLookup now rn ri code project container dir branch commit) s =
     snd (Lookup sha up now rn ri code project container dir branch commit s)"
| "code_step sha up (OSession now i) s = snd (Session now i s)"
| "code_step sha up (OFinish i) s = Finish i s"
| "code_step sha up (OMarkUsed i) s =
     (case map_of (cs_heap s) i of Some x \<Rightarrow> markUsed x s | None \<Rightarrow> s)"
| "code_step sha up (OFinished i) s =
     (case map_of (cs_heap s) i of Some x \<Rightarrow> put_session (x\<lparr>ss_finished := True\<rparr>) s | None \<Rightarrow> s)"

definition code_run :: "(string \<Rightarrow> string) \<Rightarrow> (nat \<Rightarrow> nat) \<Rightarrow> code_op list \<Rightarrow> code_store \<Rightarrow> code_store" where
  "code_run sha up ops s = fold (code_step sha up) ops s"

lemma code_run_simps [simp]:
  "code_run sha up [] s = s"
  "code_run sha up (op # ops) s = code_run sha up ops (code_step sha up op s)"
  by (simp_all add: code_run_def)

lemmas store_simps = put_entry_def drop_entry_def put_session_def drop_session_def

text \<open>The guess budget: no entry survives its tenth failure.\<close>

definition within_budget :: "code_store \<Rightarrow> bool" where
  "within_budget s \<longleftrightarrow> list_all (\<lambda>(h, e). ce_attempts e < MaxAttempts) (cs_entries s)"

lemma update_subset: "set (AList.update k v al) \<subseteq> insert (k, v) (set al)"
  by (induction al) auto

lemma delete_subset: "set (AList.delete k al) \<subseteq> set al"
  by (simp add: AList.delete_eq)

lemma within_budget_put:
  "within_budget s \<Longrightarrow> ce_attempts e < MaxAttempts \<Longrightarrow> within_budget (put_entry h e s)"
  using update_subset [of h e "cs_entries s"]
  by (auto simp: within_budget_def list_all_iff put_entry_def)

lemma within_budget_drop: "within_budget s \<Longrightarrow> within_budget (drop_entry h s)"
  using delete_subset [of h "cs_entries s"] by (auto simp: within_budget_def list_all_iff drop_entry_def)

lemma within_budget_other [simp]:
  "within_budget (put_session x s) = within_budget s"
  "within_budget (drop_session i s) = within_budget s"
  "within_budget (s\<lparr>cs_byProject := bp\<rparr>) = within_budget s"
  "within_budget (s\<lparr>cs_live := lv\<rparr>) = within_budget s"
  by (simp_all add: within_budget_def put_session_def drop_session_def)

lemma budget_entry: "within_budget s \<Longrightarrow> map_of (cs_entries s) h = Some e \<Longrightarrow> ce_attempts e < MaxAttempts"
  by (auto simp: within_budget_def list_all_iff dest!: map_of_SomeD)

lemma budget_fail: "within_budget s \<Longrightarrow> within_budget (snd (failAttempt e h err s))"
  by (simp add: failAttempt_def Let_def within_budget_put within_budget_drop)

lemma budget_open: "within_budget s \<Longrightarrow> ce_attempts e < MaxAttempts \<Longrightarrow>
    within_budget (snd (open_session e h rn ri project container dir branch commit s))"
  by (auto simp: open_session_def Let_def intro!: within_budget_put split: option.splits)

lemma retire_cases:
  assumes "retire now project s = Inr s1"
  obtains "s1 = s" | h where "s1 = drop_entry h s" | h i where "s1 = drop_entry h (drop_session i s)"
  using assms by (auto simp: retire_def split: option.splits if_splits)

lemma Lookup_cases:
  fixes sha up code
  defines "h \<equiv> hashCode sha up code"
  obtains
    (fresh) "map_of (cs_entries s) h = None"
      "Lookup sha up now rn ri code project container dir branch commit s
        = failAttempt (unknown_entry h) h CodeInvalid (put_entry h (unknown_entry h) s)"
  | (failed) e err where "map_of (cs_entries s) h = Some e"
      "ce_unknown e \<and> err = CodeInvalid \<or> \<not> ce_unknown e \<and> (ce_expires e < now \<or> ce_project e \<noteq> project)"
      "Lookup sha up now rn ri code project container dir branch commit s = failAttempt e h err s"
  | (again) e x where "map_of (cs_entries s) h = Some e" "\<not> ce_unknown e" "now \<le> ce_expires e"
      "ce_project e = project" "ce_sessionID e \<noteq> ''''"
      "session_at s (ce_sessionID e) = Some x" "\<not> ss_finished x"
      "Lookup sha up now rn ri code project container dir branch commit s = (Inr x, s)"
  | (opens) e where "map_of (cs_entries s) h = Some e" "\<not> ce_unknown e" "now \<le> ce_expires e"
      "ce_project e = project"
      "ce_sessionID e = '''' \<or> (case session_at s (ce_sessionID e) of None \<Rightarrow> True | Some x \<Rightarrow> ss_finished x)"
      "Lookup sha up now rn ri code project container dir branch commit s
        = open_session e h rn ri project container dir branch commit s"
proof (cases "map_of (cs_entries s) h")
  case None
  with fresh show ?thesis by (simp add: Lookup_def Let_def h_def unknown_entry_def)
next
  case (Some e)
  consider "ce_unknown e" | "\<not> ce_unknown e" "ce_expires e < now"
    | "\<not> ce_unknown e" "\<not> ce_expires e < now" "ce_project e \<noteq> project"
    | "\<not> ce_unknown e" "\<not> ce_expires e < now" "ce_project e = project" by blast
  then show ?thesis
  proof cases
    case 4
    show ?thesis
    proof (cases "ce_sessionID e = ''''")
      case True
      with 4 Some opens show ?thesis by (simp add: Lookup_def Let_def h_def not_less)
    next
      case False
      show ?thesis
      proof (cases "session_at s (ce_sessionID e)")
        case None
        with 4 Some opens False show ?thesis by (simp add: Lookup_def Let_def h_def not_less)
      next
        case (Some x)
        with 4 \<open>map_of (cs_entries s) h = Some e\<close> opens again False show ?thesis
          by (cases "ss_finished x") (simp_all add: Lookup_def Let_def h_def not_less)
      qed
    qed
  qed (use Some failed in \<open>simp_all add: Lookup_def Let_def h_def\<close>)
qed

lemma unknown_budget: "ce_attempts (unknown_entry h) < MaxAttempts"
  by (simp add: unknown_entry_def MaxAttempts_def)

lemma step_budget: "within_budget s \<Longrightarrow> within_budget (code_step sha up op s)"
proof (cases op)
  case (OGenerate now drawn project)
  assume b: "within_budget s"
  have "within_budget s1" if "retire now project s = Inr s1" for s1
    using that b by (cases rule: retire_cases) (simp_all add: within_budget_drop)
  then show ?thesis
    using OGenerate b
    by (auto simp: Generate_def Let_def MaxAttempts_def intro!: within_budget_put split: option.splits sum.splits)
next
  case (OLookup now rn ri code project container dir branch commit)
  assume b: "within_budget s"
  show ?thesis
    by (cases rule: Lookup_cases [of s sha up code now rn ri project container dir branch commit])
       (auto simp: OLookup b budget_fail within_budget_put unknown_budget intro!: budget_open [OF b] budget_entry [OF b])
qed (auto simp: Session_def Finish_def markUsed_def Let_def budget_entry intro!: within_budget_put
       split: option.splits)

lemma run_budget: "within_budget s \<Longrightarrow> within_budget (code_run sha up ops s)"
  by (induction ops arbitrary: s) (simp_all add: step_budget)

text \<open>A code that no entry vouches for.\<close>

definition unknown_code :: "string \<Rightarrow> code_store \<Rightarrow> bool" where
  "unknown_code h s \<longleftrightarrow> (case map_of (cs_entries s) h of None \<Rightarrow> True | Some e \<Rightarrow> ce_unknown e)"

lemma entries_simps [simp]:
  "map_of (cs_entries (put_entry h e s)) k = (if k = h then Some e else map_of (cs_entries s) k)"
  "cs_entries (put_session x s) = cs_entries s"
  "cs_entries (drop_session i s) = cs_entries s"
  "cs_heap (put_entry h e s) = cs_heap s" "cs_live (put_entry h e s) = cs_live s"
  "cs_heap (drop_entry h s) = cs_heap s" "cs_live (drop_entry h s) = cs_live s"
  "cs_live (put_session x s) = cs_live s" "cs_heap (drop_session i s) = cs_heap s"
  "cs_live (drop_session i s) = removeAll i (cs_live s)"
  "map_of (cs_heap (put_session x s)) k = (if k = ss_ID x then Some x else map_of (cs_heap s) k)"
  by (simp_all add: store_simps update_conv')

lemma map_of_delete: "map_of (AList.delete h al) k = (if k = h then None else map_of al k)"
  by (simp add: delete_conv')

lemma entries_drop [simp]:
  "map_of (cs_entries (drop_entry h s)) k = (if k = h then None else map_of (cs_entries s) k)"
  by (simp add: drop_entry_def map_of_delete)

lemma Lookup_unknown:
  assumes "unknown_code (hashCode sha up code) s"
  shows "\<exists>s'. Lookup sha up now rn ri code project container dir branch commit s = (Inl CodeInvalid, s')
     \<and> unknown_code (hashCode sha up code) s'"
  using assms
  by (cases "map_of (cs_entries s) (hashCode sha up code)")
     (auto simp: Lookup_def Let_def unknown_code_def failAttempt_def unknown_entry_def)

text \<open>One attempt that names another project.\<close>

record hello_args =
  ha_now :: gotime
  ha_project :: string
  ha_container :: string
  ha_branch :: string

fun attempts :: "(string \<Rightarrow> string) \<Rightarrow> (nat \<Rightarrow> nat) \<Rightarrow> string \<Rightarrow> hello_args list \<Rightarrow> code_store \<Rightarrow> code_store" where
  "attempts sha up code [] s = s"
| "attempts sha up code (a # as) s =
     attempts sha up code as
       (snd (Lookup sha up (ha_now a) None None code (ha_project a) (ha_container a) '''' (ha_branch a) '''' s))"

lemma attempts_unknown:
  "unknown_code (hashCode sha up code) s \<Longrightarrow> unknown_code (hashCode sha up code) (attempts sha up code as s)"
proof (induction as arbitrary: s)
  case (Cons a as)
  then show ?case
    using Lookup_unknown [OF Cons.prems, of "ha_now a" None None "ha_project a" "ha_container a" "[]" "ha_branch a" "[]"]
    by auto
qed simp

lemma failed_attempt:
  assumes "map_of (cs_entries s) (hashCode sha up code) = Some e" "\<not> ce_unknown e" "ce_project e \<noteq> project"
  shows "\<exists>err. Lookup sha up now rn ri code project container dir branch commit s
    = (Inl err, if MaxAttempts \<le> ce_attempts e + 1 then drop_entry (hashCode sha up code) s
       else put_entry (hashCode sha up code) (e\<lparr>ce_attempts := ce_attempts e + 1\<rparr>) s)"
  using assms by (auto simp: Lookup_def Let_def failAttempt_def)

lemma attempts_kill:
  assumes "map_of (cs_entries s) (hashCode sha up code) = Some e" "\<not> ce_unknown e"
    and "list_all (\<lambda>a. ha_project a \<noteq> ce_project e) as" "MaxAttempts \<le> ce_attempts e + length as" "as \<noteq> []"
  shows "unknown_code (hashCode sha up code) (attempts sha up code as s)"
  using assms
proof (induction as arbitrary: s e)
  case (Cons a as)
  let ?h = "hashCode sha up code"
  have "ce_project e \<noteq> ha_project a" using Cons.prems(3) by auto
  then obtain err where l: "Lookup sha up (ha_now a) None None code (ha_project a) (ha_container a) '''' (ha_branch a) '''' s
      = (Inl err, if MaxAttempts \<le> ce_attempts e + 1 then drop_entry ?h s
         else put_entry ?h (e\<lparr>ce_attempts := ce_attempts e + 1\<rparr>) s)"
    using failed_attempt [OF Cons.prems(1,2)] by blast
  show ?case
  proof (cases "MaxAttempts \<le> ce_attempts e + 1")
    case True
    then show ?thesis using attempts_unknown [of sha up code "drop_entry ?h s" as] l
      by (simp add: unknown_code_def)
  next
    case False
    then have "as \<noteq> []" using Cons.prems(4) by auto
    then show ?thesis
      using False l Cons.prems
        Cons.IH [of "put_entry ?h (e\<lparr>ce_attempts := ce_attempts e + 1\<rparr>) s" "e\<lparr>ce_attempts := ce_attempts e + 1\<rparr>"]
      by simp
  qed
qed simp

text \<open>A code whose plan was accepted or whose session ended, with no session left to join.\<close>

definition active :: "code_entry \<Rightarrow> code_store \<Rightarrow> bool" where
  "active e s \<longleftrightarrow> ce_sessionID e \<noteq> ''''
     \<and> (case session_at s (ce_sessionID e) of None \<Rightarrow> False | Some x \<Rightarrow> \<not> ss_finished x)"

definition spent :: "string \<Rightarrow> code_store \<Rightarrow> bool" where
  "spent h s \<longleftrightarrow> (case map_of (cs_entries s) h of
     None \<Rightarrow> True
   | Some e \<Rightarrow> ce_unknown e \<or> ((ce_used e \<or> ce_plain e = '''') \<and> \<not> active e s))"

lemma Lookup_spent:
  assumes "spent (hashCode sha up code) s"
  shows "\<exists>err s'. Lookup sha up now rn ri code project container dir branch commit s = (Inl err, s')
     \<and> spent (hashCode sha up code) s'"
  using assms
  by (cases rule: Lookup_cases [of s sha up code now rn ri project container dir branch commit])
     (auto simp: spent_def failAttempt_def Let_def unknown_entry_def open_session_def active_def session_at_def)

text \<open>
  What is asked of the random draws of a run: the ids of new sessions are new, and no generated code
  hashes to a given \<open>h\<close>.
\<close>

fun fresh_id :: "code_op \<Rightarrow> code_store \<Rightarrow> bool" where
  "fresh_id (OLookup now rn ri code project container dir branch commit) s =
     (case ri of None \<Rightarrow> True
      | Some i \<Rightarrow> i \<noteq> '''' \<and> list_all (\<lambda>(_, e). ce_sessionID e \<noteq> i) (cs_entries s))"
| "fresh_id _ s = True"

fun fresh_ids :: "(string \<Rightarrow> string) \<Rightarrow> (nat \<Rightarrow> nat) \<Rightarrow> code_op list \<Rightarrow> code_store \<Rightarrow> bool" where
  "fresh_ids sha up [] s = True"
| "fresh_ids sha up (op # ops) s = (fresh_id op s \<and> fresh_ids sha up ops (code_step sha up op s))"

fun avoids :: "(string \<Rightarrow> string) \<Rightarrow> (nat \<Rightarrow> nat) \<Rightarrow> string \<Rightarrow> code_op \<Rightarrow> bool" where
  "avoids sha up h (OGenerate now (Some plain) project) = (hashCode sha up plain \<noteq> h)"
| "avoids sha up h _ = True"

lemma spent_weaken:
  assumes "spent h s"
    and "\<And>e'. map_of (cs_entries s') h = Some e' \<Longrightarrow> \<exists>e. map_of (cs_entries s) h = Some e
      \<and> (ce_unknown e \<longrightarrow> ce_unknown e') \<and> (ce_used e \<or> ce_plain e = '''' \<longrightarrow> ce_used e' \<or> ce_plain e' = '''')
      \<and> (active e' s' \<longrightarrow> active e s)"
  shows "spent h s'"
proof (cases "map_of (cs_entries s') h")
  case (Some e')
  from assms(2) [OF Some] assms(1) Some show ?thesis by (auto simp: spent_def)
qed (simp add: spent_def)

lemma active_same: "session_at s' (ce_sessionID e) = session_at s (ce_sessionID e) \<Longrightarrow> active e s' = active e s"
  by (simp add: active_def)

lemma active_drop: "active e (drop_session i s) \<Longrightarrow> active e s"
  by (auto simp: active_def session_at_def split: if_splits)

lemma session_at_simps [simp]:
  "session_at (put_entry h e s) i = session_at s i"
  "session_at (drop_entry h s) i = session_at s i"
  "session_at (s\<lparr>cs_byProject := bp\<rparr>) i = session_at s i"
  by (simp_all add: session_at_def put_entry_def drop_entry_def)

lemma active_finish: "active e (put_session (x\<lparr>ss_finished := True\<rparr>) s) \<Longrightarrow> active e s \<or> ce_sessionID e = ss_ID x"
  by (auto simp: active_def session_at_def split: if_splits option.splits)

lemma active_finish_self: "ce_sessionID e = ss_ID x \<Longrightarrow> \<not> active e (put_session (x\<lparr>ss_finished := True\<rparr>) s)"
  by (auto simp: active_def session_at_def)

lemma active_finish': "active e (put_session (x\<lparr>ss_finished := True\<rparr>) s) \<Longrightarrow> active e s"
  using active_finish active_finish_self by blast

lemma spent_retire: "spent h s \<Longrightarrow> retire now project s = Inr s1 \<Longrightarrow> spent h s1"
  by (erule retire_cases)
     (auto intro!: spent_weaken [of h s] simp: active_def session_at_def split: if_splits option.splits)

lemma spent_open:
  assumes "spent h s" "h' \<noteq> h"
    and fresh: "\<And>i. ri = Some i \<Longrightarrow> list_all (\<lambda>(_, e). ce_sessionID e \<noteq> i) (cs_entries s)"
  shows "spent h (snd (open_session e' h' rn ri project container dir branch commit s))"
proof (cases "ce_used e' \<or> ce_plain e' = '''' \<or> rn = None \<or> ri = None")
  case True
  with assms(1) show ?thesis by (auto simp: open_session_def split: option.splits)
next
  case False
  then obtain nonce i where r: "rn = Some nonce" "ri = Some i" by auto
  have other: "ce_sessionID e \<noteq> i" if "map_of (cs_entries s) h = Some e" for e
    using fresh [OF r(2)] map_of_SomeD [OF that] by (auto simp: list_all_iff)
  show ?thesis
    by (rule spent_weaken [OF assms(1)])
       (use False r assms(2) other in \<open>auto simp: open_session_def Let_def active_def session_at_def new_session_def
          split: if_splits option.splits\<close>)
qed

lemma spent_fail: "spent h s \<Longrightarrow> h' \<noteq> h \<Longrightarrow> spent h (snd (failAttempt e h' err s))"
  by (rule spent_weaken [of h s]) (auto simp: failAttempt_def Let_def active_def split: if_splits)

lemma spent_put_other: "spent h s \<Longrightarrow> h' \<noteq> h \<Longrightarrow> spent h (put_entry h' e s)"
  by (rule spent_weaken [of h s]) (auto simp: active_def)

lemma spent_finished: "spent h s \<Longrightarrow> spent h (put_session (x\<lparr>ss_finished := True\<rparr>) s)"
  by (rule spent_weaken [of h s]) (auto dest: active_finish')

lemma spent_Finish: "spent h s \<Longrightarrow> spent h (Finish i s)"
  by (rule spent_weaken [of h s])
     (auto simp: Finish_def Let_def active_def session_at_def split: option.splits if_splits)

lemma spent_markUsed: "spent h s \<Longrightarrow> spent h (markUsed x s)"
  by (rule spent_weaken [of h s]) (auto simp: markUsed_def active_def split: option.splits if_splits)

lemma spent_step:
  assumes "spent h s" "fresh_id op s" "avoids sha up h op"
  shows "spent h (code_step sha up op s)"
proof (cases op)
  case (OGenerate now drawn project)
  show ?thesis
  proof (cases "retire now project s")
    case (Inl err)
    with OGenerate assms(1) show ?thesis by (simp add: Generate_def split: option.splits)
  next
    case (Inr s1)
    then have "spent h s1" using assms(1) spent_retire by blast
    with OGenerate Inr assms show ?thesis
      by (auto simp: Generate_def Let_def intro!: spent_put_other split: option.splits)
         (auto simp: spent_def active_def put_entry_def session_at_def update_conv' split: option.splits if_splits)
  qed
next
  case (OLookup now rn ri code project container dir branch commit)
  show ?thesis
  proof (cases "hashCode sha up code = h")
    case True
    with Lookup_spent [of sha up code s now rn ri project container dir branch commit] assms(1) OLookup
    show ?thesis by auto
  next
    case False
    have fresh: "ri = Some i \<Longrightarrow> list_all (\<lambda>(_, e). ce_sessionID e \<noteq> i) (cs_entries s)" for i
      using assms(2) OLookup by simp
    show ?thesis
      by (cases rule: Lookup_cases [of s sha up code now rn ri project container dir branch commit])
         (auto simp: OLookup assms(1) False False [symmetric] intro!: spent_fail spent_put_other spent_open fresh)
  qed
next
  case (OSession now i)
  with assms show ?thesis by (auto simp: Session_def intro: spent_finished split: option.splits)
qed (use assms in \<open>auto intro: spent_Finish spent_markUsed spent_finished split: option.splits\<close>)

lemma spent_run:
  "spent h s \<Longrightarrow> fresh_ids sha up ops s \<Longrightarrow> list_all (avoids sha up h) ops \<Longrightarrow> spent h (code_run sha up ops s)"
  by (induction ops arbitrary: s) (simp_all add: spent_step)

text \<open>Sessions are filed under their ids and know the hash of the code that opened them.\<close>

definition opened_by :: "code_entry \<Rightarrow> sync_session \<Rightarrow> bool" where
  "opened_by e x \<longleftrightarrow> ss_codeHash x = ce_hash e \<and> ss_Project x = ce_project e \<and> ss_ExpiresAt x = ce_expires e"

lemma opened_by_simps [simp]:
  "opened_by (e\<lparr>ce_plain := p\<rparr>) x = opened_by e x" "opened_by (e\<lparr>ce_used := u\<rparr>) x = opened_by e x"
  "opened_by (e\<lparr>ce_attempts := n\<rparr>) x = opened_by e x"
  "opened_by e (x\<lparr>ss_finished := f\<rparr>) = opened_by e x"
  by (simp_all add: opened_by_def)

definition sessions_wf :: "code_store \<Rightarrow> bool" where
  "sessions_wf s \<longleftrightarrow> (\<forall>i x. map_of (cs_heap s) i = Some x \<longrightarrow> ss_ID x = i)
     \<and> (\<forall>h e. map_of (cs_entries s) h = Some e \<longrightarrow> ce_hash e = h
          \<and> (ce_sessionID e \<noteq> '''' \<longrightarrow> (\<forall>x. map_of (cs_heap s) (ce_sessionID e) = Some x \<longrightarrow> opened_by e x)))"

lemma wf_heap: "sessions_wf s \<Longrightarrow> map_of (cs_heap s) i = Some x \<Longrightarrow> ss_ID x = i"
  by (simp add: sessions_wf_def)

lemma wf_put_entry:
  "sessions_wf s \<Longrightarrow> ce_hash e = h \<Longrightarrow>
   (\<And>x. ce_sessionID e \<noteq> '''' \<Longrightarrow> map_of (cs_heap s) (ce_sessionID e) = Some x \<Longrightarrow> opened_by e x) \<Longrightarrow>
   sessions_wf (put_entry h e s)"
  by (auto simp: sessions_wf_def)

lemma wf_entry: "sessions_wf s \<Longrightarrow> map_of (cs_entries s) h = Some e \<Longrightarrow>
    ce_hash e = h \<and> (ce_sessionID e \<noteq> '''' \<longrightarrow> (\<forall>x. map_of (cs_heap s) (ce_sessionID e) = Some x \<longrightarrow> opened_by e x))"
  by (auto simp: sessions_wf_def)

lemma wf_other [simp]:
  "sessions_wf (drop_session i s) = sessions_wf s"
  "sessions_wf (s\<lparr>cs_byProject := bp\<rparr>) = sessions_wf s"
  "sessions_wf (s\<lparr>cs_live := lv\<rparr>) = sessions_wf s"
  by (simp_all add: sessions_wf_def drop_session_def)

lemma wf_drop_entry: "sessions_wf s \<Longrightarrow> sessions_wf (drop_entry h s)"
  by (auto simp: sessions_wf_def split: if_splits)

lemma wf_finished:
  "sessions_wf s \<Longrightarrow> map_of (cs_heap s) i = Some x \<Longrightarrow> sessions_wf (put_session (x\<lparr>ss_finished := True\<rparr>) s)"
  by (auto simp: sessions_wf_def split: if_splits)

lemma wf_fail: "sessions_wf s \<Longrightarrow> ce_hash e = h \<Longrightarrow>
   (\<And>x. ce_sessionID e \<noteq> '''' \<Longrightarrow> map_of (cs_heap s) (ce_sessionID e) = Some x \<Longrightarrow> opened_by e x) \<Longrightarrow>
   sessions_wf (snd (failAttempt e h err s))"
  by (auto simp: failAttempt_def Let_def intro!: wf_drop_entry wf_put_entry)

lemma wf_open:
  assumes "sessions_wf s" "ce_hash e = h" "ce_project e = project"
    and fresh: "\<And>i. ri = Some i \<Longrightarrow> list_all (\<lambda>(_, e). ce_sessionID e \<noteq> i) (cs_entries s)"
  shows "sessions_wf (snd (open_session e h rn ri project container dir branch commit s))"
proof (cases "ce_used e \<or> ce_plain e = '''' \<or> rn = None \<or> ri = None")
  case True
  with assms(1) show ?thesis by (auto simp: open_session_def split: option.splits)
next
  case False
  then obtain nonce i where r: "rn = Some nonce" "ri = Some i" by auto
  have other: "map_of (cs_entries s) k = Some e' \<Longrightarrow> ce_sessionID e' \<noteq> i" for k e'
    using fresh [OF r(2)] map_of_SomeD by (fastforce simp: list_all_iff)
  have "sessions_wf (put_session (new_session e i nonce project container dir branch commit) s)"
    using assms(1) other by (auto simp: sessions_wf_def new_session_def)
  then show ?thesis
    using False r assms(2,3)
    by (auto simp: open_session_def Let_def new_session_def opened_by_def intro!: wf_put_entry)
qed

lemma wf_step:
  assumes "sessions_wf s" "fresh_id op s"
  shows "sessions_wf (code_step sha up op s)"
proof (cases op)
  case (OGenerate now drawn project)
  have "sessions_wf s1" if "retire now project s = Inr s1" for s1
    using that assms(1) by (cases rule: retire_cases) (simp_all add: wf_drop_entry)
  then show ?thesis
    using OGenerate assms(1)
    by (auto simp: Generate_def Let_def intro!: wf_put_entry split: option.splits sum.splits)
next
  case (OLookup now rn ri code project container dir branch commit)
  have fresh: "ri = Some i \<Longrightarrow> list_all (\<lambda>(_, e). ce_sessionID e \<noteq> i) (cs_entries s)" for i
    using assms(2) OLookup by simp
  show ?thesis
  proof (cases rule: Lookup_cases [of s sha up code now rn ri project container dir branch commit])
    case fresh
    have "sessions_wf (put_entry (hashCode sha up code) (unknown_entry (hashCode sha up code)) s)"
      using assms(1) by (intro wf_put_entry) (simp_all add: unknown_entry_def)
    then show ?thesis unfolding OLookup code_step.simps fresh(2)
      by (intro wf_fail) (simp_all add: unknown_entry_def)
  next
    case (failed e err)
    then show ?thesis using wf_entry [OF assms(1) failed(1)] assms(1)
      by (auto simp: OLookup intro!: wf_fail)
  next
    case (opens e)
    then show ?thesis using wf_entry [OF assms(1) opens(1)] assms(1) fresh
      by (auto simp: OLookup intro!: wf_open)
  qed (use assms(1) OLookup in simp)
next
  case (OSession now i)
  with assms(1) show ?thesis
    by (auto simp: Session_def session_at_def intro: wf_finished split: option.splits if_splits)
next
  case (OFinish i)
  have "sessions_wf (put_entry h (e\<lparr>ce_plain := ''''\<rparr>) s)" if "map_of (cs_entries s) h = Some e" for h e
    using wf_entry [OF assms(1) that] assms(1) by (intro wf_put_entry) auto
  with OFinish assms(1) show ?thesis by (auto simp: Finish_def Let_def split: option.splits)
next
  case (OMarkUsed i)
  have "sessions_wf (put_entry h (e\<lparr>ce_used := True\<rparr>) s)" if "map_of (cs_entries s) h = Some e" for h e
    using wf_entry [OF assms(1) that] assms(1) by (intro wf_put_entry) auto
  with OMarkUsed assms(1) show ?thesis by (auto simp: markUsed_def split: option.splits)
next
  case (OFinished i)
  with assms(1) show ?thesis by (auto intro: wf_finished split: option.splits)
qed

lemma wf_run: "sessions_wf s \<Longrightarrow> fresh_ids sha up ops s \<Longrightarrow> sessions_wf (code_run sha up ops s)"
  by (induction ops arbitrary: s) (simp_all add: wf_step)

lemma wf_new: "sessions_wf NewCodeStore"
  by (simp add: sessions_wf_def NewCodeStore_def)

text \<open>The session that hello returns is live, and its entry points to it.\<close>

lemma Lookup_returns:
  assumes "sessions_wf s" and "Lookup sha up now rn ri code project container dir branch commit s = (Inr x, s')"
    and "fresh_id (OLookup now rn ri code project container dir branch commit) s"
  shows "\<exists>e. map_of (cs_entries s') (hashCode sha up code) = Some e \<and> ce_sessionID e = ss_ID x
    \<and> session_at s' (ss_ID x) = Some x \<and> ss_codeHash x = hashCode sha up code
    \<and> ss_Project x = project \<and> \<not> ss_finished x \<and> ss_ID x \<noteq> ''''"
proof (cases rule: Lookup_cases [of s sha up code now rn ri project container dir branch commit])
  case (again e y)
  then show ?thesis
    using assms(2) wf_entry [OF assms(1) again(1)] wf_heap [OF assms(1)]
    by (auto simp: session_at_def opened_by_def split: if_splits)
next
  case (opens e)
  have "ce_hash e = hashCode sha up code" using wf_entry [OF assms(1) opens(1)] by simp
  moreover have "open_session e (hashCode sha up code) rn ri project container dir branch commit s = (Inr x, s')"
    using opens assms(2) by simp
  ultimately show ?thesis
    using assms(3)
    by (auto simp: open_session_def Let_def new_session_def session_at_def split: if_splits option.splits)
qed (use assms in \<open>auto simp: failAttempt_def Let_def\<close>)

lemma finish_spends:
  assumes "map_of (cs_entries s) h = Some e" "ce_sessionID e = ss_ID x"
    "session_at s (ss_ID x) = Some x" "ss_codeHash x = h"
  shows "spent h (Finish (ss_ID x) s)"
  using assms by (auto simp: spent_def Finish_def Let_def active_def session_at_def)

section \<open>Properties\<close>

text \<open>
  What a laptop may type. A generated code normalises to sixteen characters of the alphabet, and
  every way of typing it - lower case, other or no separators, I or L for 1, O for 0 - hashes to the
  same entry as the code itself.
\<close>

theorem typed_code_matches:
  assumes "newCode bytes = Some plain" "types_as (normalizeCode up plain) typed"
  shows "hashCode sha up typed = hashCode sha up plain
    \<and> length (normalizeCode up plain) = 16 \<and> set (normalizeCode up plain) \<subseteq> set crockford"
  using newCode_spec(1) [OF assms(1)] newCode_spec(2) [OF assms(1), of up] types_as_normal [OF assms(2), of up] code_letter_mem
  by (auto simp: hashCode_def)

theorem typed_code_matches_witness:
  "hashCode id id ''o1 23-4567 89ab cdef'' = hashCode id id ''0123-4567-89AB-CDEF''
   \<and> length (normalizeCode id ''0123-4567-89AB-CDEF'') = 16
   \<and> set (normalizeCode id ''0123-4567-89AB-CDEF'') \<subseteq> set crockford"
proof (rule typed_code_matches)
  show "newCode (map word_of_nat [0..<16]) = Some ''0123-4567-89AB-CDEF''"
    by (simp add: newCode_def draw_code_spec code_letter_def crockford_def upt_conv_Cons)
  show "types_as (normalizeCode id ''0123-4567-89AB-CDEF'') ''o1 23-4567 89ab cdef''"
    by code_simp
qed

text \<open>
  C33: the guess budget. In every store a run of operations can reach, no entry has spent ten
  attempts; and ten attempts that name the wrong project, whatever their times and wherever they
  come from, leave a code that even the right project cannot use.
\<close>

theorem ten_failures_kill_code:
  assumes "s = code_run sha up ops NewCodeStore"
    and "map_of (cs_entries s) (hashCode sha up code) = Some e" "\<not> ce_unknown e"
    and "list_all (\<lambda>a. ha_project a \<noteq> ce_project e) as" "10 \<le> length as"
  shows "within_budget s
    \<and> fst (Lookup sha up now rn ri code (ce_project e) container dir branch commit (attempts sha up code as s))
      = Inl CodeInvalid"
proof -
  have "within_budget s"
    unfolding assms(1) by (rule run_budget) (simp add: within_budget_def NewCodeStore_def)
  moreover have "unknown_code (hashCode sha up code) (attempts sha up code as s)"
    by (rule attempts_kill [OF assms(2-4)]) (use assms(5) in \<open>auto simp: MaxAttempts_def\<close>)
  ultimately show ?thesis
    using Lookup_unknown [of sha up code "attempts sha up code as s" now rn ri "ce_project e" container dir branch commit]
    by auto
qed

definition wrong_hello :: hello_args where
  "wrong_hello = \<lparr>ha_now = 5, ha_project = ''me/other'', ha_container = ''c'', ha_branch = ''main''\<rparr>"

definition one_code :: code_store where
  "one_code = code_run id id [OGenerate 0 (Some ''AAAA'') ''me/app''] NewCodeStore"

definition one_entry :: code_entry where
  "one_entry = \<lparr>ce_hash = ''AAAA'', ce_plain = ''AAAA'', ce_project = ''me/app'', ce_expires = CodeTTL,
     ce_attempts = 0, ce_used = False, ce_sessionID = '''', ce_unknown = False\<rparr>"

theorem ten_failures_kill_code_witness:
  "within_budget one_code
   \<and> fst (Lookup id id 6 (Some ''n'') (Some ''i'') ''AAAA'' (ce_project one_entry) ''c'' ''/p'' ''main'' ''abc''
       (attempts id id ''AAAA'' (replicate 10 wrong_hello) one_code)) = Inl CodeInvalid"
proof (rule ten_failures_kill_code)
  show "one_code = code_run id id [OGenerate 0 (Some ''AAAA'') ''me/app''] NewCodeStore"
    by (rule one_code_def)
  show "map_of (cs_entries one_code) (hashCode id id ''AAAA'') = Some one_entry" by code_simp
  show "\<not> ce_unknown one_entry" by code_simp
  show "list_all (\<lambda>a. ha_project a \<noteq> ce_project one_entry) (replicate 10 wrong_hello)" by code_simp
  show "10 \<le> length (replicate 10 wrong_hello)" by simp
qed

text \<open>
  C8: a code opens one session only. Once the session that hello returned for a code has ended,
  no later run of operations - new codes for any project, other hellos, expiry, further transfers -
  makes the code open a session again, as long as the random source gives fresh session ids and
  never the same code twice.
\<close>

theorem ended_code_is_dead:
  assumes "fresh_ids sha up ops0 NewCodeStore"
    and "fresh_id (OLookup now rn ri code project container dir branch commit) (code_run sha up ops0 NewCodeStore)"
    and "Lookup sha up now rn ri code project container dir branch commit (code_run sha up ops0 NewCodeStore) = (Inr x, s)"
    and "fresh_ids sha up ops (Finish (ss_ID x) s)" "list_all (avoids sha up (hashCode sha up code)) ops"
  shows "\<exists>err. fst (Lookup sha up now' rn' ri' code project' container' dir' branch' commit'
    (code_run sha up ops (Finish (ss_ID x) s))) = Inl err"
proof -
  have "sessions_wf (code_run sha up ops0 NewCodeStore)" by (rule wf_run [OF wf_new assms(1)])
  from Lookup_returns [OF this assms(3,2)] have "spent (hashCode sha up code) (Finish (ss_ID x) s)"
    using finish_spends by blast
  then have "spent (hashCode sha up code) (code_run sha up ops (Finish (ss_ID x) s))"
    by (rule spent_run [OF _ assms(4,5)])
  from Lookup_spent [OF this] show ?thesis by (metis fst_conv)
qed

definition hello_session :: sync_session where
  "hello_session = new_session one_entry ''i1'' ''n1'' ''me/app'' ''c'' ''/p'' ''main'' ''abc''"

definition after_hello :: code_store where
  "after_hello = snd (Lookup id id 1 (Some ''n1'') (Some ''i1'') ''AAAA'' ''me/app'' ''c'' ''/p'' ''main'' ''abc'' one_code)"

theorem ended_code_is_dead_witness:
  "\<exists>err. fst (Lookup id id 9 (Some ''n3'') (Some ''i3'') ''AAAA'' ''me/app'' ''c'' ''/p'' ''main'' ''abc''
     (code_run id id
       [OLookup 2 (Some ''n2'') (Some ''i2'') ''aaaa'' ''me/app'' ''c'' ''/p'' ''main'' ''abc'',
        OGenerate 3 (Some ''BBBB'') ''me/app''] (Finish (ss_ID hello_session) after_hello))) = Inl err"
proof (rule ended_code_is_dead)
  show "fresh_ids id id [OGenerate 0 (Some ''AAAA'') ''me/app''] NewCodeStore" by simp
  show "fresh_id (OLookup 1 (Some ''n1'') (Some ''i1'') ''AAAA'' ''me/app'' ''c'' ''/p'' ''main'' ''abc'')
      (code_run id id [OGenerate 0 (Some ''AAAA'') ''me/app''] NewCodeStore)" by code_simp
  show "Lookup id id 1 (Some ''n1'') (Some ''i1'') ''AAAA'' ''me/app'' ''c'' ''/p'' ''main'' ''abc''
      (code_run id id [OGenerate 0 (Some ''AAAA'') ''me/app''] NewCodeStore) = (Inr hello_session, after_hello)"
    by code_simp
qed code_simp+

text \<open>
  Failures count against a code also while its session runs, and the entry they delete is what
  \<open>Generate\<close> consults: after ten hellos with the running code and another project, a
  second code for the project is handed out although its transfer is still live.
\<close>

lemma generate_while_running:
  "let s = attempts id id ''AAAA'' (replicate 10 wrong_hello) (markUsed hello_session after_hello)
   in (case session_at s ''i1'' of Some x \<Rightarrow> \<not> ss_finished x \<and> ss_Project x = ''me/app'' | None \<Rightarrow> False)
      \<and> fst (Generate id id 10 (Some ''BBBB'') ''me/app'' (markUsed hello_session after_hello)) = Inl SyncRunning
      \<and> fst (Generate id id 10 (Some ''BBBB'') ''me/app'' s) = Inr (''BBBB'', 10 + CodeTTL)"
  by code_simp

end
