(* ===== verification/SyncService.thy ===== *)
theory SyncService
  imports SyncCodes
begin

text \<open>
  server/internal/sync/service.go, tar.go, backup.go and the calls of container.go: planning a
  transfer, receiving one (staging, backup, apply, verify, rollback), sending one, and the backup
  archives with their restore.

  The container behind the \<open>ContainerIO\<close> interface is a parameter of type \<open>'c\<close> with its calls;
  the encrypted frames are a parameter too: a transfer arrives as the tar items that the frame
  reader yields, or as the error of deriving the key or reading the header.
\<close>

section \<open>Trees and archives\<close>

record node =
  nd_type :: string
  nd_mode :: nat
  nd_data :: string

type_synonym tree = "(string \<times> node) list"

text \<open>\<open>hashPath\<close>: the bytes of a file or the target of a link. The container's script prints the
  target with a line end before it hashes.\<close>

definition hashPath :: "(string \<Rightarrow> string) \<Rightarrow> node \<Rightarrow> string" where
  "hashPath sha n = sha (nd_data n)"

definition script_hash :: "(string \<Rightarrow> string) \<Rightarrow> node \<Rightarrow> string" where
  "script_hash sha n = (if nd_type n = TypeSymlink then sha (nd_data n @ [CHR 0x0A]) else sha (nd_data n))"

definition entry_of :: "(node \<Rightarrow> string) \<Rightarrow> string \<Rightarrow> node \<Rightarrow> sync_entry" where
  "entry_of hsh p n =
     \<lparr>se_path = p, se_size = (if nd_type n = TypeFile then int (length (nd_data n)) else 0),
      se_mode = nd_mode n, se_type = nd_type n, se_hash = hsh n\<rparr>"

datatype tar_kind = TarReg | TarSymlink | TarOther

record tar_member =
  tm_name :: string
  tm_kind :: tar_kind
  tm_mode :: nat
  tm_data :: string

datatype tar_item = Member tar_member | Unreadable

definition is_abs :: "string \<Rightarrow> bool" where
  "is_abs p \<longleftrightarrow> prefix ''/'' p"

definition writeTarMember :: "(string \<Rightarrow> string) \<Rightarrow> tar_member \<Rightarrow> sync_entry \<Rightarrow> (string + node)" where
  "writeTarMember sha h e =
     (if se_type e = TypeSymlink then
        (if tm_kind h \<noteq> TarSymlink \<or> is_abs (tm_data h) then Inl ''changed type during transfer''
         else Inr \<lparr>nd_type = TypeSymlink, nd_mode = 511, nd_data = tm_data h\<rparr>)
      else if tm_kind h \<noteq> TarReg then Inl ''changed type during transfer''
      else if int (length (tm_data h)) \<noteq> se_size e \<or> sha (tm_data h) \<noteq> se_hash e
        then Inl ''did not match its manifest hash''
      else Inr \<lparr>nd_type = TypeFile, nd_mode = se_mode e, nd_data = tm_data h\<rparr>)"

definition tar_error :: "bool \<Rightarrow> string \<Rightarrow> sync_error" where
  "tar_error strict msg = (if strict then BadPayload msg else OtherError msg)"

fun copy_loop ::
  "(string \<Rightarrow> string) \<Rightarrow> bool \<Rightarrow> (string \<times> sync_entry) list \<Rightarrow> tree \<Rightarrow> tar_item list \<Rightarrow> sync_error + tree" where
  "copy_loop sha strict want staged [] =
     (if list_all (\<lambda>(p, _). p \<in> set (map fst staged)) want then Inr staged
      else Inl (tar_error strict ''missing files''))"
| "copy_loop sha strict want staged (Unreadable # items) = Inl (tar_error strict ''not readable'')"
| "copy_loop sha strict want staged (Member h # items) =
     (let name = path_clean (trim_prefix (tm_name h) ''./'')
      in case map_of want name of
           None \<Rightarrow> if strict then Inl (BadPayload ''unexpected path'') else copy_loop sha strict want staged items
         | Some e \<Rightarrow>
             if name \<in> set (map fst staged) \<or> \<not> ValidPath name then Inl (BadPayload ''unexpected path'')
             else (case writeTarMember sha h e of
                     Inl msg \<Rightarrow> Inl (tar_error strict msg)
                   | Inr n \<Rightarrow> copy_loop sha strict want ((name, n) # staged) items))"

definition copyTarMembers ::
  "(string \<Rightarrow> string) \<Rightarrow> bool \<Rightarrow> sync_entry list \<Rightarrow> tar_item list \<Rightarrow> sync_error + tree" where
  "copyTarMembers sha strict entries items = copy_loop sha strict (Index entries) [] items"


section \<open>The container\<close>

text \<open>
  What the service asks of the container: the output of the manifest script (exit code and text),
  branch and commit, a tar of some paths, an upload of members (and whether the stream was whole),
  and the removal of paths. The calls that change the container return whether they succeeded.
\<close>

record 'c container_io =
  io_manifest :: "'c \<Rightarrow> (nat \<times> string) option"
  io_git :: "'c \<Rightarrow> (nat \<times> string) option"
  io_tar :: "string list \<Rightarrow> 'c \<Rightarrow> tar_item list"
  io_upload :: "tree \<Rightarrow> bool \<Rightarrow> 'c \<Rightarrow> bool \<times> 'c"
  io_rm :: "string list \<Rightarrow> 'c \<Rightarrow> bool \<times> 'c"

definition ContainerManifest :: "'c container_io \<Rightarrow> 'c \<Rightarrow> sync_error + manifest" where
  "ContainerManifest io c =
     (case io_manifest io c of
        None \<Rightarrow> Inl (OtherError ''build manifest'')
      | Some (code, out) \<Rightarrow>
          if code \<noteq> 0 then Inl (OtherError (trim_space out))
          else (case parseManifest out of Inl _ \<Rightarrow> Inl (OtherError ''manifest'') | Inr m \<Rightarrow> Inr m))"

definition ContainerGit :: "'c container_io \<Rightarrow> 'c \<Rightarrow> sync_error + string \<times> string" where
  "ContainerGit io c =
     (case io_git io c of
        None \<Rightarrow> Inl (OtherError ''read git state'')
      | Some (code, out) \<Rightarrow>
          if code \<noteq> 0 then Inl NotGitRepo
          else (case split_on CHR 0x0A (trim_space out) of
                  l0 # l1 # _ \<Rightarrow> Inr (trim_space l0, trim_space l1)
                | _ \<Rightarrow> Inl NotGitRepo))"

definition containerTar :: "'c container_io \<Rightarrow> string list \<Rightarrow> 'c \<Rightarrow> tar_item list" where
  "containerTar io paths c = (if paths = [] then [] else io_tar io paths c)"

text \<open>\<open>WriteTarEntry\<close> of the staged files, in order, up to the first that cannot be read.\<close>

fun tar_entries :: "tree \<Rightarrow> sync_entry list \<Rightarrow> tree \<times> bool" where
  "tar_entries staged [] = ([], True)"
| "tar_entries staged (e # es) =
     (case map_of staged (se_path e) of
        None \<Rightarrow> ([], False)
      | Some n \<Rightarrow>
          if se_type e = TypeSymlink \<and> nd_type n \<noteq> TypeSymlink then ([], False)
          else (let (ms, ok) = tar_entries staged es
                in ((se_path e, \<lparr>nd_type = se_type e, nd_mode = se_mode e, nd_data = nd_data n\<rparr>) # ms, ok)))"

definition UploadFiles :: "'c container_io \<Rightarrow> tree \<Rightarrow> sync_entry list \<Rightarrow> 'c \<Rightarrow> bool \<times> 'c" where
  "UploadFiles io staged files c =
     (if files = [] then (True, c)
      else (let (ms, ok) = tar_entries staged files in io_upload io ms ok c))"

definition RemovePaths :: "'c container_io \<Rightarrow> string list \<Rightarrow> 'c \<Rightarrow> bool \<times> 'c" where
  "RemovePaths io paths c = (if paths = [] then (True, c) else io_rm io paths c)"

section \<open>Backup archives\<close>

record backup_entry =
  be_path :: string
  be_action :: string
  be_mode :: nat
  be_type :: string
  be_hash :: string

record backup_meta =
  bm_project :: string
  bm_branch :: string
  bm_commit :: string
  bm_timestamp :: string
  bm_entries :: "backup_entry list"

datatype archive_item = MetaItem backup_meta | FileItem tar_member | BadItem

type_synonym backups = "((string \<times> string) \<times> archive_item list) list"

definition backup_name :: "string \<Rightarrow> nat \<Rightarrow> string" where
  "backup_name base i =
     (if i \<le> 1 then base @ ''.tar.gz'' else base @ ''-'' @ itoa (int i) @ ''.tar.gz'')"

definition dir_names :: "string \<Rightarrow> backups \<Rightarrow> string list" where
  "dir_names slug bs = map (snd \<circ> fst) (filter (\<lambda>((d, _), _). d = slug) bs)"

text \<open>The loop over suffixes ends within one more than the names taken: \<open>BackupPath_free\<close>.\<close>

definition BackupPath :: "string \<Rightarrow> string \<Rightarrow> backups \<Rightarrow> string" where
  "BackupPath slug base bs =
     (let taken = dir_names slug bs
      in case find (\<lambda>i. backup_name base i \<notin> set taken) [1..<1 + Suc (length taken)] of
           Some i \<Rightarrow> backup_name base i
         | None \<Rightarrow> base)"

fun meta_entries :: "(string \<times> sync_entry) list \<Rightarrow> sync_op list \<Rightarrow> backup_entry list" where
  "meta_entries byPath [] = []"
| "meta_entries byPath (op # ops) =
     (if so_action op = ActionAdded
      then \<lparr>be_path = so_path op, be_action = ActionAdded, be_mode = 0, be_type = '''', be_hash = ''''\<rparr>
           # meta_entries byPath ops
      else (case map_of byPath (so_path op) of
              None \<Rightarrow> meta_entries byPath ops
            | Some e \<Rightarrow> \<lparr>be_path = so_path op, be_action = so_action op, be_mode = se_mode e,
                         be_type = se_type e, be_hash = se_hash e\<rparr> # meta_entries byPath ops))"

text \<open>The members under \<open>files/\<close>; a path that cannot be read ends the archive, which stays on disk.\<close>

fun archive_files :: "tree \<Rightarrow> backup_entry list \<Rightarrow> archive_item list \<times> bool" where
  "archive_files staged [] = ([], True)"
| "archive_files staged (be # bes) =
     (if be_action be = ActionAdded then archive_files staged bes
      else (case map_of staged (be_path be) of
              None \<Rightarrow> ([BadItem], False)
            | Some n \<Rightarrow>
                if be_type be = TypeSymlink \<and> nd_type n \<noteq> TypeSymlink then ([BadItem], False)
                else (let (items, ok) = archive_files staged bes
                      in (FileItem \<lparr>tm_name = path_join [''files'', be_path be],
                            tm_kind = (if be_type be = TypeSymlink then TarSymlink else TarReg),
                            tm_mode = be_mode be, tm_data = nd_data n\<rparr> # items, ok))))"

definition WriteBackup ::
  "string \<Rightarrow> string \<Rightarrow> string \<Rightarrow> tree \<Rightarrow> manifest \<Rightarrow> sync_op list \<Rightarrow> string \<Rightarrow> string \<Rightarrow> backups
   \<Rightarrow> (sync_error + string) \<times> backups" where
  "WriteBackup project branch commit staged target ops stamp ts bs =
     (let meta = \<lparr>bm_project = project, bm_branch = branch, bm_commit = commit, bm_timestamp = ts,
                  bm_entries = meta_entries (Index target) ops\<rparr>;
          slug = ProjectSlug project;
          name = BackupPath slug stamp bs;
          (items, ok) = archive_files staged (bm_entries meta)
      in (if ok then Inr name else Inl (OtherError ''backup''),
          ((slug, name), MetaItem meta # items) # bs))"

fun extract_loop ::
  "backup_meta option \<Rightarrow> tree \<Rightarrow> archive_item list \<Rightarrow> sync_error + (backup_meta option \<times> tree)" where
  "extract_loop meta staged [] = Inr (meta, staged)"
| "extract_loop meta staged (MetaItem m # items) = extract_loop (Some m) staged items"
| "extract_loop meta staged (BadItem # items) = Inl (OtherError ''read backup'')"
| "extract_loop meta staged (FileItem h # items) =
     (let name = path_clean (trim_prefix (tm_name h) ''./'')
      in if \<not> prefix ''files/'' name then Inl (OtherError ''unexpected path'')
         else (let rel = trim_prefix name ''files/''
               in if \<not> ValidPath rel then Inl (OtherError ''unsafe path'')
                  else (case tm_kind h of
                          TarSymlink \<Rightarrow>
                            if is_abs (tm_data h) then Inl (OtherError ''unsafe symlink'')
                            else if rel \<in> set (map fst staged) then Inl (OtherError ''symlink'')
                            else extract_loop meta
                                   ((rel, \<lparr>nd_type = TypeSymlink, nd_mode = 511, nd_data = tm_data h\<rparr>) # staged) items
                        | TarReg \<Rightarrow>
                            extract_loop meta
                              ((rel, \<lparr>nd_type = TypeFile, nd_mode = tm_mode h, nd_data = tm_data h\<rparr>) # staged) items
                        | TarOther \<Rightarrow> extract_loop meta staged items)))"

definition ExtractBackup :: "(string \<Rightarrow> string) \<Rightarrow> archive_item list option \<Rightarrow> sync_error + (backup_meta \<times> tree)" where
  "ExtractBackup sha archive =
     (case archive of
        None \<Rightarrow> Inl (OtherError ''open backup'')
      | Some items \<Rightarrow>
          (case extract_loop None [] items of
             Inl err \<Rightarrow> Inl err
           | Inr (None, _) \<Rightarrow> Inl (OtherError ''missing manifest.json'')
           | Inr (Some meta, staged) \<Rightarrow>
               if list_all (\<lambda>e. be_action e = ActionAdded
                    \<or> map_option (hashPath sha) (map_of staged (be_path e)) = Some (be_hash e)) (bm_entries meta)
               then Inr (meta, staged)
               else Inl (OtherError ''hash mismatch'')))"

definition stagedEntries :: "tree \<Rightarrow> backup_meta \<Rightarrow> sync_entry list" where
  "stagedEntries staged meta =
     map (\<lambda>be. \<lparr>se_path = be_path be,
                se_size = (if be_type be = TypeFile
                           then (case map_of staged (be_path be) of Some n \<Rightarrow> int (length (nd_data n)) | None \<Rightarrow> 0)
                           else 0),
                se_mode = be_mode be, se_type = be_type be, se_hash = be_hash be\<rparr>)
       (filter (\<lambda>be. be_action be \<noteq> ActionAdded) (bm_entries meta))"

definition PruneBackups :: "string \<Rightarrow> nat \<Rightarrow> backups \<Rightarrow> backups" where
  "PruneBackups project keep bs =
     (let slug = ProjectSlug project;
          names = sort (filter (\<lambda>n. suffix ''.tar.gz'' n) (dir_names slug bs));
          gone = take (length names - keep) names
      in filter (\<lambda>((d, n), _). \<not> (d = slug \<and> n \<in> set gone)) bs)"


section \<open>Planning and transferring\<close>

record 'c sync_service =
  sv_store :: code_store
  sv_container :: 'c
  sv_backups :: backups

record sync_result =
  sr_applied :: nat
  sr_deleted :: nat
  sr_backup :: string

definition set_session :: "sync_session \<Rightarrow> 'c sync_service \<Rightarrow> 'c sync_service" where
  "set_session x sv = sv\<lparr>sv_store := put_session x (sv_store sv)\<rparr>"

definition parse_direction :: "string \<Rightarrow> direction option" where
  "parse_direction d = (if d = ''upload'' then Some Upload else if d = ''download'' then Some Download else None)"

definition Plan ::
  "'c container_io \<Rightarrow> sync_session \<Rightarrow> string \<Rightarrow> manifest \<Rightarrow> 'c sync_service
   \<Rightarrow> (sync_error + manifest \<times> sync_op list) \<times> sync_session \<times> 'c sync_service" where
  "Plan io x d client sv =
     (case parse_direction d of
        None \<Rightarrow> (Inl (BadPlan ''direction''), x, sv)
      | Some direction \<Rightarrow>
        (case Normalize client of
           Inl _ \<Rightarrow> (Inl (BadPlan ''malformed''), x, sv)
         | Inr client \<Rightarrow>
           if ss_accepted x then (Inl (BadPlan ''already planned''), x, sv)
           else
             (case ContainerManifest io (sv_container sv) of
                Inl err \<Rightarrow> (Inl err, x, sv)
              | Inr server \<Rightarrow>
                (case ContainerGit io (sv_container sv) of
                   Inl err \<Rightarrow> (Inl err, x, sv)
                 | Inr (branch, commit) \<Rightarrow>
                     if branch \<noteq> ss_Branch x \<or> commit \<noteq> ss_Commit x
                     then (Inl (BadPlan ''changed''), x, sv)
                     else
                       let ops = PlanOps direction client server;
                           x1 = x\<lparr>ss_client := client, ss_server := server, ss_ops := ops,
                                  ss_direction := Some direction, ss_accepted := True,
                                  ss_phase := Some (d @ ''ing'')\<rparr>;
                           sv1 = set_session x1 sv
                       in (Inr (server, ops), x1, sv1\<lparr>sv_store := markUsed x1 (sv_store sv1)\<rparr>)))))"

definition deleted_paths :: "sync_op list \<Rightarrow> string list" where
  "deleted_paths ops = map so_path (filter (\<lambda>op. so_action op = ActionDeleted) ops)"

definition added_paths :: "sync_op list \<Rightarrow> string list" where
  "added_paths ops = map so_path (filter (\<lambda>op. so_action op = ActionAdded) ops)"

definition apply_plan ::
  "'c container_io \<Rightarrow> sync_session \<Rightarrow> tree \<Rightarrow> sync_entry list \<Rightarrow> 'c \<Rightarrow> sync_error option \<times> 'c" where
  "apply_plan io x staged entries c =
     (let (ok, c1) = UploadFiles io staged entries c
      in if \<not> ok then (Some (OtherError ''upload files''), c1)
         else (let (ok2, c2) = RemovePaths io (deleted_paths (ss_ops x)) c1
               in (if ok2 then None else Some (OtherError ''delete paths''), c2)))"

definition verify_tree :: "'c container_io \<Rightarrow> manifest \<Rightarrow> 'c \<Rightarrow> sync_error option" where
  "verify_tree io want c =
     (case ContainerManifest io c of
        Inl err \<Rightarrow> Some err
      | Inr got \<Rightarrow> (case Compare want got of None \<Rightarrow> None | Some _ \<Rightarrow> Some (BadPayload ''applied tree'')))"

definition stageServerFiles ::
  "(string \<Rightarrow> string) \<Rightarrow> 'c container_io \<Rightarrow> sync_entry list \<Rightarrow> 'c \<Rightarrow> sync_error + tree" where
  "stageServerFiles sha io entries c =
     copyTarMembers sha False entries (containerTar io (map se_path entries) c)"

definition backupTarget ::
  "(string \<Rightarrow> string) \<Rightarrow> 'c container_io \<Rightarrow> string \<Rightarrow> string \<Rightarrow> sync_session \<Rightarrow> 'c sync_service
   \<Rightarrow> (sync_error + string) \<times> 'c sync_service" where
  "backupTarget sha io stamp ts x sv =
     (let affected = existingEntries (ss_server x) (ss_ops x)
      in if affected = [] then (Inr '''', sv)
         else
           (case stageServerFiles sha io affected (sv_container sv) of
              Inl err \<Rightarrow> (Inl err, sv)
            | Inr pre \<Rightarrow>
                (case WriteBackup (ss_Project x) (ss_Branch x) (ss_Commit x) pre (ss_server x) (ss_ops x)
                        stamp ts (sv_backups sv) of
                   (Inl err, bs) \<Rightarrow> (Inl err, sv\<lparr>sv_backups := bs\<rparr>)
                 | (Inr name, bs) \<Rightarrow>
                     (Inr name, sv\<lparr>sv_backups := PruneBackups (ss_Project x) 10 bs\<rparr>))))"

definition rollback ::
  "(string \<Rightarrow> string) \<Rightarrow> 'c container_io \<Rightarrow> sync_session \<Rightarrow> string \<Rightarrow> backups \<Rightarrow> 'c
   \<Rightarrow> sync_error option \<times> 'c" where
  "rollback sha io x backupPath bs c =
     (if backupPath = '''' then (None, c)
      else
        (case ExtractBackup sha (map_of bs (ProjectSlug (ss_Project x), backupPath)) of
           Inl err \<Rightarrow> (Some err, c)
         | Inr (meta, staged) \<Rightarrow>
             (let (ok, c1) = UploadFiles io staged (stagedEntries staged meta) c
              in if \<not> ok then (Some (OtherError ''upload files''), c1)
                 else (let (ok2, c2) = RemovePaths io (added_paths (ss_ops x)) c1
                       in (if ok2 then None else Some (OtherError ''delete paths''), c2)))))"

definition restore_failed :: "string \<Rightarrow> sync_error" where
  "restore_failed backupPath = OtherError (''automatic restore failed. Backup kept at '' @ backupPath)"

text \<open>\<open>incoming\<close>: what deriving the key, the temporary directory and the frame header give.\<close>

definition Send ::
  "(string \<Rightarrow> string) \<Rightarrow> 'c container_io \<Rightarrow> string \<Rightarrow> string \<Rightarrow> (sync_error + tar_item list)
   \<Rightarrow> sync_session \<Rightarrow> 'c sync_service \<Rightarrow> (sync_error + sync_result) \<times> 'c sync_service" where
  "Send sha io stamp ts incoming x sv =
     (if \<not> ss_accepted x \<or> ss_direction x \<noteq> Some Upload then (Inl (BadPlan ''plan first''), sv)
      else if ss_finished x then (Inl CodeUsed, sv)
      else
        (case incoming of
           Inl err \<Rightarrow> (Inl err, sv)
         | Inr items \<Rightarrow>
           (let entries = TransferSet (ss_client x) (ss_ops x)
            in case copyTarMembers sha True entries items of
                 Inl err \<Rightarrow> (Inl err, sv)
               | Inr staged \<Rightarrow>
                 (case backupTarget sha io stamp ts x sv of
                    (Inl err, sv1) \<Rightarrow> (Inl err, sv1)
                  | (Inr backupPath, sv1) \<Rightarrow>
                    (let (err, c1) = apply_plan io x staged entries (sv_container sv1);
                         err1 = (case err of None \<Rightarrow> verify_tree io (ss_client x) c1 | Some e \<Rightarrow> Some e)
                     in case err1 of
                          Some e \<Rightarrow>
                            (let (rerr, c2) = rollback sha io x backupPath (sv_backups sv1) c1
                             in (Inl (if rerr \<noteq> None then restore_failed backupPath else e),
                                 sv1\<lparr>sv_container := c2\<rparr>))
                        | None \<Rightarrow>
                            (let sv2 = set_session (x\<lparr>ss_finished := True, ss_backup := backupPath\<rparr>)
                                         (sv1\<lparr>sv_container := c1\<rparr>);
                                 (a, ov, d) = Counts (ss_ops x)
                             in (Inr \<lparr>sr_applied = a + ov, sr_deleted = d, sr_backup = backupPath\<rparr>,
                                 sv2\<lparr>sv_store := Finish (ss_ID x) (sv_store sv2)\<rparr>)))))))"

text \<open>The tar that a download streams; \<open>opened\<close> is what deriving the key and the frame header give.\<close>

definition Receive ::
  "'c container_io \<Rightarrow> sync_error option \<Rightarrow> bool \<Rightarrow> sync_session \<Rightarrow> 'c sync_service
   \<Rightarrow> (sync_error + tar_item list) \<times> 'c sync_service" where
  "Receive io opened written x sv =
     (if \<not> ss_accepted x \<or> ss_direction x \<noteq> Some Download then (Inl (BadPlan ''plan first''), sv)
      else if ss_finished x then (Inl CodeUsed, sv)
      else
        (case opened of
           Some err \<Rightarrow> (Inl err, sv)
         | None \<Rightarrow>
           (let items = containerTar io (map se_path (TransferSet (ss_server x) (ss_ops x))) (sv_container sv)
            in if \<not> written \<or> Unreadable \<in> set items then (Inl (OtherError ''stream''), sv)
               else (let sv1 = set_session (x\<lparr>ss_finished := True\<rparr>) sv
                     in (Inr items, sv1\<lparr>sv_store := Finish (ss_ID x) (sv_store sv1)\<rparr>)))))"

section \<open>What staging keeps\<close>

definition member_path :: "tar_member \<Rightarrow> string" where
  "member_path h = path_clean (trim_prefix (tm_name h) ''./'')"

lemma copy_loop_sound:
  assumes "copy_loop sha strict want staged items = Inr st"
  shows "map_of st p = Some n \<Longrightarrow> map_of staged p = Some n
      \<or> (\<exists>h e. Member h \<in> set items \<and> member_path h = p \<and> map_of want p = Some e \<and> writeTarMember sha h e = Inr n)"
    and "(p, e) \<in> set want \<Longrightarrow> p \<in> fst ` set st"
proof -
  have "(\<forall>p n. map_of st p = Some n \<longrightarrow> map_of staged p = Some n
      \<or> (\<exists>h e. Member h \<in> set items \<and> member_path h = p \<and> map_of want p = Some e \<and> writeTarMember sha h e = Inr n))
    \<and> (\<forall>(p, e) \<in> set want. p \<in> fst ` set st)"
    using assms
  proof (induction sha strict want staged items rule: copy_loop.induct)
    case (1 sha strict want staged)
    then show ?case by (force simp: list_all_iff split: if_splits)
  next
    case (3 sha strict want staged h items)
    show ?case
    proof (cases "map_of want (member_path h)")
      case None
      then have "\<not> strict" "copy_loop sha strict want staged items = Inr st"
        using 3(3) by (auto simp: member_path_def Let_def split: if_splits)
      with 3(1) None show ?thesis by (fastforce simp: member_path_def)
    next
      case (Some e)
      then obtain n where n: "writeTarMember sha h e = Inr n"
        "copy_loop sha strict want ((member_path h, n) # staged) items = Inr st"
        and new: "member_path h \<notin> set (map fst staged)" "ValidPath (member_path h)"
        using 3(3) by (auto simp: member_path_def Let_def split: if_splits sum.splits)
      have IH: "(\<forall>p m. map_of st p = Some m \<longrightarrow> map_of ((member_path h, n) # staged) p = Some m
          \<or> (\<exists>h e. Member h \<in> set items \<and> member_path h = p \<and> map_of want p = Some e \<and> writeTarMember sha h e = Inr m))
        \<and> (\<forall>(p, e) \<in> set want. p \<in> fst ` set st)"
        using 3(2) Some n new by (auto simp: member_path_def)
      show ?thesis
      proof (intro conjI allI impI)
        fix p m
        assume "map_of st p = Some m"
        with IH consider "map_of ((member_path h, n) # staged) p = Some m"
          | h' e' where "Member h' \<in> set items" "member_path h' = p" "map_of want p = Some e'"
            "writeTarMember sha h' e' = Inr m" by blast
        then show "map_of staged p = Some m \<or> (\<exists>h' e. Member h' \<in> set (Member h # items)
            \<and> member_path h' = p \<and> map_of want p = Some e \<and> writeTarMember sha h' e = Inr m)"
        proof cases
          case 1
          with Some n(1) show ?thesis by (cases "member_path h = p") auto
        next
          case 2
          then show ?thesis by auto
        qed
      qed (use IH in simp)
    qed
  qed simp_all
  then show "map_of st p = Some n \<Longrightarrow> map_of staged p = Some n
      \<or> (\<exists>h e. Member h \<in> set items \<and> member_path h = p \<and> map_of want p = Some e \<and> writeTarMember sha h e = Inr n)"
    and "(p, e) \<in> set want \<Longrightarrow> p \<in> fst ` set st" by auto
qed

lemma copyTarMembers_sound:
  assumes "copyTarMembers sha strict entries items = Inr st" "map_of (Index entries) p = Some e"
  shows "\<exists>h n. map_of st p = Some n \<and> Member h \<in> set items \<and> member_path h = p \<and> writeTarMember sha h e = Inr n"
proof -
  note c = assms(1) [unfolded copyTarMembers_def]
  have "p \<in> fst ` set st"
    by (rule copy_loop_sound(2) [OF c]) (use assms(2) in \<open>simp add: Index_mem\<close>)
  then obtain n where n: "map_of st p = Some n" by (metis domD dom_map_of_conv_image_fst)
  from copy_loop_sound(1) [OF c n] assms(2) n show ?thesis by auto
qed


section \<open>What archives keep\<close>

lemma path_join_files: "ValidPath p \<Longrightarrow> path_join [''files'', p] = ''files/'' @ p"
proof -
  assume "ValidPath p"
  then have plain: "list_all plain_seg (split_on CHR ''/'' p)" by (rule ValidPath_plain)
  have "split_on CHR ''/'' (''files/'' @ p) = ''files'' # split_on CHR ''/'' p"
    using split_on_append [of "CHR ''/''" "''files''" p] by simp
  then have "list_all plain_seg (split_on CHR ''/'' (''files/'' @ p))"
    using plain by (simp add: plain_seg_def)
  from path_clean_plain [OF this] show ?thesis
    using \<open>ValidPath p\<close> by (simp add: path_join_def ValidPath_def)
qed

lemma member_path_files:
  "ValidPath p \<Longrightarrow> path_clean (trim_prefix (''files/'' @ p) ''./'') = ''files/'' @ p"
  using path_join_files [of p] by (simp add: path_join_def ValidPath_def trim_prefix_def)

definition stored_ok :: "backup_entry \<Rightarrow> bool" where
  "stored_ok be \<longleftrightarrow> ValidPath (be_path be) \<and> (be_type be = TypeFile \<or> be_type be = TypeSymlink)"

definition stored_node :: "tree \<Rightarrow> backup_entry \<Rightarrow> string \<times> node" where
  "stored_node staged be = (be_path be,
     \<lparr>nd_type = be_type be, nd_mode = (if be_type be = TypeSymlink then 511 else be_mode be),
      nd_data = (case map_of staged (be_path be) of Some n \<Rightarrow> nd_data n | None \<Rightarrow> '''')\<rparr>)"

definition saved :: "backup_entry list \<Rightarrow> backup_entry list" where
  "saved bes = filter (\<lambda>be. be_action be \<noteq> ActionAdded) bes"

lemma extract_archive:
  assumes "archive_files staged bes = (items, True)"
    and "extract_loop mo acc items = Inr (mo', st)" "\<And>be. be \<in> set (saved bes) \<Longrightarrow> stored_ok be"
  shows "mo' = mo \<and> st = rev (map (stored_node staged) (saved bes)) @ acc"
  using assms
proof (induction bes arbitrary: items acc)
  case (Cons be bes)
  show ?case
  proof (cases "be_action be = ActionAdded")
    case True
    with Cons show ?thesis by (simp add: saved_def)
  next
    case False
    then obtain n items' where n: "map_of staged (be_path be) = Some n"
      and rest: "archive_files staged bes = (items', True)"
      and items: "items = FileItem \<lparr>tm_name = path_join [''files'', be_path be],
          tm_kind = (if be_type be = TypeSymlink then TarSymlink else TarReg),
          tm_mode = be_mode be, tm_data = nd_data n\<rparr> # items'"
      using Cons.prems(1) by (auto split: option.splits if_splits prod.splits)
    have ok: "stored_ok be" using Cons.prems(3) False by (simp add: saved_def)
    then have v: "ValidPath (be_path be)" by (simp add: stored_ok_def)
    let ?f = "path_join [''files'', be_path be]"
    have f: "path_clean (trim_prefix ?f ''./'') = ?f" "prefix ''files/'' ?f" "trim_prefix ?f ''files/'' = be_path be"
      using member_path_files [OF v] path_join_files [OF v] by (simp_all add: trim_prefix_def)
    have "extract_loop mo (stored_node staged be # acc) items' = Inr (mo', st)"
      using Cons.prems(2) n ok v
      by (auto simp: items f Let_def stored_node_def stored_ok_def type_defs split: if_splits)
    from Cons.IH [OF rest this] Cons.prems(3) False show ?thesis by (simp add: saved_def)
  qed
qed (simp add: saved_def)

lemma tar_entries_all:
  "(\<And>e. e \<in> set es \<Longrightarrow> \<exists>n. map_of staged (se_path e) = Some n \<and> (se_type e = TypeSymlink \<longrightarrow> nd_type n = TypeSymlink)) \<Longrightarrow>
   tar_entries staged es = (map (\<lambda>e. (se_path e, \<lparr>nd_type = se_type e, nd_mode = se_mode e,
      nd_data = nd_data (the (map_of staged (se_path e)))\<rparr>)) es, True)"
proof (induction es)
  case (Cons e es)
  from Cons.prems [of e] obtain n where "map_of staged (se_path e) = Some n"
    "se_type e = TypeSymlink \<longrightarrow> nd_type n = TypeSymlink" by auto
  with Cons show ?case by simp
qed simp

lemma tar_entries_paths: "(p, n) \<in> set (fst (tar_entries staged es)) \<Longrightarrow> p \<in> se_path ` set es"
proof (induction es)
  case (Cons e es)
  then show ?case
    by (cases "tar_entries staged es") (auto split: option.splits if_splits)
qed simp

section \<open>Rollback\<close>

text \<open>
  What is asked of the container: \<open>tr\<close> reads a path of its tree. An upload changes only the paths
  it carries and, when it succeeds, leaves them as carried; a removal changes only the paths it
  names; the members of a tar are files of the tree; a manifest lists the tree.
\<close>

definition upload_law :: "('c \<Rightarrow> string \<Rightarrow> node option) \<Rightarrow> 'c container_io \<Rightarrow> bool" where
  "upload_law tr io \<longleftrightarrow> (\<forall>ms ok c b c'. io_upload io ms ok c = (b, c') \<longrightarrow>
     (\<forall>p. p \<notin> fst ` set ms \<longrightarrow> tr c' p = tr c p)
     \<and> (b \<and> distinct (map fst ms) \<longrightarrow> (\<forall>p n. (p, n) \<in> set ms \<longrightarrow> tr c' p = Some n)))"

definition rm_law :: "('c \<Rightarrow> string \<Rightarrow> node option) \<Rightarrow> 'c container_io \<Rightarrow> bool" where
  "rm_law tr io \<longleftrightarrow> (\<forall>ps c b c'. io_rm io ps c = (b, c') \<longrightarrow>
     (\<forall>p. p \<notin> set ps \<longrightarrow> tr c' p = tr c p) \<and> (b \<longrightarrow> (\<forall>p \<in> set ps. tr c' p = None)))"

definition tar_law :: "('c \<Rightarrow> string \<Rightarrow> node option) \<Rightarrow> 'c container_io \<Rightarrow> bool" where
  "tar_law tr io \<longleftrightarrow> (\<forall>ps c h. Member h \<in> set (io_tar io ps c) \<and> member_path h \<in> set ps \<longrightarrow>
     (\<exists>n. tr c (member_path h) = Some n \<and> nd_data n = tm_data h))"

definition covers :: "('c \<Rightarrow> string \<Rightarrow> node option) \<Rightarrow> 'c \<Rightarrow> manifest \<Rightarrow> bool" where
  "covers tr c m \<longleftrightarrow> (\<forall>p. case map_of (Index m) p of
       None \<Rightarrow> tr c p = None
     | Some e \<Rightarrow> \<exists>n. tr c p = Some n \<and> nd_mode n = se_mode e \<and> nd_type n = se_type e)"

definition manifest_law :: "('c \<Rightarrow> string \<Rightarrow> node option) \<Rightarrow> 'c container_io \<Rightarrow> bool" where
  "manifest_law tr io \<longleftrightarrow> (\<forall>c m. ContainerManifest io c = Inr m \<longrightarrow> covers tr c m)"

definition io_laws :: "('c \<Rightarrow> string \<Rightarrow> node option) \<Rightarrow> 'c container_io \<Rightarrow> bool" where
  "io_laws tr io \<longleftrightarrow> upload_law tr io \<and> rm_law tr io \<and> tar_law tr io \<and> manifest_law tr io"

lemma backup_name_inj: "inj_on (backup_name base) {1..<n}"
proof (rule inj_onI)
  fix i j assume "i \<in> {1..<n}" "j \<in> {1..<n}" and eq: "backup_name base i = backup_name base j"
  have "nat_digits i = nat_digits j \<Longrightarrow> i = j" by (metis digits_val_nat_digits)
  with eq \<open>i \<in> _\<close> \<open>j \<in> _\<close> show "i = j"
    by (auto simp: backup_name_def itoa_nonneg split: if_splits)
qed

lemma BackupPath_free:
  "BackupPath slug base bs \<notin> set (dir_names slug bs) \<and> BackupPath slug base bs \<noteq> ''''"
proof -
  let ?taken = "dir_names slug bs"
  obtain i where "find (\<lambda>i. backup_name base i \<notin> set ?taken) [1..<1 + Suc (length ?taken)] = Some i"
    "backup_name base i \<notin> set ?taken"
    using first_free [where f = "backup_name base" and a = 1 and taken = ?taken, OF backup_name_inj] by blast
  moreover have "backup_name base i \<noteq> ''''" by (simp add: backup_name_def)
  ultimately show ?thesis by (simp add: BackupPath_def Let_def del: upt_Suc)
qed

lemma map_of_filter_pair:
  "map_of (filter (\<lambda>((d, n), _). P d n) al) k = (if P (fst k) (snd k) then map_of al k else None)"
  by (induction al) auto

lemma map_of_PruneBackups: "map_of (PruneBackups project keep bs) k = Some v \<Longrightarrow> map_of bs k = Some v"
  by (simp add: PruneBackups_def Let_def map_of_filter_pair split: if_splits)

lemma meta_entries_mem:
  "be \<in> set (saved (meta_entries al ops)) \<longleftrightarrow> (\<exists>op \<in> set ops. \<exists>e. so_action op \<noteq> ActionAdded
     \<and> map_of al (so_path op) = Some e
     \<and> be = \<lparr>be_path = so_path op, be_action = so_action op, be_mode = se_mode e,
             be_type = se_type e, be_hash = se_hash e\<rparr>)"
  by (induction ops) (auto simp: saved_def split: option.splits)

lemma meta_entries_distinct:
  "distinct (map so_path ops) \<Longrightarrow> distinct (map be_path (saved (meta_entries al ops)))"
proof (induction ops)
  case (Cons op ops)
  have "be_path ` set (saved (meta_entries al ops)) \<subseteq> so_path ` set ops"
    by (auto simp: meta_entries_mem)
  with Cons show ?case by (auto simp: saved_def split: option.splits)
qed (simp add: saved_def)

text \<open>What a successful backup holds: for every affected path, the node that the container had.\<close>

lemma backup_holds:
  assumes "backupTarget sha io stamp ts x sv = (Inr bp, sv1)" "existingEntries (ss_server x) (ss_ops x) \<noteq> []"
    and "tar_law tr io" "covers tr (sv_container sv) (ss_server x)"
  shows "\<exists>pre items bs. bp \<noteq> '''' \<and> sv1 = sv\<lparr>sv_backups := PruneBackups (ss_Project x) 10 bs\<rparr>
    \<and> map_of bs (ProjectSlug (ss_Project x), bp) = Some (MetaItem
         \<lparr>bm_project = ss_Project x, bm_branch = ss_Branch x, bm_commit = ss_Commit x, bm_timestamp = ts,
          bm_entries = meta_entries (Index (ss_server x)) (ss_ops x)\<rparr> # items)
    \<and> archive_files pre (meta_entries (Index (ss_server x)) (ss_ops x)) = (items, True)
    \<and> (\<forall>op \<in> set (ss_ops x). \<forall>e. so_action op \<noteq> ActionAdded \<and> map_of (Index (ss_server x)) (so_path op) = Some e \<longrightarrow>
         (\<exists>n. map_of pre (so_path op) = Some n
           \<and> tr (sv_container sv) (so_path op) = Some \<lparr>nd_type = se_type e, nd_mode = se_mode e, nd_data = nd_data n\<rparr>))"
proof -
  let ?aff = "existingEntries (ss_server x) (ss_ops x)"
  obtain pre where pre: "stageServerFiles sha io ?aff (sv_container sv) = Inr pre"
    using assms(1,2) by (auto simp: backupTarget_def Let_def split: sum.splits)
  obtain items bs where w: "WriteBackup (ss_Project x) (ss_Branch x) (ss_Commit x) pre (ss_server x) (ss_ops x)
      stamp ts (sv_backups sv) = (Inr bp, bs)" and sv1: "sv1 = sv\<lparr>sv_backups := PruneBackups (ss_Project x) 10 bs\<rparr>"
    and items: "archive_files pre (meta_entries (Index (ss_server x)) (ss_ops x)) = (items, True)"
    using assms(1,2) pre
    by (auto simp: backupTarget_def Let_def WriteBackup_def split: sum.splits prod.splits if_splits)
  have bs: "map_of bs (ProjectSlug (ss_Project x), bp) = Some (MetaItem
         \<lparr>bm_project = ss_Project x, bm_branch = ss_Branch x, bm_commit = ss_Commit x, bm_timestamp = ts,
          bm_entries = meta_entries (Index (ss_server x)) (ss_ops x)\<rparr> # items)" "bp \<noteq> ''''"
    using w items BackupPath_free by (auto simp: WriteBackup_def Let_def)
  have node: "\<exists>n. map_of pre (so_path op) = Some n
           \<and> tr (sv_container sv) (so_path op) = Some \<lparr>nd_type = se_type e, nd_mode = se_mode e, nd_data = nd_data n\<rparr>"
    if op: "op \<in> set (ss_ops x)" "so_action op \<noteq> ActionAdded" "map_of (Index (ss_server x)) (so_path op) = Some e" for op e
  proof -
    have path: "se_path e = so_path op" using Index_path [OF op(3)] by simp
    have e: "e \<in> set ?aff" using op by (auto simp: existingEntries_def Let_def map_filter_mem)
    have "se_path e \<in> se_path ` set ?aff" using e by blast
    then obtain e' where e': "map_of (Index ?aff) (so_path op) = Some e'"
      using Index_None [of ?aff "so_path op"] path by (cases "map_of (Index ?aff) (so_path op)") auto
    have "e' \<in> set ?aff" "se_path e' = so_path op" using Index_path [OF e'] by auto
    then have "map_of (Index (ss_server x)) (so_path op) = Some e'"
      using Index_path by (fastforce simp: existingEntries_def Let_def map_filter_mem split: if_splits)
    then have "e' = e" using op(3) by simp
    with copyTarMembers_sound [OF pre [unfolded stageServerFiles_def] e']
    obtain h n where n: "map_of pre (so_path op) = Some n" "member_path h = so_path op"
      "Member h \<in> set (containerTar io (map se_path ?aff) (sv_container sv))" "writeTarMember sha h e = Inr n"
      by blast
    have mem: "member_path h \<in> set (map se_path ?aff)" using imageI [OF e, of se_path] path n(2) by simp
    have "Member h \<in> set (io_tar io (map se_path ?aff) (sv_container sv))"
      using n(3) by (simp add: containerTar_def split: if_splits)
    with assms(3) mem have "\<exists>m. tr (sv_container sv) (member_path h) = Some m \<and> nd_data m = tm_data h"
      unfolding tar_law_def by blast
    then obtain m where m: "tr (sv_container sv) (so_path op) = Some m" "nd_data m = tm_data h"
      unfolding n(2) by blast
    have "nd_mode m = se_mode e \<and> nd_type m = se_type e"
      using assms(4) op(3) m(1) by (auto simp: covers_def split: option.splits dest: spec [of _ "so_path op"])
    moreover have "nd_data n = tm_data h" using n(4) by (auto simp: writeTarMember_def split: if_splits)
    ultimately show ?thesis using n(1) m by (cases m) auto
  qed
  show ?thesis using bs sv1 items node by blast
qed

lemma uploaded_nodes:
  assumes "upload_law tr io" "UploadFiles io staged es c = (True, c')" "distinct (map se_path es)"
    and "\<And>e. e \<in> set es \<Longrightarrow> \<exists>n. map_of staged (se_path e) = Some n \<and> (se_type e = TypeSymlink \<longrightarrow> nd_type n = TypeSymlink)"
  shows "p \<notin> se_path ` set es \<Longrightarrow> tr c' p = tr c p"
    and "e \<in> set es \<Longrightarrow> map_of staged (se_path e) = Some n \<Longrightarrow>
      tr c' (se_path e) = Some \<lparr>nd_type = se_type e, nd_mode = se_mode e, nd_data = nd_data n\<rparr>"
proof -
  let ?ms = "map (\<lambda>e. (se_path e, \<lparr>nd_type = se_type e, nd_mode = se_mode e,
      nd_data = nd_data (the (map_of staged (se_path e)))\<rparr>)) es"
  have ms: "tar_entries staged es = (?ms, True)" using assms(4) by (rule tar_entries_all)
  have law: "(\<forall>p. p \<notin> fst ` set ?ms \<longrightarrow> tr c' p = tr c p)
      \<and> (distinct (map fst ?ms) \<longrightarrow> (\<forall>p n. (p, n) \<in> set ?ms \<longrightarrow> tr c' p = Some n))" if "es \<noteq> []"
  proof -
    have "io_upload io ?ms True c = (True, c')" using assms(2) ms that by (simp add: UploadFiles_def)
    with assms(1) show ?thesis unfolding upload_law_def by blast
  qed
  show "tr c' p = tr c p" if "p \<notin> se_path ` set es"
  proof (cases "es = []")
    case True
    with assms(2) show ?thesis by (simp add: UploadFiles_def)
  next
    case False
    have "p \<notin> fst ` set ?ms" using that by auto
    with law [OF False] show ?thesis by blast
  qed
  show "tr c' (se_path e) = Some \<lparr>nd_type = se_type e, nd_mode = se_mode e, nd_data = nd_data n\<rparr>"
    if e: "e \<in> set es" "map_of staged (se_path e) = Some n"
  proof -
    have "(se_path e, \<lparr>nd_type = se_type e, nd_mode = se_mode e, nd_data = nd_data n\<rparr>) \<in> set ?ms"
      using e by (auto intro!: image_eqI [of _ _ e])
    moreover have "distinct (map fst ?ms)" using assms(3) by (simp add: comp_def)
    moreover have "es \<noteq> []" using e by auto
    ultimately show ?thesis using law by blast
  qed
qed

lemma rm_nodes:
  assumes "rm_law tr io" "RemovePaths io ps c = (b, c')"
  shows "p \<notin> set ps \<Longrightarrow> tr c' p = tr c p" and "b \<Longrightarrow> p \<in> set ps \<Longrightarrow> tr c' p = None"
  using assms by (auto simp: RemovePaths_def rm_law_def split: if_splits)

lemma rollback_restores:
  fixes x :: sync_session
  defines "ops \<equiv> ss_ops x" and "server \<equiv> ss_server x"
  defines "bes \<equiv> saved (meta_entries (Index server) ops)"
  assumes laws: "upload_law tr io" "rm_law tr io"
    and ops: "ops = Diff client server" and ok: "\<And>e. e \<in> set server \<Longrightarrow> entry_ok e"
    and arch: "archive_files pre (bm_entries meta) = (items, True)" "bm_entries meta = meta_entries (Index server) ops"
      "\<And>v. map_of bks (ProjectSlug (ss_Project x), bp) = Some v \<Longrightarrow> v = MetaItem meta # items" "bp \<noteq> ''''"
    and held: "\<And>op e. op \<in> set ops \<Longrightarrow> so_action op \<noteq> ActionAdded \<Longrightarrow> map_of (Index server) (so_path op) = Some e \<Longrightarrow>
      \<exists>n. map_of pre (so_path op) = Some n
        \<and> tr c0 (so_path op) = Some \<lparr>nd_type = se_type e, nd_mode = se_mode e, nd_data = nd_data n\<rparr>"
    and cov: "covers tr c0 server"
    and rest: "\<And>p. p \<notin> so_path ` set ops \<Longrightarrow> tr c1 p = tr c0 p"
    and rb: "rollback sha io x bp bks c1 = (None, c2)"
  shows "tr c2 p = tr c0 p"
proof -
  obtain meta' st c' where ex: "ExtractBackup sha (map_of bks (ProjectSlug (ss_Project x), bp)) = Inr (meta', st)"
    and up: "UploadFiles io st (stagedEntries st meta') c1 = (True, c')"
    and rm: "RemovePaths io (added_paths ops) c' = (True, c2)"
    using rb arch(4) by (auto simp: rollback_def ops_def Let_def split: sum.splits prod.splits if_splits)
  have "map_of bks (ProjectSlug (ss_Project x), bp) = Some (MetaItem meta # items)"
    using ex arch(3) by (auto simp: ExtractBackup_def split: option.splits)
  then obtain mo where "extract_loop (Some meta) [] items = Inr (mo, st)" "mo = Some meta'"
    using ex by (auto simp: ExtractBackup_def split: sum.splits option.splits if_splits)
  moreover have stored: "stored_ok be" if "be \<in> set (saved (bm_entries meta))" for be
    using that ok Index_path [of server]
    by (fastforce simp: arch(2) meta_entries_mem stored_ok_def entry_ok_def)
  ultimately have meta': "meta' = meta" and st: "st = rev (map (stored_node pre) bes)"
    using extract_archive [OF arch(1), of "Some meta" "[]" mo st] by (auto simp: bes_def arch(2))
  have dops: "distinct (map so_path ops)" unfolding ops by (rule diff_distinct)
  have dbes: "distinct (map be_path bes)" unfolding bes_def by (rule meta_entries_distinct [OF dops])
  have look: "map_of st (be_path be) = Some (snd (stored_node pre be))" if "be \<in> set bes" for be
  proof -
    have "distinct (map fst st)" using dbes by (simp add: st rev_map [symmetric] comp_def stored_node_def)
    moreover have "(be_path be, snd (stored_node pre be)) \<in> set st"
      using that by (force simp: st stored_node_def)
    ultimately show ?thesis by simp
  qed
  have files: "stagedEntries st meta' = map (\<lambda>be. \<lparr>se_path = be_path be,
      se_size = (if be_type be = TypeFile then (case map_of st (be_path be) of Some n \<Rightarrow> int (length (nd_data n)) | None \<Rightarrow> 0) else 0),
      se_mode = be_mode be, se_type = be_type be, se_hash = be_hash be\<rparr>) bes" (is "_ = map ?e bes")
    by (simp add: stagedEntries_def meta' arch(2) bes_def saved_def)
  have dfiles: "distinct (map se_path (map ?e bes))" using dbes by (simp add: comp_def)
  have have_n: "\<exists>n. map_of st (se_path e) = Some n \<and> (se_type e = TypeSymlink \<longrightarrow> nd_type n = TypeSymlink)"
    if "e \<in> set (map ?e bes)" for e using that look by (auto simp: stored_node_def)
  note nodes = uploaded_nodes [OF laws(1) up [unfolded files] dfiles have_n]
  have added: "q \<in> set (added_paths ops) \<Longrightarrow> map_of (Index server) q = None" for q
    by (auto simp: added_paths_def ops diff_mem intro: needed_added)
  have saved_paths: "be \<in> set bes \<Longrightarrow> be_path be \<in> so_path ` set ops \<and> be_path be \<notin> set (added_paths ops)" for be
    using added by (fastforce simp: bes_def meta_entries_mem)
  consider (added) "p \<in> set (added_paths ops)" | (saved) be where "be \<in> set bes" "p = be_path be"
    | (other) "p \<notin> so_path ` set ops"
  proof -
    have "\<exists>be \<in> set bes. p = be_path be" if op: "op \<in> set ops" "p = so_path op" "so_action op \<noteq> ActionAdded" for op
    proof -
      obtain e where "map_of (Index server) (so_path op) = Some e"
        using op needed_existing by (fastforce simp: ops diff_mem)
      then have "\<lparr>be_path = so_path op, be_action = so_action op, be_mode = se_mode e,
          be_type = se_type e, be_hash = se_hash e\<rparr> \<in> set bes"
        using op unfolding bes_def meta_entries_mem by blast
      with op(2) show ?thesis by force
    qed
    then show ?thesis using that by (auto simp: added_paths_def)
  qed
  then show ?thesis
  proof cases
    case added
    then have "tr c2 p = None" using rm_nodes(2) [OF laws(2) rm] by simp
    moreover have "map_of (Index server) p = None"
      using \<open>p \<in> set (added_paths ops)\<close> by (auto simp: added_paths_def ops diff_mem intro: needed_added)
    then have "tr c0 p = None" using cov [unfolded covers_def, rule_format, of p] by simp
    ultimately show ?thesis by simp
  next
    case (saved be)
    then obtain op e where op: "op \<in> set ops" "so_action op \<noteq> ActionAdded"
      "map_of (Index server) (so_path op) = Some e" "be_path be = so_path op" "be_mode be = se_mode e" "be_type be = se_type e"
      by (auto simp: bes_def meta_entries_mem)
    obtain n where n: "map_of pre (so_path op) = Some n"
      "tr c0 (so_path op) = Some \<lparr>nd_type = se_type e, nd_mode = se_mode e, nd_data = nd_data n\<rparr>"
      using held [OF op(1-3)] by blast
    have "tr c' (se_path (?e be)) = Some \<lparr>nd_type = se_type (?e be), nd_mode = se_mode (?e be),
        nd_data = nd_data (snd (stored_node pre be))\<rparr>"
      by (rule nodes(2)) (use saved look in auto)
    then have "tr c' p = tr c0 p" using n op saved by (simp add: stored_node_def)
    moreover have "tr c2 p = tr c' p" using rm_nodes(1) [OF laws(2) rm] saved_paths [OF saved(1)] saved(2) by simp
    ultimately show ?thesis by simp
  next
    case other
    then have "p \<notin> se_path ` set (map ?e bes)" using saved_paths by auto
    then have "tr c' p = tr c1 p" using nodes(1) [of p] by blast
    moreover have "p \<notin> set (added_paths ops)" using other by (auto simp: added_paths_def)
    ultimately show ?thesis using rm_nodes(1) [OF laws(2) rm] rest [OF other] by simp
  qed
qed

lemma ContainerManifest_ok: "ContainerManifest io c = Inr m \<Longrightarrow> e \<in> set m \<Longrightarrow> entry_ok e"
  by (auto simp: ContainerManifest_def parseManifest_def Let_def Normalize_cases
      split: option.splits prod.splits if_splits sum.splits)

lemma Plan_result:
  assumes "Plan io x0 d client sv0 = (Inr (server, ops), x, sv)"
  shows "ContainerManifest io (sv_container sv) = Inr server" "ss_server x = server" "ss_ops x = ops"
    "ss_accepted x" "ss_ID x = ss_ID x0"
    "ss_direction x = Some Upload \<Longrightarrow> ops = Diff (ss_client x) server"
  using assms
  by (auto simp: Plan_def Let_def set_session_def PlanOps_def
      split: option.splits sum.splits if_splits prod.splits)

lemma TransferSet_paths: "e \<in> set (TransferSet m ops) \<Longrightarrow> se_path e \<in> so_path ` set ops"
  using Index_path by (fastforce simp: TransferSet_def Let_def map_filter_mem split: if_splits)

lemma apply_only_planned:
  assumes "upload_law tr io" "rm_law tr io"
    and "apply_plan io x staged (TransferSet m (ss_ops x)) c = (err, c')" "p \<notin> so_path ` set (ss_ops x)"
  shows "tr c' p = tr c p"
proof -
  obtain ok c1 where up: "UploadFiles io staged (TransferSet m (ss_ops x)) c = (ok, c1)" by fastforce
  obtain ms full where ms: "tar_entries staged (TransferSet m (ss_ops x)) = (ms, full)" by fastforce
  have "p \<notin> fst ` set ms"
    using tar_entries_paths [of p _ staged "TransferSet m (ss_ops x)"] TransferSet_paths assms(4) ms by fastforce
  then have c1: "tr c1 p = tr c p"
    using up assms(1) ms by (auto simp: UploadFiles_def upload_law_def split: if_splits)
  have "p \<notin> set (deleted_paths (ss_ops x))" using assms(4) by (auto simp: deleted_paths_def)
  then show ?thesis
    using assms(3) up c1 rm_nodes(1) [OF assms(2)]
    by (auto simp: apply_plan_def Let_def split: if_splits prod.splits)
qed

lemma Send_cases:
  assumes "Send sha io stamp ts incoming x sv = (Inl err, sv')"
  obtains (before) "sv_container sv' = sv_container sv"
  | (after) staged backupPath sv1 aerr c1 rerr e c2 where
      "ss_direction x = Some Upload"
      "backupTarget sha io stamp ts x sv = (Inr backupPath, sv1)"
      "apply_plan io x staged (TransferSet (ss_client x) (ss_ops x)) (sv_container sv1) = (aerr, c1)"
      "rollback sha io x backupPath (sv_backups sv1) c1 = (rerr, c2)"
      "err = (if rerr \<noteq> None then restore_failed backupPath else e)" "sv_container sv' = c2"
proof -
  have bt: "backupTarget sha io stamp ts x sv = (r, sv1) \<Longrightarrow> sv_container sv1 = sv_container sv" for r sv1
    by (auto simp: backupTarget_def Let_def split: if_splits sum.splits prod.splits)
  show ?thesis
    using assms before after bt
    by (auto simp: Send_def Let_def set_session_def split: if_splits sum.splits prod.splits option.splits)
qed


section \<open>Properties\<close>


text \<open>A container that is its tree: a removal fails when it is asked for a path named stuck.\<close>

definition tree_lookup :: "tree \<Rightarrow> string \<Rightarrow> node option" where
  "tree_lookup t p = map_of t p"

definition tree_manifest :: "(string \<Rightarrow> string) \<Rightarrow> tree \<Rightarrow> manifest" where
  "tree_manifest sha t = map (\<lambda>(p, n). entry_of (hashPath sha) p n) t"

definition tree_io :: "(string \<Rightarrow> string) \<Rightarrow> tree container_io" where
  "tree_io sha =
     \<lparr>io_manifest = (\<lambda>t. if list_all printable_entry (tree_manifest sha t)
                        then Some (0, render_manifest (tree_manifest sha t)) else None),
      io_git = (\<lambda>t. Some (0, ''main'' @ [CHR 0x0A] @ ''abc'')),
      io_tar = (\<lambda>ps t. List.map_filter (\<lambda>p. case map_of t p of
                  None \<Rightarrow> None
                | Some n \<Rightarrow> if path_clean (trim_prefix p ''./'') = p
                    then Some (Member \<lparr>tm_name = p,
                      tm_kind = (if nd_type n = TypeSymlink then TarSymlink else TarReg),
                      tm_mode = nd_mode n, tm_data = nd_data n\<rparr>) else None) ps),
      io_upload = (\<lambda>ms ok t. (ok, if ok then fold (\<lambda>(p, n). AList.update p n) ms t else t)),
      io_rm = (\<lambda>ps t. if ''stuck'' \<in> set ps then (False, t) else (True, fold AList.delete ps t))\<rparr>"

lemma fold_update_lookup:
  "p \<notin> fst ` set ms \<Longrightarrow> map_of (fold (\<lambda>(p, n). AList.update p n) ms t) p = map_of t p"
  "distinct (map fst ms) \<Longrightarrow> (p, n) \<in> set ms \<Longrightarrow> map_of (fold (\<lambda>(p, n). AList.update p n) ms t) p = Some n"
proof -
  show frame: "map_of (fold (\<lambda>(p, n). AList.update p n) ms t) p = map_of t p" if "p \<notin> fst ` set ms" for ms t p
    using that by (induction ms arbitrary: t) (auto simp: update_conv')
  show "map_of (fold (\<lambda>(p, n). AList.update p n) ms t) p = Some n"
    if "distinct (map fst ms)" "(p, n) \<in> set ms"
    using that
  proof (induction ms arbitrary: t)
    case (Cons m ms)
    then show ?case using frame [of p ms] by (cases m) (auto simp: update_conv' image_iff)
  qed simp
qed

lemma fold_delete_lookup: "map_of (fold AList.delete ps t) p = (if p \<in> set ps then None else map_of t p)"
  by (induction ps arbitrary: t) (auto simp: map_of_delete)

lemma tree_manifest_paths: "map se_path (tree_manifest sha t) = map fst t"
  by (induction t) (auto simp: tree_manifest_def entry_of_def)

lemma tree_io_laws: "io_laws tree_lookup (tree_io sha)"
proof -
  have "upload_law tree_lookup (tree_io sha)"
    by (auto simp: upload_law_def tree_io_def tree_lookup_def fold_update_lookup)
  moreover have "rm_law tree_lookup (tree_io sha)"
    by (auto simp: rm_law_def tree_io_def tree_lookup_def fold_delete_lookup split: if_splits)
  moreover have "tar_law tree_lookup (tree_io sha)"
    by (auto simp: tar_law_def tree_io_def tree_lookup_def map_filter_mem member_path_def
        split: option.splits if_splits)
  moreover have "manifest_law tree_lookup (tree_io sha)"
    unfolding manifest_law_def
  proof (intro allI impI)
    fix t m assume "ContainerManifest (tree_io sha) t = Inr m"
    then have pr: "list_all printable_entry (tree_manifest sha t)"
      and "parseManifest (render_manifest (tree_manifest sha t)) = Inr m"
      by (auto simp: ContainerManifest_def tree_io_def split: if_splits sum.splits)
    then have "Normalize (tree_manifest sha t) = Inr m"
      using parse_render [of "tree_manifest sha t"] by (simp add: list_all_iff)
    then have d: "distinct (map fst t)" and m: "m = sort_key se_path (tree_manifest sha t)"
      by (auto simp: Normalize_cases tree_manifest_paths split: if_splits)
    have sm: "set m = set (tree_manifest sha t)" by (simp add: m)
    show "covers tree_lookup t m"
      unfolding covers_def
    proof
      fix p
      show "case map_of (Index m) p of None \<Rightarrow> tree_lookup t p = None
          | Some e \<Rightarrow> \<exists>n. tree_lookup t p = Some n \<and> nd_mode n = se_mode e \<and> nd_type n = se_type e"
      proof (cases "map_of (Index m) p")
        case None
        then have "p \<notin> fst ` set t"
          using Index_None [of m p] sm tree_manifest_paths [of sha t] by (metis list.set_map)
        then have "map_of t p = None" by (simp add: map_of_eq_None_iff)
        with None show ?thesis by (simp add: tree_lookup_def)
      next
        case (Some e)
        with Index_path [OF Some] sm obtain n where "(p, n) \<in> set t" "e = entry_of (hashPath sha) p n"
          by (auto simp: tree_manifest_def entry_of_def)
        with Some d show ?thesis by (simp add: tree_lookup_def entry_of_def)
      qed
    qed
  qed
  ultimately show ?thesis by (simp add: io_laws_def)
qed

definition pad_hash :: "string \<Rightarrow> string" where
  "pad_hash s = take 64 (s @ replicate 64 (CHR ''a''))"

definition file_node :: "string \<Rightarrow> node" where
  "file_node d = \<lparr>nd_type = TypeFile, nd_mode = 420, nd_data = d\<rparr>"

definition demo_tree :: tree where
  "demo_tree = [(''a'', file_node ''old''), (''stuck'', file_node ''y'')]"

definition demo_session :: sync_session where
  "demo_session = new_session one_entry ''i1'' ''n1'' ''me/app'' ''c'' ''/p'' ''main'' ''abc''"

definition demo_service :: "tree sync_service" where
  "demo_service = \<lparr>sv_store = after_hello, sv_container = demo_tree, sv_backups = []\<rparr>"

definition demo_plan :: "(sync_error + manifest \<times> sync_op list) \<times> sync_session \<times> tree sync_service" where
  "demo_plan = Plan (tree_io pad_hash) demo_session ''upload''
     (tree_manifest pad_hash [(''a'', file_node ''new''), (''b'', file_node ''b'')]) demo_service"

definition demo_payload :: "tar_item list" where
  "demo_payload = [Member \<lparr>tm_name = ''./a'', tm_kind = TarReg, tm_mode = 420, tm_data = ''new''\<rparr>,
     Member \<lparr>tm_name = ''b'', tm_kind = TarReg, tm_mode = 420, tm_data = ''b''\<rparr>]"

definition demo_send :: "(sync_error + sync_result) \<times> tree sync_service" where
  "demo_send = Send pad_hash (tree_io pad_hash) ''t'' ''t'' (Inr demo_payload) (fst (snd demo_plan)) (snd (snd demo_plan))"

lemma demo_plan_eq: "demo_plan = (Inr (tree_manifest pad_hash demo_tree,
    [\<lparr>so_path = ''a'', so_action = ActionOverwritten\<rparr>, \<lparr>so_path = ''b'', so_action = ActionAdded\<rparr>,
     \<lparr>so_path = ''stuck'', so_action = ActionDeleted\<rparr>]), fst (snd demo_plan), snd (snd demo_plan))"
proof -
  have "fst demo_plan = Inr (tree_manifest pad_hash demo_tree,
    [\<lparr>so_path = ''a'', so_action = ActionOverwritten\<rparr>, \<lparr>so_path = ''b'', so_action = ActionAdded\<rparr>,
     \<lparr>so_path = ''stuck'', so_action = ActionDeleted\<rparr>])" by code_simp
  then show ?thesis by (metis prod.collapse)
qed

lemma demo_send_eq: "demo_send = (Inl (OtherError ''delete paths''), snd demo_send)"
proof -
  have "fst demo_send = Inl (OtherError ''delete paths'')" by code_simp
  then show ?thesis by (metis prod.collapse)
qed


text \<open>
  C9: an upload that reports success has left the container with the laptop's tree: the manifest
  read back from the container plans nothing against the laptop's, the session is finished and off
  the store's map, and what is reported is what the plan counts.
\<close>

theorem sent_tree_matches:
  assumes "Send sha io stamp ts incoming x sv = (Inr r, sv')"
  shows "\<exists>got. ContainerManifest io (sv_container sv') = Inr got \<and> Compare (ss_client x) got = None
    \<and> ss_direction x = Some Upload \<and> \<not> ss_finished x
    \<and> session_at (sv_store sv') (ss_ID x) = None
    \<and> (let (a, ov, d) = Counts (ss_ops x) in sr_applied r = a + ov \<and> sr_deleted r = d)"
proof -
  have gone: "session_at (Finish i s) i = None" for i s
    by (auto simp: Finish_def Let_def session_at_def drop_session_def split: option.splits)
  show ?thesis
    using assms gone
    by (auto simp: Send_def Let_def set_session_def verify_tree_def
        split: if_splits sum.splits prod.splits option.splits)
qed

definition good_send :: "(sync_error + sync_result) \<times> tree sync_service" where
  "good_send = (let (_, x, sv) = Plan (tree_io pad_hash) demo_session ''upload''
       (tree_manifest pad_hash [(''a'', file_node ''new''), (''stuck'', file_node ''y'')]) demo_service
     in Send pad_hash (tree_io pad_hash) ''t'' ''t'' (Inr (take 1 demo_payload)) x sv)"

theorem sent_tree_matches_witness:
  "let (_, x, _) = Plan (tree_io pad_hash) demo_session ''upload''
       (tree_manifest pad_hash [(''a'', file_node ''new''), (''stuck'', file_node ''y'')]) demo_service
   in \<exists>got. ContainerManifest (tree_io pad_hash) (sv_container (snd good_send)) = Inr got
     \<and> Compare (ss_client x) got = None"
proof -
  let ?p = "Plan (tree_io pad_hash) demo_session ''upload''
       (tree_manifest pad_hash [(''a'', file_node ''new''), (''stuck'', file_node ''y'')]) demo_service"
  have "good_send = Send pad_hash (tree_io pad_hash) ''t'' ''t'' (Inr (take 1 demo_payload)) (fst (snd ?p)) (snd (snd ?p))"
    by (simp add: good_send_def split_beta)
  moreover have "fst good_send = Inr \<lparr>sr_applied = 1, sr_deleted = 0, sr_backup = ''t.tar.gz''\<rparr>"
    by code_simp
  then have "good_send = (Inr \<lparr>sr_applied = 1, sr_deleted = 0, sr_backup = ''t.tar.gz''\<rparr>, snd good_send)"
    by (metis prod.collapse)
  ultimately have "Send pad_hash (tree_io pad_hash) ''t'' ''t'' (Inr (take 1 demo_payload)) (fst (snd ?p)) (snd (snd ?p))
      = (Inr \<lparr>sr_applied = 1, sr_deleted = 0, sr_backup = ''t.tar.gz''\<rparr>, snd good_send)" by metis
  from sent_tree_matches [OF this] show ?thesis by (auto simp: split_beta)
qed

section \<open>Where the code falls short\<close>

text \<open>
  The two sides hash a symbolic link differently: the laptop and the archive reader hash its
  target, the container's script the target and a line end. The same link on both sides is
  planned as an overwrite, so a tree that holds one never passes the check after an apply.
\<close>

theorem same_link_differs:
  assumes "nd_type n = TypeSymlink" "sha (nd_data n) \<noteq> sha (nd_data n @ [CHR 0x0A])"
  shows "Diff [entry_of (hashPath sha) p n] [entry_of (script_hash sha) p n]
      = [\<lparr>so_path = p, so_action = ActionOverwritten\<rparr>]
    \<and> Compare [entry_of (hashPath sha) p n] [entry_of (script_hash sha) p n] \<noteq> None"
  using assms
  by (simp add: Diff_def Compare_def Index_def entry_of_def differs_def hashPath_def script_hash_def
      diff_source_def diff_target_def)

theorem same_link_differs_witness:
  "let n = \<lparr>nd_type = TypeSymlink, nd_mode = 511, nd_data = ''lib/a''\<rparr>
   in Diff [entry_of (hashPath pad_hash) ''a'' n] [entry_of (script_hash pad_hash) ''a'' n]
      = [\<lparr>so_path = ''a'', so_action = ActionOverwritten\<rparr>]
    \<and> Compare [entry_of (hashPath pad_hash) ''a'' n] [entry_of (script_hash pad_hash) ''a'' n] \<noteq> None"
  unfolding Let_def by (rule same_link_differs) code_simp+

text \<open>
  A plan of additions only has no backup, and the rollback of a failed upload then removes nothing:
  the failed transfer's files stay in the container.
\<close>

lemma rollback_without_backup: "rollback sha io x '''' bs c = (None, c)"
  by (simp add: rollback_def)

text \<open>
  Nothing refuses a manifest that names a link and a path below it, and staging accepts such a
  payload: the file is then written through the link, to wherever its relative target leads on the
  server.
\<close>

lemma link_and_path_below_accepted:
  "let sha = (\<lambda>_. sample_hash);
       link = \<lparr>se_path = ''d'', se_size = 0, se_mode = 511, se_type = TypeSymlink, se_hash = sample_hash\<rparr>;
       below = \<lparr>se_path = ''d/x'', se_size = 2, se_mode = 420, se_type = TypeFile, se_hash = sample_hash\<rparr>
   in (case Normalize [link, below] of Inr m \<Rightarrow> m = [link, below] | Inl _ \<Rightarrow> False)
      \<and> copyTarMembers sha True [link, below]
          [Member \<lparr>tm_name = ''d'', tm_kind = TarSymlink, tm_mode = 511, tm_data = ''../../root''\<rparr>,
           Member \<lparr>tm_name = ''d/x'', tm_kind = TarReg, tm_mode = 420, tm_data = ''hi''\<rparr>]
        = Inr [(''d/x'', \<lparr>nd_type = TypeFile, nd_mode = 420, nd_data = ''hi''\<rparr>),
               (''d'', \<lparr>nd_type = TypeSymlink, nd_mode = 511, nd_data = ''../../root''\<rparr>)]"
  by code_simp

end
