(* ===== verification/Terminal.thy ===== *)
theory Terminal
  imports Frames
begin

text \<open>
  The output side of the terminal bridge (httpapi/terminal.go): the bytes of the pty arrive in chunks that
  may end inside a character, the browser decodes each frame on its own, and so a cut character is held
  back until the next chunk.
\<close>

definition opOutput :: char where "opOutput = CHR 0x00"
definition opExit :: char where "opExit = CHR 0x01"

text \<open>How many bytes a start byte announces.\<close>

definition seq_size :: "nat \<Rightarrow> nat" where
  "seq_size c = (if 240 \<le> c then 4 else if 224 \<le> c then 3 else 2)"

text \<open>Looking backwards from the end, at most three bytes: \<open>i\<close> counts them from 1.\<close>

fun hold_from :: "nat list \<Rightarrow> nat \<Rightarrow> nat" where
  "hold_from [] i = 0"
| "hold_from (c # cs) i =
     (if 3 < i \<or> c < 128 then 0
      else if 194 \<le> c then (if 244 < c then 0 else if i < seq_size c then i else 0)
      else hold_from cs (Suc i))"

definition splitUTF8 :: "string \<Rightarrow> nat \<times> nat" where
  "splitUTF8 b = (let h = hold_from (map byte_of (rev b)) 1 in (length b - h, h))"

record term_out =
  to_carry :: string
  to_frames :: "string list"

definition start_out :: term_out where
  "start_out = \<lparr>to_carry = [], to_frames = []\<rparr>"

text \<open>One write of the pty; \<open>ok\<close> says whether the socket takes the frame. \<open>None\<close> is the writer's error.\<close>

definition out_write :: "bool \<Rightarrow> string \<Rightarrow> term_out \<Rightarrow> nat option \<times> term_out" where
  "out_write ok p st =
     (let buf = to_carry st @ p; n = fst (splitUTF8 buf); st = st\<lparr>to_carry := drop n buf\<rparr>
      in if n = 0 then (Some (length p), st)
         else if \<not> ok then (None, st)
         else (Some (length p), st\<lparr>to_frames := to_frames st @ [opOutput # take n buf]\<rparr>))"

definition exitFrame :: "int \<Rightarrow> string \<Rightarrow> string" where
  "exitFrame code detail = opExit # be_bytes 4 (nat (code mod 2 ^ 32)) @ detail"

text \<open>The chunks of a session whose socket stays open.\<close>

definition out_all :: "string list \<Rightarrow> term_out \<Rightarrow> term_out" where
  "out_all ps st = fold (\<lambda>p st. snd (out_write True p st)) ps st"

section \<open>Where characters end\<close>

lemma hold_le: "hold_from cs i \<le> 3" and hold_length: "hold_from cs i \<noteq> 0 \<Longrightarrow> hold_from cs i < i + length cs"
  by (induction cs i rule: hold_from.induct) (auto simp: seq_size_def)

lemma splitUTF8_sum: "fst (splitUTF8 b) + snd (splitUTF8 b) = length b" "snd (splitUTF8 b) \<le> 3"
proof -
  have "hold_from (map byte_of (rev b)) 1 \<le> length b"
    using hold_length [of "map byte_of (rev b)" 1] by (cases "hold_from (map byte_of (rev b)) 1") auto
  then show "fst (splitUTF8 b) + snd (splitUTF8 b) = length b" by (simp add: splitUTF8_def Let_def)
  show "snd (splitUTF8 b) \<le> 3" by (simp add: splitUTF8_def Let_def hold_le)
qed

text \<open>Continuation bytes are passed over.\<close>

lemma hold_skip:
  "list_all is_cont cs \<Longrightarrow> hold_from (cs @ xs) i = (if 3 < i + length cs then hold_from (cs @ xs) i else hold_from xs (i + length cs))"
proof (induction cs arbitrary: i)
  case (Cons c cs)
  then have c: "\<not> c < 128" "\<not> 194 \<le> c" by (auto simp: is_cont_def)
  then show ?case using Cons.IH [of "Suc i"] Cons.prems by (cases "3 < i") auto
qed simp

lemma hold_late: "list_all is_cont cs \<Longrightarrow> 3 < i + length cs \<Longrightarrow> hold_from (cs @ xs) i = 0"
proof (induction cs arbitrary: i)
  case (Cons c cs)
  then have c: "\<not> c < 128" "\<not> 194 \<le> c" by (auto simp: is_cont_def)
  then show ?case using Cons.IH [of "Suc i"] Cons.prems by (cases "3 < i") auto
next
  case Nil
  then show ?case by (cases xs) auto
qed

text \<open>The shape of an encoded character.\<close>

lemma enc_shape:
  assumes "valid_rune r"
  shows "(\<exists>b. enc_bytes r = [b] \<and> b < 128) \<or>
    (\<exists>l cs. enc_bytes r = l # cs \<and> 194 \<le> l \<and> l \<le> 244 \<and> list_all is_cont cs \<and> Suc (length cs) = seq_size l)"
proof -
  have le: "r \<le> 1114111" using assms by (simp add: valid_rune_def)
  have m: "n mod 64 \<le> 63" for n :: nat using mod_less_divisor [of 64 n] by linarith
  consider "r < 128" | "128 \<le> r" "r < 2048" | "2048 \<le> r" "r < 65536" | "65536 \<le> r" by linarith
  then show ?thesis
  proof cases
    case 1
    then show ?thesis by (simp add: enc_bytes_def)
  next
    case 2
    then have "2 \<le> r div 64" "r div 64 < 32" by auto
    then show ?thesis using 2 by (simp add: enc_bytes_def is_cont_def seq_size_def m)
  next
    case 3
    then have "r div 4096 < 16" by auto
    then show ?thesis using 3 assms by (simp add: enc_bytes_def is_cont_def seq_size_def m)
  next
    case 4
    then have "r div 262144 \<le> 4" using le by auto
    then show ?thesis using 4 assms by (simp add: enc_bytes_def is_cont_def seq_size_def m)
  qed
qed

lemma bytes_enc: "map byte_of (enc_rune r) = enc_bytes r" if "valid_rune r"
proof -
  have "list_all (\<lambda>b. b < 256) (enc_bytes r)"
    using enc_shape [OF that] by (force simp: list_all_iff is_cont_def)
  then show ?thesis by (simp add: enc_rune_def list_all_iff byte_of_char_of map_idI)
qed

lemma hold_complete:
  assumes "valid_rune r"
  shows "hold_from (map byte_of (rev (x @ enc_rune r))) 1 = 0"
proof -
  have eq: "map byte_of (rev (x @ enc_rune r)) = rev (enc_bytes r) @ map byte_of (rev x)"
    using bytes_enc [OF assms] by (simp flip: rev_map)
  show ?thesis unfolding eq using enc_shape [OF assms]
  proof (elim disjE exE conjE)
    fix l cs assume e: "enc_bytes r = l # cs" "194 \<le> l" "l \<le> 244" "list_all is_cont cs" "Suc (length cs) = seq_size l"
    have rc: "list_all is_cont (rev cs)" using e(4) by simp
    show "hold_from (rev (enc_bytes r) @ map byte_of (rev x)) 1 = 0"
    proof (cases "3 < 1 + length cs")
      case True
      then show ?thesis using hold_late [OF rc, of 1 "l # map byte_of (rev x)"] e(1) by simp
    next
      case False
      then show ?thesis using hold_skip [OF rc, of "l # map byte_of (rev x)" 1] e by simp
    qed
  qed auto
qed

lemma hold_partial:
  assumes "valid_rune r" "enc_rune r = part @ q" "part \<noteq> []" "q \<noteq> []"
  shows "hold_from (map byte_of (rev (x @ part))) 1 = length part"
proof -
  have b: "enc_bytes r = map byte_of part @ map byte_of q" using bytes_enc [OF assms(1)] assms(2) by simp
  then have "length (enc_bytes r) \<noteq> 1" using assms(3,4) by (cases part; cases q) auto
  then obtain l cs where e: "enc_bytes r = l # cs" "194 \<le> l" "l \<le> 244" "list_all is_cont cs" "Suc (length cs) = seq_size l"
    using enc_shape [OF assms(1)] by auto
  obtain ps where p: "map byte_of part = l # ps" "cs = ps @ map byte_of q" using b e(1) assms(3) by (cases part) auto
  have len: "length part = Suc (length ps)" using p(1) by (metis length_map length_Cons)
  have lt: "Suc (length ps) < seq_size l" using e(5) p(2) assms(4) by (cases q) auto
  have "seq_size l \<le> 4" by (simp add: seq_size_def)
  then have "\<not> 3 < 1 + length ps" using lt by simp
  moreover have "list_all is_cont (rev ps)" using e(4) p(2) by simp
  moreover have "map byte_of (rev (x @ part)) = rev ps @ l # map byte_of (rev x)" using p(1) by (simp flip: rev_map)
  ultimately show ?thesis using hold_skip [of "rev ps" "l # map byte_of (rev x)" 1] e(2,3) lt len by simp
qed

section \<open>Frames hold whole characters\<close>

definition text_of :: "nat list \<Rightarrow> string \<Rightarrow> bool" where
  "text_of rs s \<longleftrightarrow> list_all valid_rune rs \<and> s = of_runes rs"

lemma of_runes_append: "of_runes (rs @ ts) = of_runes rs @ of_runes ts"
  by (simp add: of_runes_def)

lemma of_runes_cons: "of_runes (r # rs) = enc_rune r @ of_runes rs"
  by (simp add: of_runes_def)

text \<open>Cutting a text anywhere leaves whole characters and a proper part of one.\<close>

lemma cut_text:
  "list_all valid_rune rs \<Longrightarrow> b @ t = of_runes rs \<Longrightarrow>
    \<exists>rs1 rs2 part. rs = rs1 @ rs2 \<and> b = of_runes rs1 @ part \<and>
      (part = [] \<or> (\<exists>r ts q. rs2 = r # ts \<and> enc_rune r = part @ q \<and> q \<noteq> []))"
proof (induction rs arbitrary: b)
  case Nil
  then show ?case by (simp add: of_runes_def)
next
  case (Cons r rs)
  have eq: "b @ t = enc_rune r @ of_runes rs" using Cons.prems(2) by (simp add: of_runes_cons)
  show ?case
  proof (cases "length (enc_rune r) \<le> length b")
    case True
    then obtain b' where b: "b = enc_rune r @ b'" using eq
      by (metis append_eq_append_conv_if append_eq_conv_conj)
    then have "b' @ t = of_runes rs" using eq by simp
    with Cons.IH [of b'] Cons.prems(1) obtain rs1 rs2 part where
      "rs = rs1 @ rs2" "b' = of_runes rs1 @ part"
      "part = [] \<or> (\<exists>r ts q. rs2 = r # ts \<and> enc_rune r = part @ q \<and> q \<noteq> [])" by auto
    then show ?thesis using b by (intro exI [of _ "r # rs1"] exI [of _ rs2] exI [of _ part]) (simp add: of_runes_cons)
  next
    case False
    then obtain q where q: "enc_rune r = b @ q" using eq
      by (metis append_eq_append_conv_if append_eq_conv_conj nat_le_linear)
    then have "q \<noteq> []" using False by auto
    then show ?thesis using q by (intro exI [of _ "[]"] exI [of _ "r # rs"] exI [of _ b]) (simp add: of_runes_def)
  qed
qed

lemma split_text:
  assumes "list_all valid_rune rs" "b @ t = of_runes rs"
  shows "\<exists>rs1 rs2. rs = rs1 @ rs2 \<and> take (fst (splitUTF8 b)) b = of_runes rs1 \<and> drop (fst (splitUTF8 b)) b @ t = of_runes rs2"
proof -
  obtain rs1 rs2 part where c: "rs = rs1 @ rs2" "b = of_runes rs1 @ part"
      "part = [] \<or> (\<exists>r ts q. rs2 = r # ts \<and> enc_rune r = part @ q \<and> q \<noteq> [])"
    using cut_text [OF assms] by blast
  have "hold_from (map byte_of (rev b)) 1 = length part"
  proof (cases "part = []")
    case True
    show ?thesis
    proof (cases rs1 rule: rev_cases)
      case Nil
      then show ?thesis using c(2) True by (simp add: of_runes_def)
    next
      case (snoc ys r)
      then have "b = of_runes ys @ enc_rune r" "valid_rune r"
        using c True assms(1) by (simp_all add: of_runes_append of_runes_cons of_runes_def)
      then show ?thesis using hold_complete True by simp
    qed
  next
    case False
    then obtain r ts q where r: "rs2 = r # ts" "enc_rune r = part @ q" "q \<noteq> []" using c(3) by blast
    then have "valid_rune r" using c(1) assms(1) by simp
    then show ?thesis using hold_partial [OF _ r(2) False r(3), of "of_runes rs1"] c(2) by simp
  qed
  then have n: "fst (splitUTF8 b) = length (of_runes rs1)" using c(2) by (simp add: splitUTF8_def Let_def)
  have "of_runes rs1 @ (part @ t) = of_runes rs1 @ of_runes rs2" using assms(2) c(1,2) by (simp add: of_runes_append)
  then have "part @ t = of_runes rs2" by simp
  then show ?thesis using n c by auto
qed

lemma out_write_sent:
  assumes "out_write True p st = (r, st')" "buf = to_carry st @ p" "n = fst (splitUTF8 buf)"
  shows "to_carry st' = drop n buf" "r = Some (length p)" "length (to_carry st') \<le> 3"
    and "to_frames st' = (if n = 0 then to_frames st else to_frames st @ [opOutput # take n buf])"
    and "concat (map tl (to_frames st')) @ to_carry st' = concat (map tl (to_frames st)) @ buf"
proof -
  have st': "r = Some (length p)" "st' = st\<lparr>to_carry := drop n buf,
      to_frames := (if n = 0 then to_frames st else to_frames st @ [opOutput # take n buf])\<rparr>"
    using assms(1) unfolding out_write_def Let_def assms(2) [symmetric] assms(3) [symmetric] by (auto split: if_splits)
  then show "to_carry st' = drop n buf" "r = Some (length p)"
    "to_frames st' = (if n = 0 then to_frames st else to_frames st @ [opOutput # take n buf])" by simp_all
  show "length (to_carry st') \<le> 3" using st'(2) splitUTF8_sum [of buf] assms(3) by simp
  show "concat (map tl (to_frames st')) @ to_carry st' = concat (map tl (to_frames st)) @ buf" using st'(2) by simp
qed

lemma out_all_whole:
  "list_all valid_rune rs \<Longrightarrow> to_carry st @ concat ps @ t = of_runes rs \<Longrightarrow> length (to_carry st) \<le> 3 \<Longrightarrow>
   list_all (\<lambda>f. \<exists>fs. fs \<noteq> [] \<and> list_all valid_rune fs \<and> f = opOutput # of_runes fs) (to_frames st) \<Longrightarrow>
   concat (map tl (to_frames (out_all ps st))) @ to_carry (out_all ps st) = concat (map tl (to_frames st)) @ to_carry st @ concat ps \<and>
   length (to_carry (out_all ps st)) \<le> 3 \<and>
   list_all (\<lambda>f. \<exists>fs. fs \<noteq> [] \<and> list_all valid_rune fs \<and> f = opOutput # of_runes fs) (to_frames (out_all ps st))"
proof (induction ps arbitrary: st rs)
  case Nil
  then show ?case by (simp add: out_all_def)
next
  case (Cons p ps)
  obtain r st' where w: "out_write True p st = (r, st')" by fastforce
  define b where "b = to_carry st @ p"
  define n where "n = fst (splitUTF8 b)"
  note sent = out_write_sent [OF w b_def n_def]
  have "b @ (concat ps @ t) = of_runes rs" using Cons.prems(2) by (simp add: b_def)
  from split_text [OF Cons.prems(1) this, folded n_def] obtain rs1 rs2 where
    s: "rs = rs1 @ rs2" "take n b = of_runes rs1" "drop n b @ concat ps @ t = of_runes rs2"
    by blast
  have carry: "to_carry st' @ concat ps @ t = of_runes rs2" using sent(1) s(3) by simp
  have frames: "list_all (\<lambda>f. \<exists>fs. fs \<noteq> [] \<and> list_all valid_rune fs \<and> f = opOutput # of_runes fs) (to_frames st')"
  proof (cases "n = 0")
    case False
    have "b \<noteq> []" using False splitUTF8_sum(1) [of b] by (cases b) (auto simp: n_def)
    then have "of_runes rs1 \<noteq> []" using False s(2) by (metis take_eq_Nil)
    then have "rs1 \<noteq> []" by (auto simp: of_runes_def)
    then show ?thesis using False sent(4) Cons.prems(1,4) s(1,2) by auto
  qed (use Cons.prems(4) sent(4) in simp)
  have valid: "list_all valid_rune rs2" using Cons.prems(1) s(1) by simp
  have out: "out_all (p # ps) st = out_all ps st'" by (simp add: out_all_def w)
  note IH = Cons.IH [OF valid carry sent(3) frames]
  have "concat (map tl (to_frames (out_all ps st'))) @ to_carry (out_all ps st') =
      (concat (map tl (to_frames st')) @ to_carry st') @ concat ps" using IH by simp
  also have "\<dots> = concat (map tl (to_frames st)) @ to_carry st @ concat (p # ps)" unfolding sent(5) by (simp add: b_def)
  finally show ?case using IH out by simp
qed



end
