(* ===== verification/GitParse.thy ===== *)
theory GitParse
  imports Prelude "HOL-Library.AList"
begin

text \<open>
  What the git handlers read out of git's output (httpapi/gitdiff.go, gitops.go): paths, the porcelain
  status with \<open>strconv.Unquote\<close>, the counts of \<open>--numstat\<close>, and small text helpers. Against the parser
  stands git's documented printer of a status line, with its quoting of paths.
\<close>

abbreviation lf :: char where "lf \<equiv> CHR 0x0A"
abbreviation dquote :: char where "dquote \<equiv> CHR 0x22"
abbreviation bslash :: char where "bslash \<equiv> CHR 0x5C"

definition isUnmerged :: "string \<Rightarrow> string \<Rightarrow> bool" where
  "isUnmerged x y \<longleftrightarrow> x = ''U'' \<or> y = ''U'' \<or> (x = ''A'' \<and> y = ''A'') \<or> (x = ''D'' \<and> y = ''D'')"

definition validGitPath :: "string \<Rightarrow> bool" where
  "validGitPath p \<longleftrightarrow> p \<noteq> [] \<and> length p \<le> 1024 \<and> \<not> prefix ''/'' p \<and>
     list_all (\<lambda>seg. seg \<noteq> ''..'' \<and> seg \<noteq> []) (split_on (CHR ''/'') p)"

section \<open>\<open>strconv.Unquote\<close>\<close>

text \<open>The single-letter escapes, and the digits of a numeric one.\<close>

definition letter_escapes :: "(char \<times> nat) list" where
  "letter_escapes = [(CHR ''a'', 7), (CHR ''b'', 8), (CHR ''f'', 12), (CHR ''n'', 10), (CHR ''r'', 13), (CHR ''t'', 9),
     (CHR ''v'', 11), (bslash, 92), (dquote, 34)]"

definition hex_val :: "char \<Rightarrow> nat option" where
  "hex_val c =
     (if is_digit c then Some (digit_val c)
      else if CHR ''a'' \<le> c \<and> c \<le> CHR ''f'' then Some (byte_of c - 87)
      else if CHR ''A'' \<le> c \<and> c \<le> CHR ''F'' then Some (byte_of c - 55) else None)"

definition hex_number :: "nat \<Rightarrow> string \<Rightarrow> nat option" where
  "hex_number n s =
     (if length s < n \<or> list_ex (\<lambda>c. hex_val c = None) (take n s) then None
      else Some (foldl (\<lambda>v c. 16 * v + the (hex_val c)) 0 (take n s)))"

definition is_oct :: "char \<Rightarrow> bool" where
  "is_oct c \<longleftrightarrow> is_digit c \<and> digit_val c < 8"

text \<open>After a backslash: the bytes the escape stands for and how many it takes.\<close>

definition unq_escape :: "string \<Rightarrow> (string \<times> nat) option" where
  "unq_escape s =
     (case s of
        [] \<Rightarrow> None
      | c # t \<Rightarrow>
          (case map_of letter_escapes c of
             Some b \<Rightarrow> Some ([char_of b], 1)
           | None \<Rightarrow>
               if c = CHR ''x'' then map_option (\<lambda>v. ([char_of v], 3)) (hex_number 2 t)
               else if c = CHR ''u'' \<or> c = CHR ''U'' then
                 (let n = (if c = CHR ''u'' then 4 else 8)
                  in case hex_number n t of
                       None \<Rightarrow> None
                     | Some v \<Rightarrow> if valid_rune v then Some (enc_rune v, n + 1) else None)
               else if is_oct c then
                 (if length s < 3 \<or> \<not> list_all is_oct (take 3 s) then None
                  else (let v = foldl (\<lambda>v c. 8 * v + digit_val c) 0 (take 3 s)
                        in if 255 < v then None else Some ([char_of v], 3)))
               else None))"

text \<open>After the opening quote.\<close>

function unq :: "string \<Rightarrow> string option" where
  "unq [] = None"
| "unq (c # s) =
     (if c = dquote then (if s = [] then Some [] else None)
      else if c = lf then None
      else if c = bslash then
        (case unq_escape s of None \<Rightarrow> None | Some (t, n) \<Rightarrow> map_option (\<lambda>u. t @ u) (unq (drop n s)))
      else if byte_of c < 128 then map_option (\<lambda>u. c # u) (unq s)
      else (case dec_rune (c # s) of (r, n) \<Rightarrow> map_option (\<lambda>u. enc_rune r @ u) (unq (drop n (c # s)))))"
  by pat_completeness auto
termination
  by (relation "measure length") (auto dest: dec_rune_width')

declare unq.simps(2) [simp del]

section \<open>Status\<close>

text \<open>\<open>string(b)\<close> of a byte is the code point with its number.\<close>

definition byte_text :: "char \<Rightarrow> string" where
  "byte_text c = enc_rune (byte_of c)"

definition porcelain_path :: "string \<Rightarrow> string" where
  "porcelain_path p =
     (let p = (if 2 \<le> length p \<and> prefix [dquote] p \<and> suffix [dquote] p
               then (case unq (tl p) of Some u \<Rightarrow> u | None \<Rightarrow> p) else p)
      in case index_of '' -> '' p of Some i \<Rightarrow> drop (i + 4) p | None \<Rightarrow> p)"

type_synonym xy = "(string \<times> string \<times> string) list"

definition porcelain_line :: "string \<Rightarrow> xy \<Rightarrow> xy" where
  "porcelain_line l files =
     (if length l < 4 then files
      else AList.update (porcelain_path (drop 3 l)) (byte_text (l ! 0), byte_text (l ! 1)) files)"

definition parsePorcelain :: "string \<Rightarrow> xy" where
  "parsePorcelain out = fold porcelain_line (split_on lf out) []"

text \<open>What the status handler parses: the text after the first line of the trimmed output.\<close>

definition status_entries :: "string \<Rightarrow> xy" where
  "status_entries raw = parsePorcelain (case index_of [lf] raw of Some i \<Rightarrow> drop (i + 1) raw | None \<Rightarrow> [])"

section \<open>Counts\<close>

definition trim_braces :: "string \<Rightarrow> string" where
  "trim_braces s = rev (dropWhile (\<lambda>c. c \<in> {CHR 0x7B, CHR 0x7D}) (rev (dropWhile (\<lambda>c. c \<in> {CHR 0x7B, CHR 0x7D}) s)))"

text \<open>\<open>fmt.Sscanf(s, "%d", &n)\<close> into a variable that is zero.\<close>

definition scan_int :: "string \<Rightarrow> int" where
  "scan_int s =
     (let t = strip_front space_seqs s;
          sg = (if t \<noteq> [] \<and> hd t \<in> {CHR ''-'', CHR ''+''} then [hd t] else []);
          ds = takeWhile is_digit (drop (length sg) t)
      in if ds = [] then 0 else case atoi (sg @ ds) of Some v \<Rightarrow> v | None \<Rightarrow> 0)"

type_synonym counts = "(string \<times> int \<times> int) list"

definition numstat_line :: "string \<Rightarrow> counts \<times> string list \<Rightarrow> counts \<times> string list" where
  "numstat_line l acc =
     (case split_on (CHR 0x09) l of
        [a, d, p] \<Rightarrow>
          (let p = (case index_of '' => '' p of Some i \<Rightarrow> drop (i + 4) p | None \<Rightarrow> p);
               p = trim_braces p
           in if a = ''-'' then (fst acc, List.insert p (snd acc))
              else (AList.update p (scan_int a, scan_int d) (fst acc), snd acc))
      | _ \<Rightarrow> acc)"

definition parseNumstat :: "string \<Rightarrow> counts \<times> string list \<Rightarrow> counts \<times> string list" where
  "parseNumstat out acc = fold numstat_line (split_on lf out) acc"

section \<open>Text helpers\<close>

definition tailLines :: "string \<Rightarrow> nat \<Rightarrow> string" where
  "tailLines s n =
     (let ls = split_on lf (rev (dropWhile (\<lambda>c. c = lf) (rev s)))
      in join [lf] (if n < length ls then drop (length ls - n) ls else ls))"

definition firstLine :: "string \<Rightarrow> string" where
  "firstLine s =
     (let s = trim_space s;
          s = (case index_of [lf] s of Some i \<Rightarrow> take i s | None \<Rightarrow> s);
          s = cut_runes 200 ellipsis s
      in if s = [] then ''no output'' else s)"

definition isGitAuthError :: "(nat \<Rightarrow> nat) \<Rightarrow> string \<Rightarrow> bool" where
  "isGitAuthError lo s =
     list_ex (contains (to_lower lo s))
       [''could not read username'', ''authentication failed'', ''401'', ''403'', ''permission denied'',
        ''could not read from remote repository'', ''repository not found'', ''host key verification failed'']"

text \<open>Tracked changes of a status listing, in order.\<close>

definition dirty_line :: "string \<Rightarrow> string option" where
  "dirty_line l =
     (if prefix ''DIRTY-BEGIN'' l \<or> length l < 4 then None
      else if (l ! 0 \<noteq> CHR '' '' \<and> l ! 0 \<noteq> CHR ''?'') \<or> (l ! 1 \<noteq> CHR '' '' \<and> l ! 1 \<noteq> CHR ''?'')
      then Some (trim_space (drop 3 l)) else None)"

definition dirty_files :: "string \<Rightarrow> string list" where
  "dirty_files out = List.map_filter dirty_line (split_on lf out)"


section \<open>Git's printer\<close>

text \<open>
  How git prints paths (core.quotePath): control bytes, the quote, the backslash and all bytes beyond
  ASCII are escaped and the path is put in quotes; the short status does so too when it holds a space.
\<close>

definition git_escape :: "char \<Rightarrow> string" where
  "git_escape c =
     (let b = byte_of c
      in case map_of [(7, CHR ''a''), (8, CHR ''b''), (9, CHR ''t''), (10, CHR ''n''), (11, CHR ''v''), (12, CHR ''f''),
             (13, CHR ''r''), (34, dquote), (92, bslash)] b of
           Some e \<Rightarrow> [bslash, e]
         | None \<Rightarrow> if b < 32 \<or> 127 \<le> b
                   then [bslash, digit_char (b div 64), digit_char (b div 8 mod 8), digit_char (b mod 8)]
                   else [c])"

definition git_plain :: "char \<Rightarrow> bool" where
  "git_plain c \<longleftrightarrow> 32 < byte_of c \<and> byte_of c < 127 \<and> c \<noteq> dquote \<and> c \<noteq> bslash"

definition status_path :: "string \<Rightarrow> string" where
  "status_path p = (if list_all git_plain p then p else [dquote] @ concat (map git_escape p) @ [dquote])"

record status_entry =
  st_x :: char
  st_y :: char
  st_path :: string
  st_from :: "string option"

definition status_line :: "status_entry \<Rightarrow> string" where
  "status_line e =
     [st_x e, st_y e, CHR '' ''] @ (case st_from e of None \<Rightarrow> [] | Some q \<Rightarrow> status_path q @ '' -> '') @ status_path (st_path e)"

lemma cons_fun [simp]: "(@) [c] = (#) c"
  by (rule ext) simp

lemma simple_escape:
  "map_of letter_escapes e = Some b \<Longrightarrow> unq (bslash # e # s) = map_option (\<lambda>u. char_of b # u) (unq s)"
  by (simp add: unq.simps unq_escape_def)

lemma three_digits: "n < 512 \<Longrightarrow> (n div 64 * 8 + n div 8 mod 8) * 8 + n mod 8 = (n :: nat)"
proof -
  have "n div 64 * 8 + n div 8 mod 8 = n div 8"
    using div_mult_mod_eq [of "n div 8" 8] div_mult2_eq [of n 8 8] by simp
  then show ?thesis using div_mult_mod_eq [of n 8] by simp
qed

lemma digit_not_escape: "d < 8 \<Longrightarrow> map_of letter_escapes (digit_char d) = None \<and> digit_char d \<notin> {CHR ''x'', CHR ''u'', CHR ''U''}"
proof -
  assume "d < 8"
  then have "d \<in> set [0..<8]" by simp
  moreover have "list_all (\<lambda>d. map_of letter_escapes (digit_char d) = None \<and> digit_char d \<notin> {CHR ''x'', CHR ''u'', CHR ''U''}) [0..<8]"
    by code_simp
  ultimately show ?thesis unfolding list_all_iff by (rule bspec [rotated])
qed

lemma unq_octal:
  assumes "b < 256"
  shows "unq (bslash # digit_char (b div 64) # digit_char (b div 8 mod 8) # digit_char (b mod 8) # s) =
    map_option (\<lambda>u. char_of b # u) (unq s)"
proof -
  let ?ds = "[digit_char (b div 64), digit_char (b div 8 mod 8), digit_char (b mod 8)]"
  have d: "b div 64 < 8" "b div 8 mod 8 < 8" "b mod 8 < 8" using assms by (simp_all add: less_mult_imp_div_less)
  then have t: "b div 64 < 10" "b div 8 mod 8 < 10" "b mod 8 < 10" by linarith+
  have "unq_escape (?ds @ s) = Some ([char_of b], 3)"
    using digit_not_escape [OF d(1)] d t three_digits [of b] assms
    by (simp add: unq_escape_def is_oct_def Let_def algebra_simps)
  then show ?thesis by (simp add: unq.simps)
qed

lemma unq_escaped: "unq (git_escape c @ s) = map_option (\<lambda>u. c # u) (unq s)"
proof -
  let ?t = "[(7, CHR ''a''), (8, CHR ''b''), (9, CHR ''t''), (10, CHR ''n''), (11, CHR ''v''), (12, CHR ''f''),
             (13, CHR ''r''), (34, dquote), (92, bslash)] :: (nat \<times> char) list"
  show ?thesis
  proof (cases "map_of ?t (byte_of c)")
    case (Some e)
    have "list_all (\<lambda>(b, e). map_of letter_escapes e = Some b) ?t" by code_simp
    then have "map_of letter_escapes e = Some (byte_of c)" using map_of_SomeD [OF Some] by (auto simp only: list_all_iff)
    from simple_escape [OF this] Some show ?thesis by (simp add: git_escape_def)
  next
    case None
    then have no: "byte_of c \<noteq> 34" "byte_of c \<noteq> 92" "byte_of c \<noteq> 10" by (auto split: if_splits)
    then have ne: "c \<noteq> dquote" "c \<noteq> bslash" "c \<noteq> lf" by (auto simp: byte_of_def)
    show ?thesis
    proof (cases "byte_of c < 32 \<or> 127 \<le> byte_of c")
      case True
      then have "git_escape c = [bslash, digit_char (byte_of c div 64), digit_char (byte_of c div 8 mod 8), digit_char (byte_of c mod 8)]"
        using None by (simp add: git_escape_def Let_def)
      moreover have "byte_of c < 256" by simp
      ultimately show ?thesis using unq_octal [of "byte_of c" s] by simp
    next
      case False
      then have "git_escape c = [c]" using None by (simp add: git_escape_def Let_def)
      then show ?thesis using ne False by (simp add: unq.simps)
    qed
  qed
qed

lemma unq_quoted: "unq (concat (map git_escape p) @ [dquote]) = Some p"
  by (induction p) (simp_all add: unq_escaped, simp add: unq.simps)


text \<open>What the printed forms are made of.\<close>

lemma git_escape_set: "d \<in> set (git_escape c) \<Longrightarrow> 32 \<le> byte_of d \<and> byte_of d < 127"
proof -
  have oct: "\<forall>n \<in> set [0..<8]. 32 \<le> byte_of (digit_char n) \<and> byte_of (digit_char n) < 127" by code_simp
  have "byte_of c div 64 \<in> set [0..<8]" "byte_of c div 8 mod 8 \<in> set [0..<8]" "byte_of c mod 8 \<in> set [0..<8]"
    using less_mult_imp_div_less [of "byte_of c" 8 64] less_trans [OF byte_of_bound [of c], of 512] by simp_all
  then have "\<forall>d \<in> set [digit_char (byte_of c div 64), digit_char (byte_of c div 8 mod 8), digit_char (byte_of c mod 8)].
      32 \<le> byte_of d \<and> byte_of d < 127" using oct by (simp del: set_upt)
  note digits = this
  let ?t = "[(7, CHR ''a''), (8, CHR ''b''), (9, CHR ''t''), (10, CHR ''n''), (11, CHR ''v''), (12, CHR ''f''),
             (13, CHR ''r''), (34, dquote), (92, bslash)] :: (nat \<times> char) list"
  assume d: "d \<in> set (git_escape c)"
  show ?thesis
  proof (cases "map_of ?t (byte_of c)")
    case (Some e)
    have "list_all (\<lambda>(b, e). 32 \<le> byte_of e \<and> byte_of e < 127) ?t" by code_simp
    then have "32 \<le> byte_of e \<and> byte_of e < 127" using map_of_SomeD [OF Some] by (auto simp only: list_all_iff)
    moreover have "d = bslash \<or> d = e" using d Some by (simp add: git_escape_def)
    moreover have "byte_of bslash = 92" by code_simp
    ultimately show ?thesis by auto
  next
    case None
    show ?thesis
    proof (cases "byte_of c < 32 \<or> 127 \<le> byte_of c")
      case True
      then have "d = bslash \<or> d \<in> set [digit_char (byte_of c div 64), digit_char (byte_of c div 8 mod 8), digit_char (byte_of c mod 8)]"
        using d None by (simp add: git_escape_def Let_def)
      moreover have "byte_of bslash = 92" by code_simp
      ultimately show ?thesis using digits by auto
    next
      case False
      then show ?thesis using d None by (simp add: git_escape_def Let_def)
    qed
  qed
qed

lemma special_bytes: "byte_of (CHR '' '') = 32" "byte_of dquote = 34" "byte_of bslash = 92" "byte_of lf = 10"
  by code_simp+

lemma status_path_set: "d \<in> set (status_path p) \<Longrightarrow> 32 \<le> byte_of d \<and> byte_of d < 127"
proof (cases "list_all git_plain p")
  case True
  moreover assume "d \<in> set (status_path p)"
  ultimately have "git_plain d" by (simp add: status_path_def list_all_iff)
  then show ?thesis by (simp add: git_plain_def)
next
  case False
  moreover assume "d \<in> set (status_path p)"
  ultimately have "d = dquote \<or> (\<exists>c \<in> set p. d \<in> set (git_escape c))" by (auto simp: status_path_def)
  then show ?thesis using git_escape_set special_bytes by auto
qed

lemma status_path_last: "p \<noteq> [] \<Longrightarrow> status_path p \<noteq> [] \<and> CHR 0x20 < last (status_path p) \<and> last (status_path p) < CHR 0x80"
proof -
  assume p: "p \<noteq> []"
  show ?thesis
  proof (cases "list_all git_plain p")
    case True
    then have "git_plain (last p)" using p by (simp add: list_all_iff)
    then show ?thesis using p True by (simp add: status_path_def git_plain_def less_char_def byte_of_def)
  next
    case False
    then show ?thesis by (auto simp: status_path_def)
  qed
qed

lemma index_of_skip: "CHR '' '' \<notin> set q \<Longrightarrow> index_of '' -> '' (q @ '' -> '' @ p) = Some (length q)"
  by (induction q) auto

lemma plain_no_space: "list_all git_plain q \<Longrightarrow> CHR '' '' \<notin> set q \<and> dquote \<notin> set q"
  unfolding list_all_iff git_plain_def using special_bytes(1) by (metis less_irrefl)

definition entry_ok :: "status_entry \<Rightarrow> bool" where
  "entry_ok e \<longleftrightarrow> byte_of (st_x e) < 128 \<and> st_x e \<noteq> lf \<and> byte_of (st_y e) < 128 \<and> st_y e \<noteq> lf \<and> st_path e \<noteq> [] \<and>
     (case st_from e of
        None \<Rightarrow> \<not> contains (st_path e) '' -> ''
      | Some q \<Rightarrow> q \<noteq> [] \<and> list_all git_plain q \<and> list_all git_plain (st_path e))"

lemma porcelain_status_path: "\<not> contains p '' -> '' \<Longrightarrow> porcelain_path (status_path p) = p"
proof (cases "list_all git_plain p")
  case True
  assume "\<not> contains p '' -> ''"
  moreover have "\<not> prefix [dquote] p" using plain_no_space [OF True] by (cases p) auto
  ultimately show ?thesis using True by (simp add: status_path_def porcelain_path_def contains_def Let_def)
next
  case False
  assume "\<not> contains p '' -> ''"
  then show ?thesis using False unq_quoted [of p]
    by (simp add: status_path_def porcelain_path_def contains_def Let_def suffix_def)
qed

lemma porcelain_entry: "entry_ok e \<Longrightarrow> porcelain_path (drop 3 (status_line e)) = st_path e"
proof (cases "st_from e")
  case None
  assume "entry_ok e"
  then show ?thesis using None by (simp add: status_line_def entry_ok_def porcelain_status_path)
next
  case (Some q)
  assume ok: "entry_ok e"
  then have q: "q \<noteq> []" "list_all git_plain q" "list_all git_plain (st_path e)" using Some by (simp_all add: entry_ok_def)
  then have "\<not> prefix [dquote] (q @ '' -> '' @ st_path e)" using plain_no_space [OF q(2)] by (cases q) auto
  then show ?thesis using q Some index_of_skip plain_no_space [OF q(2)]
    by (simp add: status_line_def status_path_def porcelain_path_def Let_def)
qed


lemma byte_text_ascii: "byte_of c < 128 \<Longrightarrow> byte_text c = [c]"
  by (simp add: byte_text_def enc_rune_ascii)

lemma porcelain_line_entry:
  "entry_ok e \<Longrightarrow> porcelain_line (status_line e) fs = AList.update (st_path e) ([st_x e], [st_y e]) fs"
proof -
  assume ok: "entry_ok e"
  then have "status_path (st_path e) \<noteq> []" using status_path_last by (auto simp: entry_ok_def)
  then have "\<not> length (status_line e) < 4" by (cases "status_path (st_path e)") (simp_all add: status_line_def)
  moreover have "byte_text (st_x e) = [st_x e]" "byte_text (st_y e) = [st_y e]"
    using ok by (simp_all add: entry_ok_def byte_text_ascii)
  moreover have "status_line e ! 0 = st_x e" "status_line e ! 1 = st_y e" by (simp_all add: status_line_def)
  ultimately show ?thesis using porcelain_entry [OF ok] by (simp only: porcelain_line_def if_False)
qed

lemma update_fresh: "k \<notin> fst ` set xs \<Longrightarrow> AList.update k v xs = xs @ [(k, v)]"
  by (induction xs) auto

lemma porcelain_fold:
  "list_all entry_ok es \<Longrightarrow> distinct (map st_path es) \<Longrightarrow> fst ` set fs \<inter> st_path ` set es = {} \<Longrightarrow>
    fold porcelain_line (map status_line es) fs = fs @ map (\<lambda>e. (st_path e, [st_x e], [st_y e])) es"
proof (induction es arbitrary: fs)
  case (Cons e es)
  have "st_path e \<notin> fst ` set fs" using Cons.prems(3) by auto
  then have "porcelain_line (status_line e) fs = fs @ [(st_path e, [st_x e], [st_y e])]"
    using Cons.prems(1) by (simp add: porcelain_line_entry update_fresh)
  then show ?case using Cons.prems Cons.IH [of "fs @ [(st_path e, [st_x e], [st_y e])]"] by auto
qed simp

lemma status_line_no_nl: "entry_ok e \<Longrightarrow> lf \<notin> set (status_line e)"
proof -
  assume ok: "entry_ok e"
  have no: "lf \<notin> set (status_path p)" for p using status_path_set [of lf p] special_bytes(4) by auto
  have "lf \<notin> set '' -> ''" "CHR '' '' \<noteq> lf" by simp_all
  then show ?thesis using ok no by (auto simp: status_line_def entry_ok_def split: option.splits)
qed

lemma status_line_ends: "entry_ok e \<Longrightarrow> status_line e \<noteq> [] \<and> CHR 0x20 < last (status_line e) \<and> last (status_line e) < CHR 0x80"
proof -
  assume "entry_ok e"
  then have p: "st_path e \<noteq> []" by (simp add: entry_ok_def)
  from status_path_last [OF p] show ?thesis by (simp add: status_line_def split: option.split)
qed

lemma parse_status_lines:
  "list_all entry_ok es \<Longrightarrow> distinct (map st_path es) \<Longrightarrow>
    parsePorcelain (join [lf] (map status_line es)) = map (\<lambda>e. (st_path e, [st_x e], [st_y e])) es"
proof (cases "es = []")
  case True
  then show ?thesis by (simp add: parsePorcelain_def porcelain_line_def)
next
  case False
  assume ok: "list_all entry_ok es" "distinct (map st_path es)"
  have "split_on lf (join [lf] (map status_line es)) = map status_line es"
    using False ok(1) status_line_no_nl by (intro split_on_join) (auto simp: list_all_iff)
  then show ?thesis using porcelain_fold [OF ok, of "[]"] by (simp add: parsePorcelain_def)
qed

text \<open>The trailing line end of the output is trimmed, and nothing else.\<close>

lemma trim_last_nl:
  assumes "s \<noteq> []" "CHR 0x20 < hd s" "hd s < CHR 0x80" "CHR 0x20 < last s" "last s < CHR 0x80"
  shows "trim_space (s @ [lf]) = s"
proof -
  have fixed: "trim_space s = s" by (rule trim_space_printable [OF assms])
  have ends: "\<forall>w\<in>set space_seqs. hd w \<le> CHR 0x20 \<or> CHR 0x80 \<le> hd w" by code_simp
  have front: "strip_front space_seqs (s @ t) = s @ t" for t
  proof (rule strip_front_id)
    fix w assume w: "w \<in> set space_seqs" "w \<noteq> []"
    show "\<not> prefix w (s @ t)"
    proof
      assume "prefix w (s @ t)"
      then have "hd w = hd s" using w assms(1) by (cases w; cases s) (auto simp: prefix_def)
      then show False using ends w assms(2,3) by fastforce
    qed
  qed
  from front [of "[]"] fixed have "strip_front (map rev space_seqs) (rev s) = rev s"
    by (simp add: trim_space_def) (metis rev_rev_ident)
  moreover have "find (\<lambda>w. w \<noteq> [] \<and> prefix w (lf # rev s)) (map rev space_seqs) = Some [lf]"
    by (simp add: space_seqs_def)
  then have "strip_front (map rev space_seqs) (lf # rev s) = strip_front (map rev space_seqs) (rev s)"
    by (simp add: strip_front.simps [of _ "lf # rev s"])
  ultimately show ?thesis using front [of "[lf]"] by (simp add: trim_space_def)
qed

lemma join_last: "xs \<noteq> [] \<Longrightarrow> last xs \<noteq> [] \<Longrightarrow> join sep xs \<noteq> [] \<and> last (join sep xs) = last (last xs)"
proof (induction sep xs rule: join.induct)
  case (3 sep x y ys)
  then show ?case by (cases "join sep (y # ys)") auto
qed auto

lemma index_of_first: "c \<notin> set a \<Longrightarrow> index_of [c] (a @ c # b) = Some (length a)"
  by (induction a) auto

definition status_output :: "status_entry list \<Rightarrow> string" where
  "status_output es = ''STATUS-BEGIN'' @ [lf] @ concat (map (\<lambda>e. status_line e @ [lf]) es)"

lemma concat_nl_lines: "xs \<noteq> [] \<Longrightarrow> concat (map (\<lambda>x. f x @ [c]) xs) = join [c] (map f xs) @ [c]"
proof (induction xs)
  case (Cons x xs)
  then show ?case by (cases xs) auto
qed simp

text \<open>
  C19: What git prints is what the status handler reads: for the lines of a porcelain status, with paths
  quoted as git quotes them - spaces, quotes, control bytes and any bytes beyond ASCII included - the
  trimmed output gives every path with its two status letters, in order, as long as no plain path contains
  an arrow and no path of a rename needs quotes.
\<close>

theorem status_round_trip:
  assumes "list_all entry_ok es" "distinct (map st_path es)"
  shows "status_entries (trim_space (status_output es)) = map (\<lambda>e. (st_path e, [st_x e], [st_y e])) es"
proof (cases "es = []")
  case True
  have "trim_space (status_output []) = ''STATUS-BEGIN''"
    unfolding status_output_def using trim_last_nl [of "''STATUS-BEGIN''"] by (simp add: less_char_def)
  then show ?thesis using True by (simp add: status_entries_def parsePorcelain_def porcelain_line_def)
next
  case False
  let ?ls = "join [lf] (map status_line es)"
  have out: "status_output es = (''STATUS-BEGIN'' @ lf # ?ls) @ [lf]"
    using False by (simp add: status_output_def concat_nl_lines)
  have l: "last (map status_line es) = status_line (last es)" using False by (simp add: last_map)
  have e: "entry_ok (last es)" using False assms(1) by (simp add: list_all_iff)
  have j: "?ls \<noteq> [] \<and> last ?ls = last (status_line (last es))"
    using join_last [of "map status_line es" "[lf]"] False status_line_ends [OF e] l by simp
  have "trim_space (status_output es) = ''STATUS-BEGIN'' @ lf # ?ls"
    unfolding out by (rule trim_last_nl) (use j status_line_ends [OF e] in \<open>simp_all add: less_char_def\<close>)
  moreover have "index_of [lf] (''STATUS-BEGIN'' @ lf # ?ls) = Some 12"
    using index_of_first [of lf "''STATUS-BEGIN''" ?ls] by simp
  ultimately show ?thesis using parse_status_lines [OF assms] by (simp add: status_entries_def)
qed

theorem status_round_trip_witness:
  "status_entries (trim_space (status_output
      [\<lparr>st_x = CHR '' '', st_y = CHR ''M'', st_path = ''a b'', st_from = None\<rparr>,
       \<lparr>st_x = CHR ''R'', st_y = CHR '' '', st_path = ''new'', st_from = Some ''old''\<rparr>,
       \<lparr>st_x = CHR ''?'', st_y = CHR ''?'', st_path = [CHR 0xC3, CHR 0xA9], st_from = None\<rparr>])) =
    [(''a b'', '' '', ''M''), (''new'', ''R'', '' ''), ([CHR 0xC3, CHR 0xA9], ''?'', ''?'')]"
  by (subst status_round_trip) (simp_all add: entry_ok_def contains_def git_plain_def byte_of_def)

section \<open>What is misread\<close>

text \<open>A path that contains an arrow, and a rename between quoted paths.\<close>

lemma arrow_in_name_misread:
  "parsePorcelain (status_line \<lparr>st_x = CHR ''?'', st_y = CHR ''?'', st_path = ''a -> b'', st_from = None\<rparr>) = [(''b'', ''?'', ''?'')]"
  by code_simp

lemma quoted_rename_misread:
  "parsePorcelain (status_line \<lparr>st_x = CHR ''R'', st_y = CHR '' '', st_path = ''c d'', st_from = Some ''a b''\<rparr>) =
    [([dquote] @ ''c d'' @ [dquote], ''R'', '' '')]"
  by code_simp

text \<open>
  Counts of a rename inside a directory, of a path that git quotes, and of a name with a brace end up
  under another path than the status has.
\<close>

lemma numstat_misread:
  "fst (parseNumstat (''1'' @ [CHR 0x09] @ ''2'' @ [CHR 0x09] @ ''src/{old => new}/f'') ([], [])) =
    [(''new'' @ [CHR 0x7D] @ ''/f'', 1, 2)]"
  "fst (parseNumstat (''1'' @ [CHR 0x09] @ ''2'' @ [CHR 0x09] @ status_path [CHR 0xC3, CHR 0xA9]) ([], [])) =
    [(status_path [CHR 0xC3, CHR 0xA9], 1, 2)]"
  "fst (parseNumstat (''1'' @ [CHR 0x09] @ ''2'' @ [CHR 0x09] @ ''{id}'') ([], [])) = [(''id'', 1, 2)]"
  by code_simp+

end
