(* ===== verification/GitOps.thy ===== *)
theory GitOps
  imports GitParse Http Project Session Auth
begin

text \<open>
  The git routes (httpapi/gitdiff.go, gitops.go, gitconfig.go, gitopsprompt.go and the diffs of
  aigen_handlers.go): each runs commands through \<open>ExecCommand\<close> in the project's container and answers
  from their output and exit codes. A handler takes the decoded body and returns the response with the
  new world; lines for the observability log are left out. How \<open>sh\<close> reads the commands is part of the
  theory, so that what is proved is which programs run with which arguments.
\<close>

section \<open>Commands\<close>

text \<open>\<open>ExecCommand\<close> on the client: what the caller sees of an answer.\<close>

definition shown :: "go_err + exec_result \<Rightarrow> string \<times> go_err option" where
  "shown r =
     (case r of
        Inl e \<Rightarrow> ([], Some e)
      | Inr x \<Rightarrow>
          (let out = trim_space (er_Output x)
           in (out, if er_ExitCode x \<noteq> 0 then Some (errorf (''exit '' @ itoa (er_ExitCode x) @ '': '' @ Tail out)) else None)))"

definition exec_command :: "client \<Rightarrow> string \<Rightarrow> string \<Rightarrow> (string \<times> go_err option) docker_op" where
  "exec_command d c command h = (case run_in d c [''bash'', ''-lc'', command] h of (r, h') \<Rightarrow> (shown r, h'))"

definition run_sh :: "project_service \<Rightarrow> string \<Rightarrow> string \<Rightarrow> (string \<times> go_err option) project_op" where
  "run_sh sv c command = on_docker (exec_command (sv_docker sv) c command)"

text \<open>\<open>git -C <dir>\<close> with the rest of a command.\<close>

definition git :: "string \<Rightarrow> string \<Rightarrow> string" where
  "git dir rest = ''git -C '' @ ShellQuote dir @ rest"

text \<open>A step that may answer the request, and what goes on with its result otherwise.\<close>

definition and_then :: "(response + 'a) project_op \<Rightarrow> ('a \<Rightarrow> response project_op) \<Rightarrow> response project_op" where
  "and_then op f w = (case op w of (Inl r, w') \<Rightarrow> (r, w') | (Inr a, w') \<Rightarrow> f a w')"

abbreviation answer :: "response \<Rightarrow> response project_op" where
  "answer r \<equiv> \<lambda>w. (r, w)"

definition bad_request :: "string \<Rightarrow> response project_op" where
  "bad_request msg = answer (writeErr 400 msg)"

definition bad_gateway :: "string \<Rightarrow> response project_op" where
  "bad_gateway msg = answer (writeErr 502 msg)"

definition writeServiceErr :: "go_err \<Rightarrow> response" where
  "writeServiceErr e =
     (if is_err e ErrProjectNotFound then writeErr 404 ''no such project''
      else if is_err e ErrNotFound then writeErr 404 ''container not found''
      else writeInternalErr e)"

definition ensureRunning :: "project_service \<Rightarrow> string \<Rightarrow> (response + string) project_op" where
  "ensureRunning sv p w =
     (case EnsureContainer sv p w of
        (Inl e, w') \<Rightarrow> (Inl (writeServiceErr e), w')
      | (Inr st, w') \<Rightarrow> (if st \<noteq> StateRunning then Inl (writeErr 409 ''container not running'') else Inr p, w'))"

text \<open>The container and the directory of the repository; the key is injected again when it has changed.\<close>

definition gitRepoDir :: "project_service \<Rightarrow> string \<Rightarrow> (response + string \<times> string) project_op" where
  "gitRepoDir sv p w =
     (case ensureRunning sv p w of
        (Inl r, w1) \<Rightarrow> (Inl r, w1)
      | (Inr i, w1) \<Rightarrow>
          (let c = ContainerName sv i
           in case on_docker (RepoTarget (sv_docker sv) c) w1 of
                (Inl e, w2) \<Rightarrow> (Inl (writeInternalErr e), w2)
              | (Inr dir, w2) \<Rightarrow> (Inr (c, dir), snd (EnsureGitSSH sv c w2))))"

section \<open>Probes\<close>

definition conflictOperation :: "project_service \<Rightarrow> string \<Rightarrow> string \<Rightarrow> string project_op" where
  "conflictOperation sv c dir w =
     (case run_sh sv c
        (''gd=$(git -C '' @ ShellQuote dir @ '' rev-parse --absolute-git-dir 2>/dev/null) || exit 0; '' @
         ''if [ -f '' @ quoted ''$gd/MERGE_HEAD'' @ '' ]; then echo merge; '' @
         ''elif [ -d '' @ quoted ''$gd/rebase-merge'' @ '' ] || [ -d '' @ quoted ''$gd/rebase-apply'' @ '' ]; then echo rebase; fi'') w of
        ((out, e), w') \<Rightarrow> (if e = None then trim_space out else [], w'))"

definition unmerged_command :: "string \<Rightarrow> string" where
  "unmerged_command dir = git dir '' diff --name-only --diff-filter=U; true''"

definition dirty_command :: "string \<Rightarrow> string" where
  "dirty_command dir = ''echo DIRTY-BEGIN; '' @ git dir '' status --porcelain=v1 --untracked-files=no''"

definition conflictsUnder :: "project_service \<Rightarrow> string \<Rightarrow> string \<Rightarrow> (go_err + bool) project_op" where
  "conflictsUnder sv c dir w =
     (case run_sh sv c (unmerged_command dir) w of
        ((out, Some e), w') \<Rightarrow> (Inl e, w')
      | ((out, None), w') \<Rightarrow> (Inr (trim_space out \<noteq> []), w'))"

definition dirtyTrackedUnder :: "project_service \<Rightarrow> string \<Rightarrow> string \<Rightarrow> (go_err + string list) project_op" where
  "dirtyTrackedUnder sv c dir w =
     (case run_sh sv c (dirty_command dir) w of
        ((out, Some e), w') \<Rightarrow> (Inl e, w')
      | ((out, None), w') \<Rightarrow> (Inr (dirty_files out), w'))"

record gitMeta =
  gm_branch :: string
  gm_detached :: bool
  gm_upstream :: string
  gm_ahead :: int
  gm_behind :: int
  gm_counted :: bool
  gm_unborn :: bool

definition number_of :: "string \<Rightarrow> int" where
  "number_of s = (case atoi s of Some n \<Rightarrow> n | None \<Rightarrow> 0)"

definition meta_branch :: "project_service \<Rightarrow> string \<Rightarrow> string \<Rightarrow> (string \<times> bool) project_op" where
  "meta_branch sv c dir w =
     (case run_sh sv c (git dir '' rev-parse --abbrev-ref HEAD'') w of
        ((out, _), w1) \<Rightarrow>
          (let b = trim_space out
           in if b = [] \<or> b = ''HEAD'' then
                (case run_sh sv c (git dir '' rev-parse --short HEAD'') w1 of
                   ((sha, _), w2) \<Rightarrow> ((if trim_space sha \<noteq> [] then trim_space sha else ''HEAD'', True), w2))
              else ((b, False), w1)))"

definition meta_upstream :: "project_service \<Rightarrow> string \<Rightarrow> string \<Rightarrow> (string \<times> int \<times> int \<times> bool) project_op" where
  "meta_upstream sv c dir w =
     (case run_sh sv c (git dir ('' rev-parse --abbrev-ref @'' @ ''{u} 2>/dev/null'')) w of
        ((u, _), w1) \<Rightarrow>
          (if trim_space u = [] then (([], 0, 0, False), w1)
           else (case run_sh sv c (git dir ('' rev-list --left-right --count @'' @ ''{u}...HEAD'')) w1 of
                   ((counts, e), w2) \<Rightarrow>
                     (case go_fields counts of
                        [b, a] \<Rightarrow> (if e = None then (trim_space u, number_of a, number_of b, True)
                                  else (trim_space u, 0, 0, False), w2)
                      | _ \<Rightarrow> ((trim_space u, 0, 0, False), w2)))))"

definition getGitMeta :: "project_service \<Rightarrow> string \<Rightarrow> string \<Rightarrow> gitMeta project_op" where
  "getGitMeta sv c dir w =
     (case meta_branch sv c dir w of
        ((b, det), w1) \<Rightarrow>
          (case meta_upstream sv c dir w1 of
             ((u, ahead, behind, cnt), w2) \<Rightarrow>
               (case run_sh sv c (git dir '' rev-parse --verify --quiet HEAD >/dev/null 2>&1; echo $?'') w2 of
                  ((out, _), w3) \<Rightarrow>
                    (\<lparr>gm_branch = b, gm_detached = det, gm_upstream = u, gm_ahead = ahead, gm_behind = behind,
                      gm_counted = cnt, gm_unborn = (trim_space out \<noteq> ''0'')\<rparr>, w3))))"

definition gitBranch :: "project_service \<Rightarrow> string \<Rightarrow> string \<Rightarrow> (string \<times> bool) project_op" where
  "gitBranch sv c dir w =
     (case run_sh sv c (git dir '' rev-parse --abbrev-ref HEAD'') w of
        ((out, _), w') \<Rightarrow> ((trim_space out, trim_space out = [] \<or> trim_space out = ''HEAD''), w'))"

definition commitExists :: "project_service \<Rightarrow> string \<Rightarrow> string \<Rightarrow> string \<Rightarrow> bool project_op" where
  "commitExists sv c dir sha w =
     (case run_sh sv c (git dir ('' rev-parse --verify --quiet '' @ ShellQuote (sha @ ''^{commit}'') @ '' >/dev/null 2>&1; echo $?'')) w of
        ((out, _), w') \<Rightarrow> (trim_space out = ''0'', w'))"

section \<open>Status and diff\<close>

definition file_row :: "counts \<Rightarrow> counts \<Rightarrow> string list \<Rightarrow> string \<times> string \<times> string \<Rightarrow> json" where
  "file_row staged unstaged binary row =
     (case row of (p, x, y) \<Rightarrow>
        (let (sa, sd) = (case map_of staged p of Some n \<Rightarrow> n | None \<Rightarrow> (0, 0));
             (ua, ud) = (case map_of unstaged p of Some n \<Rightarrow> n | None \<Rightarrow> (0, 0))
         in JObj ([(''path'', JStr p), (''staged'', JStr x), (''unstaged'', JStr y), (''stagedAdd'', JInt sa),
                   (''stagedDel'', JInt sd), (''unstagedAdd'', JInt ua), (''unstagedDel'', JInt ud),
                   (''binary'', JBool (p \<in> set binary))] @
                  (if isUnmerged x y then [(''conflict'', JBool True)] else []))))"

text \<open>The rows are in the order of the listing here; the code ranges over a map.\<close>

definition handleGitStatus :: "project_service \<Rightarrow> string \<Rightarrow> response project_op" where
  "handleGitStatus sv p = and_then (gitRepoDir sv p) (\<lambda>(c, dir) w.
     (case run_sh sv c (''echo STATUS-BEGIN; '' @ git dir '' status --porcelain=v1 --untracked-files=normal'') w of
        ((raw, Some e), w1) \<Rightarrow>
          (if contains (ge_text e) ''not a git repository''
           then writeJSON 200 (JObj [(''branch'', JStr []), (''files'', JArr []), (''notRepo'', JBool True)])
           else writeInternalErr e, w1)
      | ((raw, None), w1) \<Rightarrow>
          (case getGitMeta sv c dir w1 of
             (m, w2) \<Rightarrow>
               (case run_sh sv c (git dir '' diff --numstat; true'') w2 of
                  ((unstagedStat, _), w3) \<Rightarrow>
                    (case run_sh sv c (git dir '' diff --cached --numstat; true'') w3 of
                       ((stagedStat, _), w4) \<Rightarrow>
                         (let rows = status_entries raw;
                              (unstaged, bin) = parseNumstat unstagedStat ([], []);
                              (staged, bin) = parseNumstat stagedStat ([], bin);
                              (op, w5) = (if list_ex (\<lambda>(_, x, y). isUnmerged x y) rows
                                          then conflictOperation sv c dir w4 else ([], w4))
                          in (writeJSON 200 (JObj
                                [(''branch'', JStr (gm_branch m)), (''files'', JArr (map (file_row staged unstaged bin) rows)),
                                 (''upstream'', if gm_upstream m \<noteq> [] \<and> gm_counted m
                                   then JObj [(''name'', JStr (gm_upstream m)), (''ahead'', JInt (gm_ahead m)), (''behind'', JInt (gm_behind m))]
                                   else JNull),
                                 (''unborn'', JBool (gm_unborn m)), (''conflictOperation'', JStr op)]), w5)))))))"

definition maxDiff :: nat where "maxDiff = 300 * 1024"
definition maxBlob :: nat where "maxBlob = 100 * 1024"

definition read_blob :: "project_service \<Rightarrow> string \<Rightarrow> string \<Rightarrow> string project_op" where
  "read_blob sv c cmd w =
     (case run_sh sv c (cmd @ '' || true'') w of
        ((out, e), w') \<Rightarrow> (if e \<noteq> None \<or> 4 * 1024 * 1024 < length out then [] else out, w'))"

definition gitFileContents :: "project_service \<Rightarrow> string \<Rightarrow> string \<Rightarrow> string \<Rightarrow> bool \<Rightarrow> (string \<times> string \<times> bool \<times> bool) project_op" where
  "gitFileContents sv c dir path staged w =
     (case read_blob sv c (git dir ('' show '' @ ShellQuote (''HEAD:'' @ path))) w of
        (headBlob, w1) \<Rightarrow>
          (case read_blob sv c (git dir ('' show '' @ ShellQuote ('':'' @ path))) w1 of
             (indexBlob, w2) \<Rightarrow>
               (case read_blob sv c (''cat -- '' @ ShellQuote (dir @ ''/'' @ path)) w2 of
                  (workBlob, w3) \<Rightarrow>
                    (let old = (if staged then headBlob else indexBlob); new = (if staged then indexBlob else workBlob)
                     in if CHR 0x00 \<in> set old \<or> CHR 0x00 \<in> set new then (([], [], False, True), w3)
                        else ((take maxBlob old, take maxBlob new, maxBlob < length old \<or> maxBlob < length new, False), w3)))))"

text \<open>Untracked files never appear in a diff: they are compared with the empty file.\<close>

definition diff_untracked :: "project_service \<Rightarrow> string \<Rightarrow> string \<Rightarrow> string \<Rightarrow> nat \<Rightarrow> string \<Rightarrow> string project_op" where
  "diff_untracked sv c dir path un out w =
     (if trim_space out \<noteq> [] then (out, w)
      else (case run_sh sv c (git dir ('' check-ignore -q '' @ ShellQuote path @ '' && echo IGNORED || '' @
                git dir ('' ls-files --others --exclude-standard -- '' @ ShellQuote path))) w of
              ((content, e), w1) \<Rightarrow>
                (if e = None \<and> trim_space content = path then
                   (case run_sh sv c (git dir ('' diff --no-index -U'' @ itoa (int un) @ '' -- /dev/null '' @ ShellQuote path @ ''; true'')) w1 of
                      ((raw, re), w2) \<Rightarrow> (if re = None \<and> trim_space raw \<noteq> [] then raw else out, w2))
                 else (out, w1))))"

definition diff_context :: "string \<Rightarrow> nat" where
  "diff_context v = (if v = ''10'' then 10 else if v = ''30'' then 30 else if v = ''full'' then 100000 else 3)"

definition handleGitDiff :: "project_service \<Rightarrow> string \<Rightarrow> string \<Rightarrow> string \<Rightarrow> bool \<Rightarrow> response project_op" where
  "handleGitDiff sv p path ctx staged = and_then (gitRepoDir sv p) (\<lambda>(c, dir) w.
     (if \<not> validGitPath path then bad_request ''invalid path'' w
      else
        (let un = diff_context ctx
         in case run_sh sv c (git dir ((if staged then '' diff --cached -U'' else '' diff -U'') @ itoa (int un) @ '' -- '' @
                ShellQuote path @ ''; true'')) w of
              ((out, Some e), w1) \<Rightarrow> (writeInternalErr e, w1)
            | ((out, None), w1) \<Rightarrow>
                (case diff_untracked sv c dir path un out w1 of
                   (out, w2) \<Rightarrow>
                     (case gitFileContents sv c dir path staged w2 of
                        ((old, new, short, bin), w3) \<Rightarrow>
                          (writeJSON 200 (JObj
                             [(''path'', JStr path), (''diff'', JStr (take maxDiff out)), (''truncated'', JBool (maxDiff < length out)),
                              (''oldContent'', JStr old), (''newContent'', JStr new), (''contentsTruncated'', JBool short),
                              (''binary'', JBool bin)]), w3))))))"

section \<open>Staging\<close>

definition stage_command :: "bool \<Rightarrow> string \<Rightarrow> string \<Rightarrow> string" where
  "stage_command unstage dir path = git dir ((if unstage then '' reset HEAD -- '' else '' add -- '') @ ShellQuote path)"

definition handleGitStage :: "project_service \<Rightarrow> bool \<Rightarrow> string \<Rightarrow> string body \<Rightarrow> response project_op" where
  "handleGitStage sv unstage p b = and_then (gitRepoDir sv p) (\<lambda>(c, dir) w.
     (case decodeBody [] b False of
        Inl r \<Rightarrow> (r, w)
      | Inr path \<Rightarrow>
          (if \<not> validGitPath path then bad_request ''invalid path'' w
           else (case run_sh sv c (stage_command unstage dir path) w of
                   ((_, Some e), w1) \<Rightarrow> (writeInternalErr e, w1)
                 | ((_, None), w1) \<Rightarrow> (writeJSON 200 ok_true, w1)))))"

record hunk =
  hk_path :: string
  hk_patch :: string
  hk_reverse :: bool

definition zero_hunk :: hunk where
  "zero_hunk = \<lparr>hk_path = [], hk_patch = [], hk_reverse = False\<rparr>"

text \<open>\<open>base64.StdEncoding\<close>: the unpadded form filled up to whole groups of four.\<close>

definition base64_std :: "string \<Rightarrow> string" where
  "base64_std s = b64_encode s @ replicate ((3 - length s mod 3) mod 3) (CHR ''='')"

definition piped :: "string \<Rightarrow> string \<Rightarrow> string" where
  "piped s cmd = ''echo '' @ [CHR 0x27] @ base64_std s @ [CHR 0x27] @ '' | base64 -d | '' @ cmd"

definition handleGitStageHunk :: "project_service \<Rightarrow> string \<Rightarrow> hunk body \<Rightarrow> response project_op" where
  "handleGitStageHunk sv p b = and_then (gitRepoDir sv p) (\<lambda>(c, dir) w.
     (case decodeBody zero_hunk b False of
        Inl r \<Rightarrow> (r, w)
      | Inr k \<Rightarrow>
          (if \<not> validGitPath (hk_path k) then bad_request ''invalid path'' w
           else if hk_patch k = [] \<or> 256 * 1024 < length (hk_patch k) \<or>
                   (\<not> contains (hk_patch k) ''diff --git'' \<and> \<not> contains (hk_patch k) (''@'' @ ''@'')) then bad_request ''invalid patch'' w
           else (case run_sh sv c (piped (hk_patch k) (git dir ('' apply --cached'' @ (if hk_reverse k then '' --reverse'' else []) @ '' -''))) w of
                   ((_, Some e), w1) \<Rightarrow> bad_request (''hunk no longer applies '' @ dash @ '' refresh the diff'') w1
                 | ((_, None), w1) \<Rightarrow> (writeJSON 200 ok_true, w1)))))"

section \<open>Commit and identity\<close>

text \<open>The answer to a commit that failed with this output.\<close>

definition commit_failure :: "(nat \<Rightarrow> nat) \<Rightarrow> string \<Rightarrow> response" where
  "commit_failure lo out =
     (let detail = to_lower lo out
      in if contains detail ''please tell me who you are'' \<or> contains detail ''user.email'' \<or> contains detail ''user.name''
         then writeErr 409 (''git identity not set '' @ dash @ '' add your name and email to commit'')
         else if contains detail ''nothing staged'' \<or> contains detail ''no changes added'' then writeErr 400 ''nothing staged to commit''
         else writeErr 502 (trim_space out))"

text \<open>The last word of the last line.\<close>

definition printed_sha :: "string \<Rightarrow> string" where
  "printed_sha out =
     (let s = trim_space out;
          s = (case cut_last lf s of Some (_, r) \<Rightarrow> trim_space r | None \<Rightarrow> s)
      in if go_fields s \<noteq> [] then last (go_fields s) else s)"

definition handleGitCommit :: "project_service \<Rightarrow> string \<Rightarrow> string body \<Rightarrow> response project_op" where
  "handleGitCommit sv p b = and_then (gitRepoDir sv p) (\<lambda>(c, dir) w.
     (case decodeBody [] b False of
        Inl r \<Rightarrow> (r, w)
      | Inr message \<Rightarrow>
          (let msg = trim_space message
           in if msg = [] then bad_request ''message is required'' w
              else if 5000 < length msg then bad_request ''message over 5000 chars'' w
              else (case conflictsUnder sv c dir w of
                      (merging, w1) \<Rightarrow>
                        if merging = Inr True then (writeErr 409 (''merge conflict in progress '' @ dash @ '' resolve in the terminal''), w1)
                        else (case run_sh sv c (piped msg (git dir '' commit --no-verify --file - && '' @ git dir '' rev-parse --short HEAD'')) w1 of
                                ((out, Some e), w2) \<Rightarrow> (commit_failure (sv_lower sv) out, w2)
                              | ((out, None), w2) \<Rightarrow>
                                  (case run_sh sv c (git dir '' rev-parse --abbrev-ref HEAD'') w2 of
                                     ((branch, _), w3) \<Rightarrow>
                                       (writeJSON 200 (JObj [(''ok'', JBool True), (''commit'', JStr (printed_sha out)),
                                          (''branch'', JStr (trim_space branch))]), w3)))))))"

definition validGitBody :: "string \<times> string \<Rightarrow> bool" where
  "validGitBody b \<longleftrightarrow> fst b \<noteq> [] \<and> snd b \<noteq> []"

definition decodeGitBody :: "(string \<times> string) body \<Rightarrow> response + string \<times> string" where
  "decodeGitBody b =
     (case decodeBody ([], []) b False of
        Inl r \<Rightarrow> Inl r
      | Inr (name, email) \<Rightarrow>
          if validGitBody (trim_space name, trim_space email) then Inr (trim_space name, trim_space email)
          else Inl (writeErr 400 ''name and email are both required''))"

text \<open>\<open>None\<close> is the reading method.\<close>

definition handleGitIdentity :: "project_service \<Rightarrow> string \<Rightarrow> (string \<times> string) body option \<Rightarrow> response project_op" where
  "handleGitIdentity sv p post = and_then (gitRepoDir sv p) (\<lambda>(c, dir) w.
     (case post of
        Some b \<Rightarrow>
          (case decodeGitBody b of
             Inl r \<Rightarrow> (r, w)
           | Inr (name, email) \<Rightarrow>
               (case run_sh sv c (git dir ('' config user.name '' @ ShellQuote name @ '' && '' @ git dir ('' config user.email '' @ ShellQuote email))) w of
                  ((_, Some e), w1) \<Rightarrow> (writeInternalErr e, w1)
                | ((_, None), w1) \<Rightarrow>
                    (writeJSON 200 (JObj [(''ok'', JBool True), (''name'', JStr name), (''email'', JStr email)]), w1)))
      | None \<Rightarrow>
          (case run_sh sv c (git dir '' config user.name; true'') w of
             ((name, _), w1) \<Rightarrow>
               (case run_sh sv c (git dir '' config user.email; true'') w1 of
                  ((email, _), w2) \<Rightarrow>
                    (writeJSON 200 (JObj [(''name'', JStr (trim_space name)), (''email'', JStr (trim_space email))]), w2)))))"

section \<open>Push, pull, branches\<close>

definition gitAuthMsg :: string where
  "gitAuthMsg = ''GitHub rejected the server key '' @ dash @ '' re-add the public key in SSH setup''"

definition push_command :: "string \<Rightarrow> string \<Rightarrow> string" where
  "push_command dir branch = ''GIT_TERMINAL_PROMPT=0 '' @ git dir ('' push -u origin '' @ ShellQuote branch)"

definition remote_failure :: "(nat \<Rightarrow> nat) \<Rightarrow> string \<Rightarrow> string \<Rightarrow> response" where
  "remote_failure lo detail hint = writeErr 502 (if isGitAuthError lo detail then gitAuthMsg else detail @ hint)"

definition handleGitPush :: "project_service \<Rightarrow> string \<Rightarrow> response project_op" where
  "handleGitPush sv p = and_then (gitRepoDir sv p) (\<lambda>(c, dir) w.
     (case gitBranch sv c dir w of
        ((branch, detached), w1) \<Rightarrow>
          if branch = [] \<or> detached then bad_request (''detached HEAD '' @ dash @ '' switch to a branch before pushing'') w1
          else (case run_sh sv c (push_command dir branch) w1 of
                  ((out, Some e), w2) \<Rightarrow>
                    (remote_failure (sv_lower sv) (trim_space out) ('' '' @ dash @ '' fix credentials or conflicts in the terminal''), w2)
                | ((out, None), w2) \<Rightarrow>
                    (writeJSON 200 (JObj [(''ok'', JBool True), (''branch'', JStr branch), (''output'', JStr (tailLines (trim_space out) 50))]), w2))))"

definition handleGitPull :: "project_service \<Rightarrow> string \<Rightarrow> response project_op" where
  "handleGitPull sv p = and_then (gitRepoDir sv p) (\<lambda>(c, dir) w.
     (case run_sh sv c (''GIT_TERMINAL_PROMPT=0 '' @ git dir '' pull --ff-only'') w of
        ((out, Some e), w1) \<Rightarrow> (remote_failure (sv_lower sv) (trim_space out) ('' '' @ dash @ '' fix in the terminal''), w1)
      | ((out, None), w1) \<Rightarrow>
          (writeJSON 200 (JObj [(''ok'', JBool True), (''output'', JStr (tailLines (trim_space out) 50))]), w1)))"

definition listed_branch :: "string \<Rightarrow> (string \<times> string) option" where
  "listed_branch l =
     (case index_of [CHR 0x00] l of
        None \<Rightarrow> None
      | Some i \<Rightarrow> if trim_space (take i l) = [] then None else Some (take i l, drop (i + 1) l))"

definition parse_branches :: "string \<Rightarrow> (string \<times> string) list" where
  "parse_branches out = List.map_filter listed_branch (split_on lf out)"

definition remote_branches :: "(string \<times> string) list \<Rightarrow> (string \<times> string) list" where
  "remote_branches bs =
     filter (\<lambda>(n, t). n \<noteq> ''HEAD'' \<and> n \<noteq> []) (map (\<lambda>(n, t). (trim_prefix n ''origin/'', t)) bs)"

definition branch_json :: "string \<times> string \<Rightarrow> json" where
  "branch_json b = JObj [(''name'', JStr (fst b)), (''relativeTime'', JStr (snd b))]"

definition branch_format :: string where
  "branch_format = ''--sort=-committerdate --format=%(refname:short)%00%(committerdate:relative)''"

definition handleGitBranches :: "project_service \<Rightarrow> string \<Rightarrow> response project_op" where
  "handleGitBranches sv p = and_then (gitRepoDir sv p) (\<lambda>(c, dir) w.
     (case run_sh sv c (git dir ('' branch '' @ branch_format)) w of
        ((_, Some e), w1) \<Rightarrow> (writeInternalErr e, w1)
      | ((localOut, None), w1) \<Rightarrow>
          (case run_sh sv c (git dir ('' branch --remotes '' @ branch_format)) w1 of
             ((remoteOut, _), w2) \<Rightarrow>
               (case run_sh sv c (git dir '' branch --show-current'') w2 of
                  ((cur, _), w3) \<Rightarrow>
                    (let detached = (trim_space cur = []);
                         (current, w4) = (if detached then (case run_sh sv c (git dir '' rev-parse --short HEAD'') w3 of
                                                              ((sha, _), w4) \<Rightarrow> (trim_space sha, w4))
                                          else (trim_space cur, w3))
                     in (writeJSON 200 (JObj [(''current'', JStr current), (''detached'', JBool detached),
                           (''local'', JArr (map branch_json (parse_branches localOut))),
                           (''remote'', JArr (map branch_json (remote_branches (parse_branches remoteOut))))]), w4))))))"

section \<open>Switching branches\<close>

definition switch_command :: "bool \<Rightarrow> string \<Rightarrow> string \<Rightarrow> string" where
  "switch_command create dir name = git dir ('' switch '' @ (if create then ''-c '' else []) @ ShellQuote name)"

definition ref_command :: "string \<Rightarrow> string \<Rightarrow> string" where
  "ref_command dir name = git dir ('' check-ref-format --branch '' @ ShellQuote name)"

definition new_command :: "string \<Rightarrow> string \<Rightarrow> string" where
  "new_command dir name = git dir ('' show-ref --verify --quiet refs/heads/'' @ ShellQuote name @ ''; echo $?'')"

text \<open>The checks, in their order; each may answer the request.\<close>

definition check_ref :: "project_service \<Rightarrow> string \<Rightarrow> string \<Rightarrow> string \<Rightarrow> (response + unit) project_op" where
  "check_ref sv c dir name w =
     (case run_sh sv c (ref_command dir name) w of
        ((out, Some e), w1) \<Rightarrow> (Inl (writeErr 400 (''invalid branch name: '' @ trim_space out)), w1)
      | ((_, None), w1) \<Rightarrow> (Inr (), w1))"

definition check_new :: "project_service \<Rightarrow> string \<Rightarrow> string \<Rightarrow> string \<Rightarrow> bool \<Rightarrow> (response + unit) project_op" where
  "check_new sv c dir name create w =
     (if \<not> create then (Inr (), w)
      else (case run_sh sv c (new_command dir name) w of
              ((out, e), w1) \<Rightarrow>
                (if e = None \<and> trim_space out = ''0'' then Inl (writeErr 400 ''branch already exists'') else Inr (), w1)))"

definition check_clean :: "project_service \<Rightarrow> string \<Rightarrow> string \<Rightarrow> (response + unit) project_op" where
  "check_clean sv c dir w =
     (case dirtyTrackedUnder sv c dir w of
        (Inl _, w1) \<Rightarrow> (Inr (), w1)
      | (Inr fs, w1) \<Rightarrow>
          (if fs \<noteq> [] then Inl (writeErr 409 (''working tree has uncommitted changes '' @ dash @ '' commit or stage first: '' @ join '', '' fs))
           else Inr (), w1))"

definition check_merge :: "project_service \<Rightarrow> string \<Rightarrow> string \<Rightarrow> (response + unit) project_op" where
  "check_merge sv c dir w =
     (case conflictsUnder sv c dir w of
        (merging, w1) \<Rightarrow>
          (if merging = Inr True then Inl (writeErr 409 (''merge conflict in progress '' @ dash @ '' resolve in the terminal''))
           else Inr (), w1))"

definition run_switch :: "project_service \<Rightarrow> string \<Rightarrow> string \<Rightarrow> string \<Rightarrow> bool \<Rightarrow> response project_op" where
  "run_switch sv c dir name create w =
     (case run_sh sv c (switch_command create dir name) w of
        ((out, Some e), w1) \<Rightarrow> bad_gateway (trim_space out) w1
      | ((_, None), w1) \<Rightarrow> (writeJSON 200 (JObj [(''ok'', JBool True), (''branch'', JStr name)]), w1))"

definition checked_switch :: "project_service \<Rightarrow> string \<Rightarrow> string \<Rightarrow> string \<Rightarrow> bool \<Rightarrow> response project_op" where
  "checked_switch sv c dir name create =
     and_then (check_ref sv c dir name) (\<lambda>_.
     and_then (check_new sv c dir name create) (\<lambda>_.
     and_then (check_clean sv c dir) (\<lambda>_.
     and_then (check_merge sv c dir) (\<lambda>_. run_switch sv c dir name create))))"

definition handleGitSwitch :: "project_service \<Rightarrow> string \<Rightarrow> (string \<times> bool) body \<Rightarrow> response project_op" where
  "handleGitSwitch sv p b = and_then (gitRepoDir sv p) (\<lambda>(c, dir) w.
     (case decodeBody ([], False) b False of
        Inl r \<Rightarrow> (r, w)
      | Inr (branch, create) \<Rightarrow>
          (if trim_space branch = [] then bad_request ''branch is required'' w
           else checked_switch sv c dir (trim_space branch) create w)))"

section \<open>What the models are shown\<close>

definition defaultBase :: "project_service \<Rightarrow> string \<Rightarrow> string \<Rightarrow> string project_op" where
  "defaultBase sv c dir w =
     (case run_sh sv c (git dir '' symbolic-ref refs/remotes/origin/HEAD 2>/dev/null'') w of
        ((out, _), w') \<Rightarrow>
          (let out = trim_space out; name = trim_prefix out ''refs/remotes/origin/''
           in (if name \<noteq> [] \<and> name \<noteq> out then name else ''main'', w')))"

record opsContext =
  oc_meta :: gitMeta
  oc_dirty :: "string list"
  oc_conflicted :: bool
  oc_base :: string

definition opsState :: "project_service \<Rightarrow> string \<Rightarrow> string \<Rightarrow> opsContext project_op" where
  "opsState sv c dir w =
     (case getGitMeta sv c dir w of
        (m, w1) \<Rightarrow>
          (case dirtyTrackedUnder sv c dir w1 of
             (dirty, w2) \<Rightarrow>
               (case conflictsUnder sv c dir w2 of
                  (merging, w3) \<Rightarrow>
                    (\<lparr>oc_meta = m, oc_dirty = (case dirty of Inr fs \<Rightarrow> fs | Inl _ \<Rightarrow> []),
                      oc_conflicted = (merging = Inr True), oc_base = []\<rparr>, w3))))"

text \<open>\<open>%q\<close> of a name without special characters.\<close>

definition validOpsBranch :: "project_service \<Rightarrow> string \<Rightarrow> string \<Rightarrow> string \<Rightarrow> string option project_op" where
  "validOpsBranch sv c dir name w =
     (if name = [] \<or> 250 < length name \<or> prefix ''-'' name then (Some (''invalid branch name: '' @ quoted name), w)
      else (case run_sh sv c (ref_command dir name) w of
              ((out, Some e), w') \<Rightarrow> (Some (''invalid branch name: '' @ trim_space out), w')
            | ((_, None), w') \<Rightarrow> (None, w')))"

definition treeLine :: "opsContext \<Rightarrow> string" where
  "treeLine c =
     (if oc_conflicted c then ''A merge conflict is in progress '' @ dash @ '' resolve it before anything else.''
      else if oc_dirty c = [] then ''The working tree is clean.''
      else
        (let names = join '', '' (oc_dirty c)
         in ''Uncommitted changes in '' @ itoa (int (length (oc_dirty c))) @ '' file(s): '' @
            (if 300 < length names then take 300 names @ ellipsis else names) @ ''.''))"

definition upstreamLine :: "opsContext \<Rightarrow> string" where
  "upstreamLine c =
     (if gm_upstream (oc_meta c) = [] then ''no upstream tracking yet''
      else ''upstream '' @ gm_upstream (oc_meta c) @ '' (ahead '' @ itoa (gm_ahead (oc_meta c)) @ '', behind '' @
           itoa (gm_behind (oc_meta c)) @ '')'')"

definition maxDiffBytes :: nat where "maxDiffBytes = 50 * 1024"

definition truncateDiff :: "string \<Rightarrow> string \<times> bool" where
  "truncateDiff d =
     (if maxDiffBytes < length d then (take maxDiffBytes d @ [lf] @ ellipsis @ ''[diff truncated]'', True) else (d, False))"

definition commitDiff :: "project_service \<Rightarrow> string \<Rightarrow> string \<Rightarrow> string \<Rightarrow> (string \<times> bool) project_op" where
  "commitDiff sv c dir sha w =
     (case run_sh sv c (git dir ('' show '' @ ShellQuote sha @ '' --format= -U3; true'')) w of
        ((out, _), w') \<Rightarrow> (truncateDiff out, w'))"

text \<open>The contents of the untracked files that have a valid path and are not empty.\<close>

fun new_files :: "project_service \<Rightarrow> string \<Rightarrow> string \<Rightarrow> string list \<Rightarrow> string project_op" where
  "new_files sv c dir [] w = ([], w)"
| "new_files sv c dir (l # ls) w =
     (let path = trim_space l
      in if path = [] \<or> \<not> validGitPath path then new_files sv c dir ls w
         else (case run_sh sv c (''cat -- '' @ ShellQuote (dir @ ''/'' @ path) @ ''; true'') w of
                 ((content, e), w1) \<Rightarrow>
                   (case new_files sv c dir ls w1 of
                      (rest, w2) \<Rightarrow>
                        (if e \<noteq> None \<or> content = [] then rest
                         else [lf] @ ''--- NEW FILE: '' @ path @ '' ---'' @ [lf] @ content @ [lf] @ rest, w2))))"

definition cappedDiff :: "project_service \<Rightarrow> string \<Rightarrow> string \<Rightarrow> bool \<Rightarrow> (string \<times> bool) project_op" where
  "cappedDiff sv c dir includeUntracked w =
     (case run_sh sv c (git dir '' diff --cached -U3; true'') w of
        ((stagedOut, _), w1) \<Rightarrow>
          (case run_sh sv c (git dir '' diff -U3; true'') w1 of
             ((unstagedOut, _), w2) \<Rightarrow>
               (let hasStaged = (trim_space stagedOut \<noteq> []);
                    (news, w3) =
                      (if includeUntracked \<and> \<not> hasStaged then
                         (case run_sh sv c (git dir '' ls-files --others --exclude-standard'') w2 of
                            ((out, None), w3) \<Rightarrow> new_files sv c dir (split_on lf out) w3
                          | ((_, Some _), w3) \<Rightarrow> ([], w3))
                       else ([], w2));
                    d = (if hasStaged then stagedOut else unstagedOut) @ news
                in if maxDiffBytes < length d then
                     (case run_sh sv c (git dir '' diff --numstat; '' @ git dir '' diff --cached --numstat; true'') w3 of
                        ((numstat, _), w4) \<Rightarrow>
                          ((take maxDiffBytes d @ [lf] @ ellipsis @ ''[diff truncated; full file stats follow]'' @ [lf] @ numstat, True), w4))
                   else ((d, False), w3))))"

section \<open>How the shell reads the commands\<close>

text \<open>
  POSIX word splitting and quoting for simple commands: words of plain bytes and quoted parts between
  spaces. Anything that could start an expansion, a redirection or another command outside quotes is
  refused.
\<close>

definition sh_plain :: "char \<Rightarrow> bool" where
  "sh_plain c \<longleftrightarrow> alnum c \<or> List.member ''-_./=:%+,@'' c"

function sh_lex :: "bool \<Rightarrow> string \<Rightarrow> string \<Rightarrow> string list option" where
  "sh_lex in_word cur [] = Some (if in_word then [cur] else [])"
| "sh_lex in_word cur (c # s) =
     (if c = CHR '' '' then map_option (\<lambda>ws. if in_word then cur # ws else ws) (sh_lex False [] s)
      else if c = CHR 0x27 then
        (let body = takeWhile (\<lambda>x. x \<noteq> CHR 0x27) s; rest = dropWhile (\<lambda>x. x \<noteq> CHR 0x27) s
         in if rest = [] then None else sh_lex True (cur @ body) (tl rest))
      else if c = CHR 0x22 then
        (let body = takeWhile (\<lambda>x. x \<noteq> CHR 0x22) s; rest = dropWhile (\<lambda>x. x \<noteq> CHR 0x22) s
         in if rest = [] \<or> list_ex (\<lambda>x. x \<in> {CHR ''$'', CHR 0x60, CHR 0x5C}) body then None
            else sh_lex True (cur @ body) (tl rest))
      else if sh_plain c then sh_lex True (cur @ [c]) s
      else None)"
  by pat_completeness auto
termination
  by (relation "measure (\<lambda>(w, cur, s). length s)")
     (auto simp: less_Suc_eq_le intro: le_trans [OF diff_le_self length_dropWhile_le])

declare sh_lex.simps(2) [simp del]

definition sh_args :: "string \<Rightarrow> string list option" where
  "sh_args s = sh_lex False [] s"

lemma sh_lex_single: "CHR 0x27 \<notin> set b \<Longrightarrow> sh_lex w cur (CHR 0x27 # b @ CHR 0x27 # s) = sh_lex True (cur @ b) s"
proof -
  assume "CHR 0x27 \<notin> set b"
  then have "takeWhile (\<lambda>x. x \<noteq> CHR 0x27) (b @ CHR 0x27 # s) = b"
    and "dropWhile (\<lambda>x. x \<noteq> CHR 0x27) (b @ CHR 0x27 # s) = CHR 0x27 # s"
    by (subst takeWhile_append2 dropWhile_append2; fastforce)+
  then show ?thesis by (simp add: sh_lex.simps)
qed

lemma sh_lex_double: "sh_lex w cur (CHR 0x22 # CHR 0x27 # CHR 0x22 # s) = sh_lex True (cur @ [CHR 0x27]) s"
  by (simp add: sh_lex.simps)

lemma sh_lex_body:
  "CHR 0x27 \<notin> set b \<Longrightarrow>
    sh_lex w cur (CHR 0x27 # b @ replace_byte CHR 0x27 [CHR 0x27, CHR 0x22, CHR 0x27, CHR 0x22, CHR 0x27] t @ CHR 0x27 # s) =
    sh_lex True (cur @ b @ t) s"
proof (induction t arbitrary: b w cur)
  case Nil
  then show ?case by (simp add: replace_byte_def sh_lex_single)
next
  case (Cons c t)
  show ?case
  proof (cases "c = CHR 0x27")
    case True
    then show ?thesis
      using Cons.IH [of "[]" True "cur @ b @ [CHR 0x27]"] sh_lex_single [OF Cons.prems]
      by (simp add: replace_byte_def sh_lex_double)
  next
    case False
    then show ?thesis using Cons.IH [of "b @ [c]"] Cons.prems by (simp add: replace_byte_def)
  qed
qed

lemma sh_lex_quoted: "sh_lex w cur (ShellQuote t @ s) = sh_lex True (cur @ t) s"
  using sh_lex_body [of "[]" w cur t s] by (simp add: ShellQuote_def)

lemma sh_lex_quoted_end: "sh_lex w cur (ShellQuote t) = Some [cur @ t]"
  using sh_lex_quoted [of w cur t "[]"] by simp

lemma sh_lex_plain: "list_all sh_plain u \<Longrightarrow> u \<noteq> [] \<Longrightarrow> sh_lex w cur (u @ s) = sh_lex True (cur @ u) s"
proof (induction u arbitrary: w cur)
  case (Cons c u)
  have "sh_plain c" using Cons.prems by simp
  moreover have "list_all (\<lambda>c. \<not> sh_plain c) [CHR '' '', CHR 0x27, CHR 0x22]" by code_simp
  ultimately have "c \<noteq> CHR '' ''" "c \<noteq> CHR 0x27" "c \<noteq> CHR 0x22" by auto
  with \<open>sh_plain c\<close> have "sh_lex w cur (c # u @ s) = sh_lex True (cur @ [c]) (u @ s)" by (simp add: sh_lex.simps)
  then show ?case using Cons.IH [of True "cur @ [c]"] Cons.prems by (cases u) auto
qed simp

lemma sh_lex_space: "sh_lex w cur (CHR '' '' # s) = map_option (\<lambda>ws. if w then cur # ws else ws) (sh_lex False [] s)"
  by (simp add: sh_lex.simps)

text \<open>Fixed words of the commands.\<close>

fun sh_join :: "string list \<Rightarrow> string" where
  "sh_join [] = []"
| "sh_join (w # ws) = w @ '' '' @ sh_join ws"

lemma sh_lex_words:
  "list_all (\<lambda>w. w \<noteq> [] \<and> list_all sh_plain w) ws \<Longrightarrow>
    sh_lex False [] (sh_join ws @ s) = map_option (\<lambda>r. ws @ r) (sh_lex False [] s)"
proof (induction ws)
  case (Cons w ws)
  then have "sh_lex False [] (w @ '' '' @ sh_join ws @ s) = map_option ((#) w) (sh_lex False [] (sh_join ws @ s))"
    using sh_lex_plain [of w False "[]" "'' '' @ sh_join ws @ s"] by (simp add: sh_lex_space)
  then show ?case using Cons by (simp add: option.map_comp comp_def)
next
  case Nil
  then show ?case by (cases "sh_lex False [] s") simp_all
qed

lemma sh_args_shape:
  assumes "list_all (\<lambda>w. w \<noteq> [] \<and> list_all sh_plain w) (as @ bs)"
  shows "sh_args (sh_join as @ ShellQuote x @ '' '' @ sh_join bs @ ShellQuote y) = Some (as @ [x] @ bs @ [y])"
  using assms unfolding sh_args_def
  by (simp add: sh_lex_words sh_lex_quoted sh_lex_quoted_end sh_lex_space)

lemma base64_std_no_quote: "CHR 0x27 \<notin> set (base64_std t)"
proof -
  have "\<not> b64_ok (CHR 0x27)" by code_simp
  then have "CHR 0x27 \<notin> set (b64_encode t)" using b64_encode_ok [of t] by (auto simp: list_all_iff)
  then show ?thesis by (auto simp: base64_std_def)
qed

lemma git_argv_stage: "sh_args (stage_command False dir path) = Some [''git'', ''-C'', dir, ''add'', ''--'', path]"
  using sh_args_shape [of "[''git'', ''-C'']" "[''add'', ''--'']" dir path]
  by (simp add: sh_plain_def alnum_def is_lower_def is_upper_def is_digit_def stage_command_def git_def)


section \<open>What a switch runs\<close>

definition sh_call :: "string \<Rightarrow> string \<Rightarrow> docker_call" where
  "sh_call c command = CExec c [''bash'', ''-lc'', command] False"

definition called :: "string \<Rightarrow> string \<Rightarrow> world \<Rightarrow> world" where
  "called c command w = w\<lparr>pw_docker := pw_docker w @ [sh_call c command]\<rparr>"

lemma run_sh_shown:
  "run_sh sv c command w = (shown (cl_exec (sv_docker sv) (pw_docker w @ [sh_call c command])), called c command w)"
  by (simp add: run_sh_def on_docker_def exec_command_def dk_exec_def sh_call_def called_def)

lemma called_docker [simp]: "pw_docker (called c command w) = pw_docker w @ [sh_call c command]"
  by (simp add: called_def)

text \<open>The answers as the checks take them.\<close>

definition exited_zero :: "go_err + exec_result \<Rightarrow> bool" where
  "exited_zero r \<longleftrightarrow> snd (shown r) = None"

definition switch_calls :: "string \<Rightarrow> string \<Rightarrow> string \<Rightarrow> bool \<Rightarrow> docker_call list" where
  "switch_calls c dir name create = map (sh_call c)
     ([ref_command dir name] @
      (if create then [new_command dir name] else []) @
      [dirty_command dir,
       unmerged_command dir,
       switch_command create dir name])"

text \<open>The answers that let a switch through; \<open>ans i\<close> answers the call number \<open>i\<close>.\<close>

definition switch_allowed :: "bool \<Rightarrow> (nat \<Rightarrow> go_err + exec_result) \<Rightarrow> bool" where
  "switch_allowed create ans \<longleftrightarrow>
     (let n = (if create then 1 else 0)
      in exited_zero (ans 0) \<and>
         (create \<longrightarrow> \<not> (exited_zero (ans 1) \<and> trim_space (fst (shown (ans 1))) = ''0'')) \<and>
         (exited_zero (ans (n + 1)) \<longrightarrow> dirty_files (fst (shown (ans (n + 1)))) = []) \<and>
         (exited_zero (ans (n + 2)) \<longrightarrow> trim_space (fst (shown (ans (n + 2)))) = []))"

lemma check_ref_run:
  "check_ref sv c dir name w =
    (let cmd = ref_command dir name;
         ans = cl_exec (sv_docker sv) (pw_docker w @ [sh_call c cmd])
     in (if exited_zero ans then Inr () else Inl (writeErr 400 (''invalid branch name: '' @ trim_space (fst (shown ans)))), called c cmd w))"
  by (simp add: check_ref_def run_sh_shown exited_zero_def Let_def split: prod.split option.split)

lemma check_new_run:
  "check_new sv c dir name True w =
    (let cmd = new_command dir name;
         ans = cl_exec (sv_docker sv) (pw_docker w @ [sh_call c cmd])
     in (if exited_zero ans \<and> trim_space (fst (shown ans)) = ''0'' then Inl (writeErr 400 ''branch already exists'') else Inr (), called c cmd w))"
  "check_new sv c dir name False w = (Inr (), w)"
  by (simp_all add: check_new_def run_sh_shown exited_zero_def Let_def split: prod.split)

lemma check_clean_run:
  "check_clean sv c dir w =
    (let cmd = dirty_command dir;
         ans = cl_exec (sv_docker sv) (pw_docker w @ [sh_call c cmd]); fs = dirty_files (fst (shown ans))
     in (if exited_zero ans \<and> fs \<noteq> [] then Inl (writeErr 409 (''working tree has uncommitted changes '' @ dash @ '' commit or stage first: '' @ join '', '' fs))
         else Inr (), called c cmd w))"
  by (simp add: check_clean_def dirtyTrackedUnder_def run_sh_shown exited_zero_def Let_def split: prod.split option.split sum.split)

lemma check_merge_run:
  "check_merge sv c dir w =
    (let cmd = unmerged_command dir;
         ans = cl_exec (sv_docker sv) (pw_docker w @ [sh_call c cmd])
     in (if exited_zero ans \<and> trim_space (fst (shown ans)) \<noteq> [] then Inl (writeErr 409 (''merge conflict in progress '' @ dash @ '' resolve in the terminal''))
         else Inr (), called c cmd w))"
  by (simp add: check_merge_def conflictsUnder_def run_sh_shown exited_zero_def Let_def split: prod.split option.split sum.split)

lemma run_switch_run:
  "run_switch sv c dir name create w =
    (let cmd = switch_command create dir name; ans = cl_exec (sv_docker sv) (pw_docker w @ [sh_call c cmd])
     in (if exited_zero ans then writeJSON 200 (JObj [(''ok'', JBool True), (''branch'', JStr name)])
         else writeErr 502 (trim_space (fst (shown ans))), called c cmd w))"
  by (simp add: run_switch_def bad_gateway_def run_sh_shown exited_zero_def Let_def split: prod.split option.split)

lemma called_store [simp]: "pw_store (called c command w) = pw_store w"
  by (simp add: called_def)

lemmas switch_steps = check_ref_run check_new_run check_clean_run check_merge_run run_switch_run

lemma checked_switch_steps:
  assumes "checked_switch sv c dir name create w0 = (resp, w')"
    "calls = switch_calls c dir name create"
    "ans = (\<lambda>i. cl_exec (sv_docker sv) (pw_docker w0 @ take (Suc i) calls))"
  shows "\<exists>k \<le> length calls. pw_docker w' = pw_docker w0 @ take k calls \<and> pw_store w' = pw_store w0 \<and>
     (k = length calls \<longrightarrow> switch_allowed create ans) \<and>
     (rs_status resp = 200 \<longleftrightarrow> k = length calls \<and> exited_zero (cl_exec (sv_docker sv) (pw_docker w')))"
proof -
  let ?n = "if create then 1 else 0 :: nat"
  have st: "rs_status (writeErr n m) = n" "rs_status (writeJSON n j) = n" for n m j by (simp_all add: writeErr_def writeJSON_def)
  note run = assms(1) [unfolded checked_switch_def and_then_def switch_steps Let_def]
  note all = switch_calls_def switch_allowed_def Let_def st assms(2,3)
  consider (ref) "\<not> exited_zero (ans 0)"
    | (exists) "exited_zero (ans 0)" create "exited_zero (ans 1) \<and> trim_space (fst (shown (ans 1))) = ''0''"
    | (dirty) "exited_zero (ans 0)" "create \<longrightarrow> \<not> (exited_zero (ans 1) \<and> trim_space (fst (shown (ans 1))) = ''0'')"
        "exited_zero (ans (?n + 1))" "dirty_files (fst (shown (ans (?n + 1)))) \<noteq> []"
    | (merging) "exited_zero (ans 0)" "create \<longrightarrow> \<not> (exited_zero (ans 1) \<and> trim_space (fst (shown (ans 1))) = ''0'')"
        "exited_zero (ans (?n + 1)) \<longrightarrow> dirty_files (fst (shown (ans (?n + 1)))) = []"
        "exited_zero (ans (?n + 2))" "trim_space (fst (shown (ans (?n + 2)))) \<noteq> []"
    | (go) "exited_zero (ans 0)" "create \<longrightarrow> \<not> (exited_zero (ans 1) \<and> trim_space (fst (shown (ans 1))) = ''0'')"
        "exited_zero (ans (?n + 1)) \<longrightarrow> dirty_files (fst (shown (ans (?n + 1)))) = []"
        "exited_zero (ans (?n + 2)) \<longrightarrow> trim_space (fst (shown (ans (?n + 2)))) = []"
    by blast
  then show ?thesis
  proof cases
    case ref
    then show ?thesis using run by (intro exI [of _ 1]) (auto simp: all)
  next
    case exists
    then show ?thesis using run by (intro exI [of _ 2]) (auto simp: all numeral_2_eq_2 switch_steps)
  next
    case dirty
    then show ?thesis using run by (intro exI [of _ "?n + 2"]) (cases create; auto simp: all numeral_2_eq_2 switch_steps)
  next
    case merging
    then show ?thesis using run by (intro exI [of _ "?n + 3"]) (cases create; auto simp: all numeral_2_eq_2 numeral_3_eq_3 switch_steps)
  next
    case go
    then show ?thesis using run by (intro exI [of _ "length calls"]) (cases create; auto simp: all numeral_2_eq_2 numeral_3_eq_3 switch_steps split: if_splits)
  qed
qed

text \<open>
  C21: A switch runs its commands in one fixed order and never further than the first that speaks against it:
  the new calls are a first part of the list - the name's format, whether a new branch exists already, the
  tracked changes, the unmerged files, the switch. The switch is run only when git accepted the name, no
  branch to be created was found, and the two probes that succeeded showed neither a tracked change nor an
  unmerged file; and the answer is 200 exactly when it was run and succeeded.
\<close>

theorem switch_guarded:
  assumes "gitRepoDir sv p w = (Inr (c, dir), w0)" "trim_space branch \<noteq> []"
    "handleGitSwitch sv p (Decoded (branch, create)) w = (resp, w')"
  shows "\<exists>k \<le> length (switch_calls c dir (trim_space branch) create).
     pw_docker w' = pw_docker w0 @ take k (switch_calls c dir (trim_space branch) create) \<and> pw_store w' = pw_store w0 \<and>
     (k = length (switch_calls c dir (trim_space branch) create) \<longrightarrow>
        switch_allowed create (\<lambda>i. cl_exec (sv_docker sv) (pw_docker w0 @ take (Suc i) (switch_calls c dir (trim_space branch) create)))) \<and>
     (rs_status resp = 200 \<longleftrightarrow> k = length (switch_calls c dir (trim_space branch) create) \<and>
        exited_zero (cl_exec (sv_docker sv) (pw_docker w')))"
proof -
  have "checked_switch sv c dir (trim_space branch) create w0 = (resp, w')"
    using assms by (simp add: handleGitSwitch_def and_then_def decodeBody_def)
  from checked_switch_steps [OF this refl refl] show ?thesis .
qed

text \<open>An engine whose project container runs and whose commands all succeed without output.\<close>

definition running_service :: project_service where
  "running_service = Project.sample_service\<lparr>sv_docker := named_client\<lparr>cl_inspect := \<lambda>_. Inr \<lparr>ct_ID = ''c1'', ct_Running = True,
     ct_Status = ''running'', ct_Image = [], ct_NetworkIP = [], ct_Published = []\<rparr>\<rparr>\<rparr>"

lemma running_repo: "fst (gitRepoDir running_service ''me/app'' first_created) = Inr (''pcoder-me-app'', repoDir)"
  by code_simp

theorem switch_guarded_witness:
  "\<exists>k \<le> length (switch_calls ''pcoder-me-app'' repoDir ''main'' True).
     pw_docker (snd (handleGitSwitch running_service ''me/app'' (Decoded (''main'', True)) first_created)) =
       pw_docker (snd (gitRepoDir running_service ''me/app'' first_created)) @ take k (switch_calls ''pcoder-me-app'' repoDir ''main'' True)"
proof -
  have "gitRepoDir running_service ''me/app'' first_created =
      (Inr (''pcoder-me-app'', repoDir), snd (gitRepoDir running_service ''me/app'' first_created))"
    by (rule prod_eqI) (simp_all add: running_repo)
  moreover have m: "trim_space ''main'' = ''main''" by code_simp
  then have "trim_space ''main'' \<noteq> []" by simp
  ultimately show ?thesis using switch_guarded [OF _ _ prod.collapse [symmetric], of running_service "''me/app''" first_created
      "''pcoder-me-app''" repoDir _ "''main''" True] m by auto
qed

section \<open>What the answers miss\<close>

text \<open>What git prints when nothing is staged is not among the texts looked for.\<close>

lemma nothing_to_commit_is_502:
  "rs_status (commit_failure (\<lambda>c. c) ''nothing to commit, working tree clean'') = 502"
  by code_simp

text \<open>Any output with these digits counts as a rejected key.\<close>

lemma digits_count_as_auth: "isGitAuthError (\<lambda>c. c) ''! [rejected] a4013f (non-fast-forward)''"
  by code_simp

text \<open>A pattern is a valid path; git reads it as one.\<close>

lemma pattern_staged:
  "validGitPath ''*'' \<and> sh_args (stage_command False dir ''*'') = Some [''git'', ''-C'', dir, ''add'', ''--'', ''*'']"
  using git_argv_stage by (simp add: validGitPath_def)

end
