(* ===== verification/TermRoutes.thy ===== *)
theory TermRoutes
  imports Terminal GitOps
begin

text \<open>
  The session routes of httpapi/terminal.go over the session service, the project records and the harness
  registry: listing, creating, renaming, injecting, killing, deleting, restarting, and what happens before a
  terminal is attached. A handler takes the decoded body and returns the response with the world and the
  events it offered to the audit log (whose failures the code ignores). Lines for the observability log are
  left out.
\<close>

section \<open>The state of a request\<close>

type_synonym event = "string \<times> (string \<times> json) list"

record tw =
  tw_world :: world
  tw_events :: "event list"

type_synonym 'a route = "tw \<Rightarrow> 'a \<times> tw"

text \<open>
  What the handlers are wired to; \<open>te_io\<close> gives the outcome of the state write of each kind
  (\<open>install\<close>, \<open>session\<close>, \<open>remove\<close>).
\<close>

record tenv =
  te_service :: project_service
  te_deadlines :: deadlines
  te_io :: "string \<Rightarrow> io"

definition on_world :: "'a project_op \<Rightarrow> 'a route" where
  "on_world op t = (case op (tw_world t) of (r, w) \<Rightarrow> (r, t\<lparr>tw_world := w\<rparr>))"

definition on_sessions :: "'a docker_op \<Rightarrow> 'a route" where
  "on_sessions op = on_world (on_docker op)"

definition add_event :: "string \<Rightarrow> (string \<times> json) list \<Rightarrow> tw \<Rightarrow> tw" where
  "add_event typ data t = t\<lparr>tw_events := tw_events t @ [(typ, data)]\<rparr>"

definition step_then :: "(response + 'a) route \<Rightarrow> ('a \<Rightarrow> response route) \<Rightarrow> response route" where
  "step_then op f t = (case op t of (Inl r, t') \<Rightarrow> (r, t') | (Inr a, t') \<Rightarrow> f a t')"

definition ensureProject :: "tenv \<Rightarrow> string \<Rightarrow> (response + string) route" where
  "ensureProject te p = on_world (ensureRunning (te_service te) p)"

definition container_of :: "tenv \<Rightarrow> string \<Rightarrow> string" where
  "container_of te p = ContainerName (te_service te) p"

abbreviation docker_of :: "tenv \<Rightarrow> client" where
  "docker_of te \<equiv> sv_docker (te_service te)"

section \<open>Records and error answers\<close>

definition record_session :: "tenv \<Rightarrow> string \<Rightarrow> string \<Rightarrow> string \<Rightarrow> tw \<Rightarrow> tw" where
  "record_session te p name hid t = snd (on_world (sv_RecordSession (te_service te) (te_io te ''session'') p name hid) t)"

definition record_install :: "tenv \<Rightarrow> string \<Rightarrow> string \<Rightarrow> tw \<Rightarrow> tw" where
  "record_install te p hid t = snd (on_world (sv_RecordInstall (te_service te) (te_io te ''install'') p hid) t)"

definition remove_session :: "tenv \<Rightarrow> string \<Rightarrow> string \<Rightarrow> go_err option route" where
  "remove_session te p name =
     on_world (wrapped (te_service te) (RemoveSession (te_io te ''remove'') p name))"

definition recordLaunch :: "tenv \<Rightarrow> string \<Rightarrow> string \<Rightarrow> string \<Rightarrow> tw \<Rightarrow> tw" where
  "recordLaunch te p name hid t = record_session te p name hid (record_install te p hid t)"

definition session_of :: "string \<Rightarrow> string \<Rightarrow> tw \<Rightarrow> session_meta option" where
  "session_of p name t = GetSession p name (pw_store (tw_world t))"

definition recorded_names :: "string \<Rightarrow> tw \<Rightarrow> string list" where
  "recorded_names p t =
     (case map_of (projects_of (pw_store (tw_world t))) p of None \<Rightarrow> [] | Some q \<Rightarrow> map fst (pr_sessions q))"

definition harness_named :: "string \<Rightarrow> tw \<Rightarrow> harness option" where
  "harness_named i t = (case hs_get i (pw_store (tw_world t)) of Inl _ \<Rightarrow> None | Inr h \<Rightarrow> Some h)"

definition writeSessionErr :: "string \<Rightarrow> string \<Rightarrow> go_err \<Rightarrow> response route" where
  "writeSessionErr p name e t =
     (if is_err e ErrInvalidName then (writeErr 400 (ge_text e), t)
      else if is_err e ErrDuplicate then
        (writeJSON 200 (JObj [(''name'', JStr name)]),
         add_event ''session.create'' [(''id'', JStr p), (''name'', JStr name), (''existing'', JBool True)] t)
      else (writeInternalErr e, t))"

definition writeLaunchErr :: "string \<Rightarrow> string \<Rightarrow> go_err \<Rightarrow> response route" where
  "writeLaunchErr p hid e t =
     (if is_err e ErrNotCLI \<or> is_err e ErrInvalidName \<or> is_err e ErrNotInstalled then
        (writeErr 422 (ge_text e),
         add_event ''validation.failed'' [(''id'', JStr p), (''harness'', JStr hid), (''detail'', JStr (ge_text e))] t)
      else (writeInternalErr e, t))"

definition createShellSession :: "tenv \<Rightarrow> string \<Rightarrow> string \<Rightarrow> bool \<Rightarrow> response route" where
  "createShellSession te p name restarting t =
     (case on_sessions (se_Create (docker_of te) (container_of te p) name) t of
        (Some e, t1) \<Rightarrow> writeSessionErr p name e t1
      | (None, t1) \<Rightarrow>
          (writeJSON (if restarting then 200 else 201) (JObj [(''name'', JStr name)]),
           add_event ''session.create''
             ([(''id'', JStr p), (''name'', JStr name)] @ (if restarting then [(''restart'', JBool True)] else []))
             (record_session te p name [] t1)))"

definition created :: "nat \<Rightarrow> string \<Rightarrow> string \<Rightarrow> response" where
  "created status name hid =
     writeJSON status (JObj ([(''name'', JStr name)] @ (if hid \<noteq> [] then [(''harness'', JStr hid)] else [])))"

definition launch_event :: "string \<Rightarrow> string \<Rightarrow> string \<Rightarrow> (string \<times> json) list \<Rightarrow> tw \<Rightarrow> tw" where
  "launch_event p name hid extra =
     add_event ''harness.launch'' ([(''id'', JStr p), (''session'', JStr name), (''harness'', JStr hid)] @ extra)"

section \<open>Listing\<close>

text \<open>Live sessions, then the recorded ones that are not live; the order of the latter is not determined.\<close>

definition merged :: "string \<Rightarrow> string list \<Rightarrow> tw \<Rightarrow> string list" where
  "merged p live t = live @ filter (\<lambda>n. n \<notin> set live) (recorded_names p t)"

definition handleListSessions :: "tenv \<Rightarrow> string \<Rightarrow> response route" where
  "handleListSessions te p = step_then (ensureProject te p) (\<lambda>_ t.
     (case on_sessions (se_List (docker_of te) (container_of te p)) t of
        (Inl e, t1) \<Rightarrow> (writeInternalErr e, t1)
      | (Inr live, t1) \<Rightarrow>
          (writeJSON 200 (JObj [(''sessions'', JArr (map (\<lambda>n. JObj [(''name'', JStr n)]) (merged p live t1)))]), t1)))"

section \<open>Creating\<close>

record create_body =
  cb_name :: string
  cb_harness :: string
  cb_create :: bool

definition zero_create :: create_body where
  "zero_create = \<lparr>cb_name = [], cb_harness = [], cb_create = False\<rparr>"

definition yes :: "go_err + bool \<Rightarrow> bool" where
  "yes r \<longleftrightarrow> r = Inr True"

text \<open>A dead session is killed and started again as what it was.\<close>

definition revive :: "tenv \<Rightarrow> string \<Rightarrow> string \<Rightarrow> response route" where
  "revive te p name t =
     (case on_sessions (Kill (docker_of te) (container_of te p) name) t of
        (_, t1) \<Rightarrow>
          (let meta = session_of p name t1;
               recorded = (case meta of Some m \<Rightarrow> sm_harness m | None \<Rightarrow> []);
               hid = (if recorded = [] then ParseBase name else recorded)
           in if recorded = [] \<and> meta \<noteq> None then createShellSession te p name False t1
              else (case harness_named hid t1 of
                      Some h \<Rightarrow>
                        (case on_sessions (LaunchNamed (docker_of te) (te_deadlines te) (container_of te p) name h) t1 of
                           (Inl e, t2) \<Rightarrow> writeLaunchErr p hid e t2
                         | (Inr n, t2) \<Rightarrow> (created 200 n hid, launch_event p n hid [] (recordLaunch te p n hid t2)))
                    | None \<Rightarrow> createShellSession te p name False (snd (remove_session te p name t1)))))"

definition create_plain :: "tenv \<Rightarrow> string \<Rightarrow> create_body \<Rightarrow> response route" where
  "create_plain te p b t =
     (let name = cb_name b
      in if \<not> ValidName name then (writeErr 400 ''invalid session name'', t)
         else (case on_sessions (Exists (docker_of te) (container_of te p) name) t of
                 (there, t1) \<Rightarrow>
                   if yes there then
                     (case on_sessions (IsAlive (docker_of te) (container_of te p) name) t1 of
                        (alive, t2) \<Rightarrow> if yes alive then (created 200 name [], t2) else revive te p name t2)
                   else
                     (case session_of p name t1 of
                        None \<Rightarrow>
                          if \<not> cb_create b \<and> name \<noteq> ''main'' then (writeErr 404 ''no such session'', t1)
                          else createShellSession te p name False t1
                      | Some m \<Rightarrow>
                          if sm_harness m = [] then createShellSession te p name False t1
                          else (case harness_named (sm_harness m) t1 of
                                  None \<Rightarrow> createShellSession te p name False (snd (remove_session te p name t1))
                                | Some h \<Rightarrow>
                                    (case on_sessions (LaunchNamed (docker_of te) (te_deadlines te) (container_of te p) name h) t1 of
                                       (Inl e, t2) \<Rightarrow>
                                         if is_err e ErrDuplicate then (created 200 name (sm_harness m), t2)
                                         else writeLaunchErr p (sm_harness m) e t2
                                     | (Inr n, t2) \<Rightarrow>
                                         (created 200 n (sm_harness m),
                                          launch_event p n (sm_harness m) [] (recordLaunch te p n (sm_harness m) t2)))))))"

definition launched :: "tenv \<Rightarrow> string \<Rightarrow> harness \<Rightarrow> (go_err + string) \<times> tw \<Rightarrow> response \<times> tw" where
  "launched te p h res =
     (case res of
        (Inl e, t) \<Rightarrow>
          if is_err e ErrDuplicate then (writeErr 409 (ge_text e), t) else writeLaunchErr p (hs_id h) e t
      | (Inr n, t) \<Rightarrow>
          (created 201 n (hs_id h),
           add_event ''session.create'' [(''id'', JStr p), (''name'', JStr n), (''harness'', JStr (hs_id h))]
             (launch_event p n (hs_id h) [] (recordLaunch te p n (hs_id h) t))))"

definition create_harness :: "tenv \<Rightarrow> string \<Rightarrow> create_body \<Rightarrow> response route" where
  "create_harness te p b t =
     (case harness_named (cb_harness b) t of
        None \<Rightarrow> (writeErr 404 (''no such harness '' @ quoted (cb_harness b)), t)
      | Some h \<Rightarrow>
          if cb_name b = [] then
            launched te p h (on_sessions (Launch (docker_of te) (te_deadlines te) (container_of te p) h) t)
          else if \<not> ValidName (cb_name b) then (writeErr 400 ''invalid session name'', t)
          else (case on_sessions (Exists (docker_of te) (container_of te p) (cb_name b)) t of
                  (there, t1) \<Rightarrow>
                    if yes there then (writeErr 409 ''session name already exists'', t1)
                    else launched te p h
                      (on_sessions (LaunchNamed (docker_of te) (te_deadlines te) (container_of te p) (cb_name b) h) t1)))"

definition handleCreateSession :: "tenv \<Rightarrow> string \<Rightarrow> create_body body \<Rightarrow> response route" where
  "handleCreateSession te p body t =
     (case decodeBody zero_create body False of
        Inl r \<Rightarrow> (r, t)
      | Inr b \<Rightarrow> step_then (ensureProject te p)
          (\<lambda>_. if cb_harness b = [] then create_plain te p b else create_harness te p b) t)"

section \<open>Renaming, injecting, reading the selection\<close>

definition rename_answer :: "string \<Rightarrow> go_err \<Rightarrow> response" where
  "rename_answer old e =
     (if is_err e ErrInvalidName then writeErr 400 (ge_text e)
      else if is_err e ErrDuplicate then writeErr 409 (ge_text e)
      else if ge_text e = ge_text (no_session old) then writeErr 404 ''no such session''
      else writeInternalErr e)"

text \<open>The record goes to the new name and leaves the old one; both writes' failures are ignored.\<close>

definition move_record :: "tenv \<Rightarrow> string \<Rightarrow> string \<Rightarrow> string \<Rightarrow> tw \<Rightarrow> tw" where
  "move_record te p old new t =
     (case session_of p old t of
        None \<Rightarrow> t
      | Some m \<Rightarrow> snd (remove_session te p old (record_session te p new (sm_harness m) t)))"

definition handleRenameSession :: "tenv \<Rightarrow> string \<Rightarrow> string \<Rightarrow> string body \<Rightarrow> response route" where
  "handleRenameSession te p old body t =
     (case decodeBody [] body False of
        Inl r \<Rightarrow> (r, t)
      | Inr new \<Rightarrow>
          if \<not> ValidName new \<or> \<not> ValidName old then (writeErr 400 ''invalid session name'', t)
          else step_then (ensureProject te p) (\<lambda>_ t.
            (let d = docker_of te; c = container_of te p
             in case on_sessions (Exists d c old) t of
                  (Inl e, t1) \<Rightarrow> (writeInternalErr e, t1)
                | (Inr False, t1) \<Rightarrow> (writeErr 404 ''no such session'', t1)
                | (Inr True, t1) \<Rightarrow>
                    (case on_sessions (Exists d c new) t1 of
                       (Inl e, t2) \<Rightarrow> (writeInternalErr e, t2)
                     | (Inr True, t2) \<Rightarrow> (writeErr 409 ''session name already exists'', t2)
                     | (Inr False, t2) \<Rightarrow>
                         (case on_sessions (Rename d c old new) t2 of
                            (Some e, t3) \<Rightarrow> (rename_answer old e, t3)
                          | (None, t3) \<Rightarrow>
                              (writeJSON 200 (JObj [(''name'', JStr new)]),
                               add_event ''session.rename'' [(''id'', JStr p), (''from'', JStr old), (''to'', JStr new)]
                                 (move_record te p old new t3)))))) t)"

definition handleInjectSession :: "tenv \<Rightarrow> string \<Rightarrow> string \<Rightarrow> string body \<Rightarrow> response route" where
  "handleInjectSession te p name body t =
     (case decodeBody [] body False of
        Inl r \<Rightarrow> (r, t)
      | Inr command \<Rightarrow>
          if trim_space command = [] then (writeErr 400 ''command is required'', t)
          else step_then (ensureProject te p) (\<lambda>_ t.
            (case on_sessions (Inject (docker_of te) (container_of te p) name command) t of
               (Some e, t1) \<Rightarrow>
                 (if is_err e ErrInvalidName \<or> is_err e ErrEmptyCommand then writeErr 400 (ge_text e)
                  else if contains (ge_text e) ''no such session'' then writeErr 404 ''no such session''
                  else writeInternalErr e, t1)
             | (None, t1) \<Rightarrow>
                 (writeJSON 200 ok_true, add_event ''session.inject'' [(''id'', JStr p), (''session'', JStr name)] t1))) t)"

definition handleSessionSelection :: "tenv \<Rightarrow> gotime \<Rightarrow> string \<Rightarrow> string \<Rightarrow> response route" where
  "handleSessionSelection te now p name t =
     (if \<not> ValidName name then (writeErr 400 ErrInvalidName, t)
      else step_then (ensureProject te p) (\<lambda>_ t.
        (case on_sessions (Selection (sv_lower (te_service te)) now (docker_of te) (container_of te p) name) t of
           (Inl e, t1) \<Rightarrow>
             (if contains (ge_text e) ''no such session'' then writeErr 404 ''no such session'' else writeInternalErr e, t1)
         | (Inr sel, t1) \<Rightarrow>
             (writeJSON 200 (JObj [(''text'', JStr (sl_Text sel)), (''fresh'', JBool (sl_Fresh sel))]), t1))) t)"

section \<open>Killing, deleting, restarting\<close>

definition handleKillSession :: "tenv \<Rightarrow> string \<Rightarrow> string \<Rightarrow> response route" where
  "handleKillSession te p name = step_then (ensureProject te p) (\<lambda>_ t.
     (case on_sessions (Kill (docker_of te) (container_of te p) name) t of
        (Some e, t1) \<Rightarrow> (writeInternalErr e, t1)
      | (None, t1) \<Rightarrow>
          (writeJSON 200 ok_true, add_event ''session.exit'' [(''id'', JStr p), (''name'', JStr name)] t1)))"

definition handleDeleteSession :: "tenv \<Rightarrow> string \<Rightarrow> string \<Rightarrow> response route" where
  "handleDeleteSession te p name = step_then (ensureProject te p) (\<lambda>_ t.
     (case on_sessions (se_List (docker_of te) (container_of te p)) t of
        (Inl e, t1) \<Rightarrow> (writeInternalErr e, t1)
      | (Inr live, t1) \<Rightarrow>
          if length (remdups (live @ recorded_names p t1)) \<le> 1 then (writeErr 409 ''cannot delete the last session'', t1)
          else (case on_sessions (Kill (docker_of te) (container_of te p) name) t1 of
                  (Some e, t2) \<Rightarrow> (writeInternalErr e, t2)
                | (None, t2) \<Rightarrow>
                    (case remove_session te p name t2 of
                       (Some e, t3) \<Rightarrow> (writeInternalErr e, t3)
                     | (None, t3) \<Rightarrow>
                         (writeJSON 200 ok_true, add_event ''session.delete'' [(''id'', JStr p), (''name'', JStr name)] t3)))))"

definition handleRestartSession :: "tenv \<Rightarrow> string \<Rightarrow> string \<Rightarrow> response route" where
  "handleRestartSession te p name = step_then (ensureProject te p) (\<lambda>_ t.
     (case on_sessions (Kill (docker_of te) (container_of te p) name) t of
        (_, t1) \<Rightarrow>
          (let meta = session_of p name t1;
               recorded = (case meta of Some m \<Rightarrow> sm_harness m | None \<Rightarrow> []);
               hid = (if recorded = [] then ParseBase name else recorded)
           in if recorded = [] \<and> meta \<noteq> None then createShellSession te p name True t1
              else (case harness_named hid t1 of
                      None \<Rightarrow> createShellSession te p name True t1
                    | Some h \<Rightarrow>
                        (case on_sessions (LaunchNamed (docker_of te) (te_deadlines te) (container_of te p) name h) t1 of
                           (Inl e, t2) \<Rightarrow> writeLaunchErr p hid e t2
                         | (Inr n, t2) \<Rightarrow>
                             (writeJSON 200 (JObj [(''name'', JStr n)]),
                              launch_event p n hid [(''restart'', JBool True)] (recordLaunch te p n hid t2)))))))"

section \<open>Before a terminal is attached\<close>

text \<open>\<open>Inl\<close> is an HTTP answer instead of the upgrade.\<close>

definition prepare_attach :: "tenv \<Rightarrow> string \<Rightarrow> string \<Rightarrow> (response + unit) route" where
  "prepare_attach te p name t =
     (if \<not> ValidName name then (Inl (writeErr 400 ''invalid session name''), t)
      else (case ensureProject te p t of
        (Inl r, t1) \<Rightarrow> (Inl r, t1)
      | (Inr _, t1) \<Rightarrow>
          (let d = docker_of te; c = container_of te p
           in case on_sessions (Exists d c name) t1 of
                (Inl e, t2) \<Rightarrow> (Inl (writeInternalErr e), t2)
              | (Inr True, t2) \<Rightarrow> (Inr (), t2)
              | (Inr False, t2) \<Rightarrow>
                  (case session_of p name t2 of
                     None \<Rightarrow> (Inl (writeErr 404 ''no such session''), t2)
                   | Some m \<Rightarrow>
                       (case (if sm_harness m = [] then None else harness_named (sm_harness m) t2) of
                          None \<Rightarrow> (Inr (), snd (on_sessions (se_Create d c name) t2))
                        | Some h \<Rightarrow>
                            (case on_sessions (LaunchNamed d (te_deadlines te) c name h) t2 of
                               (Inl e, t3) \<Rightarrow>
                                 if is_err e ErrDuplicate then (Inr (), record_install te p (sm_harness m) t3)
                                 else (case writeLaunchErr p (sm_harness m) e t3 of (r, t4) \<Rightarrow> (Inl r, t4))
                             | (Inr _, t3) \<Rightarrow> (Inr (), record_install te p (sm_harness m) t3)))))))"

section \<open>What the steps do to the records\<close>

definition sessions_in :: "document \<Rightarrow> string \<Rightarrow> string \<Rightarrow> session_meta option" where
  "sessions_in doc p n = (case map_of (doc_projects doc) p of None \<Rightarrow> None | Some q \<Rightarrow> map_of (pr_sessions q) n)"

lemma session_of_view: "session_of p n t = sessions_in (view (pw_store (tw_world t))) p n"
  by (simp add: session_of_def GetSession_def sessions_in_def)

lemma on_sessions_store: "on_sessions op t = (r, t') \<Longrightarrow> pw_store (tw_world t') = pw_store (tw_world t) \<and> tw_events t' = tw_events t"
  by (auto simp: on_sessions_def on_world_def on_docker_def split: prod.splits)

lemma ensureProject_store: "ensureProject te p t = (r, t') \<Longrightarrow> pw_store (tw_world t') = pw_store (tw_world t) \<and> tw_events t' = tw_events t"
  by (auto simp: ensureProject_def on_world_def ensureRunning_def dest!: ensure_store split: prod.splits sum.splits if_splits)

lemma add_event_simps [simp]: "tw_world (add_event e d t) = tw_world t" "tw_world (launch_event p n h x t) = tw_world t"
  by (simp_all add: add_event_def launch_event_def)

lemma session_of_event [simp]: "session_of p n (add_event e d t) = session_of p n t" "session_of p n (launch_event q m h x t) = session_of p n t"
  by (simp_all add: session_of_def)

lemma sessions_put: "sessions_in (put_project p q doc) p' n = (if p' = p then map_of (pr_sessions q) n else sessions_in doc p' n)"
  by (simp add: sessions_in_def)

lemma wrapped_view:
  assumes "on_world (wrapped sv (mutate out fn)) t = (r, t')"
  shows "(case r of None \<Rightarrow> fn (view (pw_store (tw_world t))) = Inr (view (pw_store (tw_world t')), ())
    | Some e \<Rightarrow> view (pw_store (tw_world t')) = view (pw_store (tw_world t)))"
proof -
  obtain x s' where m: "mutate out fn (pw_store (tw_world t)) = (x, s')" by fastforce
  then have "r = map_option wrap_not_found (stored_err sv x)" "pw_store (tw_world t') = s'"
    using assms by (auto simp: on_world_def wrapped_def on_store_def)
  then show ?thesis using m by (cases x) (auto simp: stored_err_def dest: st.commit st.abort)
qed

lemma remove_session_effect:
  assumes "remove_session te p name t = (r, t')"
  shows "session_of p' n t' = (if r = None \<and> (p', n) = (p, name) then None else session_of p' n t)"
proof -
  let ?doc = "view (pw_store (tw_world t))" and ?doc' = "view (pw_store (tw_world t'))"
  note v = wrapped_view [OF assms [unfolded remove_session_def RemoveSession_def]]
  show ?thesis
  proof (cases r)
    case (Some e)
    then show ?thesis using v by (simp add: session_of_view)
  next
    case None
    show ?thesis
    proof (cases "map_of (doc_projects ?doc) p")
      case None
      then show ?thesis using v \<open>r = None\<close> by (auto simp: session_of_view sessions_in_def)
    next
      case (Some q)
      then have "?doc' = put_project p (q\<lparr>pr_sessions := AList.delete name (pr_sessions q)\<rparr>) ?doc"
        using v \<open>r = None\<close> by simp
      then show ?thesis using \<open>r = None\<close> Some
        by (auto simp: session_of_view sessions_put AList.delete_conv' sessions_in_def)
    qed
  qed
qed

lemma record_session_effect:
  assumes "on_world (sv_RecordSession (te_service te) (te_io te ''session'') p name hid) t = (r, t')"
  shows "session_of p' n t' = (if r = None \<and> (p', n) = (p, name) then Some \<lparr>sm_harness = hid\<rparr> else session_of p' n t)"
proof -
  note v = wrapped_view [OF assms [unfolded sv_RecordSession_def RecordSession_def]]
  show ?thesis
  proof (cases r)
    case (Some e)
    then show ?thesis using v by (simp add: session_of_view)
  next
    case None
    with v obtain q where q: "map_of (doc_projects (view (pw_store (tw_world t)))) p = Some q"
      "view (pw_store (tw_world t')) = put_project p (q\<lparr>pr_sessions := AList.update name \<lparr>sm_harness = hid\<rparr> (pr_sessions q)\<rparr>)
        (view (pw_store (tw_world t)))"
      by (auto simp: update_fn_def split: option.splits)
    then show ?thesis using None
      by (auto simp: session_of_view sessions_put update_conv' sessions_in_def)
  qed
qed

lemma record_session_other: "(p', n) \<noteq> (p, name) \<Longrightarrow> session_of p' n (record_session te p name hid t) = session_of p' n t"
proof -
  assume ne: "(p', n) \<noteq> (p, name)"
  obtain r t' where r: "on_world (sv_RecordSession (te_service te) (te_io te ''session'') p name hid) t = (r, t')" by fastforce
  show ?thesis using record_session_effect [OF r, of p' n] ne by (auto simp: record_session_def r)
qed

section \<open>Unknown names\<close>

text \<open>
  C24: A name nobody asked for is never made: for a name other than \<open>main\<close> that the request does not mark
  as new, that has no record in the project and that tmux does not know, a create answers 404; the records
  and the events stay as they were and the only call in the container is the question whether the session
  exists.
\<close>

theorem unknown_name_refused:
  assumes "ensureProject te p t = (Inr i, t0)" "cb_harness b = []" "\<not> cb_create b" "cb_name b \<noteq> ''main''" "ValidName (cb_name b)"
    "session_of p (cb_name b) t = None"
    "\<not> yes (fst (Exists (docker_of te) (container_of te p) (cb_name b) (pw_docker (tw_world t0))))"
    "handleCreateSession te p (Decoded b) t = (resp, t')"
  shows "resp = writeErr 404 ''no such session'' \<and> pw_store (tw_world t') = pw_store (tw_world t) \<and> tw_events t' = tw_events t \<and>
    pw_docker (tw_world t') = pw_docker (tw_world t0) @ [CExec (container_of te p) [''tmux'', ''has-session'', ''-t'', cb_name b] False]"
proof -
  obtain there t1 where e: "on_sessions (Exists (docker_of te) (container_of te p) (cb_name b)) t0 = (there, t1)" by fastforce
  have "there = fst (Exists (docker_of te) (container_of te p) (cb_name b) (pw_docker (tw_world t0)))"
    and calls: "pw_docker (tw_world t1) = pw_docker (tw_world t0) @ [CExec (container_of te p) [''tmux'', ''has-session'', ''-t'', cb_name b] False]"
    using e by (auto simp: on_sessions_def on_world_def on_docker_def Exists_def dk_exec_def split: prod.splits sum.splits)
  then have no: "\<not> yes there" using assms(7) by simp
  have st: "pw_store (tw_world t1) = pw_store (tw_world t) \<and> tw_events t1 = tw_events t"
    using ensureProject_store [OF assms(1)] on_sessions_store [OF e] by simp
  then have "session_of p (cb_name b) t1 = None" using assms(6) by (simp add: session_of_def)
  then have "(resp, t') = (writeErr 404 ''no such session'', t1)"
    using assms(1-5,8) e no by (simp add: handleCreateSession_def decodeBody_def step_then_def create_plain_def Let_def)
  then show ?thesis using st calls by simp
qed

text \<open>A project container that answers every command with one exit code and one output.\<close>

definition answering :: "int \<Rightarrow> string \<Rightarrow> tenv" where
  "answering code out =
     \<lparr>te_service = running_service\<lparr>sv_docker := (sv_docker running_service)\<lparr>cl_exec := \<lambda>_. Inr \<lparr>er_ExitCode = code, er_Output = out\<rparr>\<rparr>\<rparr>,
      te_deadlines = \<lparr>dl_outer = \<lambda>_. None, dl_probe = \<lambda>_. False\<rparr>, te_io = \<lambda>_. IoDone\<rparr>"

definition sample_tw :: tw where
  "sample_tw = \<lparr>tw_world = first_created, tw_events = []\<rparr>"

lemma sample_ensured: "fst (ensureProject (answering code out) ''me/app'' sample_tw) = Inr ''me/app''"
proof -
  have "fst (ensureRunning (te_service (answering code out)) ''me/app'' first_created) = Inr ''me/app''" by code_simp
  then show ?thesis
    by (cases "ensureRunning (te_service (answering code out)) ''me/app'' first_created")
      (simp add: ensureProject_def on_world_def sample_tw_def)
qed

lemma sample_ensured_pair:
  "ensureProject (answering code out) ''me/app'' sample_tw =
    (Inr ''me/app'', snd (ensureProject (answering code out) ''me/app'' sample_tw))"
  by (rule prod_eqI) (simp_all add: sample_ensured)

theorem unknown_name_refused_witness:
  "fst (handleCreateSession (answering 1 []) ''me/app'' (Decoded \<lparr>cb_name = ''typo'', cb_harness = [], cb_create = False\<rparr>) sample_tw) =
    writeErr 404 ''no such session''"
proof -
  let ?b = "\<lparr>cb_name = ''typo'', cb_harness = [], cb_create = False\<rparr>"
  have "ValidName (cb_name ?b)" "session_of ''me/app'' (cb_name ?b) sample_tw = None" by code_simp+
  moreover have "\<not> yes (fst (Exists (docker_of (answering 1 [])) c n h))" for c n h
    by (simp add: Exists_def dk_exec_def answering_def yes_def)
  ultimately show ?thesis
    using unknown_name_refused [OF sample_ensured_pair _ _ _ _ _ _ prod.collapse [symmetric], of ?b 1 "[]"] by simp
qed

section \<open>The last session\<close>

text \<open>
  C23: The last session is never deleted, and a delete touches nothing else: when the live and the recorded
  sessions together are at most one, the answer is 409 and neither the container nor the records change after
  the listing; otherwise the records of all other sessions of all projects stay, and the answer is 200 exactly
  when the session was killed and its record is gone.
\<close>

theorem delete_spares_others:
  assumes "ensureProject te p t = (Inr i, t0)" "on_sessions (se_List (docker_of te) (container_of te p)) t0 = (Inr live, t1)"
    "handleDeleteSession te p name t = (resp, t')"
  shows "(length (remdups (live @ recorded_names p t)) \<le> 1 \<longrightarrow> resp = writeErr 409 ''cannot delete the last session'' \<and> t' = t1) \<and>
    (\<forall>p' n. (p', n) \<noteq> (p, name) \<longrightarrow> session_of p' n t' = session_of p' n t) \<and>
    (rs_status resp = 200 \<longrightarrow> 1 < length (remdups (live @ recorded_names p t)) \<and> session_of p name t' = None \<and>
       fst (Kill (docker_of te) (container_of te p) name (pw_docker (tw_world t1))) = None)"
proof -
  have st1: "pw_store (tw_world t1) = pw_store (tw_world t)"
    using ensureProject_store [OF assms(1)] on_sessions_store [OF assms(2)] by simp
  then have rec: "recorded_names p t1 = recorded_names p t" and same1: "session_of q n t1 = session_of q n t" for q n
    by (simp_all add: recorded_names_def session_of_def)
  have status: "rs_status (writeErr k m) = k" "rs_status (writeInternalErr e) = 500" "rs_status (writeJSON k j) = k" for k m j e
    by (simp_all add: writeErr_def writeJSON_def writeInternalErr_def)
  show ?thesis
  proof (cases "length (remdups (live @ recorded_names p t)) \<le> 1")
    case True
    then have "resp = writeErr 409 ''cannot delete the last session'' \<and> t' = t1"
      using assms rec by (auto simp: handleDeleteSession_def step_then_def)
    then show ?thesis using True same1 status(1) by simp
  next
    case False
    obtain k t2 where k: "on_sessions (Kill (docker_of te) (container_of te p) name) t1 = (k, t2)" by fastforce
    have kf: "k = fst (Kill (docker_of te) (container_of te p) name (pw_docker (tw_world t1)))"
      using k by (auto simp: on_sessions_def on_world_def on_docker_def split: prod.splits)
    have same2: "session_of q n t2 = session_of q n t" for q n
      using on_sessions_store [OF k] same1 by (simp add: session_of_def)
    show ?thesis
    proof (cases k)
      case (Some e)
      then have "(resp, t') = (writeInternalErr e, t2)"
        using assms rec False k by (simp add: handleDeleteSession_def step_then_def)
      then show ?thesis using False same2 status by simp
    next
      case None
      obtain r t3 where r: "remove_session te p name t2 = (r, t3)" by fastforce
      note gone = remove_session_effect [OF r]
      show ?thesis
      proof (cases r)
        case (Some e)
        then have "(resp, t') = (writeInternalErr e, t3)"
          using assms rec False k r None by (simp add: handleDeleteSession_def step_then_def)
        then show ?thesis using False same2 status gone Some by simp
      next
        case None
        then have "(resp, t') = (writeJSON 200 ok_true, add_event ''session.delete'' [(''id'', JStr p), (''name'', JStr name)] t3)"
          using assms rec False k r \<open>k = None\<close> by (simp add: handleDeleteSession_def step_then_def)
        then show ?thesis using False same2 gone None \<open>k = None\<close> kf by auto
      qed
    qed
  qed
qed

theorem delete_spares_others_witness:
  "rs_status (fst (handleDeleteSession (answering 0 [CHR ''a'', lf, CHR ''b'']) ''me/app'' ''a'' sample_tw)) = 200 \<and>
   session_of ''me/app'' ''b'' (snd (handleDeleteSession (answering 0 [CHR ''a'', lf, CHR ''b'']) ''me/app'' ''a'' sample_tw)) =
     session_of ''me/app'' ''b'' sample_tw"
proof -
  let ?te = "answering 0 [CHR ''a'', lf, CHR ''b'']"
  let ?t0 = "snd (ensureProject ?te ''me/app'' sample_tw)"
  obtain live t1 where l: "on_sessions (se_List (docker_of ?te) (container_of ?te ''me/app'')) ?t0 = (Inr live, t1)"
    by (auto simp: on_sessions_def on_world_def on_docker_def se_List_def dk_exec_def answering_def split: prod.splits)
  have "rs_status (fst (handleDeleteSession ?te ''me/app'' ''a'' sample_tw)) = 200" by code_simp
  then show ?thesis
    using delete_spares_others [OF sample_ensured_pair l prod.collapse [symmetric], of "''a''"] by simp
qed

section \<open>Renaming\<close>

text \<open>
  Renaming moves the record; when writing the new record fails and removing the old one does not, the
  session is left without any.
\<close>

lemma move_record_effect:
  assumes "session_of p old t = Some m" "old \<noteq> new"
    "on_world (sv_RecordSession (te_service te) (te_io te ''session'') p new (sm_harness m)) t = (r1, t1)"
    "remove_session te p old t1 = (r2, t2)"
  shows "session_of p new (move_record te p old new t) = (if r1 = None then Some m else session_of p new t)"
    "session_of p old (move_record te p old new t) = (if r2 = None then None else Some m)"
    "(p', n) \<noteq> (p, old) \<Longrightarrow> (p', n) \<noteq> (p, new) \<Longrightarrow> session_of p' n (move_record te p old new t) = session_of p' n t"
  using assms remove_session_effect [OF assms(4)] record_session_effect [OF assms(3)]
  by (auto simp: move_record_def record_session_def)

theorem failed_rename_forgets:
  assumes "session_of p old t = Some m" "session_of p new t = None" "old \<noteq> new"
    "on_world (sv_RecordSession (te_service te) (te_io te ''session'') p new (sm_harness m)) t = (Some e, t1)"
    "remove_session te p old t1 = (None, t2)"
  shows "session_of p old (move_record te p old new t) = None \<and> session_of p new (move_record te p old new t) = None"
  using move_record_effect [OF assms(1,3,4,5)] assms(2) by simp

text \<open>tmux is asked to kill the target by its bare name, which it also matches as a first part of a name.\<close>

lemma kill_by_bare_name:
  "ValidName name \<Longrightarrow> snd (Kill d c name h) = h @ [CExec c [''tmux'', ''kill-session'', ''-t'', name] False]"
  by (auto simp: Kill_def dk_exec_def split: sum.splits)

end
