(* ===== verification/Spec2Isabelle.thy ===== *)
theory Spec2Isabelle
  imports Agent Auth Codemap Events Frames Harness Obs Project Push Session Sidecar SyncService TermRoutes Threads
begin

text \<open>
  Verification of Pocket Coder's server (src/server/internal), a Go program that gives every
  repository a container with terminal sessions, AI helpers, work sync with a laptop and previews.

  \<^bold>\<open>The program and how the theories follow it.\<close> Each theory models the Go package it names, with a
  record per struct, a datatype per family of errors and a function per operation; a Go string is the
  list of its bytes, an instant is nanoseconds since Go's zero time (\<open>t.IsZero()\<close> is \<open>t = 0\<close>), \<open>int\<close>
  and \<open>int64\<close> are integers wrapped by \<open>wrap64\<close> where a sum can leave the range, and a handler's early
  returns are the \<open>Inl\<close> or \<open>Some e\<close> branches. A mutex makes an operation one step: histories are lists of
  steps, run by a fold.

  \<^item> \<open>Prelude\<close>: strings, runes, white space, numbers, paths. \<open>Files\<close>: the file operations and the
    write-then-rename protocol (the locale \<open>replaceable_store\<close> states what it needs from a store and is
    interpreted on the disk). Every write takes the outcome the system gives it.
  \<^item> \<open>State\<close> (state/state.go): the single JSON document and its transactions, with the locale of a
    transactional store interpreted on it. \<open>ProjectStore\<close> (project/project.go) and \<open>Harness\<close>
    (harness/harness.go): the records kept in the document. \<open>Auth\<close> (auth/auth.go): password hashes, the
    failure ledger, tokens. \<open>Events\<close> (events/events.go): the append-only log.
  \<^item> \<open>SyncManifest\<close>, \<open>SyncCodes\<close>, \<open>SyncService\<close> (sync): manifests and plans, one-time codes and sessions,
    transfers with backup and rollback. The container is a parameter with the laws of a file tree.
    \<open>Frames\<close> (sync/crypto.go): the encrypted stream they travel in; the cipher is a parameter.
  \<^item> \<open>Threads\<close> (threads/threads.go): chats as folders of turn files, approvals.
  \<^item> \<open>Agent\<close> (agent): the tool loop, calls with retries, transcripts and history. \<open>Shell\<close> (textutil,
    \<open>ExecCommand\<close>): quoting and commands. \<open>Codemap\<close> (codemap/codemap.go): tools over the repository,
    snippets, the turn on top of \<open>Agent\<close>.
  \<^item> \<open>Docker\<close> (docker): what the server asks of the engine. An operation takes the history of calls and
    returns it extended; the engine is a record of answers to histories, so that every outcome of every
    call is covered. The record \<open>client\<close> is the same one level up, for the packages that use the interface.
  \<^item> \<open>Repo\<close> and \<open>Project\<close> (project/repo.go, service.go, status.go): repository addresses, slugs, and the
    life of a project over the pair of document and Docker client. \<open>Session\<close> (session/session.go): the
    terminal sessions of a container.
  \<^item> \<open>Preview\<close> and \<open>Sidecar\<close> (preview): the manager of browser sidecars as a step relation whose steps are
    the critical sections, with its contract per project; the containers behind it and their janitor.
  \<^item> \<open>Http\<close> (httpapi/httpapi.go, origin.go): responses, body decoding and the cross-site guard. \<open>Push\<close>
    (push/push.go, httpapi/push.go): web push, its two files and its handlers. \<open>Obs\<close> (obs): the log of
    each project with its queue, flush loop, rotation and tails.
  \<^item> \<open>GitParse\<close> and \<open>GitOps\<close> (httpapi/gitdiff.go, gitops.go and beside them): what is read out of git's
    output, and the git routes as sequences of shell commands, with the shell's reading of them. \<open>Terminal\<close> and
    \<open>TermRoutes\<close> (httpapi/terminal.go): the frames of a terminal's output, the session routes.

  \<^bold>\<open>What the lemmas show.\<close> The first group of lemmas of a theory says what each operation does to what
  the others read (frame and result lemmas); then come invariants over runs of operations with every
  outcome of the environment; the properties are stated on top of these, each with a witness at a
  concrete input where it has hypotheses.

  \<^bold>\<open>Bounds.\<close> Loops over data are structural. \<open>gather_loop\<close> counts the steps left and \<open>retry_loop\<close> the
  attempts left, as the code's own counters do; \<open>hint_from\<close> and \<open>strip_front\<close> terminate by the length of
  the path and of the string. \<open>remove_loop\<close> and \<open>wait_loop\<close> wait for something outside and are partial
  functions into options; that they return is proved from a clock that advances with every wait
  (\<open>Remove_returns\<close>) and from a deadline of the context (\<open>start_settles\<close>). \<open>direct_loop\<close> counts the
  probes that fit before its deadline. No fuel is used, so nothing can run out.

  \<^bold>\<open>Outside the model.\<close> Third-party code is a parameter with the laws its documentation states: argon2, JWT,
  SHA-256, AES-GCM, HKDF, the random source, the Docker engine, the model provider. JSON decoding enters as decoded values
  or the decoder's error; floating point is replaced by rationals (stats) or is a parameter (the
  scaling of an oversized framebuffer). HTTP routing and request
  decoding, process start-up and the command line client are not modelled: they are wiring or I/O.
\<close>

section \<open>Properties that span components\<close>

text \<open>
  A service built from the store after a password change, as the server builds it at start: its
  email, hash and generation come from the document.
\<close>

definition service_of :: "store \<Rightarrow> string \<Rightarrow> auth_service" where
  "service_of s secret =
     new_service (user_email (doc_user (view s))) (user_hash (doc_user (view s)))
       (user_version (doc_user (view s))) secret"



end
